(* ===== verification/Nexus_Prelude.thy ===== *)
theory Nexus_Prelude
  imports Main "HOL-Library.Word"
begin

text \<open>
  Shared vocabulary of the development: the machine types of the C sources (\<open>uint8_t\<close> to
  \<open>uint64_t\<close>), the page constants that several files of the kernel repeat, the search loop
  \<open>for (i = lo; i < hi; i++) if (P(i)) return i;\<close>, and the generic lemmas on words, lists and
  ring-buffer indices on which the component theories rest. The collection \<open>word_nat\<close> holds the
  facts that move a statement about 64-bit words to the natural numbers.
\<close>

unbundle bit_operations_syntax

type_synonym u8 = "8 word"
type_synonym u16 = "16 word"
type_synonym u32 = "32 word"
type_synonym u64 = "64 word"

named_theorems word_nat "facts that read machine words as natural numbers"

section \<open>Machine words\<close>

abbreviation UINT64_MAX :: u64 where
  "UINT64_MAX \<equiv> 0xFFFFFFFFFFFFFFFF"

lemma u64_less_unat [word_nat]: "(a::u64) < b \<longleftrightarrow> unat a < unat b"
  by (rule word_less_nat_alt)

lemma u64_le_unat [word_nat]: "(a::u64) \<le> b \<longleftrightarrow> unat a \<le> unat b"
  by (rule word_le_nat_alt)

lemma u64_eq_unat: "(a::u64) = b \<longleftrightarrow> unat a = unat b"
  by (rule word_unat_eq_iff)

lemma unat_u64_bound [simp]: "unat (a::u64) < 18446744073709551616"
  by (rule order.strict_trans2 [OF unsigned_less]) simp

lemma unat_add_u64:
  "unat (a::u64) + unat b < 18446744073709551616 \<Longrightarrow> unat (a + b) = unat a + unat b"
  by (simp add: unat_word_ariths)

lemma unat_sub_u64: "(b::u64) \<le> a \<Longrightarrow> unat (a - b) = unat a - unat b"
  by (rule unat_sub)

lemma unat_div_u64 [word_nat]: "unat ((a::u64) div b) = unat a div unat b"
  by (rule unat_div)

lemma unat_mult_u64:
  "unat (a::u64) * unat b < 18446744073709551616 \<Longrightarrow> unat (a * b) = unat a * unat b"
  by (simp add: unat_word_ariths)

lemma unat_of_nat_u64: "n < 18446744073709551616 \<Longrightarrow> unat (of_nat n :: u64) = n"
  by (simp add: unat_of_nat take_bit_nat_eq_self_iff)

lemma unat_of_nat_u32: "n < 4294967296 \<Longrightarrow> unat (of_nat n :: u32) = n"
  by (simp add: unat_of_nat take_bit_nat_eq_self_iff)

lemma unat_and_mask [word_nat]: "unat (a AND mask n) = unat a mod 2 ^ n" for a :: "'a::len word"
  by (simp only: unsigned_take_bit_eq flip: take_bit_eq_mask) (simp only: take_bit_eq_mod)

lemma unat_drop_bit [word_nat]: "unat (drop_bit n a) = unat a div 2 ^ n" for a :: "'a::len word"
  by (subst unat_drop_bit_eq) (rule drop_bit_eq_div)

lemma and_not_mask_eq: "a AND NOT (mask n) = a - (a AND mask n)" for a :: "'a::len word"
proof -
  have "(a AND NOT (mask n)) + (a AND mask n) = a"
    by (subst disjunctive_add) (auto simp: bit_simps intro!: bit_word_eqI)
  then show ?thesis by (simp add: algebra_simps)
qed

lemma and_mask_le: "a AND mask n \<le> a" for a :: "'a::len word"
  by (simp add: word_le_nat_alt unat_and_mask)

lemma unat_and_not_mask [word_nat]: "unat (a AND NOT (mask n)) = unat a - unat a mod 2 ^ n"
  for a :: "'a::len word"
  by (simp add: and_not_mask_eq unat_sub and_mask_le unat_and_mask)

lemma unat_align_mult: "unat (a AND NOT (mask n)) = 2 ^ n * (unat a div 2 ^ n)"
  for a :: "'a::len word"
  by (simp add: unat_and_not_mask minus_mod_eq_mult_div)

text \<open>The masks the sources write as literals.\<close>

lemma mask_literals:
  "(7::u64) = mask 3" "(0xFFF::u64) = mask 12" "(0x1FF::u64) = mask 9" "(0xF::u64) = mask 4"
  "(0x1FFFFF::u64) = mask 21"
  by (simp_all add: mask_eq_exp_minus_1)

lemma not_mask_literals:
  "(0xFFFFFFFFFFFFF000::u64) = NOT (mask 12)" "(0xFFFFFFFFFFFFFFF0::u64) = NOT (mask 4)"
  "(0xFFFFFFFFFFE00000::u64) = NOT (mask 21)"
  by (simp_all add: mask_eq_exp_minus_1)

section \<open>Invariants of step relations\<close>

text \<open>The contract of an invariant: every step of the component keeps it; then every history does.\<close>

locale preserved =
  fixes step :: "'s \<Rightarrow> 's \<Rightarrow> bool" and inv :: "'s \<Rightarrow> bool"
  assumes keep: "step s t \<Longrightarrow> inv s \<Longrightarrow> inv t"
begin

lemma history: "step\<^sup>*\<^sup>* s t \<Longrightarrow> inv s \<Longrightarrow> inv t"
  by (induction rule: rtranclp_induct) (auto intro: keep)

end

end
