(* ===== verification/Nexus_Memory.thy ===== *)
theory Nexus_Memory
  imports Nexus_Prelude
begin

text \<open>
  Physical memory as the kernel sees it through its identity map: a byte for every 64-bit address,
  with the little-endian 32-bit and 64-bit accesses that compiled C code makes. Page tables, EFI
  memory descriptors and user pages are all read and written through these operations, so that
  aliasing between them is the aliasing of the machine. The lemmas say when a store is seen by a
  later load (cell by cell, for 8-byte aligned addresses) and what clearing a page does.
\<close>

type_synonym memory = "u64 \<Rightarrow> u8"

definition byte_of :: "nat \<Rightarrow> u64 \<Rightarrow> u8" where
  "byte_of k v = ucast (drop_bit (8 * k) v)"

definition load32 :: "memory \<Rightarrow> u64 \<Rightarrow> u32" where
  "load32 m a = ucast (m a) OR push_bit 8 (ucast (m (a + 1))) OR
     push_bit 16 (ucast (m (a + 2))) OR push_bit 24 (ucast (m (a + 3)))"

definition load64 :: "memory \<Rightarrow> u64 \<Rightarrow> u64" where
  "load64 m a =
     ucast (m a) OR push_bit 8 (ucast (m (a + 1))) OR
     push_bit 16 (ucast (m (a + 2))) OR push_bit 24 (ucast (m (a + 3))) OR
     push_bit 32 (ucast (m (a + 4))) OR push_bit 40 (ucast (m (a + 5))) OR
     push_bit 48 (ucast (m (a + 6))) OR push_bit 56 (ucast (m (a + 7)))"

definition store64 :: "memory \<Rightarrow> u64 \<Rightarrow> u64 \<Rightarrow> memory" where
  "store64 m a v = m(a := byte_of 0 v, a + 1 := byte_of 1 v, a + 2 := byte_of 2 v,
     a + 3 := byte_of 3 v, a + 4 := byte_of 4 v, a + 5 := byte_of 5 v,
     a + 6 := byte_of 6 v, a + 7 := byte_of 7 v)"

definition zero_bytes :: "memory \<Rightarrow> u64 \<Rightarrow> u64 \<Rightarrow> memory" where
  "zero_bytes m base n = (\<lambda>a. if a - base < n then 0 else m a)"

text \<open>An address of an 8-byte cell, the page an address lies in, and an address of a page.\<close>

definition aligned8 :: "u64 \<Rightarrow> bool" where
  "aligned8 a \<longleftrightarrow> a AND 7 = 0"

definition page_of :: "u64 \<Rightarrow> u64" where
  "page_of a = a AND NOT 0xFFF"

definition page_aligned :: "u64 \<Rightarrow> bool" where
  "page_aligned a \<longleftrightarrow> a AND 0xFFF = 0"

section \<open>Alignment in terms of natural numbers\<close>

lemma aligned8_unat: "aligned8 a \<longleftrightarrow> unat a mod 8 = 0"
  unfolding aligned8_def mask_literals word_unat_eq_iff unat_and_mask by simp

lemma page_aligned_unat: "page_aligned a \<longleftrightarrow> unat a mod 4096 = 0"
  unfolding page_aligned_def mask_literals word_unat_eq_iff unat_and_mask by simp

lemma unat_page_of: "unat (page_of a) = 4096 * (unat a div 4096)"
  unfolding page_of_def mask_literals unat_align_mult by simp

lemma page_of_eq_iff: "page_of a = page_of b \<longleftrightarrow> unat a div 4096 = unat b div 4096"
  by (simp add: word_unat_eq_iff unat_page_of)

lemma page_aligned_page_of [simp]: "page_aligned (page_of a)"
  by (simp add: page_aligned_unat unat_page_of)

lemma page_of_id: "page_aligned a \<Longrightarrow> page_of a = a"
  by (simp add: word_unat_eq_iff unat_page_of page_aligned_unat) (metis mod_0_imp_dvd dvd_mult_div_cancel)

lemma aligned8_unat_add:
  assumes "aligned8 a" and "unat k < 8"
  shows "unat (a + k) = unat a + unat k"
proof (rule unat_add_u64)
  from assms(1) obtain q where q: "unat a = 8 * q" by (auto simp: aligned8_unat)
  moreover have "unat a < 18446744073709551616" by simp
  ultimately have "q < 2305843009213693952" by simp
  with q assms(2) show "unat a + unat k < 18446744073709551616" by simp
qed

lemma aligned8_cells_disjoint:
  assumes "aligned8 a" and "aligned8 b" and "a \<noteq> b" and "unat j < 8" and "unat k < 8"
  shows "a + j \<noteq> b + k"
proof
  assume "a + j = b + k"
  then have "unat a + unat j = unat b + unat k"
    using assms by (metis aligned8_unat_add)
  moreover obtain p where "unat a = 8 * p" using assms(1) by (auto simp: aligned8_unat)
  moreover obtain q where "unat b = 8 * q" using assms(2) by (auto simp: aligned8_unat)
  ultimately have "p = q" using assms(4,5) by arith
  then show False
    using \<open>unat a = 8 * p\<close> \<open>unat b = 8 * q\<close> assms(3) by (simp add: word_unat_eq_iff)
qed

section \<open>Loads after stores\<close>

lemma bit_byte:
  "bit (push_bit (8 * k) (ucast (byte_of k v)) :: u64) n \<longleftrightarrow>
     8 * k \<le> n \<and> n < 8 * k + 8 \<and> n < 64 \<and> bit v n"
  by (auto simp: byte_of_def bit_simps)
lemma word64_bytes:
  "ucast (byte_of 0 v) OR push_bit 8 (ucast (byte_of 1 v)) OR
   push_bit 16 (ucast (byte_of 2 v)) OR push_bit 24 (ucast (byte_of 3 v)) OR
   push_bit 32 (ucast (byte_of 4 v)) OR push_bit 40 (ucast (byte_of 5 v)) OR
   push_bit 48 (ucast (byte_of 6 v)) OR push_bit 56 (ucast (byte_of 7 v)) = (v :: u64)"
proof (rule bit_word_eqI)
  fix n assume "n < LENGTH(64)"
  then consider "n < 8" | "8 \<le> n" "n < 16" | "16 \<le> n" "n < 24" | "24 \<le> n" "n < 32" | "32 \<le> n" "n < 40"
    | "40 \<le> n" "n < 48" | "48 \<le> n" "n < 56" | "56 \<le> n" "n < 64" by fastforce
  then show "bit (ucast (byte_of 0 v) OR push_bit 8 (ucast (byte_of 1 v)) OR
   push_bit 16 (ucast (byte_of 2 v)) OR push_bit 24 (ucast (byte_of 3 v)) OR
   push_bit 32 (ucast (byte_of 4 v)) OR push_bit 40 (ucast (byte_of 5 v)) OR
   push_bit 48 (ucast (byte_of 6 v)) OR push_bit 56 (ucast (byte_of 7 v)) :: u64) n = bit v n"
    using bit_byte [of 0 v n] bit_byte [of 1 v n] bit_byte [of 2 v n] bit_byte [of 3 v n]
      bit_byte [of 4 v n] bit_byte [of 5 v n] bit_byte [of 6 v n] bit_byte [of 7 v n]
    by cases (simp_all add: bit_or_iff)
qed

lemma load64_store64_same [simp]: "load64 (store64 m a v) a = v"
  by (simp add: load64_def store64_def word64_bytes [simplified])

lemma store64_other:
  assumes "aligned8 a" and "aligned8 b" and "a \<noteq> b" and "unat k < 8"
  shows "store64 m a v (b + k) = m (b + k)"
proof -
  have ne: "b + k \<noteq> a + j" if "unat j < 8" for j
    using aligned8_cells_disjoint [OF assms(2,1) _ assms(4) that] assms(3) by blast
  have "b + k \<noteq> a" using ne [of 0] by simp
  then show ?thesis
    unfolding store64_def
    using ne [of 1, simplified unat_1] ne [of 2] ne [of 3] ne [of 4] ne [of 5] ne [of 6] ne [of 7]
    by (auto simp: fun_upd_apply)
qed

lemma load64_store64_other:
  assumes "aligned8 a" and "aligned8 b" and "a \<noteq> b"
  shows "load64 (store64 m a v) b = load64 m b"
  using store64_other [OF assms, of 0] store64_other [OF assms, of 1]
    store64_other [OF assms, of 2] store64_other [OF assms, of 3]
    store64_other [OF assms, of 4] store64_other [OF assms, of 5]
    store64_other [OF assms, of 6] store64_other [OF assms, of 7]
  by (simp add: load64_def)

lemma load64_store64:
  "aligned8 a \<Longrightarrow> aligned8 b \<Longrightarrow> load64 (store64 m a v) b = (if a = b then v else load64 m b)"
  by (simp add: load64_store64_other)

lemma zero_bytes_page:
  assumes "page_aligned t"
  shows "zero_bytes m t 4096 a = (if page_of a = t then 0 else m a)"
proof -
  obtain q where q: "unat t = 4096 * q" using assms by (auto simp: page_aligned_unat)
  have "a - t < 4096 \<longleftrightarrow> unat a div 4096 = q"
  proof (cases "t \<le> a")
    case True
    then show ?thesis
      using q by (auto simp: word_less_nat_alt unat_sub word_le_nat_alt)
  next
    case False
    then have lt: "unat a < 4096 * q" using q by (simp add: word_le_nat_alt)
    have q4: "q < 4503599627370496" using q unat_u64_bound [of t] by simp
    have "unat (a - t) = unat a + 18446744073709551616 - unat t"
      using lt q by (simp add: unat_sub_if')
    moreover have "unat a + 18446744073709551616 - unat t \<ge> 4096"
      using q q4 by simp
    ultimately show ?thesis using lt by (simp add: word_less_nat_alt)
  qed
  also have "\<dots> \<longleftrightarrow> page_of a = t" using q by (simp add: word_unat_eq_iff unat_page_of)
  finally show ?thesis by (simp add: zero_bytes_def)
qed

lemma page_of_cell:
  assumes "aligned8 a" and "unat k < 8"
  shows "page_of (a + k) = page_of a"
proof -
  obtain q where "unat a = 8 * q" using assms(1) by (auto simp: aligned8_unat)
  then show ?thesis using assms by (simp add: page_of_eq_iff aligned8_unat_add)
qed

lemma load64_zero_page:
  assumes "page_aligned t" and "aligned8 a"
  shows "load64 (zero_bytes m t 4096) a = (if page_of a = t then 0 else load64 m a)"
  using assms page_of_cell [OF assms(2), of 1] page_of_cell [OF assms(2), of 2]
    page_of_cell [OF assms(2), of 3] page_of_cell [OF assms(2), of 4]
    page_of_cell [OF assms(2), of 5] page_of_cell [OF assms(2), of 6]
    page_of_cell [OF assms(2), of 7]
  by (simp add: load64_def zero_bytes_page)

section \<open>Tables of 512 entries\<close>

text \<open>The address of \<open>table[i]\<close> for a page-table page at physical address \<open>t\<close>.\<close>

definition entry_addr :: "u64 \<Rightarrow> u64 \<Rightarrow> u64" where
  "entry_addr t i = t + 8 * i"

lemma unat_entry_addr:
  assumes "page_aligned t" and "unat i < 512"
  shows "unat (entry_addr t i) = unat t + 8 * unat i"
proof -
  obtain q where q: "unat t = 4096 * q" using assms(1) by (auto simp: page_aligned_unat)
  then have "q < 4503599627370496" using unat_u64_bound [of t] by simp
  moreover have "unat (8 * i) = 8 * unat i" using assms(2) by (subst unat_mult_u64) simp_all
  ultimately show ?thesis
    unfolding entry_addr_def using assms(2) q by (subst unat_add_u64) simp_all
qed

lemma aligned8_entry [simp]:
  "page_aligned t \<Longrightarrow> unat i < 512 \<Longrightarrow> aligned8 (entry_addr t i)"
  by (auto simp: aligned8_unat unat_entry_addr page_aligned_unat)

lemma page_of_entry [simp]:
  "page_aligned t \<Longrightarrow> unat i < 512 \<Longrightarrow> page_of (entry_addr t i) = t"
  by (auto simp: word_unat_eq_iff unat_page_of unat_entry_addr page_aligned_unat)

lemma entry_addr_inj:
  assumes "page_aligned t" "page_aligned t'" "unat i < 512" "unat i' < 512"
  shows "entry_addr t i = entry_addr t' i' \<longleftrightarrow> t = t' \<and> i = i'"
proof
  assume eq: "entry_addr t i = entry_addr t' i'"
  then have "t = t'" using assms page_of_entry by metis
  with eq assms have "unat t' + 8 * unat i = unat t' + 8 * unat i'"
    by (metis unat_entry_addr)
  with \<open>t = t'\<close> show "t = t' \<and> i = i'" by (simp add: word_unat_eq_iff)
qed simp

end
