(* ===== verification/Pmm.thy ===== *)
theory Pmm
  imports Nexus_Memory
begin

text \<open>
  The physical page manager, \<open>kernel/mm/pmm.c\<close>: a bitmap with one bit per 4 KiB page of the first
  64 GiB (bit set = page in use), the counters kept beside it, the construction of the bitmap from
  the UEFI memory map, and allocation and release of single pages. The static array
  \<open>g_bitmap\<close> is a function from byte index to byte; \<open>free_set\<close> is its abstraction, the set of
  the page numbers that may be handed out.

  The locale \<open>page_allocator\<close> is the contract on which the heap and the page tables rely; it is
  interpreted on the operations of this file.
\<close>

section \<open>Boot contract\<close>

text \<open>\<open>include/nexus/boot_info.h\<close>: the structures the UEFI loader hands over.\<close>

record nexus_framebuffer =
  fb_base :: u64
  fb_size :: u64
  fb_width :: u32
  fb_height :: u32
  fb_pixels_per_scanline :: u32
  fb_pixel_format :: u32
  fb_mode_index :: u32
  fb_mode_count :: u32

record nexus_memory_map =
  map_base :: u64
  map_size :: u64
  descriptor_size :: u64
  descriptor_version :: u32

record nexus_efi_mmap_entry =
  efi_type :: u32
  physical_start :: u64
  virtual_start :: u64
  number_of_pages :: u64
  efi_attribute :: u64

text \<open>
  The fields of \<open>nexus_boot_info_t\<close> that the memory manager reads. The structure occupies 368 bytes
  (\<open>sizeof\<close>, with the natural alignment of its members).
\<close>

record nexus_boot_info =
  bi_fb :: nexus_framebuffer
  bi_mmap :: nexus_memory_map
  kernel_phys_base :: u64
  kernel_phys_end :: u64

definition sizeof_boot_info :: u64 where
  "sizeof_boot_info = 368"

definition NEXUS_MEM_CONVENTIONAL :: u32 where
  "NEXUS_MEM_CONVENTIONAL = 7"

definition sizeof_efi_mmap_entry :: u64 where
  "sizeof_efi_mmap_entry = 40"

text \<open>The descriptor at an address, field by field at its C offsets, and the array walked with the
  stride the firmware reports.\<close>

definition read_efi_entry :: "memory \<Rightarrow> u64 \<Rightarrow> nexus_efi_mmap_entry" where
  "read_efi_entry m a = \<lparr>efi_type = load32 m a, physical_start = load64 m (a + 8),
     virtual_start = load64 m (a + 16), number_of_pages = load64 m (a + 24),
     efi_attribute = load64 m (a + 32)\<rparr>"

definition efi_entries :: "memory \<Rightarrow> nexus_memory_map \<Rightarrow> nexus_efi_mmap_entry list" where
  "efi_entries m mm =
     map (\<lambda>i. read_efi_entry m (map_base mm + of_nat i * descriptor_size mm))
       [0..<unat (map_size mm div descriptor_size mm)]"

section \<open>State and bitmap\<close>

record pmm =
  g_bitmap :: "nat \<Rightarrow> u8"
  g_total_pages :: u64
  g_free_pages :: u64
  g_max_physical_address :: u64
  pmm_ready :: bool

definition PAGE_SIZE :: u64 where
  "PAGE_SIZE = 4096"

definition PMM_MAX_PHYS :: u64 where
  "PMM_MAX_PHYS = 64 * 1024 * 1024 * 1024"

definition PMM_MAX_PAGES :: u64 where
  "PMM_MAX_PAGES = PMM_MAX_PHYS div PAGE_SIZE"

definition PMM_BITMAP_BYTES :: u64 where
  "PMM_BITMAP_BYTES = (PMM_MAX_PAGES + 7) div 8"

definition bitmap_set :: "u64 \<Rightarrow> pmm \<Rightarrow> pmm" where
  "bitmap_set page s =
     (let i = unat (drop_bit 3 page)
      in s\<lparr>g_bitmap := (g_bitmap s)(i := g_bitmap s i OR push_bit (unat (page AND 7)) 1)\<rparr>)"

definition bitmap_clear :: "u64 \<Rightarrow> pmm \<Rightarrow> pmm" where
  "bitmap_clear page s =
     (let i = unat (drop_bit 3 page)
      in s\<lparr>g_bitmap := (g_bitmap s)(i := g_bitmap s i AND NOT (push_bit (unat (page AND 7)) 1))\<rparr>)"

definition bitmap_test :: "u64 \<Rightarrow> pmm \<Rightarrow> bool" where
  "bitmap_test page s \<longleftrightarrow>
     g_bitmap s (unat (drop_bit 3 page)) AND push_bit (unat (page AND 7)) 1 \<noteq> 0"

definition align_down :: "u64 \<Rightarrow> u64" where
  "align_down v = v AND NOT (PAGE_SIZE - 1)"

definition align_up :: "u64 \<Rightarrow> u64" where
  "align_up v =
     (if v > UINT64_MAX - (PAGE_SIZE - 1) then UINT64_MAX AND NOT (PAGE_SIZE - 1)
      else (v + PAGE_SIZE - 1) AND NOT (PAGE_SIZE - 1))"

lemma pmm_consts [simp]:
  "PAGE_SIZE = 0x1000" "PMM_MAX_PHYS = 0x1000000000" "PMM_MAX_PAGES = 0x1000000"
  "PMM_BITMAP_BYTES = 0x200000"
  by (simp_all add: PAGE_SIZE_def PMM_MAX_PHYS_def PMM_MAX_PAGES_def PMM_BITMAP_BYTES_def)

section \<open>Ranges\<close>

definition reserve_page :: "u64 \<Rightarrow> pmm \<Rightarrow> pmm" where
  "reserve_page page s =
     (if \<not> bitmap_test page s then
        let s' = bitmap_set page s
        in if g_free_pages s' \<noteq> 0 then s'\<lparr>g_free_pages := g_free_pages s' - 1\<rparr> else s'
      else s)"

definition release_page :: "u64 \<Rightarrow> pmm \<Rightarrow> pmm" where
  "release_page page s =
     (if bitmap_test page s then
        let s' = bitmap_clear page s in s'\<lparr>g_free_pages := g_free_pages s' + 1\<rparr>
      else s)"

text \<open>
  \<open>for (addr = start; addr < end; addr += PAGE_SIZE)\<close> with the \<open>break\<close> at \<open>PMM_MAX_PAGES\<close>. The
  address cannot wrap, because the loop leaves at 64 GiB: that is the termination argument.
\<close>

function page_loop :: "(u64 \<Rightarrow> pmm \<Rightarrow> pmm) \<Rightarrow> u64 \<Rightarrow> u64 \<Rightarrow> pmm \<Rightarrow> pmm" where
  "page_loop f addr e s =
     (if addr < e then
        let page = addr div PAGE_SIZE
        in if page \<ge> PMM_MAX_PAGES then s else page_loop f (addr + PAGE_SIZE) e (f page s)
      else s)"
  by pat_completeness auto
termination
proof (relation "measure (\<lambda>(f, addr, e, s). 18446744073709551616 - unat addr)", goal_cases)
  case (2 f addr e s page)
  then have "unat addr div 4096 < 16777216"
    by (simp add: word_le_nat_alt unat_div_u64)
  then have "unat addr < 68719476736" by simp
  then show ?case by (simp add: unat_add_u64)
qed simp

declare page_loop.simps [simp del]

definition reserve_range :: "u64 \<Rightarrow> u64 \<Rightarrow> pmm \<Rightarrow> pmm" where
  "reserve_range start e s =
     (if e \<le> start \<or> g_max_physical_address s = 0 then s
      else
        let start = align_down start; e = align_up e
        in if start \<ge> g_max_physical_address s then s
           else
             let e = (if e > g_max_physical_address s then g_max_physical_address s else e)
             in page_loop reserve_page start e s)"

definition release_range :: "u64 \<Rightarrow> u64 \<Rightarrow> pmm \<Rightarrow> pmm" where
  "release_range start e s =
     (if e \<le> start \<or> g_max_physical_address s = 0 then s
      else
        let start = align_up start; e = align_down e
        in if start \<ge> g_max_physical_address s then s
           else
             let e = (if e > g_max_physical_address s then g_max_physical_address s else e)
             in page_loop release_page start e s)"

definition efi_bytes :: "nexus_efi_mmap_entry \<Rightarrow> u64" where
  "efi_bytes e = (if number_of_pages e > UINT64_MAX div PAGE_SIZE then UINT64_MAX
                  else number_of_pages e * PAGE_SIZE)"

definition consider_max :: "nexus_efi_mmap_entry \<Rightarrow> pmm \<Rightarrow> pmm" where
  "consider_max e s =
     (if number_of_pages e = 0 then s
      else if physical_start e \<ge> PMM_MAX_PHYS then s
      else
        let end1 = physical_start e + efi_bytes e;
            end2 = (if end1 < physical_start e \<or> end1 > PMM_MAX_PHYS then PMM_MAX_PHYS else end1)
        in if end2 > g_max_physical_address s then s\<lparr>g_max_physical_address := end2\<rparr> else s)"

definition release_conventional :: "nexus_efi_mmap_entry \<Rightarrow> pmm \<Rightarrow> pmm" where
  "release_conventional e s =
     (if efi_type e \<noteq> NEXUS_MEM_CONVENTIONAL then s
      else
        let end1 = physical_start e + efi_bytes e;
            end2 = (if end1 < physical_start e then UINT64_MAX else end1)
        in release_range (physical_start e) end2 s)"

definition recount_free :: "pmm \<Rightarrow> pmm" where
  "recount_free s = fold (\<lambda>page s. if \<not> bitmap_test (of_nat page) s
        then s\<lparr>g_free_pages := g_free_pages s + 1\<rparr> else s)
     [0..<unat (g_total_pages s)] (s\<lparr>g_free_pages := 0\<rparr>)"

section \<open>Operations\<close>

text \<open>
  The parts of \<open>pmm_init\<close> in order: everything used and no page tracked; the first pass over the
  memory map; the ranges owned by the firmware, the kernel and the loader.
\<close>

definition pmm_reset :: "pmm \<Rightarrow> pmm" where
  "pmm_reset s = s\<lparr>pmm_ready := False, g_total_pages := 0, g_free_pages := 0,
     g_max_physical_address := 0,
     g_bitmap := (\<lambda>i. if i < unat PMM_BITMAP_BYTES then 0xFF else g_bitmap s i)\<rparr>"

definition pmm_scan :: "nexus_efi_mmap_entry list \<Rightarrow> pmm \<Rightarrow> pmm" where
  "pmm_scan es s =
     (let s1 = fold consider_max es s; total = g_max_physical_address s1 div PAGE_SIZE
      in s1\<lparr>g_total_pages := (if total > PMM_MAX_PAGES then PMM_MAX_PAGES else total)\<rparr>)"

definition reserve_boot :: "u64 \<Rightarrow> nexus_boot_info \<Rightarrow> pmm \<Rightarrow> pmm" where
  "reserve_boot bi_addr b s3 =
     (let s4 = reserve_range 0 0x200000 s3;
          s5 = (if kernel_phys_end b > kernel_phys_base b
                then reserve_range (kernel_phys_base b) (kernel_phys_end b) s4 else s4);
          s6 = reserve_range bi_addr (bi_addr + sizeof_boot_info) s5;
          s7 = reserve_range (map_base (bi_mmap b)) (map_base (bi_mmap b) + map_size (bi_mmap b)) s6
      in if fb_base (bi_fb b) \<noteq> 0 \<and> fb_size (bi_fb b) \<noteq> 0
         then reserve_range (fb_base (bi_fb b)) (fb_base (bi_fb b) + fb_size (bi_fb b)) s7
         else s7)"

text \<open>
  \<open>bi\<close> is the boot-info pointer: \<open>None\<close> for NULL, otherwise its address and the structure there.
\<close>

definition pmm_init :: "memory \<Rightarrow> (u64 \<times> nexus_boot_info) option \<Rightarrow> pmm \<Rightarrow> pmm" where
  "pmm_init m bi s =
     (case bi of
        None \<Rightarrow> pmm_reset s
      | Some (bi_addr, b) \<Rightarrow>
          (let mm = bi_mmap b
           in if map_base mm = 0 \<or> map_size mm = 0 \<or> descriptor_size mm < sizeof_efi_mmap_entry
              then pmm_reset s
              else
                let es = efi_entries m mm;
                    s2 = pmm_scan es (pmm_reset s);
                    s3 = fold release_conventional es s2;
                    s8 = reserve_boot bi_addr b s3
                in (recount_free s8)\<lparr>pmm_ready := True\<rparr>))"

definition pmm_alloc_page :: "pmm \<Rightarrow> u64 \<times> pmm" where
  "pmm_alloc_page s =
     (if \<not> pmm_ready s then (0, s)
      else case find (\<lambda>page. \<not> bitmap_test (of_nat page) s) [0..<unat (g_total_pages s)] of
             None \<Rightarrow> (0, s)
           | Some page \<Rightarrow>
               (let s' = bitmap_set (of_nat page) s
                in (of_nat page * PAGE_SIZE,
                    if g_free_pages s' \<noteq> 0 then s'\<lparr>g_free_pages := g_free_pages s' - 1\<rparr> else s')))"

definition pmm_free_page :: "u64 \<Rightarrow> pmm \<Rightarrow> pmm" where
  "pmm_free_page a s =
     (if \<not> pmm_ready s \<or> a AND (PAGE_SIZE - 1) \<noteq> 0 then s
      else
        let page = a div PAGE_SIZE
        in if page \<ge> g_total_pages s \<or> page \<ge> PMM_MAX_PAGES then s
           else if bitmap_test page s then
             let s' = bitmap_clear page s in s'\<lparr>g_free_pages := g_free_pages s' + 1\<rparr>
           else s)"

definition pmm_used_pages :: "pmm \<Rightarrow> u64" where
  "pmm_used_pages s = g_total_pages s - g_free_pages s"

definition pmm_is_page_free :: "u64 \<Rightarrow> pmm \<Rightarrow> bool" where
  "pmm_is_page_free a s =
     (if \<not> pmm_ready s \<or> a AND (PAGE_SIZE - 1) \<noteq> 0 then False
      else
        let page = a div PAGE_SIZE
        in if page \<ge> g_total_pages s \<or> page \<ge> PMM_MAX_PAGES then False
           else \<not> bitmap_test page s)"

section \<open>The bitmap as a set of pages\<close>

definition page_used :: "pmm \<Rightarrow> nat \<Rightarrow> bool" where
  "page_used s p \<longleftrightarrow> bit (g_bitmap s (p div 8)) (p mod 8)"

definition free_set :: "pmm \<Rightarrow> nat set" where
  "free_set s = {p. p < unat (g_total_pages s) \<and> \<not> page_used s p}"

lemma finite_free_set [simp]: "finite (free_set s)"
  by (rule finite_subset [of _ "{..<unat (g_total_pages s)}"]) (auto simp: free_set_def)

lemma unat_page_bits:
  "unat (drop_bit 3 (page::u64)) = unat page div 8" "unat (page AND 7) = unat page mod 8"
  by (simp_all only: mask_literals word_nat) simp_all

lemma bitmap_test_iff: "bitmap_test page s \<longleftrightarrow> page_used s (unat page)"
proof -
  have "(x :: u8) AND push_bit k 1 \<noteq> 0 \<longleftrightarrow> bit x k" if "k < 8" for x k
    using that by (auto simp: bit_eq_iff [where 'a = "8 word"] bit_simps)
  then show ?thesis by (simp add: bitmap_test_def page_used_def unat_page_bits)
qed

lemma eq_div_mod_8: "p = q \<longleftrightarrow> p div 8 = q div 8 \<and> p mod 8 = q mod 8" for p q :: nat
  by (metis div_mult_mod_eq)

lemma bit_set_u8: "k < 8 \<Longrightarrow> j < 8 \<Longrightarrow> bit (x OR push_bit k 1 :: u8) j \<longleftrightarrow> bit x j \<or> j = k"
  by (auto simp: bit_simps)

lemma bit_clear_u8:
  "k < 8 \<Longrightarrow> j < 8 \<Longrightarrow> bit (x AND NOT (push_bit k 1) :: u8) j \<longleftrightarrow> bit x j \<and> j \<noteq> k"
  by (auto simp: bit_simps)

lemma page_used_bitmap_set:
  "page_used (bitmap_set page s) p \<longleftrightarrow> page_used s p \<or> p = unat page"
  unfolding eq_div_mod_8 [of p]
  by (simp add: page_used_def bitmap_set_def unat_page_bits Let_def bit_set_u8 [simplified])

lemma page_used_bitmap_clear:
  "page_used (bitmap_clear page s) p \<longleftrightarrow> page_used s p \<and> p \<noteq> unat page"
  unfolding eq_div_mod_8 [of p]
  by (simp add: page_used_def bitmap_clear_def unat_page_bits Let_def bit_clear_u8 [simplified])

lemma bitmap_frame [simp]:
  "g_total_pages (bitmap_set page s) = g_total_pages s"
  "g_free_pages (bitmap_set page s) = g_free_pages s"
  "g_max_physical_address (bitmap_set page s) = g_max_physical_address s"
  "pmm_ready (bitmap_set page s) = pmm_ready s"
  "g_total_pages (bitmap_clear page s) = g_total_pages s"
  "g_free_pages (bitmap_clear page s) = g_free_pages s"
  "g_max_physical_address (bitmap_clear page s) = g_max_physical_address s"
  "pmm_ready (bitmap_clear page s) = pmm_ready s"
  by (simp_all add: bitmap_set_def bitmap_clear_def Let_def)

lemma page_used_update [simp]:
  "page_used (s\<lparr>g_free_pages := n\<rparr>) p = page_used s p"
  "page_used (s\<lparr>g_total_pages := n\<rparr>) p = page_used s p"
  "page_used (s\<lparr>g_max_physical_address := n\<rparr>) p = page_used s p"
  "page_used (s\<lparr>pmm_ready := b\<rparr>) p = page_used s p"
  by (simp_all add: page_used_def)

lemma free_set_update [simp]:
  "free_set (s\<lparr>g_free_pages := n\<rparr>) = free_set s" "free_set (s\<lparr>pmm_ready := b\<rparr>) = free_set s"
  by (simp_all add: free_set_def)

lemma reserve_page_simps [simp]:
  "page_used (reserve_page page s) p \<longleftrightarrow> page_used s p \<or> p = unat page"
  "g_total_pages (reserve_page page s) = g_total_pages s"
  "g_max_physical_address (reserve_page page s) = g_max_physical_address s"
  "pmm_ready (reserve_page page s) = pmm_ready s"
  by (auto simp: reserve_page_def Let_def bitmap_test_iff page_used_bitmap_set)

lemma release_page_simps [simp]:
  "page_used (release_page page s) p \<longleftrightarrow> page_used s p \<and> p \<noteq> unat page"
  "g_total_pages (release_page page s) = g_total_pages s"
  "g_max_physical_address (release_page page s) = g_max_physical_address s"
  "pmm_ready (release_page page s) = pmm_ready s"
  by (auto simp: release_page_def Let_def bitmap_test_iff page_used_bitmap_clear)

section \<open>What the range loops do\<close>

definition in_range :: "nat \<Rightarrow> u64 \<Rightarrow> u64 \<Rightarrow> bool" where
  "in_range p start e \<longleftrightarrow> unat start \<le> 4096 * p \<and> 4096 * p < unat e \<and> p < 16777216"

lemma page_loop_frame:
  assumes "\<And>page s. g (f page s) = g s"
  shows "g (page_loop f addr e s) = g s"
  using assms
proof (induction f addr e s rule: page_loop.induct)
  case (1 f addr e s)
  then show ?case by (subst page_loop.simps) (simp add: Let_def)
qed

lemma page_loop_step:
  assumes "page_aligned addr" "addr < e" "\<not> addr div PAGE_SIZE \<ge> PMM_MAX_PAGES"
  shows "page_aligned (addr + PAGE_SIZE)" "unat (addr + PAGE_SIZE) = unat addr + 4096"
    "unat addr = 4096 * unat (addr div PAGE_SIZE)" "unat (addr div PAGE_SIZE) < 16777216"
proof -
  obtain q where q: "unat addr = 4096 * q" using assms(1) by (auto simp: page_aligned_unat)
  from assms(3) have "q < 16777216" using q by (simp add: word_le_nat_alt unat_div_u64)
  with q show "unat (addr + PAGE_SIZE) = unat addr + 4096" by (simp add: unat_add_u64)
  with q show "page_aligned (addr + PAGE_SIZE)" by (simp add: page_aligned_unat)
  show "unat addr = 4096 * unat (addr div PAGE_SIZE)" "unat (addr div PAGE_SIZE) < 16777216"
    using q \<open>q < 16777216\<close> by (simp_all add: unat_div_u64)
qed

lemma in_range_step:
  assumes "page_aligned addr" "addr < e" "\<not> addr div PAGE_SIZE \<ge> PMM_MAX_PAGES"
  shows "in_range p addr e \<longleftrightarrow> p = unat (addr div PAGE_SIZE) \<or> in_range p (addr + PAGE_SIZE) e"
  using page_loop_step [OF assms] assms(2)
  by (auto simp: in_range_def word_less_nat_alt simp del: pmm_consts)

lemma in_range_empty:
  assumes "page_aligned addr" and "\<not> addr < e \<or> addr div PAGE_SIZE \<ge> PMM_MAX_PAGES"
  shows "\<not> in_range p addr e"
  using assms by (auto simp: in_range_def word_less_nat_alt word_le_nat_alt unat_div_u64)

lemma page_used_reserve_loop:
  "page_aligned addr \<Longrightarrow>
   page_used (page_loop reserve_page addr e s) p \<longleftrightarrow> page_used s p \<or> in_range p addr e"
proof (induction reserve_page addr e s rule: page_loop.induct)
  case (1 addr e s)
  show ?case
  proof (cases "addr < e \<and> \<not> addr div PAGE_SIZE \<ge> PMM_MAX_PAGES")
    case True
    with 1 page_loop_step(1) [of addr e] in_range_step [of addr e p] show ?thesis
      by (subst page_loop.simps) (auto simp: Let_def simp del: pmm_consts)
  next
    case False
    with in_range_empty [of addr e p] 1 show ?thesis
      by (subst page_loop.simps) (auto simp: Let_def simp del: pmm_consts)
  qed
qed

lemma page_used_release_loop:
  "page_aligned addr \<Longrightarrow>
   page_used (page_loop release_page addr e s) p \<longleftrightarrow> page_used s p \<and> \<not> in_range p addr e"
proof (induction release_page addr e s rule: page_loop.induct)
  case (1 addr e s)
  show ?case
  proof (cases "addr < e \<and> \<not> addr div PAGE_SIZE \<ge> PMM_MAX_PAGES")
    case True
    with 1 page_loop_step(1) [of addr e] in_range_step [of addr e p] show ?thesis
      by (subst page_loop.simps) (auto simp: Let_def simp del: pmm_consts)
  next
    case False
    with in_range_empty [of addr e p] 1 show ?thesis
      by (subst page_loop.simps) (auto simp: Let_def simp del: pmm_consts)
  qed
qed

lemma page_size_mask: "NOT (PAGE_SIZE - 1) = NOT (mask 12)" "PAGE_SIZE - 1 = mask 12"
  by (simp_all add: mask_eq_exp_minus_1)

lemma unat_align_down: "unat (align_down v) = 4096 * (unat v div 4096)"
  unfolding align_down_def page_size_mask unat_align_mult by simp

lemma page_aligned_align [simp]: "page_aligned (align_down v)" "page_aligned (align_up v)"
  unfolding align_down_def align_up_def page_size_mask page_aligned_unat
  by (auto simp only: unat_align_mult split: if_splits) simp_all

lemma unat_align_up:
  "unat (align_up v) = (if unat v > 18446744073709547520 then 18446744073709547520
     else 4096 * ((unat v + 4095) div 4096))"
proof (cases "unat v > 18446744073709547520")
  case True
  then show ?thesis by (simp add: align_up_def word_less_nat_alt)
next
  case False
  then have "\<not> v > UINT64_MAX - (PAGE_SIZE - 1)" by (simp add: word_less_nat_alt)
  moreover have "unat (v + PAGE_SIZE - 1) = unat v + 4095"
    using False by (simp add: unat_add_u64)
  ultimately show ?thesis
    using False
    by (simp only: align_up_def if_False page_size_mask(1) unat_align_mult) simp
qed

lemma reserve_range_frame [simp]:
  "g_total_pages (reserve_range a b s) = g_total_pages s"
  "g_max_physical_address (reserve_range a b s) = g_max_physical_address s"
  "pmm_ready (reserve_range a b s) = pmm_ready s"
  by (simp_all add: reserve_range_def Let_def page_loop_frame)

lemma release_range_frame [simp]:
  "g_total_pages (release_range a b s) = g_total_pages s"
  "g_max_physical_address (release_range a b s) = g_max_physical_address s"
  "pmm_ready (release_range a b s) = pmm_ready s"
  by (simp_all add: release_range_def Let_def page_loop_frame)

text \<open>Reserving a range marks exactly the pages that overlap it.\<close>

definition touches :: "nat \<Rightarrow> u64 \<Rightarrow> u64 \<Rightarrow> bool" where
  "touches p a b \<longleftrightarrow> a < b \<and> unat a < 4096 * (p + 1) \<and> 4096 * p < unat b"

lemma page_used_reserve_range:
  assumes "4096 * p < unat (g_max_physical_address s)" "p < 16777216"
  shows "page_used (reserve_range a b s) p \<longleftrightarrow> page_used s p \<or> touches p a b"
proof (cases "b \<le> a")
  case True
  then show ?thesis by (simp add: reserve_range_def touches_def leD)
next
  case False
  have "g_max_physical_address s \<noteq> 0" using assms(1) by auto
  moreover have "unat (align_down a) \<le> 4096 * p \<longleftrightarrow> unat a < 4096 * (p + 1)"
    by (simp add: unat_align_down) linarith
  moreover have "4096 * p < unat (align_up b) \<longleftrightarrow> 4096 * p < unat b"
    using assms(2) by (simp add: unat_align_up) linarith
  ultimately show ?thesis
    using False assms
    by (auto simp: reserve_range_def Let_def page_used_reserve_loop in_range_def touches_def
        word_less_nat_alt word_le_nat_alt)
qed

text \<open>Releasing a range frees exactly the pages that lie wholly inside it.\<close>

definition inside :: "nat \<Rightarrow> u64 \<Rightarrow> u64 \<Rightarrow> bool" where
  "inside p a b \<longleftrightarrow> unat a \<le> 4096 * p \<and> 4096 * (p + 1) \<le> unat b"

lemma page_used_release_range:
  assumes "4096 * p < unat (g_max_physical_address s)" "p < 16777216"
  shows "page_used (release_range a b s) p \<longleftrightarrow> page_used s p \<and> \<not> inside p a b"
proof (cases "b \<le> a")
  case True
  then show ?thesis by (simp add: release_range_def inside_def word_le_nat_alt)
next
  case False
  have "g_max_physical_address s \<noteq> 0" using assms(1) by auto
  moreover have "unat (align_up a) \<le> 4096 * p \<longleftrightarrow> unat a \<le> 4096 * p"
    using assms(2) by (simp add: unat_align_up) linarith
  moreover have "4096 * p < unat (align_down b) \<longleftrightarrow> 4096 * (p + 1) \<le> unat b"
    by (simp add: unat_align_down) linarith
  ultimately show ?thesis
    using False assms
    by (auto simp: release_range_def Let_def page_used_release_loop in_range_def inside_def
        word_less_nat_alt word_le_nat_alt)
qed

section \<open>Accounting and safety\<close>

text \<open>
  The invariant between calls: the manager is ready, the tracked range fits the bitmap, page 0 is
  never free (so that the address 0 can mean failure) and the counter is the number of free pages.
\<close>

definition pmm_inv :: "pmm \<Rightarrow> bool" where
  "pmm_inv s \<longleftrightarrow> pmm_ready s \<and> unat (g_total_pages s) \<le> 16777216 \<and> 0 \<notin> free_set s \<and>
     unat (g_free_pages s) = card (free_set s)"

lemma card_free_set_bound: "card (free_set s) \<le> unat (g_total_pages s)"
proof -
  have "card (free_set s) \<le> card {..<unat (g_total_pages s)}"
    by (rule card_mono) (auto simp: free_set_def)
  then show ?thesis by simp
qed

lemma recount_free_loop:
  fixes s :: pmm
  assumes "n < 4294967296" "unat (g_free_pages s) + n < 4294967296"
  defines "t \<equiv> fold (\<lambda>page s. if \<not> bitmap_test (of_nat page) s
        then s\<lparr>g_free_pages := g_free_pages s + 1\<rparr> else s) [0..<n] s"
  shows "g_bitmap t = g_bitmap s \<and> g_total_pages t = g_total_pages s \<and>
    g_max_physical_address t = g_max_physical_address s \<and> pmm_ready t = pmm_ready s \<and>
    unat (g_free_pages t) = unat (g_free_pages s) + card {p. p < n \<and> \<not> page_used s p}"
  using assms(1,2) unfolding t_def
proof (induction n)
  case 0
  then show ?case by simp
next
  case (Suc n)
  let ?t = "fold (\<lambda>page s. if \<not> bitmap_test (of_nat page) s
        then s\<lparr>g_free_pages := g_free_pages s + 1\<rparr> else s) [0..<n] s"
  from Suc have IH: "g_bitmap ?t = g_bitmap s" "g_total_pages ?t = g_total_pages s"
    "g_max_physical_address ?t = g_max_physical_address s" "pmm_ready ?t = pmm_ready s"
    "unat (g_free_pages ?t) = unat (g_free_pages s) + card {p. p < n \<and> \<not> page_used s p}"
    by auto
  have used: "page_used ?t n = page_used s n" by (simp add: page_used_def IH(1))
  have "card {p. p < n \<and> \<not> page_used s p} \<le> card {..<n}" by (rule card_mono) auto
  then have c: "card {p. p < n \<and> \<not> page_used s p} \<le> n" by simp
  have split: "{p. p < Suc n \<and> \<not> page_used s p} =
      (if page_used s n then {p. p < n \<and> \<not> page_used s p}
       else insert n {p. p < n \<and> \<not> page_used s p})"
    by (auto simp: less_Suc_eq)
  have n: "unat (of_nat n :: u64) = n" using Suc.prems by (intro unat_of_nat_u64) simp
  show ?case
  proof (cases "page_used s n")
    case True
    then show ?thesis using IH used split n by (simp add: bitmap_test_iff)
  next
    case False
    have "unat (g_free_pages ?t + 1) = unat (g_free_pages ?t) + 1"
      using IH(5) c Suc.prems by (simp add: unat_add_u64)
    then show ?thesis using False IH used split n by (simp add: bitmap_test_iff)
  qed
qed

lemma recount_free_spec:
  assumes "unat (g_total_pages s) \<le> 16777216"
  shows "free_set (recount_free s) = free_set s" "g_total_pages (recount_free s) = g_total_pages s"
    "unat (g_free_pages (recount_free s)) = card (free_set s)"
  using recount_free_loop [of "unat (g_total_pages s)" "s\<lparr>g_free_pages := 0\<rparr>"] assms
  by (simp_all add: recount_free_def free_set_def page_used_def)

lemma consider_max_fold:
  "unat (g_max_physical_address s) \<le> 68719476736 \<Longrightarrow>
   unat (g_max_physical_address (fold consider_max es s)) \<le> 68719476736"
proof (induction es arbitrary: s)
  case (Cons e es)
  have "unat (g_max_physical_address (consider_max e s)) \<le> 68719476736"
    using Cons.prems
    by (auto simp: consider_max_def Let_def word_less_nat_alt split: if_splits)
  then show ?case using Cons.IH by simp
qed simp

lemma consider_max_bitmap: "g_bitmap (fold consider_max es s) = g_bitmap s"
proof (induction es arbitrary: s)
  case (Cons e es)
  have "g_bitmap (consider_max e s) = g_bitmap s" by (simp add: consider_max_def Let_def)
  then show ?case using Cons.IH by simp
qed simp

definition efi_end :: "nexus_efi_mmap_entry \<Rightarrow> u64" where
  "efi_end e = (let end1 = physical_start e + efi_bytes e
                in if end1 < physical_start e then UINT64_MAX else end1)"

lemma mod_wrap: "x < n \<Longrightarrow> y < n \<Longrightarrow> n \<le> x + y \<Longrightarrow> (x + y) mod n = x + y - n" for x y n :: nat
  by (simp add: le_mod_geq)

lemma unat_add_wrap_u64:
  "18446744073709551616 \<le> unat x + unat y \<Longrightarrow> unat (x + y) = unat x + unat y - 18446744073709551616"
  for x y :: u64
  using mod_wrap [of "unat x" 18446744073709551616 "unat y"] by (simp add: unat_word_ariths)

lemma unat_efi_end:
  "unat (efi_end e) = min 18446744073709551615 (unat (physical_start e) + 4096 * unat (number_of_pages e))"
  (is "_ = min _ (?a + ?n)")
proof -
  have b: "unat (efi_bytes e) = min 18446744073709551615 ?n"
  proof (cases "number_of_pages e > UINT64_MAX div PAGE_SIZE")
    case True
    then have "unat (number_of_pages e) > 4503599627370495"
      by (simp add: word_less_nat_alt unat_div_u64)
    with True show ?thesis by (simp add: efi_bytes_def)
  next
    case False
    then have "unat (number_of_pages e) \<le> 4503599627370495"
      by (simp add: word_less_nat_alt unat_div_u64)
    then have "unat (number_of_pages e * 4096) = unat (number_of_pages e) * 4096"
      by (simp add: unat_mult_u64)
    with False show ?thesis using unat_u64_bound [of "number_of_pages e * 4096"] by (simp add: efi_bytes_def)
  qed
  show ?thesis
  proof (cases "?a + unat (efi_bytes e) < 18446744073709551616")
    case True
    then have "unat (physical_start e + efi_bytes e) = ?a + unat (efi_bytes e)"
      by (rule unat_add_u64)
    with b True show ?thesis by (auto simp: efi_end_def word_less_nat_alt min_def)
  next
    case False
    then have "unat (physical_start e + efi_bytes e) < ?a" using unat_u64_bound [of "efi_bytes e"]
      by (simp add: unat_add_wrap_u64 del: unat_u64_bound)
    then have "efi_end e = UINT64_MAX" by (simp add: efi_end_def Let_def word_less_nat_alt)
    moreover have "18446744073709551615 \<le> ?a + ?n" using False b by linarith
    ultimately show ?thesis by simp
  qed
qed

text \<open>A page of conventional memory: it lies wholly inside a descriptor of that type.\<close>

definition conventional_page :: "nexus_efi_mmap_entry list \<Rightarrow> nat \<Rightarrow> bool" where
  "conventional_page es p \<longleftrightarrow> (\<exists>e\<in>set es. efi_type e = NEXUS_MEM_CONVENTIONAL \<and>
     unat (physical_start e) \<le> 4096 * p \<and>
     4096 * (p + 1) \<le> unat (physical_start e) + 4096 * unat (number_of_pages e))"

lemma release_conventional_frame [simp]:
  "g_total_pages (fold release_conventional es s) = g_total_pages s"
  "g_max_physical_address (fold release_conventional es s) = g_max_physical_address s"
  by (induction es arbitrary: s) (simp_all add: release_conventional_def Let_def)

lemma page_used_release_conventional:
  assumes "4096 * p < unat (g_max_physical_address s)" "p < 16777216"
  shows "page_used (release_conventional e s) p \<longleftrightarrow> page_used s p \<and> \<not> conventional_page [e] p"
proof -
  have "inside p (physical_start e) (efi_end e) \<longleftrightarrow> unat (physical_start e) \<le> 4096 * p \<and>
     4096 * (p + 1) \<le> unat (physical_start e) + 4096 * unat (number_of_pages e)"
    using assms(2) by (auto simp: inside_def unat_efi_end)
  then show ?thesis
    using assms by (simp add: release_conventional_def conventional_page_def efi_end_def Let_def
        page_used_release_range)
qed

lemma page_used_release_all:
  "4096 * p < unat (g_max_physical_address s) \<Longrightarrow> p < 16777216 \<Longrightarrow>
   page_used (fold release_conventional es s) p \<longleftrightarrow> page_used s p \<and> \<not> conventional_page es p"
proof (induction es arbitrary: s)
  case (Cons e es)
  have "g_max_physical_address (release_conventional e s) = g_max_physical_address s"
    using release_conventional_frame(2) [of "[e]" s] by simp
  with Cons show ?case
    by (auto simp: page_used_release_conventional conventional_page_def)
qed (simp add: conventional_page_def)

text \<open>The pages of the ranges that must never be handed out.\<close>

definition boot_owned :: "u64 \<Rightarrow> nexus_boot_info \<Rightarrow> nat \<Rightarrow> bool" where
  "boot_owned bi_addr b p \<longleftrightarrow>
     p < 512 \<or> touches p (kernel_phys_base b) (kernel_phys_end b) \<or>
     touches p bi_addr (bi_addr + sizeof_boot_info) \<or>
     touches p (map_base (bi_mmap b)) (map_base (bi_mmap b) + map_size (bi_mmap b)) \<or>
     fb_base (bi_fb b) \<noteq> 0 \<and> fb_size (bi_fb b) \<noteq> 0 \<and>
     touches p (fb_base (bi_fb b)) (fb_base (bi_fb b) + fb_size (bi_fb b))"

definition mmap_valid :: "nexus_memory_map \<Rightarrow> bool" where
  "mmap_valid mm \<longleftrightarrow> map_base mm \<noteq> 0 \<and> map_size mm \<noteq> 0 \<and> sizeof_efi_mmap_entry \<le> descriptor_size mm"

lemma reserve_boot_frame [simp]:
  "g_total_pages (reserve_boot a b s) = g_total_pages s"
  "g_max_physical_address (reserve_boot a b s) = g_max_physical_address s"
  by (simp_all add: reserve_boot_def Let_def)

lemma page_used_reserve_boot:
  assumes "4096 * p < unat (g_max_physical_address s)" "p < 16777216"
  shows "page_used (reserve_boot a b s) p \<longleftrightarrow> page_used s p \<or> boot_owned a b p"
proof -
  have "touches p 0 0x200000 \<longleftrightarrow> p < 512" by (auto simp: touches_def)
  moreover have "\<not> kernel_phys_base b < kernel_phys_end b \<Longrightarrow>
      \<not> touches p (kernel_phys_base b) (kernel_phys_end b)" by (simp add: touches_def)
  ultimately show ?thesis
    using assms by (auto simp: boot_owned_def reserve_boot_def Let_def page_used_reserve_range)
qed

lemma pmm_reset_used: "p < 16777216 \<Longrightarrow> page_used (pmm_reset s) p"
proof -
  assume "p < 16777216"
  then have "p div 8 < 2097152" by simp
  moreover have "bit (0xFF :: u8) k" if "k < 8" for k
  proof -
    have "(0xFF :: u8) = mask 8" by (simp add: mask_eq_exp_minus_1)
    with that show ?thesis by (simp only: bit_mask_iff) simp
  qed
  ultimately show ?thesis by (simp add: page_used_def pmm_reset_def)
qed

lemma pmm_init_valid:
  assumes "mmap_valid (bi_mmap b)"
  shows "pmm_init m (Some (a, b)) s =
    (recount_free (reserve_boot a b (fold release_conventional (efi_entries m (bi_mmap b))
       (pmm_scan (efi_entries m (bi_mmap b)) (pmm_reset s)))))\<lparr>pmm_ready := True\<rparr>"
  using assms
  by (auto simp: pmm_init_def Let_def mmap_valid_def)

lemma pmm_scan_spec:
  fixes es s
  defines "t \<equiv> pmm_scan es (pmm_reset s)"
  shows "unat (g_total_pages t) \<le> 16777216" "g_bitmap t = g_bitmap (pmm_reset s)"
    "p < unat (g_total_pages t) \<Longrightarrow> 4096 * p < unat (g_max_physical_address t)"
proof -
  let ?m = "g_max_physical_address (fold consider_max es (pmm_reset s))"
  have "unat ?m \<le> 68719476736" by (rule consider_max_fold) (simp add: pmm_reset_def)
  then have "unat (?m div PAGE_SIZE) \<le> 16777216" by (simp add: unat_div_u64)
  then have tot: "unat (g_total_pages t) = unat ?m div 4096"
    by (simp add: t_def pmm_scan_def Let_def word_less_nat_alt unat_div_u64)
  show "unat (g_total_pages t) \<le> 16777216" using tot \<open>unat ?m \<le> 68719476736\<close> by simp
  show "g_bitmap t = g_bitmap (pmm_reset s)"
    by (simp add: t_def pmm_scan_def Let_def consider_max_bitmap)
  have "g_max_physical_address t = ?m" by (simp add: t_def pmm_scan_def Let_def)
  then show "p < unat (g_total_pages t) \<Longrightarrow> 4096 * p < unat (g_max_physical_address t)"
    using tot by simp
qed

lemma pmm_init_state:
  fixes m a b s
  assumes "mmap_valid (bi_mmap b)"
  defines "es \<equiv> efi_entries m (bi_mmap b)" and "t \<equiv> pmm_init m (Some (a, b)) s"
  shows "g_total_pages t = g_total_pages (pmm_scan es (pmm_reset s))"
    and "free_set t = {p. p < unat (g_total_pages t) \<and> conventional_page es p \<and> \<not> boot_owned a b p}"
    and "unat (g_free_pages t) = card (free_set t)" and "pmm_ready t"
proof -
  let ?s2 = "pmm_scan es (pmm_reset s)"
  let ?s8 = "reserve_boot a b (fold release_conventional es ?s2)"
  have t: "t = (recount_free ?s8)\<lparr>pmm_ready := True\<rparr>"
    unfolding t_def es_def by (rule pmm_init_valid [OF assms(1)])
  have tot8: "g_total_pages ?s8 = g_total_pages ?s2" by simp
  have lim: "unat (g_total_pages ?s8) \<le> 16777216"
    unfolding tot8 by (rule pmm_scan_spec(1))
  have fs: "free_set t = free_set ?s8"
    unfolding t free_set_update by (rule recount_free_spec(1) [OF lim])
  show tot: "g_total_pages t = g_total_pages ?s2"
    using recount_free_spec(2) [OF lim] unfolding t by simp
  show "unat (g_free_pages t) = card (free_set t)"
    unfolding fs using recount_free_spec(3) [OF lim] unfolding t by simp
  show "pmm_ready t" unfolding t by simp
  have "page_used ?s8 p \<longleftrightarrow> \<not> conventional_page es p \<or> boot_owned a b p"
    if p: "p < unat (g_total_pages ?s2)" for p
  proof -
    have l: "p < 16777216" using p lim by simp
    have mx: "4096 * p < unat (g_max_physical_address ?s2)" by (rule pmm_scan_spec(3) [OF p])
    have "page_used ?s2 p"
      using pmm_reset_used [OF l] by (simp add: page_used_def pmm_scan_spec(2))
    with mx l show ?thesis by (simp add: page_used_reserve_boot page_used_release_all)
  qed
  then show "free_set t = {p. p < unat (g_total_pages t) \<and> conventional_page es p \<and> \<not> boot_owned a b p}"
    unfolding fs tot by (auto simp: free_set_def)
qed

lemma pmm_init_inv:
  assumes "mmap_valid (bi_mmap b)"
  shows "pmm_inv (pmm_init m (Some (a, b)) s)"
  using pmm_init_state [OF assms, of m a s] pmm_scan_spec(1)
  by (auto simp: pmm_inv_def boot_owned_def)

section \<open>Allocation and release\<close>

lemma pmm_alloc_page_cases:
  assumes "pmm_inv s"
  obtains (none) "pmm_alloc_page s = (0, s)" "free_set s = {}"
  | (some) p where "p = Min (free_set s)" "p \<in> free_set s" "p \<noteq> 0" "p < 16777216"
      "pmm_alloc_page s = (of_nat (4096 * p), (bitmap_set (of_nat p) s)\<lparr>g_free_pages := g_free_pages s - 1\<rparr>)"
proof (cases "find (\<lambda>page. \<not> bitmap_test (of_nat page) s) [0..<unat (g_total_pages s)]")
  case None
  have lim: "unat (g_total_pages s) \<le> 16777216" and rdy: "pmm_ready s"
    using assms by (auto simp: pmm_inv_def)
  have "page_used s p" if "p < unat (g_total_pages s)" for p
  proof -
    have "bitmap_test (of_nat p) s" using None that by (auto simp: find_None_iff)
    then show ?thesis using that lim by (simp add: bitmap_test_iff unat_of_nat_u64)
  qed
  then have "free_set s = {}" by (auto simp: free_set_def)
  moreover have "pmm_alloc_page s = (0, s)" using None rdy by (simp add: pmm_alloc_page_def)
  ultimately show ?thesis by (rule none[rotated])
next
  case (Some p)
  have lim: "unat (g_total_pages s) \<le> 16777216" and rdy: "pmm_ready s"
    using assms by (auto simp: pmm_inv_def)
  obtain i where i: "i < unat (g_total_pages s)" "p = i" "\<not> bitmap_test (of_nat i) s"
    "\<forall>j<i. bitmap_test (of_nat j) s"
    using Some by (auto simp: find_Some_iff)
  have free: "p \<in> free_set s"
    using i lim by (simp add: free_set_def bitmap_test_iff unat_of_nat_u64)
  have least: "p \<le> q" if "q \<in> free_set s" for q
  proof (rule ccontr)
    assume "\<not> p \<le> q"
    with i have "bitmap_test (of_nat q) s" by simp
    with that lim show False by (auto simp: free_set_def bitmap_test_iff unat_of_nat_u64)
  qed
  have "card (free_set s) \<noteq> 0" using free by auto
  then have "g_free_pages s \<noteq> 0" using assms by (auto simp: pmm_inv_def)
  moreover have "(of_nat p * PAGE_SIZE :: u64) = of_nat (4096 * p)" by simp
  ultimately have "pmm_alloc_page s =
      (of_nat (4096 * p), (bitmap_set (of_nat p) s)\<lparr>g_free_pages := g_free_pages s - 1\<rparr>)"
    using Some rdy by (simp add: pmm_alloc_page_def Let_def)
  moreover have "p = Min (free_set s)" using free least by (intro Min_eqI [symmetric]) auto
  moreover have "p \<noteq> 0" using free assms by (auto simp: pmm_inv_def intro: ccontr)
  moreover have "p < 16777216" using i lim by simp
  ultimately show ?thesis using free some by blast
qed

text \<open>What the two operations do to the set of free pages, on every branch.\<close>

definition page_no :: "u64 \<Rightarrow> nat" where
  "page_no a = unat a div 4096"

lemma page_no_of_nat: "p < 16777216 \<Longrightarrow> page_no (of_nat (4096 * p)) = p"
  by (simp add: page_no_def unat_of_nat_u64 del: of_nat_mult)

lemma pmm_alloc_page_spec:
  assumes inv: "pmm_inv s" and r: "pmm_alloc_page s = (a, t)"
  shows "pmm_inv t" and "g_total_pages t = g_total_pages s"
    and "a = 0 \<longleftrightarrow> free_set s = {}" and "a = 0 \<Longrightarrow> t = s"
    and "a \<noteq> 0 \<Longrightarrow> page_aligned a \<and> page_no a = Min (free_set s) \<and> page_no a \<in> free_set s \<and>
           free_set t = free_set s - {page_no a}"
proof -
  have "pmm_inv t \<and> g_total_pages t = g_total_pages s \<and> (a = 0 \<longleftrightarrow> free_set s = {}) \<and> (a = 0 \<longrightarrow> t = s) \<and>
    (a \<noteq> 0 \<longrightarrow> page_aligned a \<and> page_no a = Min (free_set s) \<and> page_no a \<in> free_set s \<and>
           free_set t = free_set s - {page_no a})"
    using inv
  proof (cases rule: pmm_alloc_page_cases)
    case none
    with inv r show ?thesis by simp
  next
    case (some p)
    have a: "a = of_nat (4096 * p)" and t: "t = (bitmap_set (of_nat p) s)\<lparr>g_free_pages := g_free_pages s - 1\<rparr>"
      using some r by simp_all
    have un: "unat a = 4096 * p" unfolding a using some by (intro unat_of_nat_u64) simp
    have pn: "page_no a = p" by (simp add: page_no_def un)
    have fs: "free_set t = free_set s - {p}"
      using some(4) by (auto simp: t free_set_def page_used_bitmap_set unat_of_nat_u64)
    have c: "card (free_set s) = Suc (card (free_set t))"
      unfolding fs using some(2) by (metis card.remove finite_free_set)
    have "unat (g_free_pages t) = card (free_set t)"
      using inv c by (simp add: t pmm_inv_def unat_sub_u64 word_le_nat_alt)
    moreover have "a \<noteq> 0" using un some by auto
    moreover have "page_aligned a" by (simp add: page_aligned_unat un)
    ultimately show ?thesis
      using inv fs some pn by (auto simp: pmm_inv_def t)
  qed
  then show "pmm_inv t" and "g_total_pages t = g_total_pages s"
    and "a = 0 \<longleftrightarrow> free_set s = {}" and "a = 0 \<Longrightarrow> t = s"
    and "a \<noteq> 0 \<Longrightarrow> page_aligned a \<and> page_no a = Min (free_set s) \<and> page_no a \<in> free_set s \<and>
           free_set t = free_set s - {page_no a}"
    by auto
qed


lemma pmm_free_page_spec:
  assumes inv: "pmm_inv s"
  shows "\<not> page_aligned a \<or> page_no a \<ge> unat (g_total_pages s) \<Longrightarrow> pmm_free_page a s = s"
    and "page_no a \<in> free_set s \<Longrightarrow> pmm_free_page a s = s"
    and "page_aligned a \<Longrightarrow> page_no a < unat (g_total_pages s) \<Longrightarrow>
           free_set (pmm_free_page a s) = insert (page_no a) (free_set s)"
    and "a \<noteq> 0 \<Longrightarrow> pmm_inv (pmm_free_page a s)"
    and "g_total_pages (pmm_free_page a s) = g_total_pages s"
proof -
  let ?p = "a div PAGE_SIZE"
  have lim: "unat (g_total_pages s) \<le> 16777216" and rdy: "pmm_ready s"
    using inv by (auto simp: pmm_inv_def)
  have un: "unat ?p = page_no a" by (simp add: page_no_def unat_div_u64)
  have al: "a AND (PAGE_SIZE - 1) \<noteq> 0 \<longleftrightarrow> \<not> page_aligned a"
    by (simp add: page_aligned_def)
  have g1: "?p \<ge> g_total_pages s \<or> ?p \<ge> PMM_MAX_PAGES \<longleftrightarrow> page_no a \<ge> unat (g_total_pages s)"
    using lim un by (auto simp: word_le_nat_alt)
  have t: "bitmap_test ?p s \<longleftrightarrow> page_used s (page_no a)" by (simp only: bitmap_test_iff un)
  have step: "pmm_free_page a s =
      (if \<not> page_aligned a \<or> page_no a \<ge> unat (g_total_pages s) \<or> \<not> page_used s (page_no a) then s
       else (bitmap_clear ?p s)\<lparr>g_free_pages := g_free_pages s + 1\<rparr>)"
    unfolding pmm_free_page_def Let_def al g1 t using rdy by simp
  show "\<not> page_aligned a \<or> page_no a \<ge> unat (g_total_pages s) \<Longrightarrow> pmm_free_page a s = s"
    unfolding step by auto
  show "page_no a \<in> free_set s \<Longrightarrow> pmm_free_page a s = s"
    unfolding step by (auto simp: free_set_def)
  show tot: "g_total_pages (pmm_free_page a s) = g_total_pages s"
    unfolding step by simp
  show fs: "free_set (pmm_free_page a s) = insert (page_no a) (free_set s)"
    if "page_aligned a" "page_no a < unat (g_total_pages s)"
    using that unfolding step by (auto simp: free_set_def page_used_bitmap_clear un [simplified])
  show "pmm_inv (pmm_free_page a s)" if "a \<noteq> 0"
  proof (cases "page_aligned a \<and> page_no a < unat (g_total_pages s) \<and> page_used s (page_no a)")
    case True
    have "page_no a \<notin> free_set s" using True by (simp add: free_set_def)
    then have "card (free_set (pmm_free_page a s)) = Suc (card (free_set s))"
      using fs True by simp
    moreover have "unat (g_free_pages s + 1) = Suc (card (free_set s))"
    proof -
      have "card (free_set s) < 18446744073709551615"
        using card_free_set_bound [of s] lim by linarith
      then show ?thesis using inv by (simp add: pmm_inv_def unat_add_u64)
    qed
    moreover have "page_no a \<noteq> 0"
    proof
      assume "page_no a = 0"
      then have "unat a = 0" using True by (auto simp: page_no_def page_aligned_unat)
      with that show False by (simp add: unat_eq_zero)
    qed
    ultimately show ?thesis
      using inv fs True tot rdy by (auto simp: pmm_inv_def step)
  next
    case False
    then show ?thesis using inv unfolding step by (auto simp: not_less)
  qed
qed

section \<open>The allocator contract\<close>

text \<open>
  What the rest of the kernel relies on: \<open>alloc\<close> returns 0 or a page that was free, \<open>release\<close> gives a
  page back. \<open>pages\<close> is the set of free page numbers, \<open>tracked\<close> the page numbers the allocator
  manages.
\<close>

locale page_allocator =
  fixes alloc :: "'s \<Rightarrow> u64 \<times> 's" and release :: "u64 \<Rightarrow> 's \<Rightarrow> 's"
    and pages :: "'s \<Rightarrow> nat set" and tracked :: "'s \<Rightarrow> nat set" and invar :: "'s \<Rightarrow> bool"
  assumes alloc_invar: "invar s \<Longrightarrow> alloc s = (a, t) \<Longrightarrow> invar t \<and> tracked t = tracked s"
    and alloc_empty: "invar s \<Longrightarrow> alloc s = (a, t) \<Longrightarrow> a = 0 \<longleftrightarrow> pages s = {}"
    and alloc_fail: "invar s \<Longrightarrow> alloc s = (0, t) \<Longrightarrow> t = s"
    and alloc_page: "invar s \<Longrightarrow> alloc s = (a, t) \<Longrightarrow> a \<noteq> 0 \<Longrightarrow>
      page_aligned a \<and> page_no a \<in> pages s \<and> pages t = pages s - {page_no a}"
    and release_invar: "invar s \<Longrightarrow> a \<noteq> 0 \<Longrightarrow> invar (release a s) \<and> tracked (release a s) = tracked s"
    and release_page: "invar s \<Longrightarrow> page_aligned a \<Longrightarrow> page_no a \<in> tracked s \<Longrightarrow>
      pages (release a s) = insert (page_no a) (pages s)"
    and pages_tracked: "invar s \<Longrightarrow> pages s \<subseteq> tracked s"
    and pages_finite: "invar s \<Longrightarrow> finite (pages s)"
begin

lemma alloc_release:
  assumes "invar s" "alloc s = (a, t)" "a \<noteq> 0"
  shows "pages (release a t) = pages s" "invar (release a t)"
proof -
  have t: "invar t" "tracked t = tracked s" using alloc_invar [OF assms(1,2)] by auto
  have p: "page_aligned a" "page_no a \<in> pages s" "pages t = pages s - {page_no a}"
    using alloc_page [OF assms] by auto
  have "page_no a \<in> tracked t" using p(2) t(2) pages_tracked [OF assms(1)] by auto
  then show "pages (release a t) = pages s" using release_page [OF t(1) p(1)] p by auto
  show "invar (release a t)" using release_invar [OF t(1) assms(3)] by simp
qed

end

text \<open>\<open>n\<close> allocations in a row, as the loops of the heap and the page tables make them.\<close>

primrec alloc_seq :: "('s \<Rightarrow> u64 \<times> 's) \<Rightarrow> nat \<Rightarrow> 's \<Rightarrow> u64 list \<times> 's" where
  "alloc_seq alloc 0 s = ([], s)"
| "alloc_seq alloc (Suc n) s =
     (case alloc s of (a, t) \<Rightarrow> case alloc_seq alloc n t of (as, u) \<Rightarrow> (a # as, u))"

context page_allocator
begin

lemma alloc_seq_spec:
  assumes "invar s" "n \<le> card (pages s)" "alloc_seq alloc n s = (as, u)"
  shows "invar u \<and> length as = n \<and> 0 \<notin> set as \<and> distinct (map page_no as) \<and>
    list_all page_aligned as \<and> set (map page_no as) \<subseteq> pages s \<and> pages u = pages s - set (map page_no as)"
  using assms
proof (induction n arbitrary: s as)
  case (Suc n)
  obtain a t where at: "alloc s = (a, t)" by fastforce
  obtain bs where bs: "alloc_seq alloc n t = (bs, u)" and as: "as = a # bs"
    using Suc.prems(3) at by (auto split: prod.splits)
  have "pages s \<noteq> {}" using Suc.prems(2) by auto
  then have nz: "a \<noteq> 0" using alloc_empty [OF Suc.prems(1) at] by simp
  have p: "page_aligned a" "page_no a \<in> pages s" "pages t = pages s - {page_no a}"
    using alloc_page [OF Suc.prems(1) at nz] by auto
  have it: "invar t" using alloc_invar [OF Suc.prems(1) at] by simp
  have "n \<le> card (pages t)"
    using Suc.prems(2) p(2,3) pages_finite [OF Suc.prems(1)] by simp
  from Suc.IH [OF it this bs] show ?case using nz p by (auto simp: as)
qed simp

lemma alloc_seq_exhausted:
  assumes "invar s" "alloc_seq alloc (card (pages s)) s = (as, u)"
  shows "pages u = {}" "fst (alloc u) = 0"
proof -
  have fin: "finite (pages s)" using assms(1) by (rule pages_finite)
  have r: "invar u" "length as = card (pages s)" "distinct (map page_no as)"
    "set (map page_no as) \<subseteq> pages s" "pages u = pages s - set (map page_no as)"
    using alloc_seq_spec [OF assms(1) order_refl assms(2)] by auto
  have "card (set (map page_no as)) = card (pages s)"
    using distinct_card [OF r(3)] r(2) by simp
  then have "set (map page_no as) = pages s" using card_subset_eq [OF fin r(4)] by simp
  then show e: "pages u = {}" using r(5) by simp
  obtain a t where "alloc u = (a, t)" by fastforce
  then show "fst (alloc u) = 0" using alloc_empty [OF r(1)] e by simp
qed

end

interpretation pmm: page_allocator pmm_alloc_page pmm_free_page free_set
  "\<lambda>s. {p. p < unat (g_total_pages s)}" pmm_inv
proof unfold_locales
  fix s a t assume "pmm_inv s" "pmm_alloc_page s = (a, t)"
  note spec = pmm_alloc_page_spec [OF this]
  show "pmm_inv t \<and> {p. p < unat (g_total_pages t)} = {p. p < unat (g_total_pages s)}"
    and "a = 0 \<longleftrightarrow> free_set s = {}"
    using spec by auto
  show "a \<noteq> 0 \<Longrightarrow> page_aligned a \<and> page_no a \<in> free_set s \<and> free_set t = free_set s - {page_no a}"
    using spec(5) by blast
next
  fix s t assume "pmm_inv s" "pmm_alloc_page s = (0, t)"
  then show "t = s" using pmm_alloc_page_spec(4) by blast
next
  fix s a assume "pmm_inv s"
  note spec = pmm_free_page_spec [OF this, of a]
  show "pmm_inv (pmm_free_page a s) \<and>
      {p. p < unat (g_total_pages (pmm_free_page a s))} = {p. p < unat (g_total_pages s)}" if "a \<noteq> 0"
    using spec that by simp
  show "free_set (pmm_free_page a s) = insert (page_no a) (free_set s)"
    if "page_aligned a" "page_no a \<in> {p. p < unat (g_total_pages s)}"
    using spec(3) that by simp
qed (auto simp: free_set_def)

text \<open>Releasing the page just allocated gives back the very state before the allocation.\<close>

lemma clear_set_u8: "k < 8 \<Longrightarrow> \<not> bit x k \<Longrightarrow> (x OR push_bit k 1) AND NOT (push_bit k 1) = x" for x :: u8
  by (rule bit_word_eqI) (auto simp: bit_simps)

lemma bitmap_clear_set:
  "\<not> page_used s (unat p) \<Longrightarrow> bitmap_clear p (bitmap_set p s) = s"
  using clear_set_u8 [of "unat p mod 8" "g_bitmap s (unat p div 8)"]
  by (simp add: bitmap_clear_def bitmap_set_def Let_def unat_page_bits page_used_def del: push_bit_of_1)

lemma bitmap_clear_free_pages:
  "bitmap_clear p (s\<lparr>g_free_pages := n\<rparr>) = (bitmap_clear p s)\<lparr>g_free_pages := n\<rparr>"
  by (simp add: bitmap_clear_def Let_def)

lemma pmm_free_alloc:
  assumes inv: "pmm_inv s" and r: "pmm_alloc_page s = (a, t)" and nz: "a \<noteq> 0"
  shows "pmm_free_page a t = s"
  using inv
proof (cases rule: pmm_alloc_page_cases)
  case none
  with r nz show ?thesis by simp
next
  case (some p)
  have a: "a = of_nat (4096 * p)" and t: "t = (bitmap_set (of_nat p) s)\<lparr>g_free_pages := g_free_pages s - 1\<rparr>"
    using some r by simp_all
  have un: "unat a = 4096 * p" unfolding a using some by (intro unat_of_nat_u64) simp
  have d: "a div PAGE_SIZE = of_nat p"
    using some(4) by (simp only: u64_eq_unat unat_div_u64 un) (simp add: unat_of_nat_u64)
  have al: "a AND (PAGE_SIZE - 1) = 0"
  proof -
    have "page_aligned a" by (simp add: page_aligned_unat un)
    then show ?thesis by (simp add: page_aligned_def)
  qed
  have up: "unat (of_nat p :: u64) = p" using some(4) by (simp add: unat_of_nat_u64)
  have "p < unat (g_total_pages s)" "\<not> page_used s p" using some(2) by (auto simp: free_set_def)
  moreover have "bitmap_test (of_nat p) t"
    using some(4) by (simp add: bitmap_test_iff up t page_used_bitmap_set)
  ultimately show ?thesis
    using inv some(4) up unfolding pmm_free_page_def d al Let_def
    by (simp add: t pmm_inv_def word_le_nat_alt bitmap_clear_set bitmap_clear_free_pages)
qed

section \<open>Properties\<close>

text \<open>
  C3. Whatever the UEFI memory map holds, \<open>pmm_init\<close> makes exactly those pages of the tracked range
  free that lie wholly inside a conventional-memory descriptor and overlap none of the low 2 MiB, the
  framebuffer, the memory map, the kernel image, and the boot information; the free counter is their number
  and the allocator's invariant holds.
\<close>

theorem pmm_init_exact:
  assumes "mmap_valid (bi_mmap b)" and "t = pmm_init m (Some (a, b)) s"
  shows "free_set t = {p. p < unat (g_total_pages t) \<and>
           conventional_page (efi_entries m (bi_mmap b)) p \<and> \<not> boot_owned a b p}
         \<and> unat (g_free_pages t) = card (free_set t) \<and> pmm_inv t"
  using pmm_init_state [OF assms(1), of m a s] pmm_init_inv [OF assms(1), of m a s] assms(2) by simp

definition ex_memory :: memory where
  "ex_memory = store64 (store64 (store64 (\<lambda>_. 0) 0x1000 7) 0x1008 0x200000) 0x1018 4"

definition ex_boot :: nexus_boot_info where
  "ex_boot = \<lparr>bi_fb = \<lparr>fb_base = 0, fb_size = 0, fb_width = 0, fb_height = 0,
       fb_pixels_per_scanline = 0, fb_pixel_format = 0, fb_mode_index = 0, fb_mode_count = 0\<rparr>,
     bi_mmap = \<lparr>map_base = 0x1000, map_size = 40, descriptor_size = 40, descriptor_version = 1\<rparr>,
     kernel_phys_base = 0x201000, kernel_phys_end = 0x201800\<rparr>"

lemma ex_entries:
  "efi_entries ex_memory (bi_mmap ex_boot) =
     [\<lparr>efi_type = 7, physical_start = 0x200000, virtual_start = 0, number_of_pages = 4, efi_attribute = 0\<rparr>]"
  by code_simp

definition ex_pmm :: pmm where
  "ex_pmm = \<lparr>g_bitmap = (\<lambda>i. if i = 0 then 9 else 0), g_total_pages = 4, g_free_pages = 2,
     g_max_physical_address = 0x4000, pmm_ready = True\<rparr>"

lemma ex_total:
  "g_total_pages (pmm_init ex_memory (Some (0x8000, ex_boot)) ex_pmm) = 516"
  using pmm_init_state(1) [of ex_boot ex_memory "0x8000" ex_pmm]
  by (simp add: mmap_valid_def ex_entries) (simp add: ex_boot_def sizeof_efi_mmap_entry_def pmm_scan_def pmm_reset_def consider_max_def efi_bytes_def align_up_def)

theorem pmm_init_exact_witness:
  "mmap_valid (bi_mmap ex_boot) \<and>
   free_set (pmm_init ex_memory (Some (0x8000, ex_boot)) ex_pmm) = {512, 514, 515} \<and>
   unat (g_free_pages (pmm_init ex_memory (Some (0x8000, ex_boot)) ex_pmm)) = 3"
proof -
  have v: "mmap_valid (bi_mmap ex_boot)" by code_simp
  have "{p. p < 516 \<and> conventional_page (efi_entries ex_memory (bi_mmap ex_boot)) p \<and>
      \<not> boot_owned 0x8000 ex_boot p} = {512, 514, 515}"
    unfolding ex_entries
    by (auto simp: conventional_page_def boot_owned_def touches_def ex_boot_def sizeof_boot_info_def
        NEXUS_MEM_CONVENTIONAL_def)
  with v show ?thesis
    using pmm_init_exact [OF v refl, of ex_memory "0x8000" ex_pmm] by (simp add: ex_total)
qed

text \<open>
  C19. \<open>n\<close> calls of \<open>pmm_alloc_page\<close>, with at least \<open>n\<close> pages free, return \<open>n\<close> distinct, page-aligned,
  non-null addresses of pages that were free, and take exactly those pages out of the free set; once
  all free pages are handed out the next call returns 0.
\<close>

theorem pmm_alloc_distinct:
  assumes "pmm_inv s" and "n \<le> card (free_set s)" and "alloc_seq pmm_alloc_page n s = (as, u)"
  shows "length as = n \<and> 0 \<notin> set as \<and> distinct (map page_no as) \<and> list_all page_aligned as \<and>
    set (map page_no as) \<subseteq> free_set s \<and> free_set u = free_set s - set (map page_no as) \<and> pmm_inv u \<and>
    (n = card (free_set s) \<longrightarrow> fst (pmm_alloc_page u) = 0)"
  using pmm.alloc_seq_spec [OF assms] pmm.alloc_seq_exhausted(2) [OF assms(1), of as u] assms(3) by auto

lemma ex_pmm_free: "free_set ex_pmm = {1, 2}"
proof -
  have "p \<in> {0, 1, 2, 3} \<longleftrightarrow> p < 4" for p :: nat by auto
  then have "free_set ex_pmm = {p \<in> {0, 1, 2, 3}. \<not> page_used ex_pmm p}"
    by (auto simp: free_set_def ex_pmm_def)
  also have "\<dots> = {1, 2}" by code_simp
  finally show ?thesis .
qed

lemma ex_pmm_inv: "pmm_inv ex_pmm"
  by (simp add: pmm_inv_def ex_pmm_free) (simp add: ex_pmm_def)

theorem pmm_alloc_distinct_witness:
  "pmm_inv ex_pmm \<and> fst (alloc_seq pmm_alloc_page 2 ex_pmm) = [0x1000, 0x2000] \<and>
   free_set (snd (alloc_seq pmm_alloc_page 2 ex_pmm)) = {} \<and>
   fst (pmm_alloc_page (snd (alloc_seq pmm_alloc_page 2 ex_pmm))) = 0"
proof -
  have as: "fst (alloc_seq pmm_alloc_page 2 ex_pmm) = [0x1000, 0x2000]" by code_simp
  have pn: "page_no 0x1000 = 1" "page_no 0x2000 = 2" by (simp_all add: page_no_def)
  show ?thesis
    using pmm_alloc_distinct [OF ex_pmm_inv _ prod.collapse [symmetric], of 2] as ex_pmm_inv
    by (simp add: ex_pmm_free pn [simplified])
qed

text \<open>
  C20. Releasing the page that was just allocated restores the state of the page manager exactly,
  and a second release of a free page, of an unaligned address or of an address beyond the tracked range changes nothing.
\<close>

theorem pmm_release_roundtrip:
  assumes "pmm_inv s"
  shows "(pmm_alloc_page s = (a, t) \<and> a \<noteq> 0 \<longrightarrow> pmm_free_page a t = s) \<and>
    (page_no b \<in> free_set s \<or> \<not> page_aligned b \<or> unat (g_total_pages s) \<le> page_no b \<longrightarrow> pmm_free_page b s = s)"
  using pmm_free_alloc [OF assms, of a t] pmm_free_page_spec(1,2) [OF assms, of b] by auto

theorem pmm_release_roundtrip_witness:
  "pmm_inv ex_pmm \<and> fst (pmm_alloc_page ex_pmm) = 0x1000 \<and>
   pmm_free_page 0x1000 (snd (pmm_alloc_page ex_pmm)) = ex_pmm \<and> pmm_free_page 0x2000 ex_pmm = ex_pmm"
proof -
  have a: "fst (pmm_alloc_page ex_pmm) = 0x1000" by code_simp
  then have "pmm_alloc_page ex_pmm = (0x1000, snd (pmm_alloc_page ex_pmm))" by (metis prod.collapse)
  then show ?thesis
    using pmm_release_roundtrip [OF ex_pmm_inv, of "0x1000" "snd (pmm_alloc_page ex_pmm)" "0x2000"] a ex_pmm_inv
    by (simp add: ex_pmm_free page_no_def)
qed

end
