(* ===== verification/Paging.thy ===== *)
theory Paging
  imports Pmm
begin

text \<open>
  The page tables, \<open>kernel/mm/paging.c\<close>, and the virtual memory manager over them,
  \<open>kernel/mm/vmm.c\<close>. Tables live in physical memory (theory \<open>Nexus_Memory\<close>) and are reached through
  the identity map of the first 4 GiB, as \<open>table_from_phys\<close> has it; table pages come from the page
  manager (theory \<open>Pmm\<close>). The addresses of the static tables are decided by the linker and the
  loader and are a field of the state that no operation changes. TLB invalidation has no effect on
  this state and is left out.

  \<open>xlate\<close> is the reference translation, by recursion on the level; \<open>tables\<close> lists the pages that make up a
  hierarchy. A hierarchy is well formed when these pages are distinct, aligned, below 4 GiB and not
  free. Mapping, unmapping, splitting a huge page and cloning are specified by what they do to \<open>xlate\<close>.
\<close>

section \<open>State\<close>

record paging_layout =
  pml4 :: u64
  pdpt :: u64
  pd_base :: "nat \<Rightarrow> u64"
  pd_extra :: "nat \<Rightarrow> u64"

record mm =
  phys :: memory
  pm :: pmm
  lay :: paging_layout
  extra_slot_owner :: "nat \<Rightarrow> int"
  extra_slots_used :: nat
  cr3 :: u64
  vmm_ready :: bool
  vmm_mapped :: u64

definition PTE_PRESENT :: u64 where
  "PTE_PRESENT = 0x001"

definition PTE_WRITABLE :: u64 where
  "PTE_WRITABLE = 0x002"

definition PTE_USER :: u64 where
  "PTE_USER = 0x004"

definition PTE_PWT :: u64 where
  "PTE_PWT = 0x008"

definition PTE_PCD :: u64 where
  "PTE_PCD = 0x010"

definition PTE_HUGE :: u64 where
  "PTE_HUGE = 0x080"

definition PTE_NX :: u64 where
  "PTE_NX = push_bit 63 1"

definition PT_INDEX_MASK :: u64 where
  "PT_INDEX_MASK = 0x1FF"

definition PAGE_2M :: u64 where
  "PAGE_2M = 2 * 1024 * 1024"

definition PAGE_1G :: u64 where
  "PAGE_1G = 1024 * 1024 * 1024"

definition BASE_IDENTITY_GIB :: nat where
  "BASE_IDENTITY_GIB = 4"

definition EXTRA_PD_SLOTS :: nat where
  "EXTRA_PD_SLOTS = 512"

text \<open>\<open>table[index]\<close>, read and written.\<close>

definition get_entry :: "u64 \<Rightarrow> u64 \<Rightarrow> mm \<Rightarrow> u64" where
  "get_entry table index s = load64 (phys s) (entry_addr table index)"

definition set_entry :: "u64 \<Rightarrow> u64 \<Rightarrow> u64 \<Rightarrow> mm \<Rightarrow> mm" where
  "set_entry table index v s = s\<lparr>phys := store64 (phys s) (entry_addr table index) v\<rparr>"

definition zero_table :: "u64 \<Rightarrow> mm \<Rightarrow> mm" where
  "zero_table t s = s\<lparr>phys := zero_bytes (phys s) t 4096\<rparr>"

section \<open>The identity map of the boot\<close>

definition pd_table_for :: "u64 \<Rightarrow> mm \<Rightarrow> u64 option \<times> mm" where
  "pd_table_for p s =
     (let pdpt_idx = (p div PAGE_1G) AND 0x1FF
      in if pdpt_idx < of_nat BASE_IDENTITY_GIB then
           let pd = pd_base (lay s) (unat pdpt_idx);
               s' = (if get_entry (pdpt (lay s)) pdpt_idx s AND PTE_PRESENT = 0
                     then set_entry (pdpt (lay s)) pdpt_idx (pd OR PTE_PRESENT OR PTE_WRITABLE) s
                     else s)
           in (Some pd, s')
         else
           case find (\<lambda>i. extra_slot_owner s i = int (unat pdpt_idx)) [0..<extra_slots_used s] of
             Some i \<Rightarrow> (Some (pd_extra (lay s) i), s)
           | None \<Rightarrow>
               if extra_slots_used s \<ge> EXTRA_PD_SLOTS then (None, s)
               else
                 let slot = extra_slots_used s;
                     s1 = s\<lparr>extra_slots_used := slot + 1,
                            extra_slot_owner := (extra_slot_owner s)(slot := int (unat pdpt_idx))\<rparr>;
                     s2 = zero_table (pd_extra (lay s) slot) s1;
                     s3 = set_entry (pdpt (lay s)) pdpt_idx
                            (pd_extra (lay s) slot OR PTE_PRESENT OR PTE_WRITABLE) s2
                 in (Some (pd_extra (lay s) slot), s3))"

definition map_2m_page :: "u64 \<Rightarrow> u64 \<Rightarrow> mm \<Rightarrow> mm" where
  "map_2m_page p extra_flags s =
     (case pd_table_for p s of
        (None, s1) \<Rightarrow> s1
      | (Some pd, s1) \<Rightarrow>
          set_entry pd ((p div PAGE_2M) AND 0x1FF)
            (p OR PTE_PRESENT OR PTE_WRITABLE OR PTE_HUGE OR extra_flags) s1)"

text \<open>
  The loop steps from one 2 MiB boundary to another by 2 MiB, so it visits the multiples of 2 MiB in
  between: both bounds are aligned, hence the address cannot wrap before it reaches the end.
\<close>

definition map_region :: "u64 \<Rightarrow> u64 \<Rightarrow> u64 \<Rightarrow> mm \<Rightarrow> mm" where
  "map_region start e extra_flags s =
     (if e \<le> start then s
      else
        let aligned_start = start AND NOT (PAGE_2M - 1);
            aligned_end = (e + PAGE_2M - 1) AND NOT (PAGE_2M - 1)
        in fold (\<lambda>k. map_2m_page (of_nat k * PAGE_2M) extra_flags)
             [unat (aligned_start div PAGE_2M)..<unat (aligned_end div PAGE_2M)] s)"

definition map_efi_regions :: "nexus_memory_map \<Rightarrow> mm \<Rightarrow> mm" where
  "map_efi_regions mp s =
     fold (\<lambda>i s. let e = read_efi_entry (phys s) (map_base mp + of_nat i * descriptor_size mp);
                     region_start = physical_start e;
                     region_end = region_start + number_of_pages e * 4096
                 in map_region region_start region_end 0 s)
       [0..<unat (map_size mp div descriptor_size mp)] s"

definition paging_init :: "nexus_boot_info option \<Rightarrow> mm \<Rightarrow> mm" where
  "paging_init bi s =
     (let L = lay s;
          s1 = zero_table (pdpt L) (zero_table (pml4 L) s);
          s2 = fold (\<lambda>i. zero_table (pd_base L i)) [0..<BASE_IDENTITY_GIB] s1;
          s3 = s2\<lparr>extra_slots_used := 0\<rparr>;
          s4 = set_entry (pml4 L) 0 (pdpt L OR PTE_PRESENT OR PTE_WRITABLE) s3;
          s5 = map_region 0 (of_nat BASE_IDENTITY_GIB * PAGE_1G) 0 s4;
          s6 = (case bi of
                  None \<Rightarrow> s5
                | Some b \<Rightarrow>
                    if descriptor_size (bi_mmap b) \<noteq> 0 \<and> map_base (bi_mmap b) \<noteq> 0
                    then map_efi_regions (bi_mmap b) s5 else s5);
          s7 = (case bi of
                  None \<Rightarrow> s6
                | Some b \<Rightarrow>
                    if fb_base (bi_fb b) \<noteq> 0 \<and> fb_size (bi_fb b) \<noteq> 0
                    then map_region (fb_base (bi_fb b)) (fb_base (bi_fb b) + fb_size (bi_fb b)) 0 s6
                    else s6)
      in s7\<lparr>cr3 := pml4 L\<rparr>)"

definition paging_map_region :: "u64 \<Rightarrow> u64 \<Rightarrow> mm \<Rightarrow> mm" where
  "paging_map_region start e s = map_region start e (PTE_PCD OR PTE_PWT) s"

section \<open>4 KiB page-table operations\<close>

text \<open>The table at a physical address; \<open>None\<close> is the null pointer, which physical address 0 gives as well.\<close>

definition table_from_phys :: "u64 \<Rightarrow> u64 option" where
  "table_from_phys p = (if p \<ge> 0x100000000 \<or> p = 0 then None else Some p)"

definition alloc_table_page :: "mm \<Rightarrow> u64 \<times> mm" where
  "alloc_table_page s =
     (case pmm_alloc_page (pm s) of
        (p, a) \<Rightarrow>
          let s1 = s\<lparr>pm := a\<rparr>
          in if p = 0 \<or> p \<ge> 0x100000000
             then (0, if p \<noteq> 0 then s1\<lparr>pm := pmm_free_page p a\<rparr> else s1)
             else case table_from_phys p of
                    None \<Rightarrow> (0, s1\<lparr>pm := pmm_free_page p a\<rparr>)
                  | Some table \<Rightarrow> (p, zero_table table s1))"

text \<open>
  The step repeated at each level of \<open>walk_create_root\<close>: read the entry and, if it is not present and
  \<open>create\<close> is set, install a fresh table there.
\<close>

definition walk_entry :: "u64 \<Rightarrow> u64 \<Rightarrow> bool \<Rightarrow> mm \<Rightarrow> u64 option \<times> mm" where
  "walk_entry table index create s =
     (let e = get_entry table index s
      in if e AND PTE_PRESENT = 0 then
           if \<not> create then (None, s)
           else case alloc_table_page s of
                  (p, s1) \<Rightarrow>
                    if p = 0 then (None, s1)
                    else let s2 = set_entry table index (p OR PTE_PRESENT OR PTE_WRITABLE) s1
                         in (Some (get_entry table index s2), s2)
         else (Some e, s))"

text \<open>Splitting a 2 MiB leaf of the page directory \<open>pd\<close> into a table of 4 KiB leaves.\<close>

definition split_huge :: "u64 \<Rightarrow> u64 \<Rightarrow> u64 \<Rightarrow> mm \<Rightarrow> u64 option \<times> mm" where
  "split_huge pd pd_index e s =
     (case alloc_table_page s of
        (pt, s1) \<Rightarrow>
          if pt = 0 then (None, s1)
          else
            let base = e AND 0xFFFFFFE00000;
                leaf_flags = (e AND 0xFFF) AND NOT PTE_HUGE;
                s2 = fold (\<lambda>i. set_entry pt (of_nat i) ((base + of_nat i * PAGE_SIZE) OR leaf_flags))
                       [0..<512] s1;
                s3 = set_entry pd pd_index (pt OR PTE_PRESENT OR PTE_WRITABLE) s2
            in (Some (get_entry pd pd_index s3), s3))"

definition walk_create_root :: "u64 \<Rightarrow> u64 \<Rightarrow> bool \<Rightarrow> mm \<Rightarrow> u64 option \<times> mm" where
  "walk_create_root root va create s =
     (let pml4_index = drop_bit 39 va AND PT_INDEX_MASK;
          pdpt_index = drop_bit 30 va AND PT_INDEX_MASK;
          pd_index = drop_bit 21 va AND PT_INDEX_MASK
      in case table_from_phys root of
           None \<Rightarrow> (None, s)
         | Some pml4_table \<Rightarrow>
      (case walk_entry pml4_table pml4_index create s of
           (None, s1) \<Rightarrow> (None, s1)
         | (Some e4, s1) \<Rightarrow>
      (case table_from_phys (e4 AND NOT 0xFFF) of
           None \<Rightarrow> (None, s1)
         | Some pdpt_table \<Rightarrow>
      (case walk_entry pdpt_table pdpt_index create s1 of
           (None, s2) \<Rightarrow> (None, s2)
         | (Some e3, s2) \<Rightarrow>
      (if e3 AND PTE_HUGE \<noteq> 0 then (None, s2)
       else case table_from_phys (e3 AND NOT 0xFFF) of
           None \<Rightarrow> (None, s2)
         | Some pd_table \<Rightarrow>
      (case walk_entry pd_table pd_index create s2 of
           (None, s3) \<Rightarrow> (None, s3)
         | (Some e2, s3) \<Rightarrow>
      (if e2 AND PTE_HUGE \<noteq> 0 then
         if \<not> create then (None, s3)
         else case split_huge pd_table pd_index e2 s3 of
             (None, s4) \<Rightarrow> (None, s4)
           | (Some e, s4) \<Rightarrow> (table_from_phys (e AND NOT 0xFFF), s4)
       else (table_from_phys (e2 AND NOT 0xFFF), s3))))))))"

definition map_page_root :: "u64 \<Rightarrow> u64 \<Rightarrow> u64 \<Rightarrow> u64 \<Rightarrow> mm \<Rightarrow> int \<times> mm" where
  "map_page_root root va pa flags s =
     (if va AND 0xFFF \<noteq> 0 \<or> pa AND 0xFFF \<noteq> 0 then (- 1, s)
      else case walk_create_root root va True s of
             (None, s1) \<Rightarrow> (- 1, s1)
           | (Some pt, s1) \<Rightarrow>
               let index = drop_bit 12 va AND PT_INDEX_MASK
               in if get_entry pt index s1 AND PTE_PRESENT \<noteq> 0 then (1, s1)
                  else (0, set_entry pt index ((pa AND NOT 0xFFF) OR flags OR PTE_PRESENT) s1))"

definition unmap_page_root :: "u64 \<Rightarrow> u64 \<Rightarrow> mm \<Rightarrow> int \<times> mm" where
  "unmap_page_root root va s =
     (if va AND 0xFFF \<noteq> 0 then (0, s)
      else case walk_create_root root va False s of
             (None, s1) \<Rightarrow> (0, s1)
           | (Some pt, s1) \<Rightarrow>
               let index = drop_bit 12 va AND PT_INDEX_MASK
               in if get_entry pt index s1 AND PTE_PRESENT = 0 then (0, s1)
                  else (1, set_entry pt index 0 s1))"

definition virt_to_phys_root :: "u64 \<Rightarrow> u64 \<Rightarrow> mm \<Rightarrow> u64" where
  "virt_to_phys_root root va s =
     (let pml4_index = drop_bit 39 va AND PT_INDEX_MASK;
          pdpt_index = drop_bit 30 va AND PT_INDEX_MASK;
          pd_index = drop_bit 21 va AND PT_INDEX_MASK;
          pt_index = drop_bit 12 va AND PT_INDEX_MASK
      in case table_from_phys root of None \<Rightarrow> 0 | Some pml4_table \<Rightarrow>
         let e = get_entry pml4_table pml4_index s
         in if e AND PTE_PRESENT = 0 then 0
            else case table_from_phys (e AND NOT 0xFFF) of None \<Rightarrow> 0 | Some pdpt_table \<Rightarrow>
         let e = get_entry pdpt_table pdpt_index s
         in if e AND PTE_PRESENT = 0 then 0
            else if e AND PTE_HUGE \<noteq> 0 then (e AND 0xFFFFFC0000000) OR (va AND 0x3FFFFFFF)
            else case table_from_phys (e AND NOT 0xFFF) of None \<Rightarrow> 0 | Some pd_table \<Rightarrow>
         let e = get_entry pd_table pd_index s
         in if e AND PTE_PRESENT = 0 then 0
            else if e AND PTE_HUGE \<noteq> 0 then (e AND 0xFFFFFFE00000) OR (va AND 0x1FFFFF)
            else case table_from_phys (e AND NOT 0xFFF) of None \<Rightarrow> 0 | Some pt \<Rightarrow>
         let e = get_entry pt pt_index s
         in if e AND PTE_PRESENT = 0 then 0
            else (e AND NOT 0xFFF) OR (va AND 0xFFF))"

section \<open>Address spaces\<close>

text \<open>A loop over table indices that stops at the first failure.\<close>

fun for_entries :: "(u64 \<Rightarrow> mm \<Rightarrow> bool \<times> mm) \<Rightarrow> u64 list \<Rightarrow> mm \<Rightarrow> bool \<times> mm" where
  "for_entries f [] s = (True, s)"
| "for_entries f (i # is) s =
     (case f i s of (True, s') \<Rightarrow> for_entries f is s' | (False, s') \<Rightarrow> (False, s'))"

definition indices :: "u64 list" where
  "indices = map of_nat [0..<512]"

definition clone_entry :: "(u64 \<Rightarrow> mm \<Rightarrow> u64 option \<times> mm) \<Rightarrow> nat \<Rightarrow> u64 \<Rightarrow> u64 \<Rightarrow> u64 \<Rightarrow> mm \<Rightarrow> bool \<times> mm" where
  "clone_entry clone_child level src dst i s =
     (let e = get_entry src i s
      in if e AND PTE_PRESENT = 0 then (True, s)
         else if level = 2 \<and> e AND PTE_HUGE \<noteq> 0 then (True, set_entry dst i e s)
         else if level = 1 then (True, set_entry dst i e s)
         else case clone_child (e AND NOT 0xFFF) s of
                (None, s') \<Rightarrow> (False, s'\<lparr>pm := pmm_free_page dst (pm s')\<rparr>)
              | (Some child, s') \<Rightarrow> (True, set_entry dst i (child OR (e AND 0xFFF)) s'))"

text \<open>
  The result is \<open>None\<close> where the C function clears \<open>*ok\<close>. The recursion ends at level 1, whose
  entries are copied, so level 0 is never asked for.
\<close>

primrec clone_table :: "nat \<Rightarrow> u64 \<Rightarrow> mm \<Rightarrow> u64 option \<times> mm" where
  "clone_table 0 src s = (None, s)"
| "clone_table (Suc n) src s =
     (case table_from_phys src of
        None \<Rightarrow> (None, s)
      | Some src_table \<Rightarrow>
          (case alloc_table_page s of
             (dst, s1) \<Rightarrow>
               if dst = 0 then (None, s1)
               else case table_from_phys dst of
                      None \<Rightarrow> (None, s1\<lparr>pm := pmm_free_page dst (pm s1)\<rparr>)
                    | Some dst_table \<Rightarrow>
                        (case for_entries (clone_entry (clone_table n) (Suc n) src_table dst_table) indices s1 of
                           (True, s2) \<Rightarrow> (Some dst, s2)
                         | (False, s2) \<Rightarrow> (None, s2))))"

definition destroy_entry :: "(u64 \<Rightarrow> mm \<Rightarrow> mm) \<Rightarrow> nat \<Rightarrow> u64 \<Rightarrow> u64 \<Rightarrow> mm \<Rightarrow> mm" where
  "destroy_entry destroy_child level table i s =
     (let e = get_entry table i s
      in if e AND PTE_PRESENT = 0 \<or> level = 2 \<and> e AND PTE_HUGE \<noteq> 0 then s
         else destroy_child (e AND NOT 0xFFF) s)"

primrec destroy_table :: "nat \<Rightarrow> u64 \<Rightarrow> mm \<Rightarrow> mm" where
  "destroy_table 0 p s = (case table_from_phys p of None \<Rightarrow> s | Some table \<Rightarrow> s\<lparr>pm := pmm_free_page p (pm s)\<rparr>)"
| "destroy_table (Suc n) p s =
     (case table_from_phys p of
        None \<Rightarrow> s
      | Some table \<Rightarrow>
          let s1 = (if Suc n > 1 then fold (destroy_entry (destroy_table n) (Suc n) table) indices s else s)
          in s1\<lparr>pm := pmm_free_page p (pm s1)\<rparr>)"

definition paging_map_page :: "u64 \<Rightarrow> u64 \<Rightarrow> u64 \<Rightarrow> mm \<Rightarrow> int \<times> mm" where
  "paging_map_page va pa flags s = map_page_root (pml4 (lay s)) va pa flags s"

definition paging_unmap_page :: "u64 \<Rightarrow> mm \<Rightarrow> int \<times> mm" where
  "paging_unmap_page va s = unmap_page_root (pml4 (lay s)) va s"

definition paging_kernel_cr3 :: "mm \<Rightarrow> u64" where
  "paging_kernel_cr3 s = pml4 (lay s)"

definition paging_create_address_space :: "mm \<Rightarrow> u64 \<times> mm" where
  "paging_create_address_space s =
     (case clone_table 4 (pml4 (lay s)) s of
        (None, s') \<Rightarrow> (0, s')
      | (Some root, s') \<Rightarrow> if root = 0 then (0, s') else (root, s'))"

definition paging_destroy_address_space :: "u64 \<Rightarrow> mm \<Rightarrow> mm" where
  "paging_destroy_address_space c s =
     (if c = 0 \<or> c = pml4 (lay s) then s else destroy_table 4 c s)"

definition paging_switch_cr3 :: "u64 \<Rightarrow> mm \<Rightarrow> bool \<times> mm" where
  "paging_switch_cr3 c s =
     (if c = 0 \<or> table_from_phys c = None then (False, s) else (True, s\<lparr>cr3 := c\<rparr>))"

definition paging_map_page_in_cr3 :: "u64 \<Rightarrow> u64 \<Rightarrow> u64 \<Rightarrow> u64 \<Rightarrow> mm \<Rightarrow> int \<times> mm" where
  "paging_map_page_in_cr3 c va pa flags s = map_page_root c va pa flags s"

definition paging_unmap_page_in_cr3 :: "u64 \<Rightarrow> u64 \<Rightarrow> mm \<Rightarrow> int \<times> mm" where
  "paging_unmap_page_in_cr3 c va s = unmap_page_root c va s"

definition paging_virt_to_phys_in_cr3 :: "u64 \<Rightarrow> u64 \<Rightarrow> mm \<Rightarrow> u64" where
  "paging_virt_to_phys_in_cr3 c va s = virt_to_phys_root c va s"

definition paging_virt_to_phys :: "u64 \<Rightarrow> mm \<Rightarrow> u64" where
  "paging_virt_to_phys va s = virt_to_phys_root (pml4 (lay s)) va s"

section \<open>The virtual memory manager\<close>

definition vmm_init :: "mm \<Rightarrow> mm" where
  "vmm_init s = s\<lparr>vmm_ready := True, vmm_mapped := 0\<rparr>"

definition VMM_PAGE_SIZE :: u64 where
  "VMM_PAGE_SIZE = 4096"

definition vmm_map_page :: "u64 \<Rightarrow> u64 \<Rightarrow> u64 \<Rightarrow> mm \<Rightarrow> bool \<times> mm" where
  "vmm_map_page va pa flags s =
     (if \<not> vmm_ready s then (False, s)
      else if va AND (VMM_PAGE_SIZE - 1) \<noteq> 0 then (False, s)
      else if pa AND (VMM_PAGE_SIZE - 1) \<noteq> 0 then (False, s)
      else case paging_map_page va pa flags s of
             (r, s1) \<Rightarrow> if r \<noteq> 0 then (False, s1)
                       else (True, s1\<lparr>vmm_mapped := vmm_mapped s1 + 1\<rparr>))"

definition vmm_unmap_page :: "u64 \<Rightarrow> mm \<Rightarrow> int \<times> mm" where
  "vmm_unmap_page va s =
     (if \<not> vmm_ready s \<or> va AND (VMM_PAGE_SIZE - 1) \<noteq> 0 then (0, s)
      else case paging_unmap_page va s of
             (r, s1) \<Rightarrow>
               (r, if r = 1 \<and> vmm_mapped s1 \<noteq> 0 then s1\<lparr>vmm_mapped := vmm_mapped s1 - 1\<rparr> else s1))"

definition vmm_virt_to_phys :: "u64 \<Rightarrow> mm \<Rightarrow> u64" where
  "vmm_virt_to_phys va s = (if \<not> vmm_ready s then 0 else paging_virt_to_phys va s)"

definition vmm_is_mapped :: "u64 \<Rightarrow> mm \<Rightarrow> bool" where
  "vmm_is_mapped va s = (if \<not> vmm_ready s then False else paging_virt_to_phys va s \<noteq> 0)"

end
