(* ===== verification/Address_Space.thy ===== *)
theory Address_Space
  imports Paging
begin

text \<open>
  Translation. \<open>xlate\<close> translates an address by recursion on the level of the table, \<open>tset\<close> is the
  set of the table pages a hierarchy consists of, and \<open>hier\<close> says that a hierarchy is a tree: no
  page occurs in it twice. The operations on a hierarchy change its own pages and free pages only
  (\<open>evolves\<close>); what they do to translation follows from one lemma on replacing a child,
  \<open>hier_update\<close>.
\<close>

section \<open>Entries\<close>

definition present :: "u64 \<Rightarrow> bool" where
  "present e \<longleftrightarrow> e AND PTE_PRESENT \<noteq> 0"

definition is_leaf :: "nat \<Rightarrow> u64 \<Rightarrow> bool" where
  "is_leaf level e \<longleftrightarrow> (level = 2 \<or> level = 3) \<and> e AND PTE_HUGE \<noteq> 0"

definition ent :: "memory \<Rightarrow> u64 \<Rightarrow> u64 \<Rightarrow> u64" where
  "ent m t i = load64 m (entry_addr t i)"

abbreviation index :: "u64 \<Rightarrow> bool" where
  "index i \<equiv> unat i < 512"

definition level_index :: "nat \<Rightarrow> u64 \<Rightarrow> u64" where
  "level_index l va = drop_bit (12 + 9 * (l - 1)) va AND PT_INDEX_MASK"

lemma index_level [simp]: "index (level_index l va)"
  unfolding level_index_def PT_INDEX_MASK_def mask_literals unat_and_mask by simp

lemma level_index_simps:
  "drop_bit 12 va AND PT_INDEX_MASK = level_index (Suc 0) va"
  "drop_bit 21 va AND PT_INDEX_MASK = level_index (Suc (Suc 0)) va"
  "drop_bit 30 va AND PT_INDEX_MASK = level_index (Suc (Suc (Suc 0))) va"
  "drop_bit 39 va AND PT_INDEX_MASK = level_index (Suc (Suc (Suc (Suc 0)))) va"
  by (simp_all add: level_index_def)

lemma bit_pte:
  "present e \<longleftrightarrow> bit e 0" "e AND PTE_HUGE \<noteq> 0 \<longleftrightarrow> bit e 7" "e AND PTE_PRESENT = 0 \<longleftrightarrow> \<not> bit e 0"
proof -
  show p: "present e \<longleftrightarrow> bit e 0"
    by (simp add: present_def PTE_PRESENT_def and_one_eq odd_iff_mod_2_eq_one bit_0 flip: odd_iff_mod_2_eq_one)
  then show "e AND PTE_PRESENT = 0 \<longleftrightarrow> \<not> bit e 0" unfolding present_def by blast
  have "PTE_HUGE = push_bit 7 1" by (simp add: PTE_HUGE_def)
  then show "e AND PTE_HUGE \<noteq> 0 \<longleftrightarrow> bit e 7" by (metis bit_iff_and_push_bit_not_eq_0)
qed

lemma ent_entries: "get_entry t i s = ent (phys s) t i"
  by (simp add: get_entry_def ent_def)

section \<open>Memory page by page\<close>

lemma load64_same:
  assumes "aligned8 a" and "\<And>x. page_of x = page_of a \<Longrightarrow> m' x = m x"
  shows "load64 m' a = load64 m a"
  using assms(2) [OF page_of_cell [OF assms(1), of 1]] assms(2) [OF page_of_cell [OF assms(1), of 2]]
    assms(2) [OF page_of_cell [OF assms(1), of 3]] assms(2) [OF page_of_cell [OF assms(1), of 4]]
    assms(2) [OF page_of_cell [OF assms(1), of 5]] assms(2) [OF page_of_cell [OF assms(1), of 6]]
    assms(2) [OF page_of_cell [OF assms(1), of 7]] assms(2) [of a]
  by (simp add: load64_def)

lemma ent_same:
  assumes "page_aligned t" and "index i" and "\<And>x. page_of x = t \<Longrightarrow> m' x = m x"
  shows "ent m' t i = ent m t i"
  unfolding ent_def using assms by (intro load64_same) simp_all

lemma ent_store:
  assumes "page_aligned t" "page_aligned t'" "index i" "index j"
  shows "ent (store64 m (entry_addr t i) v) t' j = (if t = t' \<and> i = j then v else ent m t' j)"
  using assms by (simp add: ent_def load64_store64 entry_addr_inj)

lemma ent_zero:
  assumes "page_aligned t" "page_aligned t'" "index j"
  shows "ent (zero_bytes m t 4096) t' j = (if t = t' then 0 else ent m t' j)"
  using assms by (auto simp: ent_def load64_zero_page)

lemma store_entry_page:
  assumes "page_aligned t" "index i" "page_of a \<noteq> t"
  shows "store64 m (entry_addr t i) v a = m a"
proof -
  have "a \<noteq> entry_addr t i + k" if "unat k < 8" for k
    using page_of_cell [OF aligned8_entry [OF assms(1,2)] that] assms by auto
  from this [of 0] this [of 1] this [of 2] this [of 3] this [of 4] this [of 5] this [of 6] this [of 7]
  show ?thesis by (simp add: store64_def)
qed

section \<open>Reference translation and tree structure\<close>

definition huge_addr :: "nat \<Rightarrow> u64 \<Rightarrow> u64 \<Rightarrow> u64" where
  "huge_addr level e va =
     (if level = 3 then (e AND 0xFFFFFC0000000) OR (va AND 0x3FFFFFFF)
      else (e AND 0xFFFFFFE00000) OR (va AND 0x1FFFFF))"

text \<open>The addresses at which the kernel can reach a table.\<close>

definition reachable :: "u64 \<Rightarrow> bool" where
  "reachable t \<longleftrightarrow> t \<noteq> 0 \<and> t < 0x100000000"

primrec xlate :: "memory \<Rightarrow> nat \<Rightarrow> u64 \<Rightarrow> u64 \<Rightarrow> u64 option" where
  "xlate m 0 t va = Some (t OR (va AND 0xFFF))"
| "xlate m (Suc l) t va =
     (if \<not> reachable t then None
      else let e = ent m t (level_index (Suc l) va)
           in if \<not> present e then None
              else if is_leaf (Suc l) e then Some (huge_addr (Suc l) e va)
              else xlate m l (page_of e) va)"

lemma level_4: "4 = Suc (Suc (Suc (Suc 0)))"
  by simp

lemma is_leaf_simps:
  "\<not> is_leaf (Suc 0) e" "\<not> is_leaf (Suc (Suc (Suc (Suc 0)))) e"
  "is_leaf (Suc (Suc 0)) e \<longleftrightarrow> e AND PTE_HUGE \<noteq> 0" "is_leaf (Suc (Suc (Suc 0))) e \<longleftrightarrow> e AND PTE_HUGE \<noteq> 0"
  by (simp_all add: is_leaf_def)

lemma case_table_from_phys:
  "(case table_from_phys p of None \<Rightarrow> a | Some t \<Rightarrow> f t) = (if \<not> reachable p then a else f p)"
  by (auto simp: table_from_phys_def reachable_def)

definition xval :: "u64 option \<Rightarrow> u64" where
  "xval r = (case r of None \<Rightarrow> 0 | Some x \<Rightarrow> x)"

lemma xval_xlate:
  "xval (xlate m 0 t va) = t OR (va AND 0xFFF)"
  "xval (xlate m (Suc l) t va) =
     (if \<not> reachable t then 0
      else let e = ent m t (level_index (Suc l) va)
           in if \<not> present e then 0
              else if is_leaf (Suc l) e then huge_addr (Suc l) e va
              else xval (xlate m l (page_of e) va))"
  by (simp_all add: xval_def Let_def)

lemma virt_to_phys_xlate: "virt_to_phys_root root va s = xval (xlate (phys s) 4 root va)"
proof -
  have h: "huge_addr (Suc (Suc (Suc 0))) e va = (e AND 0xFFFFFC0000000) OR (va AND 0x3FFFFFFF)"
    "huge_addr (Suc (Suc 0)) e va = (e AND 0xFFFFFFE00000) OR (va AND 0x1FFFFF)" for e
    by (simp_all add: huge_addr_def)
  have p: "e AND PTE_PRESENT = 0 \<longleftrightarrow> \<not> present e" for e by (simp add: present_def)
  show ?thesis
    by (simp only: virt_to_phys_root_def level_index_simps Let_def [of "level_index _ _"] ent_entries
      level_4 xval_xlate case_table_from_phys is_leaf_simps h page_of_def [symmetric] p if_False)
qed

definition child :: "memory \<Rightarrow> nat \<Rightarrow> u64 \<Rightarrow> u64 \<Rightarrow> u64 option" where
  "child m level t i =
     (let e = ent m t i in if present e \<and> \<not> is_leaf level e then Some (page_of e) else None)"

text \<open>The last-level table on the path of an address.\<close>

fun pt_of :: "memory \<Rightarrow> nat \<Rightarrow> u64 \<Rightarrow> u64 \<Rightarrow> u64 option" where
  "pt_of m (Suc (Suc l)) t va =
     (case child m (Suc (Suc l)) t (level_index (Suc (Suc l)) va) of
        None \<Rightarrow> None | Some c \<Rightarrow> pt_of m (Suc l) c va)"
| "pt_of m l t va = Some t"

primrec tset :: "memory \<Rightarrow> nat \<Rightarrow> u64 \<Rightarrow> u64 set" where
  "tset m 0 t = {}"
| "tset m (Suc l) t = insert t (\<Union>i\<in>{i. index i}. case child m (Suc l) t i of None \<Rightarrow> {} | Some c \<Rightarrow> tset m l c)"

definition csub :: "memory \<Rightarrow> nat \<Rightarrow> u64 \<Rightarrow> u64 \<Rightarrow> u64 set" where
  "csub m l t i = (case child m (Suc l) t i of None \<Rightarrow> {} | Some c \<Rightarrow> tset m l c)"

lemma csub_simps [simp]:
  "child m (Suc l) t i = None \<Longrightarrow> csub m l t i = {}"
  "child m (Suc l) t i = Some c \<Longrightarrow> csub m l t i = tset m l c"
  by (simp_all add: csub_def)

lemma tset_Suc: "tset m (Suc l) t = insert t (\<Union>i\<in>{i. index i}. csub m l t i)"
  by (simp add: csub_def)

declare tset.simps(2) [simp del]

primrec hier :: "memory \<Rightarrow> nat \<Rightarrow> u64 \<Rightarrow> bool" where
  "hier m 0 t = True"
| "hier m (Suc l) t \<longleftrightarrow> page_aligned t \<and> reachable t \<and>
     (\<forall>i c. index i \<longrightarrow> child m (Suc l) t i = Some c \<longrightarrow> hier m l c) \<and>
     (\<forall>i. index i \<longrightarrow> t \<notin> csub m l t i) \<and>
     (\<forall>i j. index i \<longrightarrow> index j \<longrightarrow> i \<noteq> j \<longrightarrow> csub m l t i \<inter> csub m l t j = {})"

lemma hierD:
  assumes "hier m (Suc l) t"
  shows "page_aligned t" "reachable t" "index i \<Longrightarrow> child m (Suc l) t i = Some c \<Longrightarrow> hier m l c"
    "index i \<Longrightarrow> t \<notin> csub m l t i"
    "index i \<Longrightarrow> index j \<Longrightarrow> i \<noteq> j \<Longrightarrow> csub m l t i \<inter> csub m l t j = {}"
    "t \<in> tset m (Suc l) t" "index i \<Longrightarrow> csub m l t i \<subseteq> tset m (Suc l) t"
  using assms by (auto simp: tset_Suc)

lemma hier_low: "hier m (Suc l) t \<Longrightarrow> table_from_phys t = Some t" "hier m (Suc l) t \<Longrightarrow> reachable t"
  by (simp_all add: table_from_phys_def reachable_def linorder_not_le)

declare hier.simps(2) [simp del]
lemmas hierI = hier.simps(2) [THEN iffD2]

lemma tset_hier: "hier m l t \<Longrightarrow> p \<in> tset m l t \<Longrightarrow> page_aligned p \<and> reachable p"
proof (induction l arbitrary: t)
  case (Suc l)
  then consider "p = t" | i c where "index i" "child m (Suc l) t i = Some c" "p \<in> tset m l c"
    by (auto simp: tset_Suc csub_def split: option.splits)
  then show ?case using Suc hierD(1,2,3) [OF Suc.prems(1)] by cases auto
qed simp

text \<open>A hierarchy depends only on its own pages.\<close>

lemma hier_frame_all:
  "hier m l t \<Longrightarrow> (\<And>a. page_of a \<in> tset m l t \<Longrightarrow> m' a = m a) \<Longrightarrow>
   tset m' l t = tset m l t \<and> (\<forall>va. xlate m' l t va = xlate m l t va) \<and> hier m' l t \<and>
   (\<forall>va. pt_of m' l t va = pt_of m l t va)"
proof (induction l arbitrary: t)
  case (Suc l)
  note D = hierD [OF Suc.prems(1)]
  have e: "ent m' t i = ent m t i" if "index i" for i
    using Suc.prems(2) D(1,6) that by (intro ent_same) auto
  then have ch: "child m' (Suc l) t i = child m (Suc l) t i" if "index i" for i
    using that by (simp add: child_def)
  have IH: "tset m' l c = tset m l c \<and> (\<forall>va. xlate m' l c va = xlate m l c va) \<and> hier m' l c \<and>
      (\<forall>va. pt_of m' l c va = pt_of m l c va)"
    if "index i" "child m (Suc l) t i = Some c" for i c
    using that D(3,7) Suc.prems(2) by (intro Suc.IH) fastforce+
  then have cs: "csub m' l t i = csub m l t i" if "index i" for i
    using that ch by (cases "child m (Suc l) t i") auto
  have "xlate m' (Suc l) t va = xlate m (Suc l) t va" for va
    using e [of "level_index (Suc l) va"] IH [of "level_index (Suc l) va"]
    by (auto simp: Let_def child_def)
  moreover have "tset m' (Suc l) t = tset m (Suc l) t"
    using cs by (simp add: tset_Suc)
  moreover have "hier m' (Suc l) t"
    using D ch cs IH by (intro hierI) auto
  moreover have "pt_of m' (Suc l) t va = pt_of m (Suc l) t va" for va
  proof (cases l)
    case (Suc k)
    then show ?thesis using ch [OF index_level] IH [OF index_level] by (simp split: option.splits)
  qed simp
  ultimately show ?case by blast
qed simp

lemmas hier_frame = hier_frame_all [THEN conjunct1]
  hier_frame_all [THEN conjunct2, THEN conjunct1, rule_format]
  hier_frame_all [THEN conjunct2, THEN conjunct2, THEN conjunct1]

text \<open>Replacing the child at index \<open>i\<close> of a table and leaving the other children alone.\<close>

lemma hier_update:
  assumes h: "hier m (Suc l) t" and i: "index i"
    and others: "\<And>j. index j \<Longrightarrow> j \<noteq> i \<Longrightarrow> ent m' t j = ent m t j"
    and frame: "\<And>a j. index j \<Longrightarrow> j \<noteq> i \<Longrightarrow> page_of a \<in> csub m l t j \<Longrightarrow> m' a = m a"
    and new: "\<And>c. child m' (Suc l) t i = Some c \<Longrightarrow> hier m' l c" "t \<notin> csub m' l t i"
      "\<And>j. index j \<Longrightarrow> j \<noteq> i \<Longrightarrow> csub m' l t i \<inter> csub m l t j = {}"
  shows "hier m' (Suc l) t"
    and "tset m' (Suc l) t \<subseteq> tset m (Suc l) t \<union> csub m' l t i"
    and "level_index (Suc l) va \<noteq> i \<Longrightarrow> xlate m' (Suc l) t va = xlate m (Suc l) t va"
    and "level_index (Suc l) va \<noteq> i \<Longrightarrow> pt_of m' (Suc l) t va = pt_of m (Suc l) t va"
proof -
  note D = hierD [OF h]
  have ch: "child m' (Suc l) t j = child m (Suc l) t j" if "index j" "j \<noteq> i" for j
    using others [OF that] by (simp add: child_def)
  have sub: "hier m' l c \<and> tset m' l c = tset m l c \<and> xlate m' l c va = xlate m l c va \<and>
      pt_of m' l c va = pt_of m l c va"
    if "index j" "j \<noteq> i" "child m (Suc l) t j = Some c" for j c va
    using hier_frame_all [OF D(3) [OF that(1,3)], of m'] frame [OF that(1,2)] that(3) by auto
  have cs: "csub m' l t j = csub m l t j" if "index j" "j \<noteq> i" for j
    using sub [OF that] ch [OF that] by (cases "child m (Suc l) t j") auto
  show "hier m' (Suc l) t"
  proof -
    have "hier m' l c" if "index j" "child m' (Suc l) t j = Some c" for j c
      using that new(1) sub ch by (cases "j = i") auto
    moreover have "t \<notin> csub m' l t j" if "index j" for j
      using that new(2) D(4) cs by (cases "j = i") auto
    moreover have "csub m' l t j \<inter> csub m' l t k = {}" if "index j" "index k" "j \<noteq> k" for j k
      using that new(3) D(5) cs by (cases "j = i"; cases "k = i") auto
    ultimately show ?thesis using D(1,2) by (intro hierI) auto
  qed
  have "csub m' l t j \<subseteq> tset m (Suc l) t \<union> csub m' l t i" if "index j" for j
    using that D(7) cs by (cases "j = i") auto
  then show "tset m' (Suc l) t \<subseteq> tset m (Suc l) t \<union> csub m' l t i"
    using D(6) by (simp add: tset_Suc) blast
  show "xlate m' (Suc l) t va = xlate m (Suc l) t va" if "level_index (Suc l) va \<noteq> i"
    using others [OF index_level that] sub [OF index_level that] by (auto simp: Let_def child_def)
  show "pt_of m' (Suc l) t va = pt_of m (Suc l) t va" if "level_index (Suc l) va \<noteq> i"
  proof (cases l)
    case (Suc k)
    then show ?thesis
      using ch [OF index_level that] sub [OF index_level that, of _ va] by (simp split: option.splits)
  qed simp
qed

section \<open>Evolution of a hierarchy\<close>

definition page_free :: "mm \<Rightarrow> u64 \<Rightarrow> bool" where
  "page_free s a \<longleftrightarrow> page_no a \<in> free_set (pm s)"

definition evolves :: "u64 set \<Rightarrow> mm \<Rightarrow> mm \<Rightarrow> bool" where
  "evolves P s s' \<longleftrightarrow> pmm_inv (pm s') \<and> free_set (pm s') \<subseteq> free_set (pm s) \<and>
     g_total_pages (pm s') = g_total_pages (pm s) \<and> s' = s\<lparr>phys := phys s', pm := pm s'\<rparr> \<and>
     (\<forall>a. page_of a \<notin> P \<longrightarrow> \<not> page_free s a \<longrightarrow> phys s' a = phys s a)"

definition sound :: "nat \<Rightarrow> u64 \<Rightarrow> mm \<Rightarrow> bool" where
  "sound l t s \<longleftrightarrow> pmm_inv (pm s) \<and> hier (phys s) l t \<and> (\<forall>p\<in>tset (phys s) l t. \<not> page_free s p)"

text \<open>
  \<open>keeps l t s s'\<close>: the step from \<open>s\<close> to \<open>s'\<close> may add table pages to the hierarchy, taken from the free
  pages, but every address translates as before.
\<close>

definition keeps :: "nat \<Rightarrow> u64 \<Rightarrow> mm \<Rightarrow> mm \<Rightarrow> bool" where
  "keeps l t s s' \<longleftrightarrow> evolves (tset (phys s) l t) s s' \<and> sound l t s' \<and>
     (\<forall>p\<in>tset (phys s') l t. p \<in> tset (phys s) l t \<or> page_free s p) \<and>
     (\<forall>va. xlate (phys s') l t va = xlate (phys s) l t va) \<and>
     (\<forall>va pt. pt_of (phys s) l t va = Some pt \<longrightarrow> pt_of (phys s') l t va = Some pt)"

lemma page_no_page_of [simp]: "page_no (page_of a) = page_no a"
  by (simp add: page_no_def unat_page_of)

lemma page_free_page_of [simp]: "page_free s (page_of a) = page_free s a"
  by (simp add: page_free_def)

lemma page_no_inj: "page_aligned p \<Longrightarrow> page_aligned q \<Longrightarrow> page_no p = page_no q \<longleftrightarrow> p = q"
  by (metis page_no_def page_of_eq_iff page_of_id)

lemma evolves_refl: "pmm_inv (pm s) \<Longrightarrow> evolves P s s"
  by (simp add: evolves_def)

lemma evolves_trans:
  assumes "evolves P s s1" "evolves Q s1 s2" "\<And>p. p \<in> Q \<Longrightarrow> p \<in> P \<or> page_free s p"
  shows "evolves P s s2"
proof -
  have "phys s2 a = phys s a" if "page_of a \<notin> P" "\<not> page_free s a" for a
  proof -
    have "page_of a \<notin> Q" using assms(3) [of "page_of a"] that by auto
    moreover have "\<not> page_free s1 a" using that assms(1) by (auto simp: evolves_def page_free_def)
    ultimately show ?thesis using assms(1,2) that by (simp add: evolves_def)
  qed
  moreover have "s2 = s\<lparr>phys := phys s2, pm := pm s2\<rparr>"
    using assms(1,2) unfolding evolves_def by (metis mm.surjective mm.update_convs(1,2))
  moreover have "g_total_pages (pm s2) = g_total_pages (pm s)" using assms(1,2) by (simp add: evolves_def)
  ultimately show ?thesis using assms(1,2) unfolding evolves_def by blast
qed

lemma evolves_mono: "evolves P s s' \<Longrightarrow> P \<subseteq> Q \<Longrightarrow> evolves Q s s'"
  unfolding evolves_def by blast

lemma evolves_lay: "evolves P s s' \<Longrightarrow> lay s' = lay s \<and> cr3 s' = cr3 s \<and> vmm_ready s' = vmm_ready s \<and>
    vmm_mapped s' = vmm_mapped s \<and> extra_slots_used s' = extra_slots_used s \<and>
    extra_slot_owner s' = extra_slot_owner s"
  unfolding evolves_def by (metis mm.select_convs mm.surjective mm.update_convs(1,2))

lemma keeps_refl: "sound l t s \<Longrightarrow> keeps l t s s"
  by (simp add: keeps_def sound_def evolves_refl)

lemma keeps_trans:
  assumes "keeps l t s s1" "keeps l t s1 s2"
  shows "keeps l t s s2"
proof -
  have "page_free s p" if "page_free s1 p" for p
    using assms(1) that by (auto simp: keeps_def evolves_def page_free_def)
  then show ?thesis using assms unfolding keeps_def by (auto intro: evolves_trans)
qed

lemma sound_child:
  assumes "sound (Suc l) t s" "index i" "child (phys s) (Suc l) t i = Some c"
  shows "sound l c s"
proof -
  have h: "hier (phys s) (Suc l) t" using assms(1) by (simp add: sound_def)
  show ?thesis
    using assms hierD(3) [OF h assms(2,3)] hierD(7) [OF h assms(2)] by (auto simp: sound_def)
qed

lemma keeps_child:
  assumes s: "sound (Suc l) t s" and i: "index i" and c: "child (phys s) (Suc l) t i = Some c"
    and k: "keeps l c s s'"
  shows "keeps (Suc l) t s s'" and "child (phys s') (Suc l) t i = Some c"
proof -
  let ?m = "phys s" and ?m' = "phys s'"
  have h: "hier ?m (Suc l) t" and nf: "\<And>p. p \<in> tset ?m (Suc l) t \<Longrightarrow> \<not> page_free s p"
    using s by (auto simp: sound_def)
  note D = hierD [OF h]
  have ev: "evolves (tset ?m l c) s s'" and c': "hier ?m' l c"
    and new: "\<And>p. p \<in> tset ?m' l c \<Longrightarrow> p \<in> tset ?m l c \<or> page_free s p"
    and x: "\<And>va. xlate ?m' l c va = xlate ?m l c va"
    and ptc: "\<And>va pt. pt_of ?m l c va = Some pt \<Longrightarrow> pt_of ?m' l c va = Some pt"
    and nf': "\<And>p. p \<in> tset ?m' l c \<Longrightarrow> \<not> page_free s' p" and inv: "pmm_inv (pm s')"
    using k by (auto simp: keeps_def sound_def)
  have same: "?m' a = ?m a" if "page_of a \<in> tset ?m (Suc l) t" "page_of a \<notin> tset ?m l c" for a
    using ev that nf [OF that(1)] by (simp add: evolves_def)
  have csc: "csub ?m l t i = tset ?m l c" using c by simp
  have et: "ent ?m' t j = ent ?m t j" if "index j" for j
    using same D(1,4,6) csc i that by (intro ent_same) auto
  then show ch: "child ?m' (Suc l) t i = Some c" using c i by (simp add: child_def)
  have fr: "?m' a = ?m a" if "index j" "j \<noteq> i" "page_of a \<in> csub ?m l t j" for a j
    using same [of a] D(5) [OF that(1) i that(2)] D(7) [OF that(1)] that(3) csc by auto
  have csi: "csub ?m' l t i = tset ?m' l c" using ch by simp
  have 1: "t \<notin> csub ?m' l t i"
    using new [of t] D(4) [OF i] D(6) nf csc csi by auto
  have 2: "csub ?m' l t i \<inter> csub ?m l t j = {}" if "index j" "j \<noteq> i" for j
    using new D(5) [OF i that(1)] D(7) [OF that(1)] nf that(2) csc csi by fastforce
  have 0: "hier ?m' l d" if "child ?m' (Suc l) t i = Some d" for d using c' ch that by simp
  have hh: "hier ?m' (Suc l) t" by (rule hier_update(1) [OF h i et fr 0 1 2])
  have ts: "tset ?m' (Suc l) t \<subseteq> tset ?m (Suc l) t \<union> csub ?m' l t i"
    by (rule hier_update(2) [OF h i et fr 0 1 2])
  have xl: "xlate ?m' (Suc l) t va = xlate ?m (Suc l) t va" for va
  proof (cases "level_index (Suc l) va = i")
    case True
    then show ?thesis using x et [OF i] c by (auto simp: Let_def child_def)
  next
    case False
    then show ?thesis by (intro hier_update(3) [OF h i et fr 0 1 2])
  qed
  have po: "pt_of ?m' (Suc l) t va = Some pt" if "pt_of ?m (Suc l) t va = Some pt" for va pt
  proof (cases "level_index (Suc l) va = i")
    case True
    then show ?thesis using that ptc c ch by (cases l) auto
  next
    case False
    then have "pt_of ?m' (Suc l) t va = pt_of ?m (Suc l) t va"
      by (intro hier_update(4) [OF h i et fr 0 1 2])
    then show ?thesis using that by simp
  qed
  have sub: "free_set (pm s') \<subseteq> free_set (pm s)" using ev by (simp add: evolves_def)
  have "\<not> page_free s' p" if "p \<in> tset ?m' (Suc l) t" for p
    using ts that nf nf' csi sub unfolding page_free_def by blast
  moreover have "evolves (tset ?m (Suc l) t) s s'"
    using evolves_mono [OF ev] D(7) [OF i] csc by simp
  ultimately show "keeps (Suc l) t s s'"
    unfolding keeps_def sound_def using inv hh xl po ts new csi csc D(7) [OF i] by blast
qed

section \<open>Fresh tables\<close>

lemma alloc_table_page_spec:
  assumes inv: "pmm_inv (pm s)" and r: "alloc_table_page s = (p, s')"
  shows "p = 0 \<Longrightarrow> s' = s"
    and "p \<noteq> 0 \<Longrightarrow> page_aligned p \<and> reachable p \<and> page_free s p \<and> \<not> page_free s' p \<and>
      phys s' = zero_bytes (phys s) p 4096 \<and> evolves {} s s'"
proof -
  obtain q a where qa: "pmm_alloc_page (pm s) = (q, a)" by fastforce
  note spec = pmm_alloc_page_spec [OF inv qa]
  have undo: "pmm_free_page q a = pm s" if "q \<noteq> 0" using pmm_free_alloc [OF inv qa that] .
  show "p = 0 \<Longrightarrow> s' = s"
    using r qa spec(4) undo
    by (auto simp: alloc_table_page_def case_table_from_phys Let_def split: if_splits)
  assume p: "p \<noteq> 0"
  have q: "p = q" "reachable q" "s' = s\<lparr>phys := zero_bytes (phys s) q 4096, pm := a\<rparr>"
    using p r qa by (auto simp: alloc_table_page_def case_table_from_phys zero_table_def reachable_def Let_def split: if_splits)
  have al: "page_aligned q" "page_no q \<in> free_set (pm s)" "free_set a = free_set (pm s) - {page_no q}"
    using spec(5) p q(1) by blast+
  have "phys s' x = phys s x" if "\<not> page_free s x" for x
    using that al(1,2) q(3) by (auto simp: zero_bytes_page page_free_def)
  then show "page_aligned p \<and> reachable p \<and> page_free s p \<and> \<not> page_free s' p \<and>
      phys s' = zero_bytes (phys s) p 4096 \<and> evolves {} s s'"
    using spec(1,2) al q by (simp add: evolves_def page_free_def)
qed

lemma bit_page_of: "bit (page_of a) n \<longleftrightarrow> 12 \<le> n \<and> bit a n"
  unfolding page_of_def mask_literals by (auto simp: bit_simps dest: bit_imp_le_length)

lemma bit_page_aligned: "page_aligned p \<Longrightarrow> bit p n \<Longrightarrow> 12 \<le> n"
  using bit_page_of [of p n] by (simp add: page_of_id)

lemma bit_low12: "f < 4096 \<Longrightarrow> bit f n \<Longrightarrow> n < 12" for f :: u64
proof -
  assume "f < 4096" and b: "bit f n"
  then have "f AND mask 12 = f" by (simp add: word_unat_eq_iff unat_and_mask word_less_nat_alt)
  with b have "bit (f AND mask 12) n" by simp
  then show "n < 12" by (simp add: bit_simps)
qed

lemma page_of_or:
  assumes "page_aligned p" and "f < 4096"
  shows "page_of (p OR f) = p"
proof (rule bit_word_eqI)
  fix n assume "n < LENGTH(64)"
  show "bit (page_of (p OR f)) n \<longleftrightarrow> bit p n"
    using bit_page_aligned [OF assms(1), of n] bit_low12 [OF assms(2), of n]
    by (auto simp: bit_page_of bit_simps)
qed

lemma table_entry:
  assumes "page_aligned p"
  shows "page_of (p OR PTE_PRESENT OR PTE_WRITABLE) = p" "present (p OR PTE_PRESENT OR PTE_WRITABLE)"
    "\<not> is_leaf l (p OR PTE_PRESENT OR PTE_WRITABLE)"
proof -
  have 3: "PTE_PRESENT OR PTE_WRITABLE = 3" by (simp add: PTE_PRESENT_def PTE_WRITABLE_def)
  show "page_of (p OR PTE_PRESENT OR PTE_WRITABLE) = p"
    unfolding 3 using assms by (rule page_of_or) simp
  show "present (p OR PTE_PRESENT OR PTE_WRITABLE)"
    unfolding bit_pte 3 by (simp add: bit_simps)
  have "\<not> bit p 7" using bit_page_aligned [OF assms, of 7] by auto
  moreover have "\<not> bit (3 :: u64) 7" using bit_low12 [of 3 7] by code_simp
  ultimately show "\<not> is_leaf l (p OR PTE_PRESENT OR PTE_WRITABLE)"
    unfolding is_leaf_def bit_pte 3 by (simp add: bit_simps)
qed

lemma zero_entry [simp]: "\<not> present 0"
  by (simp add: present_def)

lemma empty_table:
  assumes "page_aligned p" and "reachable p" and "\<And>i. index i \<Longrightarrow> ent m p i = 0"
  shows "hier m (Suc l) p" "tset m (Suc l) p = {p}" "xlate m (Suc l) p va = None"
proof -
  have "child m (Suc l) p i = None" if "index i" for i
    using assms(3) [OF that] by (simp add: child_def)
  then show "hier m (Suc l) p" "tset m (Suc l) p = {p}"
    using assms by (simp_all add: tset_Suc hier.simps)
  show "xlate m (Suc l) p va = None"
    using assms(3) [OF index_level, of "Suc l" va] by simp
qed

text \<open>
  Installing at \<open>t[i]\<close> a pointer to a page that was free, and which now holds a well-formed
  hierarchy of its own.
\<close>

lemma keeps_install:
  assumes s: "sound (Suc l) t s" and i: "index i" and leaf: "child (phys s) (Suc l) t i = None"
    and ev: "evolves {p} s s1" "page_aligned p" "page_free s p" "\<not> page_free s1 p"
    and sub: "hier (phys s1) l p" "tset (phys s1) l p \<subseteq> {p}"
    and x: "\<And>va. level_index (Suc l) va = i \<Longrightarrow> xlate (phys s1) l p va = xlate (phys s) (Suc l) t va"
  shows "keeps (Suc l) t s (set_entry t i (p OR PTE_PRESENT OR PTE_WRITABLE) s1)" (is "keeps _ _ _ ?s2")
proof -
  let ?m = "phys s" and ?m1 = "phys s1"
  let ?m2 = "phys ?s2"
  have h: "hier ?m (Suc l) t" and nf: "\<And>p. p \<in> tset ?m (Suc l) t \<Longrightarrow> \<not> page_free s p"
    and inv: "pmm_inv (pm s)"
    using s by (auto simp: sound_def)
  note D = hierD [OF h]
  have pt: "p \<noteq> t" using nf [OF D(6)] ev(3) by auto
  have m2: "?m2 = store64 ?m1 (entry_addr t i) (p OR PTE_PRESENT OR PTE_WRITABLE)"
    by (simp add: set_entry_def)
  have same1: "?m1 a = ?m a" if "\<not> page_free s a" for a
  proof -
    have "page_of a \<noteq> p" using that ev(3) by auto
    then show ?thesis using ev(1) that by (simp add: evolves_def)
  qed
  have same2: "?m2 a = ?m1 a" if "page_of a \<noteq> t" for a
    unfolding m2 using store_entry_page [OF D(1) i that] .
  have e2: "ent ?m2 t j = (if i = j then p OR PTE_PRESENT OR PTE_WRITABLE else ent ?m t j)" if "index j" for j
  proof -
    have "ent ?m1 t j = ent ?m t j"
      using nf [OF D(6)] that same1 by (intro ent_same [OF D(1)]) auto
    then show ?thesis unfolding m2 using ent_store [OF D(1) D(1) i that] by simp
  qed
  have ch: "child ?m2 (Suc l) t i = Some p"
    using e2 [OF i] table_entry [OF ev(2)] by (simp add: child_def)
  have sub2: "hier ?m2 l p" "tset ?m2 l p \<subseteq> {p}" "xlate ?m2 l p va = xlate ?m1 l p va" for va
  proof -
    have eq: "?m2 a = ?m1 a" if "page_of a \<in> tset ?m1 l p" for a using same2 [of a] sub(2) pt that by auto
    note fr = hier_frame_all [OF sub(1) eq]
    show "hier ?m2 l p" "tset ?m2 l p \<subseteq> {p}" "xlate ?m2 l p va = xlate ?m1 l p va" using fr sub(2) by auto
  qed
  have fr: "?m2 a = ?m a" if "index j" "j \<noteq> i" "page_of a \<in> csub ?m l t j" for a j
  proof -
    have "page_of a \<noteq> t" using D(4) [OF that(1)] that(3) by auto
    moreover have "\<not> page_free s a" using nf [of "page_of a"] D(7) [OF that(1)] that(3) by auto
    ultimately show ?thesis using same1 same2 by simp
  qed
  have csi: "csub ?m2 l t i \<subseteq> {p}" using ch sub2(2) by simp
  have et: "ent ?m2 t j = ent ?m t j" if "index j" "j \<noteq> i" for j using e2 that by simp
  have 0: "hier ?m2 l d" if "child ?m2 (Suc l) t i = Some d" for d using sub2(1) ch that by simp
  have 1: "t \<notin> csub ?m2 l t i" using csi pt by auto
  have 2: "csub ?m2 l t i \<inter> csub ?m l t j = {}" if "index j" "j \<noteq> i" for j
    using csi D(7) [OF that(1)] nf ev(3) by auto
  have hh: "hier ?m2 (Suc l) t" by (rule hier_update(1) [OF h i et fr 0 1 2])
  have ts: "tset ?m2 (Suc l) t \<subseteq> tset ?m (Suc l) t \<union> {p}"
  proof -
    have "tset ?m2 (Suc l) t \<subseteq> tset ?m (Suc l) t \<union> csub ?m2 l t i"
      by (rule hier_update(2) [OF h i et fr 0 1 2])
    then show ?thesis using csi by blast
  qed
  have xl: "xlate ?m2 (Suc l) t va = xlate ?m (Suc l) t va" for va
  proof (cases "level_index (Suc l) va = i")
    case True
    then have "xlate ?m2 (Suc l) t va = xlate ?m2 l p va"
      using e2 [OF i] table_entry [OF ev(2)] hier_low(2) [OF h] by (simp add: Let_def)
    then show ?thesis using x [OF True] sub2(3) by simp
  next
    case False
    then show ?thesis by (intro hier_update(3) [OF h i et fr 0 1 2])
  qed
  have po: "pt_of ?m2 (Suc l) t va = Some pt" if "pt_of ?m (Suc l) t va = Some pt" for va pt
  proof (cases "level_index (Suc l) va = i")
    case True
    then show ?thesis using that leaf by (cases l) auto
  next
    case False
    then have "pt_of ?m2 (Suc l) t va = pt_of ?m (Suc l) t va"
      by (intro hier_update(4) [OF h i et fr 0 1 2])
    then show ?thesis using that by simp
  qed
  have pm2: "pm ?s2 = pm s1" by (simp add: set_entry_def)
  have e12: "evolves {t} s1 ?s2"
    using ev(1) same2 by (simp add: evolves_def) (simp add: set_entry_def)
  have "evolves (insert t {p}) s ?s2"
    by (rule evolves_trans [OF evolves_mono [OF ev(1)] e12]) auto
  then have "evolves (tset ?m (Suc l) t \<union> {p}) s ?s2"
    by (rule evolves_mono) (use D(6) in auto)
  then have ev2: "evolves (tset ?m (Suc l) t) s ?s2"
    using ev(3) unfolding evolves_def by auto
  have "\<not> page_free ?s2 q" if "q \<in> tset ?m2 (Suc l) t" for q
  proof -
    have "page_free ?s2 q = page_free s1 q" by (simp add: page_free_def pm2)
    moreover have "free_set (pm s1) \<subseteq> free_set (pm s)" using ev(1) by (simp add: evolves_def)
    ultimately show ?thesis using ts that nf ev(4) unfolding page_free_def by blast
  qed
  then show ?thesis
    unfolding keeps_def sound_def using ev2 hh xl po ts ev(3) by (auto simp: evolves_def)
qed

lemma walk_entry_spec:
  assumes s: "sound (Suc (Suc l)) t s" and i: "index i" and r: "walk_entry t i create s = (r, s1)"
  shows "keeps (Suc (Suc l)) t s s1" and "r = Some e \<Longrightarrow> e = ent (phys s1) t i \<and> present e"
    and "\<not> create \<Longrightarrow> s1 = s"
proof -
  have inv: "pmm_inv (pm s)" and h: "hier (phys s) (Suc (Suc l)) t" using s by (auto simp: sound_def)
  note D = hierD [OF h]
  have "keeps (Suc (Suc l)) t s s1 \<and> (\<forall>e. r = Some e \<longrightarrow> e = ent (phys s1) t i \<and> present e)"
  proof (cases "present (ent (phys s) t i) \<or> \<not> create")
    case True
    then show ?thesis
      using r keeps_refl [OF s] by (auto simp: walk_entry_def ent_entries Let_def present_def split: if_splits)
  next
    case False
    obtain p s' where a: "alloc_table_page s = (p, s')" by fastforce
    note spec = alloc_table_page_spec [OF inv a]
    show ?thesis
    proof (cases "p = 0")
      case True
      then show ?thesis
        using r False a spec(1) keeps_refl [OF s]
        by (auto simp: walk_entry_def ent_entries Let_def present_def)
    next
      case p: False
      then have sp: "page_aligned p" "reachable p" "page_free s p" "\<not> page_free s' p"
        "phys s' = zero_bytes (phys s) p 4096" "evolves {} s s'"
        using spec(2) by auto
      have z: "ent (phys s') p j = 0" if "index j" for j
        unfolding sp(5) using ent_zero [OF sp(1) sp(1) that] by simp
      note em = empty_table [OF sp(1,2) z]
      have s1: "s1 = set_entry t i (p OR PTE_PRESENT OR PTE_WRITABLE) s'"
        and rr: "r = Some (ent (phys s1) t i)"
        using r False a p by (auto simp: walk_entry_def ent_entries Let_def present_def)
      have "keeps (Suc (Suc l)) t s s1"
        unfolding s1
      proof (rule keeps_install [OF s i _ evolves_mono [OF sp(6)] sp(1,3,4) em(1)])
        show "child (phys s) (Suc (Suc l)) t i = None" using False by (simp add: child_def)
        show "tset (phys s') (Suc l) p \<subseteq> {p}" using em(2) by simp
        show "xlate (phys s') (Suc l) p va = xlate (phys s) (Suc (Suc l)) t va"
          if "level_index (Suc (Suc l)) va = i" for va
          using em(3) False that by simp
      qed simp
      moreover have "present (ent (phys s1) t i)"
        unfolding s1 set_entry_def using ent_store [OF D(1) D(1) i i] table_entry(2) [OF sp(1)] by simp
      ultimately show ?thesis using rr by simp
    qed
  qed
  then show "keeps (Suc (Suc l)) t s s1" "r = Some e \<Longrightarrow> e = ent (phys s1) t i \<and> present e" by auto
  show "\<not> create \<Longrightarrow> s1 = s"
    using r by (auto simp: walk_entry_def Let_def split: if_splits)
qed

section \<open>Splitting a huge page\<close>

definition fill :: "u64 \<Rightarrow> (nat \<Rightarrow> u64) \<Rightarrow> nat list \<Rightarrow> memory \<Rightarrow> memory" where
  "fill t f ks m = fold (\<lambda>k m. store64 m (entry_addr t (of_nat k)) (f k)) ks m"

lemma fold_set_entry: "fold (\<lambda>k. set_entry t (of_nat k) (f k)) ks s = s\<lparr>phys := fill t f ks (phys s)\<rparr>"
  by (induction ks arbitrary: s) (simp_all add: set_entry_def fill_def)

lemma index_of_nat: "k < 512 \<Longrightarrow> index (of_nat k)"
  by (simp add: unat_of_nat_u64)

lemma of_nat_index_inj: "j < 512 \<Longrightarrow> k < 512 \<Longrightarrow> (of_nat j :: u64) = of_nat k \<longleftrightarrow> j = k"
proof
  assume jk: "j < 512" "k < 512" and eq: "(of_nat j :: u64) = of_nat k"
  from jk have "unat (of_nat j :: u64) = j" "unat (of_nat k :: u64) = k" by (simp_all add: unat_of_nat_u64)
  with eq show "j = k" by metis
qed simp

lemma fill_page:
  assumes "page_aligned t" and "list_all (\<lambda>k. k < 512) ks" and "page_of a \<noteq> t"
  shows "fill t f ks m a = m a"
  using assms(2)
  by (induction ks arbitrary: m) (simp_all add: fill_def store_entry_page [OF assms(1) index_of_nat assms(3)])

lemma ent_fill:
  assumes t: "page_aligned t" and "list_all (\<lambda>k. k < 512) ks" and "k < 512"
  shows "ent (fill t f ks m) t (of_nat k) = (if k \<in> set ks then f k else ent m t (of_nat k))"
  using assms(2)
proof (induction ks arbitrary: m)
  case (Cons j ks)
  have "ent (store64 m (entry_addr t (of_nat j)) (f j)) t (of_nat k) = (if j = k then f j else ent m t (of_nat k))"
    using Cons.prems assms(3) by (simp add: ent_store [OF t t] index_of_nat of_nat_index_inj)
  with Cons show ?case by (auto simp: fill_def)
qed (simp add: fill_def)

text \<open>The 4 KiB leaves of a split page translate as the 2 MiB leaf did.\<close>

lemma split_leaf:
  fixes e w :: u64
  assumes "present e" and "index w"
  defines "v \<equiv> ((e AND 0xFFFFFFE00000) + w * PAGE_SIZE) OR ((e AND 0xFFF) AND NOT PTE_HUGE)"
  shows "present v" and "w = level_index (Suc 0) va \<Longrightarrow>
    page_of v OR (va AND 0xFFF) = (e AND 0xFFFFFFE00000) OR (va AND 0x1FFFFF)"
proof -
  have m: "(0xFFFFFFE00000 :: u64) = mask 48 AND NOT (mask 21)" by (simp add: mask_eq_exp_minus_1)
  have sh: "w * PAGE_SIZE = push_bit 12 w" by (simp add: push_bit_eq_mult)
  have "w AND mask 9 = w" using assms(2) by (simp add: word_unat_eq_iff unat_and_mask)
  then have bk: "n < 9" if "bit w n" for n
    using that by (metis bit_and_iff bit_mask_iff)
  have plus: "(e AND 0xFFFFFFE00000) + w * PAGE_SIZE = (e AND 0xFFFFFFE00000) OR push_bit 12 w"
    unfolding sh m
  proof (rule disjunctive_add)
    show "\<not> bit (e AND (mask 48 AND NOT (mask 21))) n \<or> \<not> bit (push_bit 12 w) n" for n
      using bk [of "n - 12"] by (auto simp: bit_simps)
  qed
  have h: "bit PTE_HUGE n \<longleftrightarrow> n = 7" for n
  proof -
    have e: "PTE_HUGE = push_bit 7 1" by (simp add: PTE_HUGE_def)
    show ?thesis unfolding e by (simp only: bit_push_bit_iff bit_1_iff) auto
  qed
  have v: "bit v n \<longleftrightarrow> n < 64 \<and> (21 \<le> n \<and> n < 48 \<and> bit e n \<or> 12 \<le> n \<and> bit w (n - 12) \<or>
      n < 12 \<and> bit e n \<and> n \<noteq> 7)" for n
    unfolding v_def plus unfolding m mask_literals by (auto simp: bit_simps h)
  show "present v" using assms(1) v unfolding bit_pte by simp
  assume k: "w = level_index (Suc 0) va"
  have kb: "bit w n \<longleftrightarrow> n < 9 \<and> bit va (12 + n)" for n
    unfolding k level_index_def PT_INDEX_MASK_def mask_literals by (auto simp: bit_simps)
  show "page_of v OR (va AND 0xFFF) = (e AND 0xFFFFFFE00000) OR (va AND 0x1FFFFF)"
    unfolding m mask_literals
    by (rule bit_word_eqI) (auto simp: bit_simps bit_page_of v kb)
qed

lemma split_huge_spec:
  assumes s: "sound (Suc (Suc 0)) t s" and i: "index i" and e: "e = ent (phys s) t i" "present e"
    and leaf: "e AND PTE_HUGE \<noteq> 0" and r: "split_huge t i e s = (r, s3)"
  shows "keeps (Suc (Suc 0)) t s s3"
    and "r = Some e' \<Longrightarrow> e' = ent (phys s3) t i \<and> present e' \<and> e' AND PTE_HUGE = 0"
proof -
  have inv: "pmm_inv (pm s)" and h: "hier (phys s) (Suc (Suc 0)) t" using s by (auto simp: sound_def)
  note D = hierD [OF h]
  obtain p s1 where a: "alloc_table_page s = (p, s1)" by fastforce
  note spec = alloc_table_page_spec [OF inv a]
  have "keeps (Suc (Suc 0)) t s s3 \<and> (\<forall>e'. r = Some e' \<longrightarrow> e' = ent (phys s3) t i \<and> present e' \<and> e' AND PTE_HUGE = 0)"
  proof (cases "p = 0")
    case True
    then show ?thesis using r a spec(1) keeps_refl [OF s] by (auto simp: split_huge_def)
  next
    case False
    then have sp: "page_aligned p" "reachable p" "page_free s p" "\<not> page_free s1 p"
      "phys s1 = zero_bytes (phys s) p 4096" "evolves {} s s1"
      using spec(2) by auto
    let ?f = "\<lambda>k. ((e AND 0xFFFFFFE00000) + of_nat k * PAGE_SIZE) OR ((e AND 0xFFF) AND NOT PTE_HUGE)"
    define s2 where "s2 = fold (\<lambda>k. set_entry p (of_nat k) (?f k)) [0..<512] s1"
    have s2: "s2 = s1\<lparr>phys := fill p ?f [0..<512] (phys s1)\<rparr>" unfolding s2_def by (rule fold_set_entry)
    have f: "page_of a \<noteq> p \<Longrightarrow> phys s2 a = phys s1 a" "k < 512 \<Longrightarrow> ent (phys s2) p (of_nat k) = ?f k" for a k
      using fill_page [OF sp(1), of "[0..<512]"] ent_fill [OF sp(1), of "[0..<512]"]
      by (simp_all add: s2 list_all_iff)
    have s3: "s3 = set_entry t i (p OR PTE_PRESENT OR PTE_WRITABLE) s2" and rr: "r = Some (ent (phys s3) t i)"
      using r a False by (auto simp: split_huge_def ent_entries Let_def s2_def)
    have ev2: "evolves {p} s1 s2" using f(1) sp(6) by (simp add: evolves_def) (simp add: s2)
    have pm2: "pm s2 = pm s1" by (simp add: s2)
    have h2: "hier (phys s2) (Suc 0) p" "tset (phys s2) (Suc 0) p \<subseteq> {p}"
      using sp(1,2) by (auto simp: tset_Suc csub_def hier.simps split: option.splits)
    have x: "xlate (phys s2) (Suc 0) p va = xlate (phys s) (Suc (Suc 0)) t va"
      if "level_index (Suc (Suc 0)) va = i" for va
    proof -
      define k where "k = unat (level_index (Suc 0) va)"
      have k: "k < 512" "of_nat k = level_index (Suc 0) va" by (simp_all add: k_def)
      have "ent (phys s2) p (level_index (Suc 0) va) = ?f k" using f(2) [OF k(1)] k(2) by simp
      then show ?thesis
        using that e leaf hier_low(2) [OF h] sp(2)
          split_leaf [OF e(2) index_level [of "Suc 0" va]] k(2)
        by (simp add: Let_def is_leaf_simps huge_addr_def)
    qed
    have "keeps (Suc (Suc 0)) t s s3"
      unfolding s3
    proof (rule keeps_install [OF s i _ _ sp(1,3) _ h2 x])
      show "child (phys s) (Suc (Suc 0)) t i = None" using e leaf by (simp add: child_def is_leaf_simps)
      show "evolves {p} s s2" by (rule evolves_trans [OF evolves_mono [OF sp(6)] ev2]) auto
      show "\<not> page_free s2 p" using sp(4) pm2 by (simp add: page_free_def)
    qed
    moreover have "ent (phys s3) t i = p OR PTE_PRESENT OR PTE_WRITABLE"
      unfolding s3 set_entry_def using ent_store [OF D(1) D(1) i i] by simp
    ultimately show ?thesis
      using rr table_entry(2) [OF sp(1)] table_entry(3) [OF sp(1), of "Suc (Suc 0)"] by (simp add: is_leaf_simps)
  qed
  then show "keeps (Suc (Suc 0)) t s s3"
    "r = Some e' \<Longrightarrow> e' = ent (phys s3) t i \<and> present e' \<and> e' AND PTE_HUGE = 0" by auto
qed

section \<open>The walk\<close>

text \<open>\<open>walk_create_root\<close> by recursion on the level.\<close>

fun walk :: "nat \<Rightarrow> u64 \<Rightarrow> u64 \<Rightarrow> bool \<Rightarrow> mm \<Rightarrow> u64 option \<times> mm" where
  "walk (Suc (Suc l)) t va create s =
     (case table_from_phys t of
        None \<Rightarrow> (None, s)
      | Some table \<Rightarrow>
          (case walk_entry table (level_index (Suc (Suc l)) va) create s of
             (None, s1) \<Rightarrow> (None, s1)
           | (Some e, s1) \<Rightarrow>
               if is_leaf (Suc (Suc l)) e then
                 if \<not> create \<or> Suc (Suc l) \<noteq> 2 then (None, s1)
                 else case split_huge table (level_index (Suc (Suc l)) va) e s1 of
                     (None, s2) \<Rightarrow> (None, s2)
                   | (Some e', s2) \<Rightarrow> walk (Suc l) (page_of e') va create s2
               else walk (Suc l) (page_of e) va create s1))"
| "walk l t va create s = (table_from_phys t, s)"

lemma walk_create_root_walk: "walk_create_root root va create s = walk 4 root va create s"
  unfolding walk_create_root_def level_index_simps level_4 walk.simps is_leaf_simps page_of_def Let_def
  by (simp add: is_leaf_simps cong: option.case_cong prod.case_cong if_cong)

lemma walk_spec:
  "sound (Suc l) t s \<Longrightarrow> walk (Suc l) t va create s = (r, s') \<Longrightarrow>
   keeps (Suc l) t s s' \<and> (\<forall>pt. r = Some pt \<longrightarrow> pt_of (phys s') (Suc l) t va = Some pt) \<and>
   (\<not> create \<longrightarrow> s' = s)"
proof (induction l arbitrary: t s r s')
  case 0
  then show ?case using keeps_refl [OF 0(1)] by (auto simp: table_from_phys_def split: if_splits)
next
  case (Suc l)
  let ?L = "Suc (Suc l)"
  let ?i = "level_index ?L va"
  note s = Suc.prems(1)
  have t: "table_from_phys t = Some t"
    using s hier_low(1) unfolding sound_def by blast
  obtain r1 s1 where w: "walk_entry t ?i create s = (r1, s1)" by fastforce
  note we = walk_entry_spec [OF s index_level w]
  have s1: "sound ?L t s1" using we(1) by (simp add: keeps_def)
  show ?case
  proof (cases r1)
    case None
    then show ?thesis using Suc.prems(2) t w we by auto
  next
    case (Some e)
    have e: "e = ent (phys s1) t ?i" "present e" using we(2) [OF Some] by auto
    have descend: "keeps ?L t s s' \<and> (\<forall>pt. r = Some pt \<longrightarrow> pt_of (phys s') ?L t va = Some pt) \<and>
        (\<not> create \<longrightarrow> s' = s2)"
      if k2: "keeps ?L t s1 s2" and e2: "ent (phys s2) t ?i = e2" "present e2" "\<not> is_leaf ?L e2"
        and rest: "walk (Suc l) (page_of e2) va create s2 = (r, s')" for e2 s2
    proof -
      have s2: "sound ?L t s2" using k2 by (simp add: keeps_def)
      have c: "child (phys s2) ?L t ?i = Some (page_of e2)" using e2 by (simp add: child_def)
      have sc: "sound (Suc l) (page_of e2) s2" by (rule sound_child [OF s2 index_level c])
      note ih = Suc.IH [OF sc rest]
      note kc = keeps_child [OF s2 index_level c]
      have "keeps ?L t s2 s'" "child (phys s') ?L t ?i = Some (page_of e2)" using kc ih by auto
      then show ?thesis
        using keeps_trans [OF we(1) keeps_trans [OF k2]] ih by auto
    qed
    show ?thesis
    proof (cases "is_leaf ?L e")
      case False
      then have "walk (Suc l) (page_of e) va create s1 = (r, s')"
        using Suc.prems(2) t w Some by simp
      then show ?thesis using descend [OF keeps_refl [OF s1] e(1) [symmetric] e(2) False] we(3) by simp
    next
      case leaf: True
      show ?thesis
      proof (cases "l = 0 \<and> create")
        case False
        then show ?thesis using Suc.prems(2) t w Some leaf we by auto
      next
        case True
        then have l0: "l = 0" and cr: create by simp_all
        have wk: "walk ?L t va create s = (case split_huge t ?i e s1 of (None, s2) \<Rightarrow> (None, s2)
            | (Some e', s2) \<Rightarrow> walk (Suc l) (page_of e') va create s2)"
          using t w Some leaf by (simp add: l0 cr split: prod.splits option.splits)
        obtain r2 s2 where sp: "split_huge t ?i e s1 = (r2, s2)" by fastforce
        have lf: "e AND PTE_HUGE \<noteq> 0" using leaf by (simp add: is_leaf_def)
        note sh = split_huge_spec [OF s1 [unfolded l0] index_level e lf sp]
        have k2: "keeps ?L t s1 s2" using sh(1) by (simp only: l0)
        show ?thesis
        proof (cases r2)
          case None
          then show ?thesis using Suc.prems(2) wk sp cr keeps_trans [OF we(1) k2] by simp
        next
          case (Some e2)
          then have "walk (Suc l) (page_of e2) va create s2 = (r, s')"
            using Suc.prems(2) wk sp by simp
          moreover have "ent (phys s2) t ?i = e2" "present e2" "\<not> is_leaf ?L e2"
            using sh(2) [OF Some] l0 by (auto simp: is_leaf_simps)
          ultimately show ?thesis using descend [OF k2] cr by blast
        qed
      qed
    qed
  qed
qed

section \<open>Writing a last-level entry\<close>

definition same_path :: "nat \<Rightarrow> u64 \<Rightarrow> u64 \<Rightarrow> bool" where
  "same_path l va va' \<longleftrightarrow> (\<forall>k. 0 < k \<longrightarrow> k \<le> l \<longrightarrow> level_index k va' = level_index k va)"

lemma same_path_Suc: "same_path (Suc l) va va' \<longleftrightarrow> level_index (Suc l) va' = level_index (Suc l) va \<and> same_path l va va'"
  by (auto simp: same_path_def le_Suc_eq)

lemma same_path_0 [simp]: "same_path 0 va va'"
  by (simp add: same_path_def)

definition leaf_xlate :: "u64 \<Rightarrow> u64 \<Rightarrow> u64 option" where
  "leaf_xlate v va = (if present v then Some (page_of v OR (va AND 0xFFF)) else None)"

lemma xlate_pt_of:
  "hier m (Suc l) t \<Longrightarrow> pt_of m (Suc l) t va = Some pt \<Longrightarrow>
   xlate m (Suc l) t va = leaf_xlate (ent m pt (level_index (Suc 0) va)) va"
proof (induction l arbitrary: t)
  case 0
  then show ?case using hier_low(2) [OF 0(1)] by (simp add: leaf_xlate_def is_leaf_simps Let_def)
next
  case (Suc l)
  then obtain c where c: "child m (Suc (Suc l)) t (level_index (Suc (Suc l)) va) = Some c"
    and p: "pt_of m (Suc l) c va = Some pt" by (auto split: option.splits)
  have "xlate m (Suc (Suc l)) t va = xlate m (Suc l) c va"
    using c hier_low(2) [OF Suc.prems(1)] by (auto simp: child_def Let_def split: if_splits)
  then show ?case using Suc.IH [OF hierD(3) [OF Suc.prems(1) index_level c] p] by simp
qed

lemma store_leaf:
  fixes m va v
  shows "hier m (Suc l) t \<Longrightarrow> pt_of m (Suc l) t va = Some pt \<Longrightarrow>
   pt \<in> tset m (Suc l) t \<and> index (level_index (Suc 0) va) \<and>
   (let m' = store64 m (entry_addr pt (level_index (Suc 0) va)) v
    in hier m' (Suc l) t \<and> tset m' (Suc l) t = tset m (Suc l) t \<and> (\<forall>va'. pt_of m' (Suc l) t va' = pt_of m (Suc l) t va') \<and>
       (\<forall>va'. xlate m' (Suc l) t va' =
          (if same_path (Suc l) va va' then leaf_xlate v va' else xlate m (Suc l) t va')))"
proof (induction l arbitrary: t)
  case 0
  let ?m' = "store64 m (entry_addr t (level_index (Suc 0) va)) v"
  note D = hierD [OF 0(1)]
  have "hier ?m' (Suc 0) t"
    using D(1,2) by (intro hierI) (auto simp: csub_def split: option.splits)
  moreover have "tset M (Suc 0) t = {t}" for M
    by (auto simp: tset_Suc csub_def split: option.splits)
  moreover have "xlate ?m' (Suc 0) t va' = (if same_path (Suc 0) va va' then leaf_xlate v va' else xlate m (Suc 0) t va')" for va'
    using hier_low(2) [OF 0(1)] ent_store [OF D(1) D(1) index_level [of "Suc 0" va] index_level [of "Suc 0" va']]
    by (auto simp: same_path_Suc leaf_xlate_def is_leaf_simps Let_def)
  moreover have "pt = t" using 0(2) by simp
  ultimately show ?case by (simp only: Let_def index_level) simp
next
  case (Suc l)
  let ?L = "Suc (Suc l)" and ?i = "level_index (Suc (Suc l)) va"
  let ?m' = "store64 m (entry_addr pt (level_index (Suc 0) va)) v"
  obtain c where c: "child m ?L t ?i = Some c" and p: "pt_of m (Suc l) c va = Some pt"
    using Suc.prems(2) by (auto split: option.splits)
  note h = Suc.prems(1)
  note D = hierD [OF h]
  have hc: "hier m (Suc l) c" by (rule D(3) [OF index_level c])
  note ih = Suc.IH [OF hc p]
  have pt: "pt \<in> tset m (Suc l) c" using ih by blast
  have pa: "page_aligned pt" using tset_hier [OF hc pt] by simp
  have csc: "csub m (Suc l) t ?i = tset m (Suc l) c" using c by simp
  have ptt: "pt \<noteq> t" using D(4) [OF index_level] csc pt by auto
  have same: "?m' a = m a" if "page_of a \<noteq> pt" for a
    using store_entry_page [OF pa index_level that] .
  have et: "ent ?m' t j = ent m t j" if "index j" for j
    using same ptt by (intro ent_same [OF D(1) that]) auto
  have ch: "child ?m' ?L t ?i = Some c" using et [OF index_level] c by (simp add: child_def)
  have ihm: "hier ?m' (Suc l) c" "tset ?m' (Suc l) c = tset m (Suc l) c"
    "pt_of ?m' (Suc l) c va' = pt_of m (Suc l) c va'"
    "xlate ?m' (Suc l) c va' = (if same_path (Suc l) va va' then leaf_xlate v va' else xlate m (Suc l) c va')" for va'
    using ih by (simp_all add: Let_def)
  have fr: "?m' a = m a" if "index j" "j \<noteq> ?i" "page_of a \<in> csub m (Suc l) t j" for a j
    using D(5) [OF that(1) index_level that(2)] csc pt that(3) by (intro same) auto
  have csi: "csub ?m' (Suc l) t ?i = tset m (Suc l) c" using ch ihm(2) by simp
  have 0: "hier ?m' (Suc l) d" if "child ?m' ?L t ?i = Some d" for d using ihm(1) ch that by simp
  have 1: "t \<notin> csub ?m' (Suc l) t ?i" using D(4) [OF index_level [of ?L va]] csc csi by simp
  have 2: "csub ?m' (Suc l) t ?i \<inter> csub m (Suc l) t j = {}" if "index j" "j \<noteq> ?i" for j
    using D(5) [OF index_level [of ?L va] that(1)] that(2) csc csi by auto
  have hh: "hier ?m' ?L t" by (rule hier_update(1) [OF h index_level et fr 0 1 2])
  have "csub ?m' (Suc l) t j = csub m (Suc l) t j" if "index j" for j
  proof (cases "j = ?i")
    case False
    then have "child ?m' ?L t j = child m ?L t j" using et [OF that] by (simp add: child_def)
    moreover have "tset ?m' (Suc l) d = tset m (Suc l) d" if "child m ?L t j = Some d" for d
      by (rule hier_frame(1) [OF D(3) [OF \<open>index j\<close> that]])
        (use fr [OF \<open>index j\<close> False] csub_simps(2) [OF that] in blast)
    ultimately show ?thesis by (simp add: csub_def split: option.splits)
  qed (simp add: csc csi)
  then have ts: "tset ?m' ?L t = tset m ?L t" by (simp add: tset_Suc [of _ "Suc l"])
  have xf: "xlate ?m' ?L t va' = (if same_path ?L va va' then leaf_xlate v va' else xlate m ?L t va')" for va'
  proof (cases "level_index ?L va' = ?i")
    case True
    have "xlate M ?L t va' = xlate M (Suc l) c va'" if "child M ?L t ?i = Some c" for M
      using that True hier_low(2) [OF h] by (auto simp: child_def Let_def split: if_splits)
    then show ?thesis using ihm(4) [of va'] ch c True by (simp only: same_path_Suc [of "Suc l"] if_True simp_thms)
  next
    case False
    then have "xlate ?m' ?L t va' = xlate m ?L t va'"
      by (intro hier_update(3) [OF h index_level et fr 0 1 2])
    then show ?thesis using False by (simp only: same_path_Suc [of "Suc l"] if_False simp_thms)
  qed
  have pf: "pt_of ?m' ?L t va' = pt_of m ?L t va'" for va'
  proof (cases "level_index ?L va' = ?i")
    case True
    then show ?thesis using ch c ihm(3) by simp
  next
    case False
    then show ?thesis by (intro hier_update(4) [OF h index_level et fr 0 1 2])
  qed
  have ptm: "pt \<in> tset m ?L t" using pt D(7) [OF index_level [of ?L va]] csc by blast
  show ?case unfolding Let_def by (intro conjI allI; fact ptm index_level hh ts pf xf)
qed

section \<open>Mapping and unmapping\<close>

text \<open>The virtual page number: bits 12 to 47 of the address, which select the entry at each level.\<close>

definition vpn :: "u64 \<Rightarrow> u64" where
  "vpn va = drop_bit 12 va AND mask 36"

lemma same_path_vpn: "same_path 4 va va' \<longleftrightarrow> vpn va' = vpn va"
proof -
  have li: "bit (level_index (Suc l) va) n \<longleftrightarrow> n < 9 \<and> bit va (12 + 9 * l + n)" for l va n
    unfolding level_index_def PT_INDEX_MASK_def mask_literals by (auto simp: bit_simps)
  have vp: "bit (vpn va) n \<longleftrightarrow> n < 36 \<and> bit va (12 + n)" for va n
    unfolding vpn_def by (auto simp: bit_simps)
  have "same_path 4 va va' \<longleftrightarrow> (\<forall>l<4. level_index (Suc l) va' = level_index (Suc l) va)"
    unfolding same_path_def by (auto simp: less_Suc_eq_le Suc_le_eq gr0_conv_Suc)
  also have "\<dots> \<longleftrightarrow> (\<forall>l<4. \<forall>n<9. bit va' (12 + 9 * l + n) = bit va (12 + 9 * l + n))"
  proof -
    have "level_index (Suc l) va' = level_index (Suc l) va \<longleftrightarrow>
        (\<forall>n<9. bit va' (12 + 9 * l + n) = bit va (12 + 9 * l + n))" for l
    proof
      assume "level_index (Suc l) va' = level_index (Suc l) va"
      then have "bit (level_index (Suc l) va') n = bit (level_index (Suc l) va) n" for n by simp
      then show "\<forall>n<9. bit va' (12 + 9 * l + n) = bit va (12 + 9 * l + n)" unfolding li by blast
    qed (intro bit_eqI, auto simp: li)
    then show ?thesis by blast
  qed
  also have "\<dots> \<longleftrightarrow> (\<forall>n<36. bit va' (12 + n) = bit va (12 + n))"
  proof
    assume *: "\<forall>l<4. \<forall>n<9. bit va' (12 + 9 * l + n) = bit va (12 + 9 * l + n)"
    show "\<forall>n<36. bit va' (12 + n) = bit va (12 + n)"
    proof (intro allI impI)
      fix n :: nat assume "n < 36"
      then have "n div 9 < 4" "n mod 9 < 9" by auto
      with * have "bit va' (12 + 9 * (n div 9) + n mod 9) = bit va (12 + 9 * (n div 9) + n mod 9)" by blast
      moreover have "12 + 9 * (n div 9) + n mod 9 = 12 + n" by simp
      ultimately show "bit va' (12 + n) = bit va (12 + n)" by simp
    qed
  next
    assume *: "\<forall>n<36. bit va' (12 + n) = bit va (12 + n)"
    show "\<forall>l<4. \<forall>n<9. bit va' (12 + 9 * l + n) = bit va (12 + 9 * l + n)"
    proof (intro allI impI)
      fix l n :: nat assume "l < 4" "n < 9"
      then have "9 * l + n < 36" by simp
      with * have "bit va' (12 + (9 * l + n)) = bit va (12 + (9 * l + n))" by blast
      then show "bit va' (12 + 9 * l + n) = bit va (12 + 9 * l + n)" by (simp add: add.assoc)
    qed
  qed
  also have "\<dots> \<longleftrightarrow> vpn va' = vpn va"
  proof
    assume "vpn va' = vpn va"
    then have "bit (vpn va') n = bit (vpn va) n" for n by simp
    then show "\<forall>n<36. bit va' (12 + n) = bit va (12 + n)" unfolding vp by blast
  qed (intro bit_eqI, auto simp: vp)
  finally show ?thesis .
qed

lemma xlate_None_same_path:
  "same_path l va va' \<Longrightarrow> xlate m l t va' = None \<longleftrightarrow> xlate m l t va = None"
  by (induction l arbitrary: t) (auto simp: same_path_Suc Let_def)

text \<open>The state after writing the last-level entry for \<open>va\<close>.\<close>

lemma set_leaf:
  fixes v :: u64
  assumes s: "sound 4 root s" and p: "pt_of (phys s) 4 root va = Some pt"
  defines "s' \<equiv> set_entry pt (level_index (Suc 0) va) v s"
  shows "sound 4 root s'" "evolves (tset (phys s) 4 root) s s'" "tset (phys s') 4 root = tset (phys s) 4 root"
    "xlate (phys s') 4 root va' = (if vpn va' = vpn va then leaf_xlate v va' else xlate (phys s) 4 root va')"
    "xlate (phys s) 4 root va = leaf_xlate (ent (phys s) pt (level_index (Suc 0) va)) va"
    "pt_of (phys s') 4 root va' = pt_of (phys s) 4 root va'" "ent (phys s') pt (level_index (Suc 0) va) = v"
proof -
  have h: "hier (phys s) 4 root" and inv: "pmm_inv (pm s)"
    and nf: "\<And>p. p \<in> tset (phys s) 4 root \<Longrightarrow> \<not> page_free s p"
    using s by (auto simp: sound_def)
  have ph: "phys s' = store64 (phys s) (entry_addr pt (level_index (Suc 0) va)) v" "pm s' = pm s"
    by (simp_all add: s'_def set_entry_def)
  note sl = store_leaf [OF h [unfolded level_4] p [unfolded level_4], of v, folded level_4, unfolded Let_def, folded ph(1)]
  have pt: "pt \<in> tset (phys s) 4 root" using sl by blast
  have pa: "page_aligned pt" using tset_hier [OF h pt] by simp
  show ts: "tset (phys s') 4 root = tset (phys s) 4 root" using sl by blast
  show "sound 4 root s'" using sl inv nf ts by (simp add: sound_def ph(2) page_free_def)
  have "phys s' a = phys s a" if "page_of a \<noteq> pt" for a
    unfolding ph(1) by (rule store_entry_page [OF pa index_level that])
  then have "evolves {pt} s s'" using inv by (simp add: evolves_def ph(2)) (simp add: s'_def set_entry_def)
  then show "evolves (tset (phys s) 4 root) s s'" by (rule evolves_mono) (use pt in auto)
  show "xlate (phys s') 4 root va' = (if vpn va' = vpn va then leaf_xlate v va' else xlate (phys s) 4 root va')"
    using sl by (simp add: same_path_vpn)
  show "xlate (phys s) 4 root va = leaf_xlate (ent (phys s) pt (level_index (Suc 0) va)) va"
    using xlate_pt_of [OF h [unfolded level_4] p [unfolded level_4]] by (simp only: level_4)
  show "pt_of (phys s') 4 root va' = pt_of (phys s) 4 root va'" using sl by blast
  show "ent (phys s') pt (level_index (Suc 0) va) = v"
    unfolding ph(1) using ent_store [OF pa pa index_level index_level] by simp
qed

lemma sound_evolves:
  assumes "evolves P s s'" and "sound l t s" and "tset (phys s) l t \<inter> P = {}"
  shows "sound l t s'" "tset (phys s') l t = tset (phys s) l t" "xlate (phys s') l t va = xlate (phys s) l t va"
proof -
  have h: "hier (phys s) l t" and nf: "\<And>p. p \<in> tset (phys s) l t \<Longrightarrow> \<not> page_free s p"
    using assms(2) by (auto simp: sound_def)
  have same: "phys s' a = phys s a" if "page_of a \<in> tset (phys s) l t" for a
    using assms(1,3) nf [OF that] that by (auto simp: evolves_def)
  note fr = hier_frame_all [OF h, of "phys s'"]
  show ts: "tset (phys s') l t = tset (phys s) l t" "xlate (phys s') l t va = xlate (phys s) l t va"
    using fr same by blast+
  have "\<not> page_free s' p" if "p \<in> tset (phys s) l t" for p
    using nf [OF that] assms(1) by (auto simp: page_free_def evolves_def)
  then show "sound l t s'"
    using fr same ts assms(1) unfolding sound_def by (auto simp: evolves_def)
qed

text \<open>What \<open>map_page_root\<close> does to translation, on every outcome.\<close>

lemma map_page_root_spec:
  assumes s: "sound 4 root s" and r: "map_page_root root va pa flags s = (r, s')"
  shows "sound 4 root s'" "evolves (tset (phys s) 4 root) s s'"
    "\<And>p. p \<in> tset (phys s') 4 root \<Longrightarrow> p \<in> tset (phys s) 4 root \<or> page_free s p"
    "xlate (phys s') 4 root va' =
       (if r = 0 \<and> vpn va' = vpn va then Some (pa OR page_of flags OR (va' AND 0xFFF)) else xlate (phys s) 4 root va')"
    "r = 0 \<Longrightarrow> xlate (phys s) 4 root va = None" "r = 1 \<Longrightarrow> xlate (phys s) 4 root va \<noteq> None" "r \<in> {-1, 0, 1}"
    "r = 0 \<Longrightarrow> \<exists>pt. pt_of (phys s') 4 root va = Some pt \<and> present (ent (phys s') pt (level_index (Suc 0) va))"
    "pt_of (phys s) 4 root va' = Some pt \<Longrightarrow> pt_of (phys s') 4 root va' = Some pt"
proof -
  have "sound 4 root s' \<and> evolves (tset (phys s) 4 root) s s' \<and>
    (\<forall>p\<in>tset (phys s') 4 root. p \<in> tset (phys s) 4 root \<or> page_free s p) \<and>
    (\<forall>va'. xlate (phys s') 4 root va' =
       (if r = 0 \<and> vpn va' = vpn va then Some (pa OR page_of flags OR (va' AND 0xFFF)) else xlate (phys s) 4 root va')) \<and>
    (r = 0 \<longrightarrow> xlate (phys s) 4 root va = None) \<and> (r = 1 \<longrightarrow> xlate (phys s) 4 root va \<noteq> None) \<and> r \<in> {-1, 0, 1} \<and>
    (r = 0 \<longrightarrow> (\<exists>pt. pt_of (phys s') 4 root va = Some pt \<and> present (ent (phys s') pt (level_index (Suc 0) va)))) \<and>
    (\<forall>va' pt. pt_of (phys s) 4 root va' = Some pt \<longrightarrow> pt_of (phys s') 4 root va' = Some pt)"
  proof (cases "va AND 0xFFF \<noteq> 0 \<or> pa AND 0xFFF \<noteq> 0")
    case True
    then have "r = - 1" "s' = s" using r by (auto simp: map_page_root_def)
    then show ?thesis using s by (simp add: evolves_refl sound_def)
  next
    case False
    obtain w s1 where w: "walk_create_root root va True s = (w, s1)" by fastforce
    note ws = walk_spec [OF s [unfolded level_4] w [unfolded walk_create_root_walk level_4], folded level_4]
    have k: "keeps 4 root s s1" using ws by blast
    have k': "sound 4 root s1" "evolves (tset (phys s) 4 root) s s1"
      "\<And>p. p \<in> tset (phys s1) 4 root \<Longrightarrow> p \<in> tset (phys s) 4 root \<or> page_free s p"
      "\<And>va. xlate (phys s1) 4 root va = xlate (phys s) 4 root va"
      "\<And>va' pt. pt_of (phys s) 4 root va' = Some pt \<Longrightarrow> pt_of (phys s1) 4 root va' = Some pt"
      using k unfolding keeps_def by auto
    show ?thesis
    proof (cases w)
      case None
      then have "r = - 1" "s' = s1" using r False w by (auto simp: map_page_root_def)
      then show ?thesis using k' by simp
    next
      case (Some pt)
      then have pt: "pt_of (phys s1) 4 root va = Some pt" using ws by blast
      let ?i = "level_index (Suc 0) va"
      let ?v = "(pa AND NOT 0xFFF) OR flags OR PTE_PRESENT"
      note sl = set_leaf [OF k'(1) pt]
      have xo: "xlate (phys s) 4 root va = leaf_xlate (ent (phys s1) pt ?i) va" using sl(5) k'(4) by simp
      show ?thesis
      proof (cases "present (ent (phys s1) pt ?i)")
        case True
        then have "r = 1" "s' = s1"
          using r False w Some by (auto simp: map_page_root_def level_index_simps ent_entries present_def Let_def)
        then show ?thesis using k' xo True by (simp add: leaf_xlate_def)
      next
        case np: False
        then have rs: "r = 0" "s' = set_entry pt ?i ?v s1"
          using r False w Some by (auto simp: map_page_root_def level_index_simps ent_entries present_def Let_def)
        have pres: "present ?v" unfolding bit_pte by (simp add: bit_simps PTE_PRESENT_def)
        have "page_of ?v = pa OR page_of flags"
        proof -
          have "page_aligned pa" using False by (simp add: page_aligned_def)
          then have "pa AND NOT 0xFFF = pa" using page_of_id by (simp add: page_of_def)
          then show ?thesis
            using bit_page_aligned [OF \<open>page_aligned pa\<close>]
            by (intro bit_word_eqI) (auto simp: bit_page_of bit_simps PTE_PRESENT_def)
        qed
        then have "leaf_xlate ?v va' = Some (pa OR page_of flags OR (va' AND 0xFFF))" for va'
          using pres by (simp add: leaf_xlate_def or.assoc)
        then have x: "xlate (phys s') 4 root va' =
            (if vpn va' = vpn va then Some (pa OR page_of flags OR (va' AND 0xFFF)) else xlate (phys s) 4 root va')" for va'
          unfolding rs(2) using sl(4) k'(4) by simp
        have "evolves (tset (phys s) 4 root) s s'"
          unfolding rs(2) by (rule evolves_trans [OF k'(2) sl(2)]) (rule k'(3))
        moreover have "pt_of (phys s') 4 root va = Some pt" "present (ent (phys s') pt ?i)"
          unfolding rs(2) using sl(6,7) pres pt by simp_all
        ultimately show ?thesis using sl(1,3,6) x k'(3,5) xo np rs by (simp add: leaf_xlate_def)
      qed
    qed
  qed
  then show "sound 4 root s'" "evolves (tset (phys s) 4 root) s s'"
    "\<And>p. p \<in> tset (phys s') 4 root \<Longrightarrow> p \<in> tset (phys s) 4 root \<or> page_free s p"
    "xlate (phys s') 4 root va' =
       (if r = 0 \<and> vpn va' = vpn va then Some (pa OR page_of flags OR (va' AND 0xFFF)) else xlate (phys s) 4 root va')"
    "r = 0 \<Longrightarrow> xlate (phys s) 4 root va = None" "r = 1 \<Longrightarrow> xlate (phys s) 4 root va \<noteq> None" "r \<in> {-1, 0, 1}"
    "r = 0 \<Longrightarrow> \<exists>pt. pt_of (phys s') 4 root va = Some pt \<and> present (ent (phys s') pt (level_index (Suc 0) va))"
    "pt_of (phys s) 4 root va' = Some pt \<Longrightarrow> pt_of (phys s') 4 root va' = Some pt"
    by blast+
qed

lemma walk_pt_of:
  "hier (phys s) (Suc l) t \<Longrightarrow> pt_of (phys s) (Suc l) t va = Some pt \<Longrightarrow>
   walk (Suc l) t va False s = (Some pt, s)"
proof (induction l arbitrary: t)
  case 0
  then show ?case using hier_low(1) [OF 0(1)] by simp
next
  case (Suc l)
  let ?i = "level_index (Suc (Suc l)) va"
  obtain c where c: "child (phys s) (Suc (Suc l)) t ?i = Some c" and p: "pt_of (phys s) (Suc l) c va = Some pt"
    using Suc.prems(2) by (auto split: option.splits)
  have e: "present (ent (phys s) t ?i)" "\<not> is_leaf (Suc (Suc l)) (ent (phys s) t ?i)" "page_of (ent (phys s) t ?i) = c"
    using c by (auto simp: child_def Let_def split: if_splits)
  have "walk_entry t ?i False s = (Some (ent (phys s) t ?i), s)"
    using e(1) by (simp add: walk_entry_def ent_entries Let_def present_def)
  then show ?case
    using Suc.IH [OF hierD(3) [OF Suc.prems(1) index_level c] p] hier_low(1) [OF Suc.prems(1)] e by simp
qed

lemma unmap_page_root_spec:
  assumes s: "sound 4 root s" and r: "unmap_page_root root va s = (r, s')"
  shows "sound 4 root s'" "evolves (tset (phys s) 4 root) s s'" "tset (phys s') 4 root = tset (phys s) 4 root"
    "xlate (phys s') 4 root va' = (if r = 1 \<and> vpn va' = vpn va then None else xlate (phys s) 4 root va')"
    "r = 1 \<Longrightarrow> xlate (phys s) 4 root va \<noteq> None" "r \<noteq> 1 \<Longrightarrow> r = 0 \<and> s' = s"
    "va AND 0xFFF = 0 \<Longrightarrow> pt_of (phys s) 4 root va = Some pt \<Longrightarrow>
       present (ent (phys s) pt (level_index (Suc 0) va)) \<Longrightarrow> r = 1"
    "pt_of (phys s') 4 root va' = pt_of (phys s) 4 root va'"
proof -
  let ?i = "level_index (Suc 0) va"
  obtain w s1 where w: "walk_create_root root va False s = (w, s1)" by fastforce
  note ws = walk_spec [OF s [unfolded level_4] w [unfolded walk_create_root_walk level_4], folded level_4]
  have s1: "s1 = s" using ws by blast
  have pres: "\<not> present 0" by simp
  consider (no) "r = 0" "s' = s" |
    (yes) pt where "va AND 0xFFF = 0" "w = Some pt" "present (ent (phys s) pt ?i)" "r = 1" "s' = set_entry pt ?i 0 s"
    using r w s1 by (auto simp: unmap_page_root_def level_index_simps ent_entries present_def Let_def
        split: if_splits option.splits)
  then have "sound 4 root s' \<and> evolves (tset (phys s) 4 root) s s' \<and> tset (phys s') 4 root = tset (phys s) 4 root \<and>
    (\<forall>va'. xlate (phys s') 4 root va' = (if r = 1 \<and> vpn va' = vpn va then None else xlate (phys s) 4 root va')) \<and>
    (r = 1 \<longrightarrow> xlate (phys s) 4 root va \<noteq> None) \<and> (r \<noteq> 1 \<longrightarrow> r = 0 \<and> s' = s) \<and>
    (\<forall>va'. pt_of (phys s') 4 root va' = pt_of (phys s) 4 root va')"
  proof cases
    case no
    then show ?thesis using s by (simp add: evolves_refl sound_def)
  next
    case yes
    then have "pt_of (phys s) 4 root va = Some pt" using ws s1 by blast
    note sl = set_leaf [OF s this]
    show ?thesis using sl yes by (simp add: leaf_xlate_def)
  qed
  then show "sound 4 root s'" "evolves (tset (phys s) 4 root) s s'" "tset (phys s') 4 root = tset (phys s) 4 root"
    "xlate (phys s') 4 root va' = (if r = 1 \<and> vpn va' = vpn va then None else xlate (phys s) 4 root va')"
    "r = 1 \<Longrightarrow> xlate (phys s) 4 root va \<noteq> None" "r \<noteq> 1 \<Longrightarrow> r = 0 \<and> s' = s"
    "pt_of (phys s') 4 root va' = pt_of (phys s) 4 root va'"
    by blast+
  show "r = 1" if "va AND 0xFFF = 0" "pt_of (phys s) 4 root va = Some pt" "present (ent (phys s) pt ?i)"
  proof -
    have "hier (phys s) 4 root" using s by (simp add: sound_def)
    from walk_pt_of [OF this [unfolded level_4] that(2) [unfolded level_4]]
    have "walk_create_root root va False s = (Some pt, s)" by (simp only: walk_create_root_walk level_4)
    then show ?thesis
      using r that(1,3) by (simp add: unmap_page_root_def level_index_simps ent_entries present_def Let_def)
  qed
qed

lemma unmap_page_root_iff:
  assumes s: "sound 4 root s" and r: "unmap_page_root root va s = (r, s')"
  shows "r = 1 \<longleftrightarrow> va AND 0xFFF = 0 \<and> pt_of (phys s) 4 root va \<noteq> None \<and> xlate (phys s) 4 root va \<noteq> None"
proof
  assume 1: "r = 1"
  obtain w s1 where w: "walk_create_root root va False s = (w, s1)" by fastforce
  note ws = walk_spec [OF s [unfolded level_4] w [unfolded walk_create_root_walk level_4], folded level_4]
  have "va AND 0xFFF = 0 \<and> w \<noteq> None" using r 1 w by (auto simp: unmap_page_root_def split: if_splits option.splits)
  then show "va AND 0xFFF = 0 \<and> pt_of (phys s) 4 root va \<noteq> None \<and> xlate (phys s) 4 root va \<noteq> None"
    using ws unmap_page_root_spec(5) [OF s r 1] by auto
next
  assume a: "va AND 0xFFF = 0 \<and> pt_of (phys s) 4 root va \<noteq> None \<and> xlate (phys s) 4 root va \<noteq> None"
  then obtain pt where pt: "pt_of (phys s) 4 root va = Some pt" by blast
  have "hier (phys s) 4 root" using s by (simp add: sound_def)
  from xlate_pt_of [OF this [unfolded level_4] pt [unfolded level_4], folded level_4]
  have "present (ent (phys s) pt (level_index (Suc 0) va))" using a by (auto simp: leaf_xlate_def split: if_splits)
  then show "r = 1" using unmap_page_root_spec(7) [OF s r _ pt] a by simp
qed

section \<open>Properties\<close>

text \<open>
  C2. \<open>map_page_root\<close>, on every outcome: when it returns 0 the addresses of the virtual page now
  translate to the frame given (with the bits of \<open>flags\<close> above bit 11 set in the result) and every other address
  translates as before; when it fails, or finds the page mapped already, no translation changes,
  even if tables were allocated or a 2 MiB page was split. It returns 0 only for an unmapped page, and the
  hierarchy stays a tree of pages that are not free.
\<close>

theorem map_page_translates:
  assumes "sound 4 root s" and "map_page_root root va pa flags s = (r, s')"
  shows "virt_to_phys_root root va' s' =
      (if r = 0 \<and> vpn va' = vpn va then pa OR page_of flags OR (va' AND 0xFFF) else virt_to_phys_root root va' s)
    \<and> r \<in> {-1, 0, 1} \<and> (r = 0 \<longrightarrow> virt_to_phys_root root va s = 0) \<and> sound 4 root s'"
  using map_page_root_spec [OF assms] by (auto simp: virt_to_phys_xlate xval_def)

definition ex_pmm8 :: pmm where
  "ex_pmm8 = \<lparr>g_bitmap = (\<lambda>i. if i = 0 then 0xC1 else 0), g_total_pages = 8, g_free_pages = 5,
     g_max_physical_address = 0x8000, pmm_ready = True\<rparr>"

definition ex_mm :: mm where
  "ex_mm = \<lparr>phys = (\<lambda>_. 0), pm = ex_pmm8,
     lay = \<lparr>pml4 = 0x7000, pdpt = 0, pd_base = (\<lambda>_. 0), pd_extra = (\<lambda>_. 0)\<rparr>,
     extra_slot_owner = (\<lambda>_. 0), extra_slots_used = 0, cr3 = 0x7000, vmm_ready = True, vmm_mapped = 0\<rparr>"

lemma ex_pmm8_free: "free_set ex_pmm8 = {1, 2, 3, 4, 5}"
proof -
  have "p \<in> {0, 1, 2, 3, 4, 5, 6, 7} \<longleftrightarrow> p < 8" for p :: nat by auto
  then have "free_set ex_pmm8 = {p \<in> {0, 1, 2, 3, 4, 5, 6, 7}. \<not> page_used ex_pmm8 p}"
    by (auto simp: free_set_def ex_pmm8_def)
  also have "\<dots> = {1, 2, 3, 4, 5}" by code_simp
  finally show ?thesis .
qed

lemma ex_mm_root:
  assumes "root \<in> {0x6000, 0x7000}"
  shows "sound 4 root ex_mm" and "tset (phys ex_mm) 4 root = {root}"
proof -
  have inv: "pmm_inv ex_pmm8" by (simp add: pmm_inv_def ex_pmm8_free) (simp add: ex_pmm8_def)
  have al: "page_aligned root" "reachable root" using assms by (auto simp: page_aligned_def reachable_def)
  have z: "ent (\<lambda>_. 0) root i = 0" for i by (simp add: ent_def load64_def)
  have h: "hier (\<lambda>_. 0) 4 root" "tset (\<lambda>_. 0) 4 root = {root}"
    unfolding level_4 by (rule empty_table [OF al z])+
  then show "tset (phys ex_mm) 4 root = {root}" by (simp add: ex_mm_def)
  show "sound 4 root ex_mm"
    using inv h assms by (auto simp: sound_def ex_mm_def page_free_def ex_pmm8_free page_no_def)
qed

lemma ex_mm_sound: "sound 4 0x7000 ex_mm"
  by (rule ex_mm_root) simp

lemma ex_map: "fst (map_page_root 0x7000 0x400000 0x5000 6 ex_mm) = 0"
  by code_simp

theorem map_page_translates_witness:
  "sound 4 0x7000 ex_mm \<and> fst (map_page_root 0x7000 0x400000 0x5000 6 ex_mm) = 0 \<and>
   virt_to_phys_root 0x7000 0x400123 (snd (map_page_root 0x7000 0x400000 0x5000 6 ex_mm)) = 0x5123"
proof -
  have v: "vpn 0x400123 = vpn 0x400000" "(0x5000 :: u64) OR page_of 6 OR (0x400123 AND 0xFFF) = 0x5123"
    by code_simp+
  show ?thesis
    using map_page_translates [OF ex_mm_sound prod.collapse [symmetric], of "0x400123" "0x400000" "0x5000" 6]
      ex_map ex_mm_sound v by simp
qed

text \<open>
  C21. Unmapping: \<open>unmap_page_root\<close> returns 1 exactly when the address is page aligned, has a translation, and no 2 MiB or
  1 GiB page covers it, so that it is an entry of a last-level table; then the page translates to nothing any more and all
  other translations are as before.  In every other case it returns 0 and changes nothing.
\<close>

theorem unmap_page_translates:
  assumes "sound 4 root s" and "unmap_page_root root va s = (r, s')"
  shows "(r = 1 \<longleftrightarrow> va AND 0xFFF = 0 \<and> pt_of (phys s) 4 root va \<noteq> None \<and> xlate (phys s) 4 root va \<noteq> None) \<and>
    (r = 1 \<or> r = 0 \<and> s' = s) \<and> (r = 1 \<longrightarrow> xlate (phys s') 4 root va = None) \<and>
    virt_to_phys_root root va' s' = (if r = 1 \<and> vpn va' = vpn va then 0 else virt_to_phys_root root va' s) \<and>
    sound 4 root s'"
proof -
  note U = unmap_page_root_spec [OF assms]
  have "r = 1 \<longrightarrow> xlate (phys s') 4 root va = None" using U(4) [of va] by simp
  then show ?thesis using U unmap_page_root_iff [OF assms] by (auto simp: virt_to_phys_xlate xval_def)
qed

lemma ex_unmap:
  "fst (unmap_page_root 0x7000 0x400000 (snd (map_page_root 0x7000 0x400000 0x5000 6 ex_mm))) = 1"
  "virt_to_phys_root 0x7000 0x400123 (snd (map_page_root 0x7000 0x400000 0x5000 6 ex_mm)) = 0x5123"
  by code_simp+

text \<open>A page that was mapped before is removed.\<close>

theorem unmap_page_translates_witness:
  "\<exists>s s'. sound 4 0x7000 s \<and> unmap_page_root 0x7000 0x400000 s = (1, s') \<and>
     virt_to_phys_root 0x7000 0x400123 s = 0x5123 \<and> virt_to_phys_root 0x7000 0x400123 s' = 0"
proof -
  let ?s = "snd (map_page_root 0x7000 0x400000 0x5000 6 ex_mm)"
  have so: "sound 4 0x7000 ?s" by (rule map_page_root_spec(1) [OF ex_mm_sound prod.collapse [symmetric]])
  obtain s' where u: "unmap_page_root 0x7000 0x400000 ?s = (1, s')" using ex_unmap(1) by (metis prod.collapse)
  have v: "vpn 0x400123 = vpn 0x400000" by code_simp
  have "virt_to_phys_root 0x7000 0x400123 s' = 0" using unmap_page_translates [OF so u, of "0x400123"] v by simp
  then show ?thesis using so u ex_unmap(2) by blast
qed

text \<open>
  C13. Isolation of address spaces: if no table page of the hierarchy under \<open>c2\<close> is a page of the one
  under \<open>c1\<close>, then mapping a page in \<open>c1\<close> leaves every translation under \<open>c2\<close> as it was, and the two
  hierarchies remain disjoint.
\<close>

theorem map_page_isolated:
  assumes "sound 4 c1 s" and "sound 4 c2 s" and "tset (phys s) 4 c1 \<inter> tset (phys s) 4 c2 = {}"
    and "paging_map_page_in_cr3 c1 va pa flags s = (r, s')"
  shows "paging_virt_to_phys_in_cr3 c2 va' s' = paging_virt_to_phys_in_cr3 c2 va' s \<and> sound 4 c2 s' \<and>
    tset (phys s') 4 c1 \<inter> tset (phys s') 4 c2 = {}"
proof -
  note m = map_page_root_spec [OF assms(1) assms(4) [unfolded paging_map_page_in_cr3_def]]
  note o = sound_evolves [OF m(2) assms(2)]
  have "tset (phys s') 4 c1 \<inter> tset (phys s) 4 c2 = {}"
    using m(3) assms(2,3) unfolding sound_def by blast
  then show ?thesis
    using o assms(3) by (auto simp: paging_virt_to_phys_in_cr3_def virt_to_phys_xlate Int_commute)
qed

theorem map_page_isolated_witness:
  "fst (paging_map_page_in_cr3 0x7000 0x400000 0x5000 6 ex_mm) = 0 \<and>
   paging_virt_to_phys_in_cr3 0x6000 0x400000 (snd (paging_map_page_in_cr3 0x7000 0x400000 0x5000 6 ex_mm)) = 0"
proof -
  have d: "tset (phys ex_mm) 4 0x7000 \<inter> tset (phys ex_mm) 4 0x6000 = {}"
    using ex_mm_root(2) [of "0x7000"] ex_mm_root(2) [of "0x6000"] by simp
  have z: "paging_virt_to_phys_in_cr3 0x6000 0x400000 ex_mm = 0" by code_simp
  have "sound 4 0x6000 ex_mm" by (rule ex_mm_root) simp
  from map_page_isolated [OF ex_mm_sound this d prod.collapse [symmetric], of "0x400000" "0x400000" "0x5000" 6]
  show ?thesis using z ex_map by (simp add: paging_map_page_in_cr3_def)
qed

text \<open>
  C22. The virtual memory manager: after a successful \<open>vmm_map_page\<close> the address is mapped and one more
  page is counted; \<open>vmm_unmap_page\<close> then succeeds and restores every translation and the count.
\<close>

theorem vmm_map_unmap:
  assumes "sound 4 (pml4 (lay s)) s" and "vmm_mapped s \<noteq> UINT64_MAX"
    and "vmm_map_page va pa flags s = (True, s1)" and "vmm_unmap_page va s1 = (r, s2)"
  shows "vmm_virt_to_phys va s1 = pa OR page_of flags \<and> vmm_mapped s1 = vmm_mapped s + 1 \<and>
    r = 1 \<and> vmm_virt_to_phys va' s2 = vmm_virt_to_phys va' s \<and> vmm_mapped s2 = vmm_mapped s"
proof -
  let ?root = "pml4 (lay s)"
  have rdy: "vmm_ready s" and va: "va AND 0xFFF = 0"
    using assms(3) by (auto simp: vmm_map_page_def VMM_PAGE_SIZE_def split: if_splits)
  obtain t where t: "map_page_root ?root va pa flags s = (0, t)" and s1: "s1 = t\<lparr>vmm_mapped := vmm_mapped t + 1\<rparr>"
    using assms(3) by (auto simp: vmm_map_page_def paging_map_page_def split: if_splits prod.splits)
  note m = map_page_root_spec [OF assms(1) t]
  have lt: "lay t = lay s" "vmm_ready t = vmm_ready s" "vmm_mapped t = vmm_mapped s"
    using evolves_lay [OF m(2)] by auto
  have s1': "phys s1 = phys t" "pm s1 = pm t" "lay s1 = lay s" "vmm_ready s1" "vmm_mapped s1 = vmm_mapped s + 1"
    using lt rdy by (simp_all add: s1)
  have snd1: "sound 4 ?root s1" using m(1) by (simp add: sound_def s1' page_free_def)
  obtain r' u where u: "unmap_page_root ?root va s1 = (r', u)" by fastforce
  note un = unmap_page_root_spec [OF snd1 u]
  obtain pt where "pt_of (phys t) 4 ?root va = Some pt" "present (ent (phys t) pt (level_index (Suc 0) va))"
    using m(8) by auto
  then have r': "r' = 1" using un(7) va by (simp add: s1')
  have lu: "lay u = lay s" "vmm_ready u" "vmm_mapped u = vmm_mapped s + 1"
    using evolves_lay [OF un(2)] s1' by auto
  have nz: "vmm_mapped s + 1 \<noteq> 0"
  proof
    assume "vmm_mapped s + 1 = 0"
    then have "vmm_mapped s = - 1" by (simp add: eq_neg_iff_add_eq_0)
    then show False using assms(2) by simp
  qed
  have s2: "r = 1" "s2 = u\<lparr>vmm_mapped := vmm_mapped s\<rparr>"
    using assms(4) u r' nz lu va s1' by (auto simp: vmm_unmap_page_def paging_unmap_page_def VMM_PAGE_SIZE_def)
  have "xlate (phys u) 4 ?root va' = xlate (phys s) 4 ?root va'"
  proof (cases "vpn va' = vpn va")
    case True
    then have "xlate (phys s) 4 ?root va' = None"
      using xlate_None_same_path [of 4 va va' "phys s" ?root] m(5) by (simp add: same_path_vpn)
    then show ?thesis using un(4) r' True by simp
  next
    case False
    then show ?thesis using un(4) m(4) by (simp add: s1')
  qed
  then show ?thesis
    using m(4) [of va] s1' s2 lu rdy va
    by (simp add: vmm_virt_to_phys_def paging_virt_to_phys_def virt_to_phys_xlate xval_def)
qed

lemma ex_vmm_map: "fst (vmm_map_page 0x400000 0x5000 6 ex_mm)"
  using ex_map by (simp add: vmm_map_page_def paging_map_page_def VMM_PAGE_SIZE_def split: prod.splits)
    (auto simp: ex_mm_def)

theorem vmm_map_unmap_witness:
  "\<exists>s1 s2. vmm_map_page 0x400000 0x5000 6 ex_mm = (True, s1) \<and> vmm_unmap_page 0x400000 s1 = (1, s2) \<and>
     vmm_virt_to_phys 0x400000 s1 = 0x5000 \<and> vmm_virt_to_phys 0x400000 s2 = 0 \<and> vmm_mapped s2 = 0"
proof -
  define s1 where "s1 = snd (vmm_map_page 0x400000 0x5000 6 ex_mm)"
  define r where "r = fst (vmm_unmap_page 0x400000 s1)"
  define s2 where "s2 = snd (vmm_unmap_page 0x400000 s1)"
  have 1: "vmm_map_page 0x400000 0x5000 6 ex_mm = (True, s1)"
    unfolding s1_def using ex_vmm_map by (metis prod.collapse)
  have 2: "vmm_unmap_page 0x400000 s1 = (r, s2)" by (simp add: r_def s2_def)
  have snd: "sound 4 (pml4 (lay ex_mm)) ex_mm" and m: "vmm_mapped ex_mm = 0"
    using ex_mm_sound by (simp_all add: ex_mm_def)
  have z: "vmm_virt_to_phys 0x400000 ex_mm = 0" "(0x5000 :: u64) OR page_of 6 = 0x5000" by code_simp+
  show ?thesis
    using vmm_map_unmap [OF snd _ 1 2, of "0x400000"] 1 2 m z by auto
qed

end
