(* ===== verification/Heap.thy ===== *)
theory Heap
  imports Address_Space
begin

text \<open>
  The kernel heap, \<open>kernel/mm/heap.c\<close>: a first-fit allocator over a doubly linked list of blocks in a
  virtual arena that grows page by page. The block headers are kept in a store from header address
  to \<open>heap_block\<close>, the null pointer is the address 0; the arena's pages are mapped through the virtual
  memory manager of theory \<open>Paging\<close>. \<open>cli\<close>/\<open>sti\<close> act on the flag \<open>intr\<close>.

  The list walks of \<open>kmalloc\<close> have no bound in the code, so they are partial functions whose value
  \<open>None\<close> means that the walk never ends; the theorems show that it does end.
\<close>

section \<open>State\<close>

record heap_block =
  b_magic :: u64
  b_size :: u64
  b_capacity :: u64
  b_flags :: u64
  b_prev :: u64
  b_next :: u64

record heap =
  hmm :: mm
  hst :: "u64 \<Rightarrow> heap_block"
  g_head :: u64
  g_heap_next :: u64
  g_heap_pages :: u64
  g_used_bytes :: u64
  g_free_bytes :: u64
  g_allocations :: u64
  g_corruption_count :: u64
  heap_ready :: bool
  intr :: bool

definition HEAP_BASE :: u64 where
  "HEAP_BASE = 0xFFFF800000000000"

definition HEAP_LIMIT :: u64 where
  "HEAP_LIMIT = 0xFFFF900000000000"

definition HEAP_ALIGNMENT :: u64 where
  "HEAP_ALIGNMENT = 16"

definition BLOCK_MAGIC :: u64 where
  "BLOCK_MAGIC = 0x4E58484C424C4B31"

definition BLOCK_FREE :: u64 where
  "BLOCK_FREE = 1"

definition sizeof_heap_block :: u64 where
  "sizeof_heap_block = 48"

definition HEADER_SIZE :: u64 where
  "HEADER_SIZE = (sizeof_heap_block + (HEAP_ALIGNMENT - 1)) AND NOT (HEAP_ALIGNMENT - 1)"

definition VMM_PAGE_PRESENT :: u64 where
  "VMM_PAGE_PRESENT = 1"

definition VMM_PAGE_WRITABLE :: u64 where
  "VMM_PAGE_WRITABLE = 2"

text \<open>\<open>~BLOCK_FREE\<close> is computed on a 32-bit \<open>unsigned int\<close> and then widened.\<close>

definition NOT_BLOCK_FREE :: u64 where
  "NOT_BLOCK_FREE = ucast (NOT (1 :: u32))"

abbreviation is_free :: "heap_block \<Rightarrow> bool" where
  "is_free b \<equiv> b_flags b AND BLOCK_FREE \<noteq> 0"

definition upd_block :: "u64 \<Rightarrow> (heap_block \<Rightarrow> heap_block) \<Rightarrow> heap \<Rightarrow> heap" where
  "upd_block a f h = h\<lparr>hst := (hst h)(a := f (hst h a))\<rparr>"

section \<open>Sizes\<close>

definition align_up_u64 :: "u64 \<Rightarrow> u64 \<Rightarrow> u64" where
  "align_up_u64 v alignment =
     (let mask = alignment - 1
      in if v > UINT64_MAX - mask then UINT64_MAX else (v + mask) AND NOT mask)"

definition align_size :: "u64 \<Rightarrow> u64" where
  "align_size n =
     (let aligned = align_up_u64 n HEAP_ALIGNMENT
      in if aligned = UINT64_MAX then 0 else aligned)"

definition pages_for_block :: "u64 \<Rightarrow> u64" where
  "pages_for_block payload = (HEADER_SIZE + payload + PAGE_SIZE - 1) div PAGE_SIZE"

section \<open>Growing the arena\<close>

definition unmap_grown :: "u64 \<Rightarrow> nat \<Rightarrow> mm \<Rightarrow> mm" where
  "unmap_grown start i s =
     fold (\<lambda>j s. let va = start + of_nat j * PAGE_SIZE; old_phys = vmm_virt_to_phys va s
                 in if old_phys \<noteq> 0 then
                      let s1 = snd (vmm_unmap_page va s)
                      in s1\<lparr>pm := pmm_free_page (old_phys AND NOT (PAGE_SIZE - 1)) (pm s1)\<rparr>
                    else s)
       [0..<i] s"

fun map_pages_from :: "u64 \<Rightarrow> nat list \<Rightarrow> mm \<Rightarrow> bool \<times> mm" where
  "map_pages_from start [] s = (True, s)"
| "map_pages_from start (i # is) s =
     (case pmm_alloc_page (pm s) of
        (p, a) \<Rightarrow>
          let s1 = s\<lparr>pm := a\<rparr>
          in if p = 0 then (False, unmap_grown start i s1)
             else case vmm_map_page (start + of_nat i * PAGE_SIZE) p
                         (VMM_PAGE_PRESENT OR VMM_PAGE_WRITABLE) s1 of
                    (ok, s2) \<Rightarrow>
                      if \<not> ok then (False, unmap_grown start i (s2\<lparr>pm := pmm_free_page p (pm s2)\<rparr>))
                      else map_pages_from start is s2)"

definition map_new_pages :: "u64 \<Rightarrow> u64 \<Rightarrow> mm \<Rightarrow> bool \<times> mm" where
  "map_new_pages start pages s = map_pages_from start [0..<unat pages] s"

section \<open>Blocks\<close>

definition split_block :: "u64 \<Rightarrow> u64 \<Rightarrow> heap \<Rightarrow> heap" where
  "split_block block requested h =
     (let remaining = b_capacity (hst h block) - requested
      in if remaining < HEADER_SIZE + HEAP_ALIGNMENT
         then upd_block block (\<lambda>b. b\<lparr>b_size := b_capacity b\<rparr>) h
         else
           let tail = block + HEADER_SIZE + requested;
               h1 = upd_block tail (\<lambda>_. \<lparr>b_magic = BLOCK_MAGIC, b_size = remaining - HEADER_SIZE,
                      b_capacity = remaining - HEADER_SIZE, b_flags = BLOCK_FREE, b_prev = block,
                      b_next = b_next (hst h block)\<rparr>) h;
               nx = b_next (hst h1 tail);
               h2 = (if nx \<noteq> 0 then upd_block nx (\<lambda>b. b\<lparr>b_prev := tail\<rparr>) h1 else h1);
               h3 = upd_block block (\<lambda>b. b\<lparr>b_next := tail, b_size := requested, b_capacity := requested\<rparr>) h2
           in h3\<lparr>g_free_bytes := g_free_bytes h3 + b_size (hst h3 tail)\<rparr>)"

definition merge_with_next :: "u64 \<Rightarrow> heap \<Rightarrow> heap" where
  "merge_with_next block h =
     (let nx = b_next (hst h block)
      in if nx = 0 \<or> \<not> is_free (hst h nx) then h
         else
           let cap = b_capacity (hst h block) + (HEADER_SIZE + b_capacity (hst h nx));
               nn = b_next (hst h nx);
               h1 = upd_block block (\<lambda>b. b\<lparr>b_capacity := cap, b_size := cap\<rparr>) h;
               h2 = h1\<lparr>g_free_bytes := g_free_bytes h1 + HEADER_SIZE\<rparr>;
               h3 = upd_block block (\<lambda>b. b\<lparr>b_next := nn\<rparr>) h2
           in if nn \<noteq> 0 then upd_block nn (\<lambda>b. b\<lparr>b_prev := block\<rparr>) h3 else h3)"

definition ptr_in_heap :: "u64 \<Rightarrow> heap \<Rightarrow> bool" where
  "ptr_in_heap a h \<longleftrightarrow> a \<ge> HEAP_BASE \<and> a < g_heap_next h"

definition block_basic_valid :: "u64 \<Rightarrow> heap \<Rightarrow> bool" where
  "block_basic_valid block h =
     (if block = 0 then False
      else if \<not> ptr_in_heap block h then False
      else if b_magic (hst h block) \<noteq> BLOCK_MAGIC then False
      else if b_capacity (hst h block) = 0 \<or> b_size (hst h block) > b_capacity (hst h block) then False
      else
        let e = block + HEADER_SIZE + b_capacity (hst h block)
        in if e < block \<or> e > g_heap_next h then False
           else if b_prev (hst h block) \<noteq> 0 \<and> \<not> ptr_in_heap (b_prev (hst h block)) h then False
           else if b_next (hst h block) \<noteq> 0 \<and> \<not> ptr_in_heap (b_next (hst h block)) h then False
           else True)"

section \<open>Validation\<close>

text \<open>The loop of \<open>heap_validate\<close>; it ends after at most 1000001 blocks by its own counter.\<close>

function validate_loop :: "heap \<Rightarrow> u64 \<Rightarrow> u64 \<Rightarrow> u64 \<Rightarrow> bool" where
  "validate_loop h seen prev block =
     (if block = 0 then True
      else if seen > 1000000 then False
      else if \<not> block_basic_valid block h \<or> b_prev (hst h block) \<noteq> prev then False
      else if b_next (hst h block) \<noteq> 0 \<and> b_prev (hst h (b_next (hst h block))) \<noteq> block then False
      else if b_flags (hst h block) AND NOT_BLOCK_FREE \<noteq> 0 then False
      else validate_loop h (seen + 1) block (b_next (hst h block)))"
  by pat_completeness auto
termination
proof (relation "measure (\<lambda>(h, seen, prev, block). 1000001 - unat seen)")
  fix h seen prev block
  assume "\<not> (1000000::u64) < seen"
  then have "unat seen \<le> 1000000" by (simp add: word_less_nat_alt)
  moreover from this have "unat (seen + 1) = unat seen + 1" by (simp add: unat_add_u64)
  ultimately show "((h, seen + 1, block, b_next (hst h block)), h, seen, prev, block)
      \<in> measure (\<lambda>(h, seen, prev, block). 1000001 - unat seen)" by simp
qed simp

declare validate_loop.simps [simp del]

definition heap_validate :: "heap \<Rightarrow> bool \<times> heap" where
  "heap_validate h =
     (if \<not> heap_ready h then (False, h)
      else if \<not> validate_loop h 0 0 (g_head h) \<or> g_head h \<noteq> 0 \<and> b_prev (hst h (g_head h)) \<noteq> 0
      then (False, h\<lparr>g_corruption_count := g_corruption_count h + 1\<rparr>)
      else (True, h))"

definition heap_init :: "heap \<Rightarrow> heap" where
  "heap_init h = h\<lparr>g_head := 0, g_heap_next := HEAP_BASE, g_heap_pages := 0, g_used_bytes := 0,
     g_free_bytes := 0, g_allocations := 0, g_corruption_count := 0,
     heap_ready := (VMM_PAGE_SIZE = PAGE_SIZE \<and> g_total_pages (pm (hmm h)) \<noteq> 0)\<rparr>"

section \<open>Allocation\<close>

partial_function (option) find_fit :: "(u64 \<Rightarrow> heap_block) \<Rightarrow> u64 \<Rightarrow> u64 \<Rightarrow> u64 option" where
  "find_fit st requested block =
     (if block = 0 then Some 0
      else if is_free (st block) \<and> b_capacity (st block) \<ge> requested then Some block
      else find_fit st requested (b_next (st block)))"

partial_function (option) last_block :: "(u64 \<Rightarrow> heap_block) \<Rightarrow> u64 \<Rightarrow> u64 option" where
  "last_block st tail =
     (if b_next (st tail) = 0 then Some tail else last_block st (b_next (st tail)))"

definition take_block :: "u64 \<Rightarrow> u64 \<Rightarrow> heap \<Rightarrow> heap" where
  "take_block block requested h =
     (let h1 = h\<lparr>g_free_bytes := g_free_bytes h - b_capacity (hst h block)\<rparr>;
          h2 = upd_block block (\<lambda>b. b\<lparr>b_flags := b_flags b AND NOT_BLOCK_FREE, b_size := requested\<rparr>) h1;
          h3 = split_block block requested h2
      in h3\<lparr>g_used_bytes := g_used_bytes h3 + requested, g_allocations := g_allocations h3 + 1\<rparr>)"

definition append_block :: "u64 \<Rightarrow> u64 \<Rightarrow> u64 \<Rightarrow> heap \<Rightarrow> heap option" where
  "append_block pages requested capacity h =
     (let block = g_heap_next h;
          h1 = upd_block block (\<lambda>_. \<lparr>b_magic = BLOCK_MAGIC, b_size = requested, b_capacity = capacity,
                 b_flags = 0, b_prev = 0, b_next = 0\<rparr>) h;
          linked = (if g_head h1 = 0 then Some (h1\<lparr>g_head := block\<rparr>)
                    else case last_block (hst h1) (g_head h1) of
                           None \<Rightarrow> None
                         | Some tail \<Rightarrow>
                             Some (upd_block block (\<lambda>b. b\<lparr>b_prev := tail\<rparr>)
                                    (upd_block tail (\<lambda>b. b\<lparr>b_next := block\<rparr>) h1)))
      in case linked of
           None \<Rightarrow> None
         | Some h2 \<Rightarrow>
             Some (h2\<lparr>g_heap_next := g_heap_next h2 + pages * PAGE_SIZE, g_heap_pages := g_heap_pages h2 + pages,
               g_used_bytes := g_used_bytes h2 + requested, g_allocations := g_allocations h2 + 1\<rparr>))"

text \<open>\<open>heap_lock\<close> is \<open>cli\<close>; \<open>heap_unlock\<close> is \<open>sti\<close> if interrupts were enabled before.\<close>

definition heap_lock :: "heap \<Rightarrow> heap" where
  "heap_lock h = h\<lparr>intr := False\<rparr>"

definition heap_unlock :: "bool \<Rightarrow> heap \<Rightarrow> heap" where
  "heap_unlock restore h = (if restore then h\<lparr>intr := True\<rparr> else h)"

definition grow :: "u64 \<Rightarrow> heap \<Rightarrow> (u64 \<times> heap) option" where
  "grow requested h =
     (let pages = pages_for_block requested;
          capacity = pages * PAGE_SIZE - HEADER_SIZE
      in if pages = 0 \<or> capacity < requested \<or> g_heap_next h > HEAP_LIMIT \<or>
            pages > (HEAP_LIMIT - g_heap_next h) div PAGE_SIZE
         then Some (0, h)
         else case map_new_pages (g_heap_next h) pages (hmm h) of
                (ok, m) \<Rightarrow>
                  let h1 = h\<lparr>hmm := m\<rparr>
                  in if \<not> ok then Some (0, h1)
                     else case append_block pages requested capacity h1 of
                            None \<Rightarrow> None
                          | Some h2 \<Rightarrow> Some (g_heap_next h1 + HEADER_SIZE, h2))"

definition kmalloc :: "u64 \<Rightarrow> heap \<Rightarrow> (u64 \<times> heap) option" where
  "kmalloc n h =
     (if \<not> heap_ready h \<or> n = 0 then Some (0, h)
      else
        let requested = align_size n
        in if requested = 0 then Some (0, h)
           else
             let restore_if = intr h;
                 h1 = heap_lock h
             in case heap_validate h1 of
                  (False, h2) \<Rightarrow> Some (0, heap_unlock restore_if h2)
                | (True, h2) \<Rightarrow>
                    (case find_fit (hst h2) requested (g_head h2) of
                       None \<Rightarrow> None
                     | Some block \<Rightarrow>
                         if block \<noteq> 0
                         then Some (block + HEADER_SIZE, heap_unlock restore_if (take_block block requested h2))
                         else case grow requested h2 of
                                None \<Rightarrow> None
                              | Some (p, h3) \<Rightarrow> Some (p, heap_unlock restore_if h3)))"

section \<open>Release\<close>

definition release_block :: "u64 \<Rightarrow> heap \<Rightarrow> heap" where
  "release_block block h =
     (let h1 = upd_block block (\<lambda>b. b\<lparr>b_flags := b_flags b OR BLOCK_FREE\<rparr>) h;
          b = hst h1 block;
          h2 = (if g_used_bytes h1 \<ge> b_size b then h1\<lparr>g_used_bytes := g_used_bytes h1 - b_size b\<rparr> else h1);
          h3 = h2\<lparr>g_free_bytes := g_free_bytes h2 + b_capacity b\<rparr>;
          h4 = (if g_allocations h3 \<noteq> 0 then h3\<lparr>g_allocations := g_allocations h3 - 1\<rparr> else h3);
          h5 = merge_with_next block h4;
          pv = b_prev (hst h5 block)
      in if pv \<noteq> 0 \<and> is_free (hst h5 pv) then merge_with_next pv h5 else h5)"

definition kfree :: "u64 \<Rightarrow> heap \<Rightarrow> heap" where
  "kfree ptr h =
     (if \<not> heap_ready h \<or> ptr = 0 then h
      else if ptr < HEAP_BASE + HEADER_SIZE \<or> ptr \<ge> g_heap_next h then h
      else
        let block = ptr - HEADER_SIZE
        in if b_magic (hst h block) \<noteq> BLOCK_MAGIC \<or> is_free (hst h block) then h
           else
             let restore_if = intr h;
                 h1 = heap_lock h
             in case heap_validate h1 of
                  (False, h2) \<Rightarrow> heap_unlock restore_if h2
                | (True, h2) \<Rightarrow>
                    if b_magic (hst h2 block) \<noteq> BLOCK_MAGIC \<or> is_free (hst h2 block)
                    then heap_unlock restore_if h2
                    else heap_unlock restore_if (release_block block h2))"

end
