(* ===== verification/Heap_Arena.thy ===== *)
theory Heap_Arena
  imports Heap
begin

text \<open>
  Growth of the heap arena: \<open>map_new_pages\<close> either maps every page of the new range to a frame of its
  own or leaves every translation as it was, its partial work undone.
\<close>

section \<open>Addresses of the arena\<close>

definition arena_page :: "u64 \<Rightarrow> nat \<Rightarrow> u64" where
  "arena_page start k = start + of_nat k * PAGE_SIZE"

text \<open>\<open>arena start n\<close>: the \<open>n\<close> pages from \<open>start\<close> lie within the heap's virtual range.\<close>

definition arena :: "u64 \<Rightarrow> nat \<Rightarrow> bool" where
  "arena start n \<longleftrightarrow> page_aligned start \<and> 0xFFFF800000000000 \<le> unat start \<and>
     unat start + 4096 * n \<le> 0xFFFF900000000000"

lemma unat_arena_page:
  assumes "arena start n" "k < n"
  shows "unat (arena_page start k) = unat start + 4096 * k"
proof -
  have k: "unat start + 4096 * k < 0xFFFF900000000000" using assms by (simp add: arena_def)
  then have "k < 4503599627370496" by linarith
  then have u: "unat (of_nat k * PAGE_SIZE :: u64) = 4096 * k"
    by (simp add: unat_mult_u64 unat_of_nat_u64)
  show ?thesis unfolding arena_page_def using k by (subst unat_add_u64) (simp_all add: u [simplified])
qed

lemma unat_vpn_arena:
  assumes "0xFFFF800000000000 \<le> unat a" "unat a < 0xFFFF900000000000"
  shows "unat (vpn a) = unat a div 4096 - 0xFFFF000000000"
proof -
  define x where "x = unat a div 4096"
  have x: "0xFFFF800000000 \<le> x" "x < 0xFFFF900000000" using assms by (simp_all add: x_def)
  define r where "r = x - 0xFFFF000000000"
  have r: "x = r + 65535 * 2 ^ 36" "r < 2 ^ 36" using x by (simp_all add: r_def)
  have "unat (vpn a) = x mod 2 ^ 36"
    unfolding vpn_def unat_and_mask unat_drop_bit by (simp add: x_def)
  also have "\<dots> = r" unfolding r(1) using r(2) by (simp only: mod_mult_self1 mod_less)
  finally show ?thesis by (simp add: r_def x_def)
qed

lemma vpn_arena_eq:
  assumes "0xFFFF800000000000 \<le> unat a" "unat a < 0xFFFF900000000000"
    "0xFFFF800000000000 \<le> unat b" "unat b < 0xFFFF900000000000"
  shows "vpn a = vpn b \<longleftrightarrow> unat a div 4096 = unat b div 4096"
proof -
  have "unat a div 4096 \<ge> 0xFFFF000000000" "unat b div 4096 \<ge> 0xFFFF000000000"
    using assms(1,3) by simp_all
  then show ?thesis
    unfolding word_unat_eq_iff unat_vpn_arena [OF assms(1,2)] unat_vpn_arena [OF assms(3,4)] by linarith
qed

lemma arena_page_bounds:
  assumes "arena start n" "k < n"
  shows "0xFFFF800000000000 \<le> unat (arena_page start k)" "unat (arena_page start k) < 0xFFFF900000000000"
    "page_aligned (arena_page start k)"
proof -
  obtain q where "unat start = 4096 * q" using assms by (auto simp: arena_def page_aligned_unat)
  then show "page_aligned (arena_page start k)"
    by (simp add: page_aligned_unat unat_arena_page [OF assms])
qed (use assms unat_arena_page [OF assms] in \<open>simp_all add: arena_def\<close>)

lemma vpn_arena_page:
  assumes "arena start n" "j < n" "k < n"
  shows "vpn (arena_page start j) = vpn (arena_page start k) \<longleftrightarrow> j = k"
proof -
  obtain q where "unat start = 4096 * q" using assms by (auto simp: arena_def page_aligned_unat)
  then show ?thesis
    using vpn_arena_eq arena_page_bounds [OF assms(1)] assms by (simp add: unat_arena_page)
qed

section \<open>Private frames\<close>

text \<open>
  \<open>grown s0 s start n J\<close>: compared with \<open>s0\<close>, the pages of the new range with index in \<open>J\<close> are mapped,
  each to a frame of its own that was free, and every other address translates as before.
\<close>

definition private_frame :: "mm \<Rightarrow> mm \<Rightarrow> u64 \<Rightarrow> bool" where
  "private_frame s0 s f \<longleftrightarrow> page_aligned f \<and> f \<noteq> 0 \<and> page_free s0 f \<and> \<not> page_free s f \<and>
     f \<notin> tset (phys s) 4 (pml4 (lay s0))"

definition grown :: "mm \<Rightarrow> mm \<Rightarrow> u64 \<Rightarrow> nat set \<Rightarrow> bool" where
  "grown s0 s start J \<longleftrightarrow>
     sound 4 (pml4 (lay s0)) s \<and> lay s = lay s0 \<and> vmm_ready s = vmm_ready s0 \<and>
     free_set (pm s) \<subseteq> free_set (pm s0) \<and> g_total_pages (pm s) = g_total_pages (pm s0) \<and>
     (\<forall>p\<in>tset (phys s) 4 (pml4 (lay s0)). p \<in> tset (phys s0) 4 (pml4 (lay s0)) \<or> page_free s0 p) \<and>
     (\<forall>a. page_of a \<notin> tset (phys s0) 4 (pml4 (lay s0)) \<longrightarrow> \<not> page_free s0 a \<longrightarrow> phys s a = phys s0 a) \<and>
     (\<forall>va. (\<forall>j\<in>J. vpn va \<noteq> vpn (arena_page start j)) \<longrightarrow>
        xlate (phys s) 4 (pml4 (lay s0)) va = xlate (phys s0) 4 (pml4 (lay s0)) va) \<and>
     (\<forall>j\<in>J. xlate (phys s0) 4 (pml4 (lay s0)) (arena_page start j) = None \<and>
        pt_of (phys s) 4 (pml4 (lay s0)) (arena_page start j) \<noteq> None \<and>
        (\<exists>f. xlate (phys s) 4 (pml4 (lay s0)) (arena_page start j) = Some f \<and> private_frame s0 s f)) \<and>
     inj_on (\<lambda>j. xlate (phys s) 4 (pml4 (lay s0)) (arena_page start j)) J"

lemma grown_refl: "sound 4 (pml4 (lay s)) s \<Longrightarrow> grown s s start {}"
  by (simp add: grown_def)

lemma grownD:
  assumes "grown s0 s start J"
  shows "sound 4 (pml4 (lay s0)) s" "lay s = lay s0" "vmm_ready s = vmm_ready s0"
    "free_set (pm s) \<subseteq> free_set (pm s0)" "g_total_pages (pm s) = g_total_pages (pm s0)" "pmm_inv (pm s)"
    "\<And>p. p \<in> tset (phys s) 4 (pml4 (lay s0)) \<Longrightarrow> p \<in> tset (phys s0) 4 (pml4 (lay s0)) \<or> page_free s0 p"
    "\<And>a. page_of a \<notin> tset (phys s0) 4 (pml4 (lay s0)) \<Longrightarrow> \<not> page_free s0 a \<Longrightarrow> phys s a = phys s0 a"
    "\<And>va. (\<And>j. j \<in> J \<Longrightarrow> vpn va \<noteq> vpn (arena_page start j)) \<Longrightarrow>
        xlate (phys s) 4 (pml4 (lay s0)) va = xlate (phys s0) 4 (pml4 (lay s0)) va"
    "\<And>j. j \<in> J \<Longrightarrow> xlate (phys s0) 4 (pml4 (lay s0)) (arena_page start j) = None \<and>
        pt_of (phys s) 4 (pml4 (lay s0)) (arena_page start j) \<noteq> None \<and>
        (\<exists>f. xlate (phys s) 4 (pml4 (lay s0)) (arena_page start j) = Some f \<and> private_frame s0 s f)"
    "inj_on (\<lambda>j. xlate (phys s) 4 (pml4 (lay s0)) (arena_page start j)) J"
  using assms by (simp_all add: grown_def sound_def)

lemma page_free_mono: "free_set (pm s) \<subseteq> free_set (pm s0) \<Longrightarrow> page_free s p \<Longrightarrow> page_free s0 p"
  by (auto simp: page_free_def)

text \<open>Giving back a frame that no page uses.\<close>

lemma grown_free:
  assumes g: "grown s0 s start J" and f: "page_aligned f" "f \<noteq> 0" "page_free s0 f"
    "f \<notin> tset (phys s) 4 (pml4 (lay s0))"
    and un: "\<And>j. j \<in> J \<Longrightarrow> xlate (phys s) 4 (pml4 (lay s0)) (arena_page start j) \<noteq> Some f"
  shows "grown s0 (s\<lparr>pm := pmm_free_page f (pm s)\<rparr>) start J" (is "grown s0 ?t start J")
proof -
  note G = grownD [OF g]
  have pf: "page_no f < unat (g_total_pages (pm s))"
    using f(3) G(5) by (simp add: page_free_def free_set_def)
  note fp = pmm_free_page_spec [OF G(6), of f]
  have free: "free_set (pm ?t) = insert (page_no f) (free_set (pm s))" using fp(3) f(1) pf by simp
  have pft: "page_free ?t q \<longleftrightarrow> page_free s q \<or> q = f" if "page_aligned q" for q
    using free page_no_inj [OF that f(1)] by (auto simp: page_free_def)
  have al: "page_aligned q" if "q \<in> tset (phys s) 4 (pml4 (lay s0))" for q
    using tset_hier [OF _ that] G(1) by (simp add: sound_def)
  have "sound 4 (pml4 (lay s0)) ?t"
    using G(1) fp(4) [OF f(2)] pft al f(4) by (auto simp: sound_def)
  moreover have "free_set (pm ?t) \<subseteq> free_set (pm s0)"
    using free G(4) f(3) by (auto simp: page_free_def)
  moreover have "private_frame s0 ?t h"
    if "xlate (phys s) 4 (pml4 (lay s0)) (arena_page start j) = Some h" "private_frame s0 s h" "j \<in> J" for h j
    using un [OF that(3)] that(1,2) pft by (auto simp: private_frame_def)
  ultimately show ?thesis
    using G(2,3,5,7-11) fp(5) unfolding grown_def by simp blast
qed

text \<open>One more page mapped, or the attempt undone.\<close>

lemma grown_map:
  assumes g: "grown s0 s start J" and ar: "arena start n" "i < n" "J \<subseteq> {..<n}" "i \<notin> J"
    and al: "pmm_alloc_page (pm s) = (p, a)" "p \<noteq> 0"
    and m: "vmm_map_page (arena_page start i) p 3 (s\<lparr>pm := a\<rparr>) = (ok, s2)"
  shows "ok \<Longrightarrow> grown s0 s2 start (insert i J)"
    and "\<not> ok \<Longrightarrow> grown s0 (s2\<lparr>pm := pmm_free_page p (pm s2)\<rparr>) start J"
proof -
  let ?root = "pml4 (lay s0)" and ?s1 = "s\<lparr>pm := a\<rparr>" and ?va = "arena_page start i"
  note G = grownD [OF g]
  note A = pmm_alloc_page_spec [OF G(6) al(1)]
  have p: "page_aligned p" "page_no p \<in> free_set (pm s)" "free_set a = free_set (pm s) - {page_no p}"
    using A(5) [OF al(2)] by blast+
  have nd: "vpn ?va \<noteq> vpn (arena_page start j)" if "j \<in> J" for j
    using vpn_arena_page [OF ar(1,2), of j] ar(3,4) that by auto
  have nf: "\<not> page_free s q" if "q \<in> tset (phys s) 4 ?root" for q using G(1) that by (auto simp: sound_def)
  have f1: "page_free ?s1 q \<longleftrightarrow> page_free s q \<and> q \<noteq> p" if "page_aligned q" for q
    using p(3) page_no_inj [OF that p(1)] by (auto simp: page_free_def)
  have s1: "sound 4 ?root ?s1"
    using G(1) A(1) p(3) by (auto simp: sound_def page_free_def)
  have pfp: "page_free s p" "\<not> page_free ?s1 p" using p by (auto simp: page_free_def)
  show "grown s0 s2 start (insert i J)" if okt: ok
  proof -
    have rdy: "vmm_ready s" using m okt by (simp add: vmm_map_page_def split: if_splits)
    obtain t where t: "map_page_root ?root ?va p 3 ?s1 = (0, t)" and s2: "s2 = t\<lparr>vmm_mapped := vmm_mapped t + 1\<rparr>"
      using m okt G(2) by (auto simp: vmm_map_page_def paging_map_page_def split: if_splits prod.splits)
    note M = map_page_root_spec [OF s1 t]
    have L: "lay t = lay s" "vmm_ready t = vmm_ready s" using evolves_lay [OF M(2)] by auto
    have ft: "free_set (pm t) \<subseteq> free_set a" "g_total_pages (pm t) = g_total_pages a"
      using M(2) by (simp_all add: evolves_def)
    have ts: "q \<in> tset (phys s) 4 ?root \<or> page_free ?s1 q" if "q \<in> tset (phys t) 4 ?root" for q
      using M(3) [OF that] by simp
    have ht: "hier (phys t) 4 ?root" using M(1) by (simp add: sound_def)
    have keep: "h \<notin> tset (phys t) 4 ?root \<and> \<not> page_free s2 h"
      if "\<not> page_free ?s1 h" "h \<notin> tset (phys s) 4 ?root" for h
      using ts [of h] that ft(1) by (auto simp: page_free_def s2)
    have xi: "xlate (phys t) 4 ?root ?va = Some p"
    proof -
      have "page_of 3 = 0" by (simp add: page_of_def)
      moreover have "?va AND 0xFFF = 0" using arena_page_bounds(3) [OF ar(1,2)] by (simp add: page_aligned_def)
      ultimately show ?thesis using M(4) [of ?va] by simp
    qed
    have xo: "xlate (phys t) 4 ?root va = xlate (phys s) 4 ?root va" if "vpn va \<noteq> vpn ?va" for va
      using M(4) [of va] that by simp
    have priv: "private_frame s0 s2 p"
      using p(1) al(2) keep [OF pfp(2)] nf pfp(1) page_free_mono [OF G(4) pfp(1)]
      by (auto simp: private_frame_def s2)
    have privJ: "private_frame s0 s2 h" if "private_frame s0 s h" for h
    proof -
      have "\<not> page_free ?s1 h" "h \<notin> tset (phys s) 4 ?root"
        using that by (auto simp: private_frame_def page_free_def p(3))
      then show ?thesis using keep that by (auto simp: private_frame_def s2)
    qed
    have x0: "xlate (phys s0) 4 ?root ?va = None" using M(5) G(9) [of ?va] nd by auto
    have "xlate (phys s2) 4 ?root va = xlate (phys s0) 4 ?root va"
      if "\<forall>j\<in>insert i J. vpn va \<noteq> vpn (arena_page start j)" for va
      using xo [of va] G(9) [of va] that by (simp add: s2)
    moreover have "xlate (phys s0) 4 ?root (arena_page start j) = None \<and>
        pt_of (phys s2) 4 ?root (arena_page start j) \<noteq> None \<and>
        (\<exists>f. xlate (phys s2) 4 ?root (arena_page start j) = Some f \<and> private_frame s0 s2 f)" if "j \<in> insert i J" for j
    proof (cases "j = i")
      case True
      then show ?thesis using x0 xi priv M(8) by (auto simp: s2)
    next
      case False
      then have j: "j \<in> J" using that by simp
      then show ?thesis
        using G(10) [OF j] xo [of "arena_page start j"] nd [OF j] privJ M(9) [of "arena_page start j"] by (auto simp: s2)
    qed
    moreover have "inj_on (\<lambda>j. xlate (phys s2) 4 ?root (arena_page start j)) (insert i J)"
    proof -
      have "xlate (phys s2) 4 ?root (arena_page start j) = xlate (phys s) 4 ?root (arena_page start j)" if "j \<in> J" for j
        using xo nd [OF that] by (simp add: s2)
      then have "inj_on (\<lambda>j. xlate (phys s2) 4 ?root (arena_page start j)) J"
        using G(11) by (simp cong: inj_on_cong)
      moreover have "xlate (phys s2) 4 ?root (arena_page start j) \<noteq> Some p" if "j \<in> J" for j
        using G(10) [OF that] xo [of "arena_page start j"] nd [OF that] pfp(1) by (auto simp: s2 private_frame_def)
      moreover have "xlate (phys s2) 4 ?root ?va = Some p" using xi by (simp add: s2)
      ultimately show ?thesis unfolding inj_on_insert image_iff by (metis Diff_iff)
    qed
    moreover have "sound 4 ?root s2" using M(1) by (simp add: sound_def s2 page_free_def)
    moreover have "q \<in> tset (phys s0) 4 ?root \<or> page_free s0 q" if "q \<in> tset (phys s2) 4 ?root" for q
      using ts [of q] G(7) [of q] that page_free_mono [OF G(4), of q] p(3) by (auto simp: s2 page_free_def)
    moreover have "phys s2 b = phys s0 b" if "page_of b \<notin> tset (phys s0) 4 ?root" "\<not> page_free s0 b" for b
    proof -
      have nt: "page_of b \<notin> tset (phys s) 4 ?root" using G(7) [of "page_of b"] that by auto
      have "\<not> page_free ?s1 b" using that(2) G(4) p(3) by (auto simp: page_free_def)
      then have "phys t b = phys ?s1 b" using M(2) nt by (simp add: evolves_def)
      then show ?thesis using G(8) [OF that] by (simp add: s2)
    qed
    ultimately show ?thesis
      unfolding grown_def using G(2-5) L ft A(2) p(3) by (auto simp: s2)
  qed
  show "grown s0 (s2\<lparr>pm := pmm_free_page p (pm s2)\<rparr>) start J" if nok: "\<not> ok"
  proof -
    consider (guard) "s2 = ?s1" | (fail) r where "map_page_root ?root ?va p 3 ?s1 = (r, s2)" "r \<noteq> 0"
      using m nok G(2) by (auto simp: vmm_map_page_def paging_map_page_def split: if_splits prod.splits)
    then show ?thesis
    proof cases
      case guard
      have "pmm_free_page p a = pm s" by (rule pmm_free_alloc [OF G(6) al])
      then show ?thesis using g guard by simp
    next
      case fail
      note M = map_page_root_spec [OF s1 fail(1)]
      have L: "lay s2 = lay s" "vmm_ready s2 = vmm_ready s" using evolves_lay [OF M(2)] by auto
      have ft: "free_set (pm s2) \<subseteq> free_set a" "g_total_pages (pm s2) = g_total_pages a"
        using M(2) by (simp_all add: evolves_def)
      have ts: "q \<in> tset (phys s) 4 ?root \<or> page_free ?s1 q" if "q \<in> tset (phys s2) 4 ?root" for q
        using M(3) [OF that] by simp
      have x: "xlate (phys s2) 4 ?root va = xlate (phys s) 4 ?root va" for va
        using M(4) [of va] fail(2) by simp
      have keep: "h \<notin> tset (phys s2) 4 ?root \<and> \<not> page_free s2 h"
        if "\<not> page_free ?s1 h" "h \<notin> tset (phys s) 4 ?root" for h
        using ts [of h] that ft(1) by (auto simp: page_free_def)
      have privJ: "private_frame s0 s2 h" if "private_frame s0 s h" for h
      proof -
        have "\<not> page_free ?s1 h" "h \<notin> tset (phys s) 4 ?root"
          using that by (auto simp: private_frame_def page_free_def p(3))
        then show ?thesis using keep that by (auto simp: private_frame_def)
      qed
      have bytes: "phys s2 b = phys s0 b" if "page_of b \<notin> tset (phys s0) 4 ?root" "\<not> page_free s0 b" for b
      proof -
        have nt: "page_of b \<notin> tset (phys s) 4 ?root" using G(7) [of "page_of b"] that by auto
        have "\<not> page_free ?s1 b" using that(2) G(4) p(3) by (auto simp: page_free_def)
        then have "phys s2 b = phys ?s1 b" using M(2) nt by (simp add: evolves_def)
        then show ?thesis using G(8) [OF that] by simp
      qed
      have tss: "q \<in> tset (phys s0) 4 ?root \<or> page_free s0 q" if "q \<in> tset (phys s2) 4 ?root" for q
        using ts [OF that] G(7) [of q] page_free_mono [OF G(4), of q] p(3) by (auto simp: page_free_def)
      have mp: "xlate (phys s0) 4 ?root (arena_page start j) = None \<and>
          pt_of (phys s2) 4 ?root (arena_page start j) \<noteq> None \<and>
          (\<exists>f. xlate (phys s2) 4 ?root (arena_page start j) = Some f \<and> private_frame s0 s2 f)" if "j \<in> J" for j
        using G(10) [OF that] x privJ M(9) [of "arena_page start j"] by auto
      have "grown s0 s2 start J"
        unfolding grown_def using M(1) G(2-5,9,11) L ft A(2) p(3) x mp bytes tss by auto
      then show ?thesis
      proof (rule grown_free [OF _ p(1) al(2) page_free_mono [OF G(4) pfp(1)]])
        show "p \<notin> tset (phys s2) 4 ?root" using keep [OF pfp(2)] nf pfp(1) by auto
        show "xlate (phys s2) 4 ?root (arena_page start j) \<noteq> Some p" if "j \<in> J" for j
          using G(10) [OF that] x pfp(1) by (auto simp: private_frame_def)
      qed
    qed
  qed
qed

text \<open>Undoing: one page unmapped and its frame released.\<close>

lemma grown_unmap:
  assumes g: "grown s0 s start J" and rdy: "vmm_ready s0" and ar: "arena start n" "J \<subseteq> {..<n}" "j \<in> J"
  defines "va \<equiv> arena_page start j"
  defines "f \<equiv> vmm_virt_to_phys va s"
  shows "f \<noteq> 0" and "grown s0 ((snd (vmm_unmap_page va s))\<lparr>pm :=
    pmm_free_page (f AND NOT (PAGE_SIZE - 1)) (pm (snd (vmm_unmap_page va s)))\<rparr>) start (J - {j})"
proof -
  let ?root = "pml4 (lay s0)"
  note G = grownD [OF g]
  have jn: "j < n" using ar by auto
  have x: "xlate (phys s) 4 ?root va = Some f" and pf: "private_frame s0 s f"
    using G(10) [OF ar(3)] G(2,3) rdy
    by (auto simp: va_def f_def vmm_virt_to_phys_def paging_virt_to_phys_def virt_to_phys_xlate xval_def)
  then show "f \<noteq> 0" by (simp add: private_frame_def)
  have fa: "page_aligned f" using pf by (simp add: private_frame_def)
  have fm: "f AND NOT (PAGE_SIZE - 1) = f" using page_of_id [OF fa] by (simp add: page_of_def)
  obtain r t where u: "unmap_page_root ?root va s = (r, t)" by fastforce
  note U = unmap_page_root_spec [OF G(1) u]
  have va0: "va AND 0xFFF = 0" using arena_page_bounds(3) [OF ar(1) jn] by (simp add: page_aligned_def va_def)
  obtain pt where pt: "pt_of (phys s) 4 ?root va = Some pt" using G(10) [OF ar(3)] by (auto simp: va_def)
  have h: "hier (phys s) 4 ?root" using G(1) by (simp add: sound_def)
  have "present (ent (phys s) pt (level_index (Suc 0) va))"
    using xlate_pt_of [OF h [unfolded level_4] pt [unfolded level_4]] x
    by (simp only: level_4) (simp add: leaf_xlate_def split: if_splits)
  then have r: "r = 1" using U(7) va0 pt by blast
  define w where "w = snd (vmm_unmap_page va s)"
  have w: "phys w = phys t" "pm w = pm t" "lay w = lay t" "vmm_ready w = vmm_ready t"
    using u G(2,3) rdy va0
    by (auto simp: w_def vmm_unmap_page_def paging_unmap_page_def VMM_PAGE_SIZE_def)
  have L: "lay t = lay s" "vmm_ready t = vmm_ready s" using evolves_lay [OF U(2)] by auto
  have ft: "free_set (pm t) \<subseteq> free_set (pm s)" "g_total_pages (pm t) = g_total_pages (pm s)"
    using U(2) by (simp_all add: evolves_def)
  have nd: "vpn (arena_page start k) \<noteq> vpn va" if "k \<in> J" "k \<noteq> j" for k
    using vpn_arena_page [OF ar(1), of k j] ar(2) jn that by (auto simp: va_def)
  have xw: "xlate (phys w) 4 ?root a = (if vpn a = vpn va then None else xlate (phys s) 4 ?root a)" for a
    using U(4) [of a] r by (simp add: w)
  have privw: "private_frame s0 w k" if "private_frame s0 s k" for k
    using that ft(1) U(3) by (auto simp: private_frame_def w page_free_def)
  have bytes: "phys w b = phys s0 b" if "page_of b \<notin> tset (phys s0) 4 ?root" "\<not> page_free s0 b" for b
  proof -
    have "page_of b \<notin> tset (phys s) 4 ?root" using G(7) [of "page_of b"] that by auto
    moreover have "\<not> page_free s b" using that(2) page_free_mono [OF G(4)] by blast
    ultimately show ?thesis using U(2) G(8) [OF that] by (simp add: evolves_def w)
  qed
  have xo: "xlate (phys w) 4 ?root a = xlate (phys s0) 4 ?root a"
    if "\<forall>k\<in>J - {j}. vpn a \<noteq> vpn (arena_page start k)" for a
  proof (cases "vpn a = vpn va")
    case True
    have "xlate (phys s0) 4 ?root va = None" using G(10) [OF ar(3)] by (simp add: va_def)
    then have "xlate (phys s0) 4 ?root a = None"
      using xlate_None_same_path [of 4 va a] True by (simp add: same_path_vpn)
    then show ?thesis using xw True by simp
  next
    case False
    then have "\<forall>k\<in>J. vpn a \<noteq> vpn (arena_page start k)" using that by (auto simp: va_def)
    then show ?thesis using xw False G(9) by simp
  qed
  have mp: "xlate (phys s0) 4 ?root (arena_page start k) = None \<and>
      pt_of (phys w) 4 ?root (arena_page start k) \<noteq> None \<and>
      (\<exists>f. xlate (phys w) 4 ?root (arena_page start k) = Some f \<and> private_frame s0 w f)" if "k \<in> J - {j}" for k
    using G(10) [of k] that xw nd privw U(8) by (auto simp: w)
  have inj: "inj_on (\<lambda>k. xlate (phys w) 4 ?root (arena_page start k)) (J - {j})"
  proof -
    have "inj_on (\<lambda>k. xlate (phys s) 4 ?root (arena_page start k)) (J - {j})"
      using G(11) by (rule inj_on_subset) auto
    then show ?thesis using xw nd by (simp add: inj_on_def)
  qed
  have sw: "sound 4 ?root w" using U(1) by (simp add: sound_def w page_free_def)
  have tw: "tset (phys w) 4 ?root = tset (phys s) 4 ?root" using U(3) by (simp add: w)
  have gw: "grown s0 w start (J - {j})"
    unfolding grown_def using sw G(2-5,7) L ft w tw bytes xo mp inj by auto
  show "grown s0 ((snd (vmm_unmap_page va s))\<lparr>pm :=
      pmm_free_page (f AND NOT (PAGE_SIZE - 1)) (pm (snd (vmm_unmap_page va s)))\<rparr>) start (J - {j})"
    unfolding fm w_def [symmetric]
  proof (rule grown_free [OF gw fa])
    show "f \<noteq> 0" "page_free s0 f" "f \<notin> tset (phys w) 4 ?root"
      using pf tw by (auto simp: private_frame_def)
    show "xlate (phys w) 4 ?root (arena_page start k) \<noteq> Some f" if "k \<in> J - {j}" for k
    proof
      assume "xlate (phys w) 4 ?root (arena_page start k) = Some f"
      then have "xlate (phys s) 4 ?root (arena_page start k) = xlate (phys s) 4 ?root (arena_page start j)"
        using xw nd that x by (simp add: va_def split: if_splits)
      then show False using inj_onD [OF G(11)] that ar(3) by auto
    qed
  qed
qed

lemma unmap_grown_spec:
  assumes "grown s0 s start {..<i}" "vmm_ready s0" "arena start n" "i \<le> n"
  shows "grown s0 (unmap_grown start i s) start {}"
proof -
  let ?step = "\<lambda>j s. let va = start + of_nat j * PAGE_SIZE; old_phys = vmm_virt_to_phys va s
                 in if old_phys \<noteq> 0 then
                      let s1 = snd (vmm_unmap_page va s)
                      in s1\<lparr>pm := pmm_free_page (old_phys AND NOT (PAGE_SIZE - 1)) (pm s1)\<rparr>
                    else s"
  have "grown s0 (fold ?step [0..<k] s) start {k..<i}" if "k \<le> i" for k
    using that
  proof (induction k)
    case 0
    then show ?case using assms(1) by (simp add: lessThan_atLeast0)
  next
    case (Suc k)
    let ?t = "fold ?step [0..<k] s"
    have g: "grown s0 ?t start {k..<i}" using Suc by simp
    have sub: "{k..<i} \<subseteq> {..<n}" "k \<in> {k..<i}" using assms(4) Suc.prems by auto
    note gu = grown_unmap [OF g assms(2,3) sub, unfolded arena_page_def]
    have "{k..<i} - {k} = {Suc k..<i}" using Suc.prems by auto
    with gu have "grown s0 (?step k ?t) start {Suc k..<i}" by (simp add: Let_def del: pmm_consts)
    then show ?case by (simp only: upt_Suc_append [OF le0] fold_append fold.simps o_apply id_apply)
  qed
  from this [of i] show ?thesis by (simp add: unmap_grown_def)
qed

lemma map_pages_from_spec:
  assumes "vmm_ready s0" "arena start n"
  shows "i \<le> n \<Longrightarrow> grown s0 s start {..<i} \<Longrightarrow> map_pages_from start [i..<n] s = (ok, s') \<Longrightarrow>
    grown s0 s' start (if ok then {..<n} else {})"
proof (induction "n - i" arbitrary: i s)
  case 0
  then show ?case by simp
next
  case (Suc d)
  then have i: "i < n" by simp
  obtain p a where al: "pmm_alloc_page (pm s) = (p, a)" by fastforce
  have r: "map_pages_from start (i # [Suc i..<n]) s = (ok, s')"
    using Suc.prems(3) i by (simp add: upt_conv_Cons)
  show ?case
  proof (cases "p = 0")
    case True
    then have "a = pm s"
      using pmm_alloc_page_spec(4) [OF grownD(6) [OF Suc.prems(2)] al] by simp
    then have "grown s0 (s\<lparr>pm := a\<rparr>) start {..<i}" using Suc.prems(2) by simp
    moreover have "ok = False" "s' = unmap_grown start i (s\<lparr>pm := a\<rparr>)" using r al True by auto
    ultimately show ?thesis using unmap_grown_spec assms i by simp
  next
    case False
    obtain ok2 s2 where m: "vmm_map_page (arena_page start i) p 3 (s\<lparr>pm := a\<rparr>) = (ok2, s2)" by fastforce
    have fl: "VMM_PAGE_PRESENT OR VMM_PAGE_WRITABLE = 3" by (simp add: VMM_PAGE_PRESENT_def VMM_PAGE_WRITABLE_def)
    have sub: "{..<i} \<subseteq> {..<n}" "i \<notin> {..<i}" using i by auto
    note gm = grown_map [OF Suc.prems(2) assms(2) i sub al False m]
    show ?thesis
    proof (cases ok2)
      case True
      have g2: "grown s0 s2 start {..<Suc i}" using gm(1) [OF True] by (simp add: lessThan_Suc)
      have "map_pages_from start [Suc i..<n] s2 = (ok, s')"
        using r al False m True fl by (simp add: arena_page_def Let_def)
      from Suc.hyps(1) [OF _ _ g2 this] show ?thesis using Suc.hyps(2) i by simp
    next
      case nok: False
      have "ok = False" "s' = unmap_grown start i (s2\<lparr>pm := pmm_free_page p (pm s2)\<rparr>)"
        using r al False m nok fl by (auto simp: arena_page_def Let_def)
      then show ?thesis using unmap_grown_spec [OF gm(2) [OF nok] assms] i by simp
    qed
  qed
qed

lemma map_new_pages_spec:
  assumes "sound 4 (pml4 (lay s)) s" "vmm_ready s" "arena start (unat pages)"
    and "map_new_pages start pages s = (ok, s')"
  shows "grown s s' start (if ok then {..<unat pages} else {})"
  using map_pages_from_spec [OF assms(2,3), of 0 s ok s'] assms(4) grown_refl [OF assms(1)]
  by (simp add: map_new_pages_def)

section \<open>The backing of the heap\<close>

text \<open>The first \<open>n\<close> pages of the arena are mapped to frames of their own that are neither free nor tables.\<close>

definition backed :: "nat \<Rightarrow> mm \<Rightarrow> bool" where
  "backed n s \<longleftrightarrow>
     (\<forall>k<n. \<exists>f. xlate (phys s) 4 (pml4 (lay s)) (arena_page HEAP_BASE k) = Some f \<and> page_aligned f \<and> f \<noteq> 0 \<and>
        \<not> page_free s f \<and> f \<notin> tset (phys s) 4 (pml4 (lay s))) \<and>
     inj_on (\<lambda>k. xlate (phys s) 4 (pml4 (lay s)) (arena_page HEAP_BASE k)) {..<n}"

lemma backed_grown:
  assumes b: "backed N s0" and g: "grown s0 s (arena_page HEAP_BASE N) {..<n}" and ar: "arena HEAP_BASE (N + n)"
  shows "backed (N + n) s"
proof -
  let ?root = "pml4 (lay s0)" and ?x = "\<lambda>s k. xlate (phys s) 4 (pml4 (lay s0)) (arena_page HEAP_BASE k)"
  note G = grownD [OF g]
  have pg: "arena_page (arena_page HEAP_BASE N) j = arena_page HEAP_BASE (N + j)" for j
    by (simp add: arena_page_def algebra_simps)
  have old: "?x s k = ?x s0 k" if "k < N" for k
    using that vpn_arena_page [OF ar, of k "N + _"] by (intro G(9)) (auto simp: pg)
  have o: "\<exists>f. ?x s k = Some f \<and> page_aligned f \<and> f \<noteq> 0 \<and> \<not> page_free s0 f \<and> \<not> page_free s f \<and> f \<notin> tset (phys s) 4 ?root"
    if k: "k < N" for k
  proof -
    obtain f where f: "?x s0 k = Some f" "page_aligned f" "f \<noteq> 0" "\<not> page_free s0 f" "f \<notin> tset (phys s0) 4 ?root"
      using b k by (auto simp: backed_def)
    have "\<not> page_free s f" using f(4) page_free_mono [OF G(4)] by blast
    moreover have "f \<notin> tset (phys s) 4 ?root" using G(7) [of f] f(4,5) by blast
    ultimately show ?thesis using f old [OF k] by simp
  qed
  have nw: "\<exists>f. ?x s k = Some f \<and> page_aligned f \<and> f \<noteq> 0 \<and> page_free s0 f \<and> \<not> page_free s f \<and> f \<notin> tset (phys s) 4 ?root"
    if k: "\<not> k < N" "k < N + n" for k
    using G(10) [of "k - N"] k by (auto simp: pg private_frame_def)
  have all: "\<exists>f. ?x s k = Some f \<and> page_aligned f \<and> f \<noteq> 0 \<and> \<not> page_free s f \<and> f \<notin> tset (phys s) 4 ?root"
    if "k < N + n" for k
    using o [of k] nw [of k] that by blast
  have "j = k" if jk: "j < N + n" "k < N + n" "?x s j = ?x s k" for j k
  proof (cases "j < N"; cases "k < N")
    assume "j < N" "k < N"
    then show ?thesis using b jk(3) old by (auto simp: backed_def dest: inj_onD)
  next
    assume "j < N" "\<not> k < N"
    then show ?thesis using o [of j] nw [of k] jk by auto
  next
    assume "\<not> j < N" "k < N"
    then show ?thesis using o [of k] nw [of j] jk by auto
  next
    assume a: "\<not> j < N" "\<not> k < N"
    then have "j - N = k - N" using jk inj_onD [OF G(11), of "j - N" "k - N"] by (simp add: pg)
    then show ?thesis using a by simp
  qed
  then show ?thesis using all G(2) by (auto simp: backed_def intro: inj_onI)
qed

end
