(* ===== verification/Heap_Blocks.thy ===== *)
theory Heap_Blocks
  imports Heap_Arena
begin

text \<open>
  The block list of the heap. \<open>lseg\<close> is the doubly linked list of headers, \<open>tiled\<close> says that the blocks
  fill the arena without gaps, \<open>heap_inv\<close> is the invariant of the allocator between calls.
\<close>

lemma heap_consts [simp]:
  "HEADER_SIZE = 48" "HEAP_ALIGNMENT = 16" "BLOCK_FREE = 1" "HEAP_BASE = 0xFFFF800000000000"
  "HEAP_LIMIT = 0xFFFF900000000000" "NOT_BLOCK_FREE = 0xFFFFFFFE"
  by (simp_all add: HEADER_SIZE_def HEAP_ALIGNMENT_def sizeof_heap_block_def BLOCK_FREE_def HEAP_BASE_def
      HEAP_LIMIT_def NOT_BLOCK_FREE_def)

section \<open>Linked lists\<close>

type_synonym store = "u64 \<Rightarrow> heap_block"

fun lseg :: "store \<Rightarrow> u64 \<Rightarrow> u64 \<Rightarrow> u64 list \<Rightarrow> u64 \<Rightarrow> bool" where
  "lseg st p b [] e \<longleftrightarrow> b = e"
| "lseg st p b (x # xs) e \<longleftrightarrow> b = x \<and> x \<noteq> 0 \<and> b_prev (st x) = p \<and> lseg st x (b_next (st x)) xs e"

lemma lseg_append:
  "lseg st p b (xs @ ys) e \<longleftrightarrow> (\<exists>m. lseg st p b xs m \<and> lseg st (last (p # xs)) m ys e)"
  by (induction xs arbitrary: p b) auto

lemma lseg_cong:
  "(\<And>x. x \<in> set xs \<Longrightarrow> b_prev (st' x) = b_prev (st x) \<and> b_next (st' x) = b_next (st x)) \<Longrightarrow>
   lseg st' p b xs e \<longleftrightarrow> lseg st p b xs e"
  by (induction xs arbitrary: p b) auto

lemma lseg_nonzero: "lseg st p b xs e \<Longrightarrow> 0 \<notin> set xs"
  by (induction xs arbitrary: p b) auto

lemma lseg_head: "lseg st p b xs e \<Longrightarrow> b = (if xs = [] then e else hd xs)"
  by (cases xs) auto

text \<open>Changing the back link of the first block, and the forward link of the last one.\<close>

lemma lseg_set_prev:
  assumes "lseg st p b xs e" and "xs \<noteq> []" and "distinct xs"
    and "\<And>x. x \<in> set xs \<Longrightarrow> b_next (st' x) = b_next (st x) \<and> (x \<noteq> b \<longrightarrow> b_prev (st' x) = b_prev (st x))"
    and "b_prev (st' b) = q"
  shows "lseg st' q b xs e"
proof (cases xs)
  case (Cons x ys)
  then have "lseg st x (b_next (st x)) ys e" "b = x" "x \<noteq> 0" using assms(1) by auto
  moreover have "lseg st' x (b_next (st x)) ys e = lseg st x (b_next (st x)) ys e"
    using assms(3,4) Cons \<open>b = x\<close> by (intro lseg_cong) auto
  ultimately show ?thesis using assms(4,5) Cons by auto
qed (use assms in simp)

lemma lseg_links:
  "lseg st p b xs e \<Longrightarrow> x \<in> set xs \<Longrightarrow>
   (b_prev (st x) = p \<or> b_prev (st x) \<in> set xs) \<and> (b_next (st x) = e \<or> b_next (st x) \<in> set xs)"
proof (induction xs arbitrary: p b)
  case (Cons y ys)
  then show ?case using lseg_head [of st y "b_next (st y)" ys e] by (cases ys) fastforce+
qed simp

section \<open>Tiling\<close>

definition block_ok :: "heap_block \<Rightarrow> bool" where
  "block_ok b \<longleftrightarrow> b_magic b = BLOCK_MAGIC \<and> (b_flags b = 0 \<or> b_flags b = 1) \<and>
     16 \<le> unat (b_capacity b) \<and> 16 dvd unat (b_capacity b) \<and> b_size b \<le> b_capacity b"

fun tiled :: "store \<Rightarrow> nat \<Rightarrow> u64 list \<Rightarrow> nat \<Rightarrow> bool" where
  "tiled st a [] e \<longleftrightarrow> a = e"
| "tiled st a (x # xs) e \<longleftrightarrow> unat x = a \<and> block_ok (st x) \<and> tiled st (a + 48 + unat (b_capacity (st x))) xs e"

lemma tiled_append: "tiled st a (xs @ ys) e \<longleftrightarrow> (\<exists>m. tiled st a xs m \<and> tiled st m ys e)"
  by (induction xs arbitrary: a) auto

lemma tiled_le: "tiled st a xs e \<Longrightarrow> a \<le> e"
  by (induction xs arbitrary: a) (auto dest: add_leD1 add_leD2)

definition same_core :: "heap_block \<Rightarrow> heap_block \<Rightarrow> bool" where
  "same_core b c \<longleftrightarrow> b_magic b = b_magic c \<and> b_size b = b_size c \<and> b_capacity b = b_capacity c \<and> b_flags b = b_flags c"

lemma tiled_cong:
  "(\<And>x. x \<in> set xs \<Longrightarrow> same_core (st' x) (st x)) \<Longrightarrow> tiled st' a xs e \<longleftrightarrow> tiled st a xs e"
  by (induction xs arbitrary: a) (auto simp: same_core_def block_ok_def)

lemma tiled_bounds:
  "tiled st a xs e \<Longrightarrow> x \<in> set xs \<Longrightarrow> a \<le> unat x \<and> unat x + 48 + unat (b_capacity (st x)) \<le> e \<and> block_ok (st x)"
proof (induction xs arbitrary: a)
  case (Cons y ys)
  then show ?case using tiled_le [of st "a + 48 + unat (b_capacity (st y))" ys e] by fastforce
qed simp

lemma tiled_distinct: "tiled st a xs e \<Longrightarrow> distinct xs"
proof (induction xs arbitrary: a)
  case (Cons y ys)
  have "y \<notin> set ys" using tiled_bounds [of st "a + 48 + unat (b_capacity (st y))" ys e y] Cons.prems by auto
  then show ?case using Cons by auto
qed simp

text \<open>Two blocks of a tiling do not overlap.\<close>

lemma tiled_disjoint:
  assumes "tiled st a xs e" "x \<in> set xs" "y \<in> set xs" "x \<noteq> y"
  shows "unat x + 48 + unat (b_capacity (st x)) \<le> unat y \<or> unat y + 48 + unat (b_capacity (st y)) \<le> unat x"
  using assms
proof (induction xs arbitrary: a)
  case (Cons z zs)
  have "unat z + 48 + unat (b_capacity (st z)) \<le> unat w" if "w \<in> set zs" for w
    using tiled_bounds [of st "a + 48 + unat (b_capacity (st z))" zs e w] Cons.prems(1) that by auto
  then show ?case using Cons by auto
qed simp

section \<open>Invariant\<close>

definition free_sum :: "store \<Rightarrow> u64 list \<Rightarrow> nat" where
  "free_sum st xs = (\<Sum>x\<leftarrow>xs. if is_free (st x) then unat (b_capacity (st x)) else 0)"

definition used_count :: "store \<Rightarrow> u64 list \<Rightarrow> nat" where
  "used_count st xs = length (filter (\<lambda>x. \<not> is_free (st x)) xs)"

definition apart :: "store \<Rightarrow> u64 list \<Rightarrow> bool" where
  "apart st xs \<longleftrightarrow> successively (\<lambda>x y. \<not> (is_free (st x) \<and> is_free (st y))) xs"

text \<open>\<open>blocks_inv\<close> is what holds also between the two merges of \<open>kfree\<close>.\<close>

definition blocks_inv :: "heap \<Rightarrow> u64 list \<Rightarrow> bool" where
  "blocks_inv h bs \<longleftrightarrow> heap_ready h \<and> lseg (hst h) 0 (g_head h) bs 0 \<and>
     tiled (hst h) (unat HEAP_BASE) bs (unat (g_heap_next h)) \<and>
     unat (g_heap_next h) \<le> unat HEAP_LIMIT \<and>
     unat (g_heap_next h) = unat HEAP_BASE + 4096 * unat (g_heap_pages h) \<and>
     unat (g_free_bytes h) = free_sum (hst h) bs \<and> unat (g_allocations h) = used_count (hst h) bs \<and>
     sound 4 (pml4 (lay (hmm h))) (hmm h) \<and> vmm_ready (hmm h) \<and> backed (unat (g_heap_pages h)) (hmm h)"

definition heap_inv :: "heap \<Rightarrow> u64 list \<Rightarrow> bool" where
  "heap_inv h bs \<longleftrightarrow> blocks_inv h bs \<and> apart (hst h) bs"

text \<open>The blocks handed out: header address and capacity of every block in use.\<close>

definition used :: "heap \<Rightarrow> u64 list \<Rightarrow> (u64 \<times> u64) set" where
  "used h bs = {(x, b_capacity (hst h x)) | x. x \<in> set bs \<and> \<not> is_free (hst h x)}"

lemma blocks_inv_update [simp]:
  "blocks_inv (h\<lparr>intr := i\<rparr>) bs = blocks_inv h bs"
  "blocks_inv (h\<lparr>g_used_bytes := n\<rparr>) bs = blocks_inv h bs"
  "blocks_inv (h\<lparr>g_corruption_count := n\<rparr>) bs = blocks_inv h bs"
  by (simp_all add: blocks_inv_def)

lemma used_update [simp]:
  "used (h\<lparr>intr := i\<rparr>) bs = used h bs" "used (h\<lparr>g_used_bytes := n\<rparr>) bs = used h bs"
  "used (h\<lparr>g_corruption_count := n\<rparr>) bs = used h bs" "used (h\<lparr>g_allocations := n\<rparr>) bs = used h bs"
  "used (h\<lparr>g_free_bytes := n\<rparr>) bs = used h bs" "used (h\<lparr>hmm := m\<rparr>) bs = used h bs"
  by (simp_all add: used_def)

lemma sums_simps [simp]:
  "free_sum st [] = 0" "free_sum st (x # xs) = (if is_free (st x) then unat (b_capacity (st x)) else 0) + free_sum st xs"
  "free_sum st (xs @ ys) = free_sum st xs + free_sum st ys"
  "used_count st [] = 0" "used_count st (x # xs) = (if is_free (st x) then 0 else 1) + used_count st xs"
  "used_count st (xs @ ys) = used_count st xs + used_count st ys"
  by (simp_all add: free_sum_def used_count_def)

lemma sums_cong:
  assumes "\<And>x. x \<in> set xs \<Longrightarrow> same_core (st' x) (st x)"
  shows "free_sum st' xs = free_sum st xs" "used_count st' xs = used_count st xs"
  using assms by (induction xs) (simp_all add: same_core_def)

lemma free_flag: "block_ok b \<Longrightarrow> is_free b \<longleftrightarrow> b_flags b = 1"
  by (auto simp: block_ok_def)

section \<open>Validation\<close>

lemma block_basic_valid_inv:
  assumes inv: "blocks_inv h bs" and x: "x \<in> set bs"
  shows "block_basic_valid x h" "b_flags (hst h x) AND NOT_BLOCK_FREE = 0"
proof -
  have t: "tiled (hst h) (unat HEAP_BASE) bs (unat (g_heap_next h))"
    and ls: "lseg (hst h) 0 (g_head h) bs 0" using inv by (auto simp: blocks_inv_def)
  have B: "unat HEAP_BASE \<le> unat y" "unat y + 48 + unat (b_capacity (hst h y)) \<le> unat (g_heap_next h)"
    "block_ok (hst h y)" if "y \<in> set bs" for y
    using tiled_bounds [OF t that] by auto
  have ptr: "ptr_in_heap y h" if "y \<in> set bs" for y
    using B [OF that] by (auto simp: ptr_in_heap_def word_le_nat_alt word_less_nat_alt)
  have e: "unat (x + HEADER_SIZE + b_capacity (hst h x)) = unat x + 48 + unat (b_capacity (hst h x))"
  proof -
    have lim: "unat x + 48 + unat (b_capacity (hst h x)) < 18446744073709551616"
      using B(2) [OF x] unat_u64_bound [of "g_heap_next h"] by linarith
    then have "unat (x + 48) = unat x + 48" by (subst unat_add_u64) simp_all
    then show ?thesis using lim by (subst unat_add_u64) simp_all
  qed
  have "b_prev (hst h x) = 0 \<or> ptr_in_heap (b_prev (hst h x)) h" "b_next (hst h x) = 0 \<or> ptr_in_heap (b_next (hst h x)) h"
    using lseg_links [OF ls x] ptr by auto
  moreover have "\<not> x + HEADER_SIZE + b_capacity (hst h x) < x" "\<not> x + HEADER_SIZE + b_capacity (hst h x) > g_heap_next h"
    using e B(2) [OF x] by (simp_all only: word_less_nat_alt)
  moreover have "x \<noteq> 0" using lseg_nonzero [OF ls] x by auto
  moreover have "b_capacity (hst h x) \<noteq> 0" using B(3) [OF x] by (auto simp: block_ok_def)
  ultimately show "block_basic_valid x h"
    using ptr [OF x] B(3) [OF x] unfolding block_basic_valid_def Let_def by (auto simp: block_ok_def not_less)
  show "b_flags (hst h x) AND NOT_BLOCK_FREE = 0" using B(3) [OF x] by (auto simp: block_ok_def)
qed

lemma validate_loop_spec:
  "lseg (hst h) p b xs 0 \<Longrightarrow> (\<And>x. x \<in> set xs \<Longrightarrow> block_basic_valid x h \<and> b_flags (hst h x) AND NOT_BLOCK_FREE = 0) \<Longrightarrow>
   unat seen \<le> 1000001 \<Longrightarrow> validate_loop h seen p b \<longleftrightarrow> unat seen + length xs \<le> 1000001"
proof (induction xs arbitrary: p b seen)
  case Nil
  then show ?case by (subst validate_loop.simps) simp
next
  case (Cons x xs)
  show ?case
  proof (cases "seen > 1000000")
    case True
    then have "unat seen = 1000001" using Cons.prems(3) by (simp add: word_less_nat_alt)
    then show ?thesis using True Cons.prems by (subst validate_loop.simps) simp
  next
    case False
    then have s: "unat seen \<le> 1000000" "unat (seen + 1) = unat seen + 1"
      by (simp_all add: word_less_nat_alt unat_add_u64)
    have rest: "lseg (hst h) x (b_next (hst h x)) xs 0" using Cons.prems(1) by simp
    have "b_next (hst h x) \<noteq> 0 \<Longrightarrow> b_prev (hst h (b_next (hst h x))) = x" using rest by (cases xs) auto
    then have "validate_loop h seen p b = validate_loop h (seen + 1) x (b_next (hst h x))"
      using Cons.prems False by (subst validate_loop.simps) (auto simp del: heap_consts)
    then show ?thesis using Cons.IH [OF rest, of "seen + 1"] Cons.prems(2) s by simp
  qed
qed

lemma heap_validate_inv:
  assumes "blocks_inv h bs"
  shows "heap_validate h = (if length bs \<le> 1000001 then (True, h)
     else (False, h\<lparr>g_corruption_count := g_corruption_count h + 1\<rparr>))"
proof -
  have ls: "lseg (hst h) 0 (g_head h) bs 0" and r: "heap_ready h" using assms by (auto simp: blocks_inv_def)
  have "g_head h \<noteq> 0 \<Longrightarrow> b_prev (hst h (g_head h)) = 0" using ls by (cases bs) auto
  then show ?thesis
    using validate_loop_spec [OF ls, of 0] block_basic_valid_inv [OF assms] r by (auto simp: heap_validate_def)
qed

section \<open>Walks\<close>

lemma find_fit_spec:
  "lseg st p b xs 0 \<Longrightarrow>
   find_fit st r b = Some (case find (\<lambda>x. is_free (st x) \<and> r \<le> b_capacity (st x)) xs of None \<Rightarrow> 0 | Some x \<Rightarrow> x)"
proof (induction xs arbitrary: p b)
  case Nil
  then show ?case by (subst find_fit.simps) simp
next
  case (Cons x xs)
  have "find_fit st r (b_next (st x)) =
      Some (case find (\<lambda>x. is_free (st x) \<and> r \<le> b_capacity (st x)) xs of None \<Rightarrow> 0 | Some x \<Rightarrow> x)"
    using Cons.prems by (intro Cons.IH [of x]) simp
  then show ?case using Cons.prems by (subst find_fit.simps) simp
qed

lemma last_block_spec: "lseg st p b xs 0 \<Longrightarrow> xs \<noteq> [] \<Longrightarrow> last_block st b = Some (last xs)"
proof (induction xs arbitrary: p b)
  case (Cons x xs)
  then show ?case
    using lseg_head [of st x "b_next (st x)" xs 0] lseg_nonzero [of st x "b_next (st x)" xs 0]
    by (cases xs) (auto simp: last_block.simps [of st x])
qed simp

section \<open>Taking a block\<close>

lemma blocks_split:
  assumes "blocks_inv h (xs @ b # ys)"
  shows "lseg (hst h) 0 (g_head h) xs b" "b \<noteq> 0" "b_prev (hst h b) = last (0 # xs)"
    "lseg (hst h) b (b_next (hst h b)) ys 0" "block_ok (hst h b)"
    "tiled (hst h) (unat HEAP_BASE) xs (unat b)"
    "tiled (hst h) (unat b + 48 + unat (b_capacity (hst h b))) ys (unat (g_heap_next h))"
    "distinct (xs @ b # ys)" "b_next (hst h b) = (if ys = [] then 0 else hd ys)"
    "unat b + 48 + unat (b_capacity (hst h b)) \<le> unat (g_heap_next h)" "0xFFFF800000000000 \<le> unat b"
    "0 \<notin> set (xs @ b # ys)"
proof -
  have ls: "lseg (hst h) 0 (g_head h) (xs @ b # ys) 0"
    and t: "tiled (hst h) (unat HEAP_BASE) (xs @ b # ys) (unat (g_heap_next h))"
    using assms by (auto simp: blocks_inv_def)
  show "lseg (hst h) 0 (g_head h) xs b" "b \<noteq> 0" "b_prev (hst h b) = last (0 # xs)"
    "lseg (hst h) b (b_next (hst h b)) ys 0"
    using ls unfolding lseg_append by auto
  then show "b_next (hst h b) = (if ys = [] then 0 else hd ys)" using lseg_head by blast
  show "block_ok (hst h b)" "tiled (hst h) (unat HEAP_BASE) xs (unat b)"
    "tiled (hst h) (unat b + 48 + unat (b_capacity (hst h b))) ys (unat (g_heap_next h))"
    using t unfolding tiled_append by auto
  show "distinct (xs @ b # ys)" using tiled_distinct [OF t] .
  show "unat b + 48 + unat (b_capacity (hst h b)) \<le> unat (g_heap_next h)" "0xFFFF800000000000 \<le> unat b"
    using tiled_bounds [OF t, of b] by auto
  show "0 \<notin> set (xs @ b # ys)" using lseg_nonzero [OF ls] .
qed

text \<open>Changing the flags and the size of one block, and the counters with them.\<close>

lemma blocks_inv_flags:
  assumes inv: "blocks_inv h (xs @ b # ys)" and c: "hst h' = (hst h)(b := c)"
    and same: "b_prev c = b_prev (hst h b)" "b_next c = b_next (hst h b)" "b_capacity c = b_capacity (hst h b)"
      "block_ok c"
    and rest: "g_head h' = g_head h" "g_heap_next h' = g_heap_next h" "g_heap_pages h' = g_heap_pages h"
      "heap_ready h' = heap_ready h" "hmm h' = hmm h"
    and sums: "unat (g_free_bytes h') + (if is_free (hst h b) then unat (b_capacity (hst h b)) else 0)
        = unat (g_free_bytes h) + (if is_free c then unat (b_capacity (hst h b)) else 0)"
      "unat (g_allocations h') + (if is_free (hst h b) then 0 else 1) =
       unat (g_allocations h) + (if is_free c then 0 else 1)"
  shows "blocks_inv h' (xs @ b # ys)"
proof -
  note S = blocks_split [OF inv]
  have nb: "b \<notin> set xs" "b \<notin> set ys" using S(8) by auto
  have core: "same_core (hst h' x) (hst h x)" if "x \<in> set xs \<union> set ys" for x
    using that nb by (auto simp: c same_core_def)
  have "lseg (hst h') 0 (g_head h') (xs @ b # ys) 0"
  proof -
    have "lseg (hst h') p q (xs @ b # ys) e = lseg (hst h) p q (xs @ b # ys) e" for p q e
      by (rule lseg_cong) (auto simp: c same(1,2))
    then show ?thesis using inv rest(1) by (simp add: blocks_inv_def)
  qed
  moreover have "tiled (hst h') (unat HEAP_BASE) (xs @ b # ys) (unat (g_heap_next h'))"
  proof -
    have "tiled (hst h') a xs e = tiled (hst h) a xs e" "tiled (hst h') a ys e = tiled (hst h) a ys e" for a e
      using core by (auto intro!: tiled_cong)
    then show ?thesis
      using S(6,7) same(3,4) rest(2) by (auto simp: tiled_append c)
  qed
  moreover have "unat (g_free_bytes h') = free_sum (hst h') (xs @ b # ys)"
    "unat (g_allocations h') = used_count (hst h') (xs @ b # ys)"
    using inv sums same(3) sums_cong [of xs "hst h'" "hst h"] sums_cong [of ys "hst h'" "hst h"] core
    by (auto simp: blocks_inv_def c split: if_splits)
  ultimately show ?thesis using inv rest by (simp add: blocks_inv_def)
qed

text \<open>The tail of the list after its first block was given a new predecessor.\<close>

lemma relink_tail:
  assumes "lseg st p (if ys = [] then 0 else hd ys) ys 0" and "distinct ys"
    and hd: "ys \<noteq> [] \<Longrightarrow> st' (hd ys) = (st (hd ys))\<lparr>b_prev := q\<rparr>"
    and tl: "\<And>x. x \<in> set ys \<Longrightarrow> x \<noteq> hd ys \<Longrightarrow> st' x = st x"
  shows "lseg st' q (if ys = [] then 0 else hd ys) ys 0" and "\<And>x. x \<in> set ys \<Longrightarrow> same_core (st' x) (st x)"
proof -
  have x: "st' x = st x \<or> st' x = (st x)\<lparr>b_prev := q\<rparr>" if "x \<in> set ys" for x
    using hd tl [OF that] that by (cases ys) auto
  then show "same_core (st' x) (st x)" if "x \<in> set ys" for x
    using x [OF that] by (auto simp: same_core_def)
  show "lseg st' q (if ys = [] then 0 else hd ys) ys 0"
  proof (cases "ys = []")
    case False
    have "lseg st' q (hd ys) ys 0"
    proof (rule lseg_set_prev [OF _ False assms(2)])
      show "lseg st p (hd ys) ys 0" using assms(1) False by simp
      show "b_next (st' x) = b_next (st x) \<and> (x \<noteq> hd ys \<longrightarrow> b_prev (st' x) = b_prev (st x))" if "x \<in> set ys" for x
        using x [OF that] tl [OF that] by auto
      show "b_prev (st' (hd ys)) = q" using hd False by simp
    qed
    then show ?thesis using False by simp
  qed simp
qed

lemma blocks_inv_insert:
  fixes h h' xs b ys r t
  defines "c \<equiv> unat (b_capacity (hst h b))"
  assumes inv: "blocks_inv h (xs @ b # ys)"
    and r: "16 \<le> unat r" "16 dvd unat r" "unat r + 64 \<le> c" and t: "unat t = unat b + 48 + unat r"
    and b': "block_ok (hst h' b)" "b_capacity (hst h' b) = r" "b_prev (hst h' b) = b_prev (hst h b)" "b_next (hst h' b) = t"
    and t': "hst h' t = \<lparr>b_magic = BLOCK_MAGIC, b_size = v, b_capacity = v, b_flags = 1, b_prev = b, b_next = b_next (hst h b)\<rparr>"
      "unat v = c - unat r - 48"
    and hd: "ys \<noteq> [] \<Longrightarrow> hst h' (hd ys) = (hst h (hd ys))\<lparr>b_prev := t\<rparr>"
    and others: "\<And>x. x \<noteq> b \<Longrightarrow> x \<noteq> t \<Longrightarrow> (ys = [] \<or> x \<noteq> hd ys) \<Longrightarrow> hst h' x = hst h x"
    and rest: "g_head h' = g_head h" "g_heap_next h' = g_heap_next h" "g_heap_pages h' = g_heap_pages h"
      "heap_ready h' = heap_ready h" "hmm h' = hmm h"
    and sums: "unat (g_free_bytes h') + (if is_free (hst h b) then c else 0)
        = unat (g_free_bytes h) + (if is_free (hst h' b) then unat r else 0) + unat v"
      "unat (g_allocations h') + (if is_free (hst h b) then 0 else 1) =
       unat (g_allocations h) + (if is_free (hst h' b) then 0 else 1)"
  shows "blocks_inv h' (xs @ b # t # ys)" and "t \<notin> set (xs @ b # ys)"
proof -
  note S = blocks_split [OF inv]
  have tx: "t \<notin> set xs"
    using tiled_bounds [OF S(6), of t] t by auto
  have ty: "t \<notin> set ys"
    using tiled_bounds [OF S(7), of t] t r(3) by (auto simp: c_def)
  have tb: "t \<noteq> b" using t by auto
  then show "t \<notin> set (xs @ b # ys)" using tx ty by simp
  have t0: "t \<noteq> 0" using t S(11) by (metis add_is_0 numeral_neq_zero unat_0)
  have nb: "b \<notin> set xs" "b \<notin> set ys" "distinct ys" "hd ys \<notin> set xs \<or> ys = []"
    using S(8) by (cases ys; auto)+
  have xs: "hst h' x = hst h x" if "x \<in> set xs" for x
    using that nb tx by (intro others) auto
  have ys: "hst h' x = hst h x" if "x \<in> set ys" "x \<noteq> hd ys" for x
    using that nb ty by (intro others) auto
  have lt: "lseg (hst h) b (if ys = [] then 0 else hd ys) ys 0" using S(4,9) by simp
  note R = relink_tail [OF lt nb(3) hd ys]
  have "lseg (hst h') 0 (g_head h') xs b"
  proof -
    have "lseg (hst h') 0 (g_head h) xs b = lseg (hst h) 0 (g_head h) xs b"
      using xs by (intro lseg_cong) simp
    then show ?thesis using S(1) rest(1) by simp
  qed
  then have L: "lseg (hst h') 0 (g_head h') (xs @ b # t # ys) 0"
    using S(2,3,9) b'(3,4) t0 t'(1) R(1) by (auto simp: lseg_append)
  have "tiled (hst h') (unat HEAP_BASE) xs (unat b)"
    using S(6) tiled_cong [of xs "hst h'" "hst h"] xs by (simp add: same_core_def)
  moreover have "tiled (hst h') (unat b + 48 + c) ys (unat (g_heap_next h))"
    using S(7) tiled_cong [OF R(2)] by (simp add: c_def)
  moreover have "unat t + 48 + unat v = unat b + 48 + c" using t t'(2) r(3) by simp
  moreover have "block_ok (hst h' t)"
  proof -
    have "16 dvd c" using S(5) by (simp add: block_ok_def c_def)
    then have "16 dvd c - unat r - 48" using r(2) by (simp add: dvd_diff_nat)
    then show ?thesis using t' r(3) by (simp add: block_ok_def)
  qed
  ultimately have T: "tiled (hst h') (unat HEAP_BASE) (xs @ b # t # ys) (unat (g_heap_next h'))"
    using b'(1,2) t t'(1) rest(2) by (auto simp: tiled_append ac_simps)
  have "unat (g_free_bytes h') = free_sum (hst h') (xs @ b # t # ys)"
    "unat (g_allocations h') = used_count (hst h') (xs @ b # t # ys)"
    using inv sums b'(2) t'(1) sums_cong [of xs "hst h'" "hst h"] sums_cong [OF R(2)] xs
    by (auto simp: blocks_inv_def same_core_def c_def split: if_splits)
  then show "blocks_inv h' (xs @ b # t # ys)"
    using inv rest L T by (simp add: blocks_inv_def)
qed

lemma apart_cong:
  assumes "\<And>x. x \<in> set xs \<Longrightarrow> b_flags (st' x) = b_flags (st x)"
  shows "apart st' xs = apart st xs"
  unfolding apart_def using assms by (intro successively_cong) auto

lemma apart_Nil [simp]: "apart st []"
  by (simp add: apart_def)

lemma apart_Cons: "apart st (x # xs) \<longleftrightarrow> (xs = [] \<or> \<not> (is_free (st x) \<and> is_free (st (hd xs)))) \<and> apart st xs"
  by (cases xs) (auto simp: apart_def)

lemma apart_append:
  "apart st (xs @ ys) \<longleftrightarrow> apart st xs \<and> apart st ys \<and>
     (xs = [] \<or> ys = [] \<or> \<not> (is_free (st (last xs)) \<and> is_free (st (hd ys))))"
  by (auto simp: apart_def successively_append_iff)

lemma tiled_length: "tiled st a xs e \<Longrightarrow> a + 64 * length xs \<le> e"
proof (induction xs arbitrary: a)
  case (Cons x xs)
  then have "a + 48 + unat (b_capacity (st x)) + 64 * length xs \<le> e" "16 \<le> unat (b_capacity (st x))"
    by (auto simp: block_ok_def)
  then show ?case by simp
qed simp

lemma allocations_bound: "blocks_inv h bs \<Longrightarrow> unat (g_allocations h) < 1000000000000000"
proof -
  assume B: "blocks_inv h bs"
  then have "unat HEAP_BASE + 64 * length bs \<le> unat HEAP_LIMIT"
    using tiled_length [of "hst h" _ bs] by (fastforce simp: blocks_inv_def)
  moreover have "used_count (hst h) bs \<le> length bs" by (simp add: used_count_def)
  ultimately show ?thesis using B by (simp add: blocks_inv_def)
qed

text \<open>A request: a positive multiple of 16.\<close>

definition request :: "u64 \<Rightarrow> bool" where
  "request r \<longleftrightarrow> 16 \<le> unat r \<and> 16 dvd unat r"

lemma take_block_keep:
  assumes inv: "heap_inv h (xs @ b # ys)" and f: "is_free (hst h b)" and r: "request r" "r \<le> b_capacity (hst h b)"
    and small: "b_capacity (hst h b) - r < 64"
  defines "h' \<equiv> take_block b r h"
  shows "heap_inv h' (xs @ b # ys)" "used h' (xs @ b # ys) = insert (b, b_capacity (hst h b)) (used h (xs @ b # ys))"
    "intr h' = intr h"
proof -
  have B: "blocks_inv h (xs @ b # ys)" and A: "apart (hst h) (xs @ b # ys)" using inv by (auto simp: heap_inv_def)
  note S = blocks_split [OF B]
  let ?c = "(hst h b)\<lparr>b_flags := 0, b_size := b_capacity (hst h b)\<rparr>"
  have fl: "b_flags (hst h b) = 1" using f S(5) free_flag by blast
  have h': "h' = h\<lparr>hst := (hst h)(b := ?c), g_free_bytes := g_free_bytes h - b_capacity (hst h b),
      g_used_bytes := g_used_bytes h + r, g_allocations := g_allocations h + 1\<rparr>"
    using small fl by (simp add: h'_def take_block_def split_block_def upd_block_def Let_def)
  have ok: "block_ok ?c" using S(5) by (simp add: block_ok_def)
  have fs: "unat (b_capacity (hst h b)) \<le> unat (g_free_bytes h)"
    using B f by (simp add: blocks_inv_def)
  have al: "unat (g_allocations h + 1) = unat (g_allocations h) + 1"
    using allocations_bound [OF B] by (subst unat_add_u64) simp_all
  have "blocks_inv h' (xs @ b # ys)"
  proof (rule blocks_inv_flags [OF B, of _ ?c])
    show "unat (g_free_bytes h') + (if is_free (hst h b) then unat (b_capacity (hst h b)) else 0)
        = unat (g_free_bytes h) + (if is_free ?c then unat (b_capacity (hst h b)) else 0)"
      using f fs by (simp add: h' unat_sub_u64 word_le_nat_alt)
    show "unat (g_allocations h') + (if is_free (hst h b) then 0 else 1) =
       unat (g_allocations h) + (if is_free ?c then 0 else 1)"
      using f al by (simp add: h')
  qed (use ok in \<open>simp_all add: h'\<close>)
  moreover have "apart (hst h') (xs @ b # ys)"
  proof -
    have "apart (hst h') xs = apart (hst h) xs" "apart (hst h') ys = apart (hst h) ys"
      by (rule apart_cong; use S(8) in \<open>auto simp: h'\<close>)+
    then show ?thesis using A by (auto simp: apart_append apart_Cons h')
  qed
  ultimately show "heap_inv h' (xs @ b # ys)" by (simp add: heap_inv_def)
  show "used h' (xs @ b # ys) = insert (b, b_capacity (hst h b)) (used h (xs @ b # ys))"
    using f S(8) by (auto simp: h' used_def)
  show "intr h' = intr h" by (simp add: h')
qed

lemma take_block_cut:
  assumes inv: "heap_inv h (xs @ b # ys)" and f: "is_free (hst h b)" and r: "request r" "r \<le> b_capacity (hst h b)"
    and big: "\<not> b_capacity (hst h b) - r < 64"
  defines "h' \<equiv> take_block b r h"
  shows "\<exists>t. heap_inv h' (xs @ b # t # ys) \<and> used h' (xs @ b # t # ys) = insert (b, r) (used h (xs @ b # ys))"
    and "intr h' = intr h"
proof -
  have B: "blocks_inv h (xs @ b # ys)" and A: "apart (hst h) (xs @ b # ys)" using inv by (auto simp: heap_inv_def)
  note S = blocks_split [OF B]
  let ?st = "hst h" and ?cap = "b_capacity (hst h b)" and ?nx = "b_next (hst h b)"
  define t where "t = b + 48 + r"
  define v where "v = ?cap - r - 48"
  have fl: "b_flags (?st b) = 1" using f S(5) free_flag by blast
  have rem: "unat (?cap - r) = unat ?cap - unat r" using r(2) by (simp add: unat_sub_u64)
  have c64: "unat r + 64 \<le> unat ?cap" using big rem r(2) by (simp add: word_less_nat_alt word_le_nat_alt)
  have v: "unat v = unat ?cap - unat r - 48"
    unfolding v_def using rem c64 by (subst unat_sub_u64) (simp_all add: word_le_nat_alt)
  have t: "unat t = unat b + 48 + unat r"
  proof -
    have lim: "unat b + 48 + unat r < 18446744073709551616"
      using S(10) c64 unat_u64_bound [of "g_heap_next h"] by linarith
    then have "unat (b + 48) = unat b + 48" by (subst unat_add_u64) simp_all
    then show ?thesis unfolding t_def using lim by (subst unat_add_u64) simp_all
  qed
  have tb: "t \<noteq> b" using t by auto
  have ty: "t \<notin> set ys" using tiled_bounds [OF S(7), of t] t c64 by auto
  have nxy: "?nx \<noteq> 0 \<longleftrightarrow> ys \<noteq> []" "ys \<noteq> [] \<Longrightarrow> ?nx = hd ys" "ys \<noteq> [] \<Longrightarrow> hd ys \<in> set ys"
    using S(9,12) by (cases ys; auto)+
  have ny: "hd ys \<noteq> t" "hd ys \<noteq> b" if "ys \<noteq> []" using that ty S(8) nxy(3) by (cases ys; auto)+
  let ?b = "(?st b)\<lparr>b_flags := 0, b_next := t, b_size := r, b_capacity := r\<rparr>"
  let ?t = "\<lparr>b_magic = BLOCK_MAGIC, b_size = v, b_capacity = v, b_flags = 1, b_prev = b, b_next = ?nx\<rparr>"
  have h': "h' = h\<lparr>hst := (if ys = [] then ?st(t := ?t, b := ?b)
        else ?st(t := ?t, hd ys := (?st (hd ys))\<lparr>b_prev := t\<rparr>, b := ?b)),
      g_free_bytes := g_free_bytes h - ?cap + v, g_used_bytes := g_used_bytes h + r, g_allocations := g_allocations h + 1\<rparr>"
  proof (cases ys)
    case Nil
    then show ?thesis
      using big fl tb nxy(1)
      by (simp add: h'_def take_block_def split_block_def upd_block_def Let_def fun_upd_twist [OF tb]
          flip: t_def v_def)
  next
    case (Cons y zs)
    then have y: "y \<noteq> t" "y \<noteq> b" "?nx = y" "y \<noteq> 0" using ny nxy by auto
    then show ?thesis
      using big fl tb Cons
      by (simp add: h'_def take_block_def split_block_def upd_block_def Let_def fun_upd_twist [OF tb]
          fun_upd_twist [OF y(2)] flip: t_def v_def)
  qed
  have b': "hst h' b = ?b" and t': "hst h' t = ?t" and hd': "ys \<noteq> [] \<Longrightarrow> hst h' (hd ys) = (?st (hd ys))\<lparr>b_prev := t\<rparr>"
    and o': "\<And>x. x \<noteq> b \<Longrightarrow> x \<noteq> t \<Longrightarrow> ys = [] \<or> x \<noteq> hd ys \<Longrightarrow> hst h' x = ?st x"
    using tb ny by (auto simp: h')
  have al: "unat (g_allocations h + 1) = unat (g_allocations h) + 1"
    using allocations_bound [OF B] by (subst unat_add_u64) simp_all
  have fs: "unat ?cap \<le> unat (g_free_bytes h)" using B f by (simp add: blocks_inv_def)
  have fb: "unat (g_free_bytes h - ?cap + v) = unat (g_free_bytes h) - unat ?cap + unat v"
  proof -
    have "unat (g_free_bytes h - ?cap) = unat (g_free_bytes h) - unat ?cap"
      using fs by (simp add: unat_sub_u64 word_le_nat_alt)
    moreover have "unat (g_free_bytes h) - unat ?cap + unat v < 18446744073709551616"
      using v fs c64 unat_u64_bound [of "g_free_bytes h"] by linarith
    ultimately show ?thesis by (subst unat_add_u64) simp_all
  qed
  have ok: "block_ok ?b" using S(5) r(1) by (simp add: block_ok_def request_def)
  have rq: "16 \<le> unat r" "16 dvd unat r" using r(1) by (auto simp: request_def)
  have bb: "block_ok (hst h' b)" "b_capacity (hst h' b) = r" "b_prev (hst h' b) = b_prev (?st b)" "b_next (hst h' b) = t"
    using ok by (simp_all add: b')
  have gl: "g_head h' = g_head h" "g_heap_next h' = g_heap_next h" "g_heap_pages h' = g_heap_pages h"
    "heap_ready h' = heap_ready h" "hmm h' = hmm h" "intr h' = intr h"
    "g_free_bytes h' = g_free_bytes h - ?cap + v" "g_allocations h' = g_allocations h + 1"
    by (simp_all add: h')
  have sums: "unat (g_free_bytes h') + (if is_free (?st b) then unat ?cap else 0)
        = unat (g_free_bytes h) + (if is_free (hst h' b) then unat r else 0) + unat v"
      "unat (g_allocations h') + (if is_free (?st b) then 0 else 1) =
       unat (g_allocations h) + (if is_free (hst h' b) then 0 else 1)"
    using f fb fs al by (simp_all add: gl b')
  note ins = blocks_inv_insert [OF B rq c64 t bb t' v hd' o' gl(1-5) sums]
  have fl': "b_flags (hst h' x) = b_flags (?st x) \<and> b_capacity (hst h' x) = b_capacity (?st x)"
    if "x \<in> set xs \<union> set ys" for x
  proof (cases "ys \<noteq> [] \<and> x = hd ys")
    case False
    then have "hst h' x = ?st x" using that ins(2) S(8) by (intro o') auto
    then show ?thesis by simp
  qed (simp add: hd')
  have as: "apart (hst h') xs = apart ?st xs" "apart (hst h') ys = apart ?st ys"
    by (rule apart_cong; use fl' in auto)+
  have hy: "ys = [] \<or> \<not> is_free (hst h' (hd ys))"
  proof (cases "ys = []")
    case False
    then show ?thesis using A f fl' [of "hd ys"] nxy(3) by (auto simp: apart_append apart_Cons)
  qed simp
  have "apart (hst h') (xs @ b # t # ys)"
    using A as hy by (auto simp: apart_append apart_Cons b')
  moreover have "used h' (xs @ b # t # ys) = insert (b, r) (used h (xs @ b # ys))"
  proof -
    have b0: "\<not> is_free (hst h' b)" "b_capacity (hst h' b) = r" by (simp_all add: b')
    have t1: "is_free (hst h' t)" by (simp add: t')
    have "x \<in> set xs \<union> set ys \<Longrightarrow> (\<not> is_free (hst h' x)) = (\<not> is_free (?st x))" for x using fl' by auto
    then have "used h' (xs @ b # t # ys) = insert (b, r) {(x, b_capacity (?st x)) | x. x \<in> set xs \<union> set ys \<and> \<not> is_free (?st x)}"
      using fl' b0 t1 by (auto simp: used_def)
    also have "\<dots> = insert (b, r) (used h (xs @ b # ys))" using f by (auto simp: used_def)
    finally show ?thesis .
  qed
  ultimately show "\<exists>t. heap_inv h' (xs @ b # t # ys) \<and> used h' (xs @ b # t # ys) = insert (b, r) (used h (xs @ b # ys))"
    using ins(1) by (auto simp: heap_inv_def)
  show "intr h' = intr h" by (rule gl)
qed

section \<open>Growing the heap\<close>

lemma lseg_set_next:
  assumes "lseg st p b xs e" "xs \<noteq> []" "distinct xs" "b_next (st' (last xs)) = e'"
    and "\<And>x. x \<in> set xs \<Longrightarrow> b_prev (st' x) = b_prev (st x) \<and> (x \<noteq> last xs \<longrightarrow> b_next (st' x) = b_next (st x))"
  shows "lseg st' p b xs e'"
proof -
  obtain ys y where xs: "xs = ys @ [y]" using assms(2) by (metis append_butlast_last_id)
  have "lseg st' p b ys y = lseg st p b ys y" using assms(3,5) xs by (intro lseg_cong) auto
  then show ?thesis using assms xs by (auto simp: lseg_append)
qed

lemma append_block_spec:
  assumes inv: "heap_inv h bs" and r: "request r" "r \<le> c" and c: "unat c + 48 = 4096 * unat pages"
    and lim: "unat (g_heap_next h) + 4096 * unat pages \<le> unat HEAP_LIMIT"
    and m: "sound 4 (pml4 (lay m)) m" "vmm_ready m" "backed (unat (g_heap_pages h) + unat pages) m"
  shows "\<exists>h'. append_block pages r c (h\<lparr>hmm := m\<rparr>) = Some h' \<and> heap_inv h' (bs @ [g_heap_next h]) \<and>
    used h' (bs @ [g_heap_next h]) = insert (g_heap_next h, c) (used h bs) \<and> intr h' = intr h"
proof -
  let ?x = "g_heap_next h" and ?st = "hst h"
  have B: "blocks_inv h bs" and A: "apart ?st bs" using inv by (auto simp: heap_inv_def)
  have ls: "lseg ?st 0 (g_head h) bs 0" and T: "tiled ?st (unat HEAP_BASE) bs (unat ?x)"
    and nx: "unat ?x = unat HEAP_BASE + 4096 * unat (g_heap_pages h)"
    using B by (auto simp: blocks_inv_def)
  have xn: "?x \<notin> set bs" using tiled_bounds [OF T, of ?x] by auto
  have D: "distinct bs" by (rule tiled_distinct [OF T])
  have x0: "?x \<noteq> 0" using nx by auto
  have hd: "g_head h = 0 \<longleftrightarrow> bs = []" using lseg_head [OF ls] lseg_nonzero [OF ls] by (cases bs) auto
  let ?n = "\<lparr>b_magic = BLOCK_MAGIC, b_size = r, b_capacity = c, b_flags = 0, b_prev = last (0 # bs), b_next = 0\<rparr>"
  define st' where "st' = (if bs = [] then ?st(?x := ?n) else ?st(?x := ?n, last bs := (?st (last bs))\<lparr>b_next := ?x\<rparr>))"
  define h' where "h' = h\<lparr>hmm := m, hst := st', g_head := (if bs = [] then ?x else g_head h),
     g_heap_next := ?x + pages * PAGE_SIZE, g_heap_pages := g_heap_pages h + pages,
     g_used_bytes := g_used_bytes h + r, g_allocations := g_allocations h + 1\<rparr>"
  have app: "append_block pages r c (h\<lparr>hmm := m\<rparr>) = Some h'"
  proof (cases "bs = []")
    case True
    then show ?thesis using hd by (simp add: append_block_def upd_block_def Let_def h'_def st'_def)
  next
    case False
    have lx: "last bs \<noteq> ?x" using xn last_in_set [OF False] by metis
    have "lseg (?st(?x := q)) 0 (g_head h) bs 0 = lseg ?st 0 (g_head h) bs 0" for q
      using xn by (intro lseg_cong) auto
    then have "lseg (?st(?x := q)) 0 (g_head h) bs 0" for q using ls by simp
    then have "last_block (?st(?x := q)) (g_head h) = Some (last bs)" for q by (rule last_block_spec) (rule False)
    then show ?thesis
      using hd False lx by (simp add: append_block_def upd_block_def Let_def h'_def st'_def fun_upd_twist [OF lx])
  qed
  have old: "same_core (st' x) (?st x) \<and> b_prev (st' x) = b_prev (?st x) \<and> (x \<noteq> last bs \<longrightarrow> b_next (st' x) = b_next (?st x))"
    if "x \<in> set bs" for x
  proof -
    have "x \<noteq> ?x" "bs \<noteq> []" using that xn by auto
    then show ?thesis by (cases "x = last bs") (simp_all add: st'_def same_core_def)
  qed
  have new: "st' ?x = ?n"
  proof (cases "bs = []")
    case False
    have "?x \<noteq> last bs" using xn last_in_set [OF False] by metis
    then show ?thesis using False by (simp add: st'_def)
  qed (simp add: st'_def)
  have L: "lseg st' 0 (if bs = [] then ?x else g_head h) (bs @ [?x]) 0"
  proof (cases "bs = []")
    case True
    then show ?thesis using x0 new by simp
  next
    case False
    have "b_next (st' (last bs)) = ?x" using False by (simp add: st'_def)
    then have "lseg st' 0 (g_head h) bs ?x" using lseg_set_next [OF ls False D] old by blast
    then show ?thesis using False x0 new by (auto simp: lseg_append)
  qed
  have pw: "unat (pages * PAGE_SIZE) = 4096 * unat pages" using lim by (subst unat_mult_u64) simp_all
  have nx': "unat (?x + pages * PAGE_SIZE) = unat ?x + 4096 * unat pages"
    using lim pw by (subst unat_add_u64) simp_all
  have pg': "unat (g_heap_pages h + pages) = unat (g_heap_pages h) + unat pages"
    using lim nx by (subst unat_add_u64) simp_all
  have ok: "block_ok ?n"
  proof -
    have "unat c = 16 * (256 * unat pages - 3)" using c by simp
    then have "16 dvd unat c" by simp
    then show ?thesis using r by (auto simp: block_ok_def request_def word_le_nat_alt)
  qed
  have T': "tiled st' (unat HEAP_BASE) (bs @ [?x]) (unat (?x + pages * PAGE_SIZE))"
    using T tiled_cong [of bs st' ?st] old ok new nx' c by (auto simp: tiled_append)
  have al: "unat (g_allocations h + 1) = unat (g_allocations h) + 1"
    using allocations_bound [OF B] by (subst unat_add_u64) simp_all
  have "blocks_inv h' (bs @ [?x])"
    using B L T' lim nx nx' pg' al m sums_cong [of bs st' ?st] old new
    by (simp add: blocks_inv_def h'_def)
  moreover have "apart st' (bs @ [?x])"
    using A apart_cong [of bs st' ?st] old new by (auto simp: apart_append apart_Cons same_core_def)
  moreover have "used h' (bs @ [?x]) = insert (?x, c) (used h bs)"
    using old new by (auto simp: used_def h'_def same_core_def)
  ultimately show ?thesis using app by (auto simp: heap_inv_def h'_def)
qed

lemma grow_spec:
  assumes inv: "heap_inv h bs" and r: "request r"
  shows "\<exists>p h' bs'. grow r h = Some (p, h') \<and> heap_inv h' bs' \<and> intr h' = intr h \<and>
    (if p = 0 then bs' = bs \<and> used h' bs' = used h bs
     else \<exists>c. r \<le> c \<and> p - HEADER_SIZE \<notin> set bs \<and> used h' bs' = insert (p - HEADER_SIZE, c) (used h bs))"
proof -
  let ?pages = "pages_for_block r"
  define c where "c = ?pages * PAGE_SIZE - HEADER_SIZE"
  have B: "blocks_inv h bs" and A: "apart (hst h) bs" using inv by (auto simp: heap_inv_def)
  have nx: "unat (g_heap_next h) = unat HEAP_BASE + 4096 * unat (g_heap_pages h)"
    "unat (g_heap_next h) \<le> unat HEAP_LIMIT" and T: "tiled (hst h) (unat HEAP_BASE) bs (unat (g_heap_next h))"
    and vm: "sound 4 (pml4 (lay (hmm h))) (hmm h)" "vmm_ready (hmm h)" "backed (unat (g_heap_pages h)) (hmm h)"
    using B by (auto simp: blocks_inv_def)
  show ?thesis
  proof (cases "?pages = 0 \<or> c < r \<or> g_heap_next h > HEAP_LIMIT \<or> ?pages > (HEAP_LIMIT - g_heap_next h) div PAGE_SIZE")
    case True
    then have "grow r h = Some (0, h)" unfolding grow_def Let_def c_def by (simp only: if_True)
    then show ?thesis using inv by auto
  next
    case False
    have sub: "unat (HEAP_LIMIT - g_heap_next h) = unat HEAP_LIMIT - unat (g_heap_next h)"
      using nx(2) by (subst unat_sub_u64) (simp_all add: word_le_nat_alt)
    have "unat ?pages \<le> (unat HEAP_LIMIT - unat (g_heap_next h)) div 4096"
      using False sub by (simp add: word_le_nat_alt unat_div_u64 not_less del: heap_consts)
    then have lim: "unat (g_heap_next h) + 4096 * unat ?pages \<le> unat HEAP_LIMIT" using nx(2) by simp
    have pz: "0 < unat ?pages" using False by (simp add: unat_gt_0)
    have c: "unat c + 48 = 4096 * unat ?pages"
    proof -
      have "unat (?pages * PAGE_SIZE) = 4096 * unat ?pages" using lim by (subst unat_mult_u64) simp_all
      then show ?thesis unfolding c_def using pz by (subst unat_sub_u64) (simp_all add: word_le_nat_alt)
    qed
    have ar: "arena (g_heap_next h) (unat ?pages)"
      using lim nx(1) by (simp add: arena_def page_aligned_unat mod_add_left_eq)
    have st: "g_heap_next h = arena_page HEAP_BASE (unat (g_heap_pages h))"
    proof (cases "unat (g_heap_pages h) = 0")
      case True
      then show ?thesis using nx(1) by (simp add: arena_page_def word_unat_eq_iff)
    next
      case False
      have "arena HEAP_BASE (Suc (unat (g_heap_pages h)))"
        using nx lim pz by (simp add: arena_def page_aligned_def)
      from unat_arena_page [OF this, of "unat (g_heap_pages h)"] show ?thesis
        using nx(1) by (simp add: word_unat_eq_iff)
    qed
    have arB: "arena HEAP_BASE (unat (g_heap_pages h) + unat ?pages)"
      using lim nx(1) by (simp add: arena_def page_aligned_def)
    obtain ok m where m: "map_new_pages (g_heap_next h) ?pages (hmm h) = (ok, m)" by fastforce
    note G = map_new_pages_spec [OF vm(1,2) ar m]
    have vm': "sound 4 (pml4 (lay m)) m" "vmm_ready m" using grownD(1,2,3) [OF G] vm(2) by auto
    have gr: "grow r h = (if \<not> ok then Some (0, h\<lparr>hmm := m\<rparr>)
        else case append_block ?pages r c (h\<lparr>hmm := m\<rparr>) of None \<Rightarrow> None
             | Some h2 \<Rightarrow> Some (g_heap_next h + HEADER_SIZE, h2))"
      using False m unfolding grow_def Let_def c_def [symmetric] by (simp only: if_False prod.case) (simp split: option.splits)
    show ?thesis
    proof (cases ok)
      case nok: False
      have "backed (unat (g_heap_pages h) + 0) m"
        using vm(3) G nok st arB by (intro backed_grown) (auto simp: arena_def)
      then have "heap_inv (h\<lparr>hmm := m\<rparr>) bs" using inv vm' by (auto simp: heap_inv_def blocks_inv_def)
      then show ?thesis using gr nok by auto
    next
      case True
      have "backed (unat (g_heap_pages h) + unat ?pages) m"
        using vm(3) G True st arB by (intro backed_grown) auto
      moreover have "r \<le> c" using False by (simp add: linorder_not_less)
      ultimately obtain h' where h': "append_block ?pages r c (h\<lparr>hmm := m\<rparr>) = Some h'"
        "heap_inv h' (bs @ [g_heap_next h])"
        "used h' (bs @ [g_heap_next h]) = insert (g_heap_next h, c) (used h bs)" "intr h' = intr h"
        using append_block_spec [OF inv r _ c lim vm'] by blast
      have "g_heap_next h \<notin> set bs" using tiled_bounds [OF T, of "g_heap_next h"] by auto
      moreover have "g_heap_next h + HEADER_SIZE \<noteq> 0"
      proof -
        have "unat (g_heap_next h + HEADER_SIZE) = unat (g_heap_next h) + 48"
          using nx(2) by (subst unat_add_u64) simp_all
        then show ?thesis using nx(1) by auto
      qed
      ultimately show ?thesis using gr True h' \<open>r \<le> c\<close> by auto
    qed
  qed
qed

section \<open>Allocation\<close>

lemma align_size_spec:
  assumes "n \<noteq> 0" and "align_size n \<noteq> 0"
  shows "request (align_size n)" "n \<le> align_size n"
proof -
  have m: "(15::u64) = mask 4" by (simp add: mask_eq_exp_minus_1)
  have le: "unat n \<le> 18446744073709551600"
    using assms(2) by (auto simp: align_size_def align_up_u64_def Let_def word_less_nat_alt split: if_splits)
  then have u: "unat (n + 15) = unat n + 15" by (subst unat_add_u64) simp_all
  have a: "align_size n = (n + 15) AND NOT 15"
    using assms(2) by (auto simp: align_size_def align_up_u64_def Let_def word_less_nat_alt split: if_splits)
  have a': "align_size n = (n + 15) AND NOT (mask 4)" using a unfolding m .
  have "unat (align_size n) = 16 * ((unat n + 15) div 16)"
    unfolding a' unat_align_mult u by simp
  moreover have "unat n \<noteq> 0" using assms(1) by (simp add: unat_eq_zero)
  ultimately show "request (align_size n)" "n \<le> align_size n"
    by (auto simp: request_def word_le_nat_alt)
qed

lemma kmalloc_spec:
  assumes inv: "heap_inv h bs"
  shows "\<exists>p h' bs'. kmalloc n h = Some (p, h') \<and> heap_inv h' bs' \<and> intr h' = intr h \<and>
    (if p = 0 then bs' = bs \<and> used h' bs' = used h bs
     else \<exists>c. n \<le> c \<and> (\<forall>d. (p - HEADER_SIZE, d) \<notin> used h bs) \<and>
       used h' bs' = insert (p - HEADER_SIZE, c) (used h bs))"
proof (cases "\<not> heap_ready h \<or> n = 0 \<or> align_size n = 0")
  case True
  then show ?thesis using inv by (auto simp: kmalloc_def Let_def)
next
  case False
  let ?r = "align_size n" and ?h1 = "heap_lock h"
  have r: "request ?r" "n \<le> ?r" using align_size_spec False by auto
  have h1: "heap_inv ?h1 bs" "hst ?h1 = hst h" "g_head ?h1 = g_head h" "used ?h1 bs = used h bs"
    using inv by (simp_all add: heap_inv_def heap_lock_def)
  have B1: "blocks_inv ?h1 bs" using h1(1) by (simp add: heap_inv_def)
  have un: "heap_inv (heap_unlock i g) xs = heap_inv g xs" "used (heap_unlock i g) xs = used g xs" for i g xs
    by (simp_all add: heap_unlock_def heap_inv_def)
  have iu: "intr (heap_unlock (intr h) g) = intr h" if "intr g = intr ?h1" for g
    using that by (simp add: heap_unlock_def heap_lock_def)
  show ?thesis
  proof (cases "length bs \<le> 1000001")
    case long: False
    let ?h2 = "?h1\<lparr>g_corruption_count := g_corruption_count ?h1 + 1\<rparr>"
    have "kmalloc n h = Some (0, heap_unlock (intr h) ?h2)"
      using False heap_validate_inv [OF B1] long by (simp add: kmalloc_def Let_def)
    moreover have "heap_inv ?h2 bs" using h1(1) by (simp add: heap_inv_def)
    ultimately show ?thesis using un iu [of ?h2] h1(4) by auto
  next
    case True
    have v: "heap_validate ?h1 = (True, ?h1)" using heap_validate_inv [OF B1] True by simp
    have ls: "lseg (hst ?h1) 0 (g_head ?h1) bs 0" using B1 by (simp add: blocks_inv_def)
    show ?thesis
    proof (cases "find (\<lambda>x. is_free (hst ?h1 x) \<and> ?r \<le> b_capacity (hst ?h1 x)) bs")
      case None
      then have f: "find_fit (hst ?h1) ?r (g_head ?h1) = Some 0" using find_fit_spec [OF ls] by simp
      obtain p h3 bs' where g: "grow ?r ?h1 = Some (p, h3)" "heap_inv h3 bs'" "intr h3 = intr ?h1"
        "if p = 0 then bs' = bs \<and> used h3 bs' = used ?h1 bs
         else \<exists>c. ?r \<le> c \<and> p - HEADER_SIZE \<notin> set bs \<and> used h3 bs' = insert (p - HEADER_SIZE, c) (used ?h1 bs)"
        using grow_spec [OF h1(1) r(1)] by blast
      have k: "kmalloc n h = Some (p, heap_unlock (intr h) h3)"
        using False v f g(1) by (simp add: kmalloc_def Let_def)
      have "n \<le> c" if "?r \<le> c" for c using r(2) that by simp
      moreover have "(x, d) \<notin> used h bs" if "x \<notin> set bs" for x d using that by (auto simp: used_def)
      ultimately show ?thesis using k un iu [OF g(3)] g(2,4) h1(4)
        by (auto simp del: heap_consts split: if_splits) blast+
    next
      case (Some b)
      then obtain xs ys where bs: "bs = xs @ b # ys" and fr: "is_free (hst ?h1 b)" "?r \<le> b_capacity (hst ?h1 b)"
        by (auto simp: find_Some_iff id_take_nth_drop [symmetric]) (metis id_take_nth_drop)
      have b0: "b \<noteq> 0" using lseg_nonzero [OF ls] bs by auto
      have f: "find_fit (hst ?h1) ?r (g_head ?h1) = Some b" using find_fit_spec [OF ls] Some by simp
      have k: "kmalloc n h = Some (b + HEADER_SIZE, heap_unlock (intr h) (take_block b ?r ?h1))"
        using False v f b0 by (simp add: kmalloc_def Let_def)
      have hi: "heap_inv ?h1 (xs @ b # ys)" using h1(1) bs by simp
      obtain bs' c where t: "heap_inv (take_block b ?r ?h1) bs'" "?r \<le> c"
        "used (take_block b ?r ?h1) bs' = insert (b, c) (used ?h1 bs)" "intr (take_block b ?r ?h1) = intr ?h1"
      proof (cases "b_capacity (hst ?h1 b) - ?r < 64")
        case True
        note tk = take_block_keep [OF hi fr(1) r(1) fr(2) True]
        show ?thesis by (rule that [OF tk(1) fr(2)]) (use tk bs in auto)
      next
        case False
        note tk = take_block_cut [OF hi fr(1) r(1) fr(2) False]
        then obtain t where "heap_inv (take_block b ?r ?h1) (xs @ b # t # ys)"
          "used (take_block b ?r ?h1) (xs @ b # t # ys) = insert (b, ?r) (used ?h1 (xs @ b # ys))" by blast
        then show ?thesis using that [of "xs @ b # t # ys" ?r] tk(2) bs by simp
      qed
      have "unat b + 48 \<le> unat (g_heap_next ?h1)" "0xFFFF800000000000 \<le> unat b"
        using blocks_split(10,11) [of ?h1 xs b ys] B1 bs by auto
      then have "unat b + 48 < 18446744073709551616" using unat_u64_bound [of "g_heap_next ?h1"] by linarith
      then have "unat (b + HEADER_SIZE) = unat b + 48" by (subst unat_add_u64) simp_all
      then have p0: "b + HEADER_SIZE \<noteq> 0" by (metis add_is_0 unat_0 zero_neq_numeral)
      have "(b, d) \<notin> used h bs" for d using fr(1) by (auto simp: used_def h1(2))
      moreover have "n \<le> c" using r(2) t(2) by simp
      ultimately show ?thesis using k p0 un iu [OF t(4)] t(1,3) h1(4) by auto
    qed
  qed
qed

section \<open>Release\<close>

lemma free_sum_bound: "tiled st a xs e \<Longrightarrow> a + free_sum st xs + 48 * length xs \<le> e"
proof (induction xs arbitrary: a)
  case (Cons x xs)
  then have "a + 48 + unat (b_capacity (st x)) + free_sum st xs + 48 * length xs \<le> e" by simp
  then show ?case by auto
qed simp

text \<open>Merging a free block with the free block after it.\<close>

lemma merge_spec:
  assumes B: "blocks_inv h (xs @ b # n # ys)" and f: "is_free (hst h b)" "is_free (hst h n)"
  defines "h' \<equiv> merge_with_next b h"
  shows "blocks_inv h' (xs @ b # ys)" "used h' (xs @ b # ys) = used h (xs @ b # n # ys)" "intr h' = intr h"
    "\<And>x. x \<in> set (xs @ b # ys) \<Longrightarrow> b_flags (hst h' x) = b_flags (hst h x)"
    "b_prev (hst h' b) = b_prev (hst h b)"
proof -
  let ?st = "hst h"
  note S = blocks_split [OF B]
  have B2: "blocks_inv h ((xs @ [b]) @ n # ys)" using B by simp
  note N = blocks_split [OF B2]
  have fl: "b_flags (?st b) = 1" "b_flags (?st n) = 1" using f S(5) N(5) free_flag by blast+
  have nx: "b_next (?st b) = n" "n \<noteq> 0" using S(9) N(2) by auto
  let ?nn = "b_next (?st n)"
  have nn: "?nn = (if ys = [] then 0 else hd ys)" by (rule N(9))
  define c where "c = b_capacity (?st b) + (48 + b_capacity (?st n))"
  have D: "distinct (xs @ b # n # ys)" by (rule S(8))
  have end_n: "unat b + 48 + unat (b_capacity (?st b)) = unat n"
    using S(7) by simp
  have c: "unat c = unat (b_capacity (?st b)) + 48 + unat (b_capacity (?st n))"
  proof -
    have lim: "unat (b_capacity (?st b)) + 48 + unat (b_capacity (?st n)) < 18446744073709551616"
      using N(10) end_n unat_u64_bound [of "g_heap_next h"] by linarith
    then have "unat (48 + b_capacity (?st n)) = 48 + unat (b_capacity (?st n))" by (subst unat_add_u64) simp_all
    then show ?thesis unfolding c_def using lim by (subst unat_add_u64) simp_all
  qed
  let ?b = "(?st b)\<lparr>b_capacity := c, b_size := c, b_next := ?nn\<rparr>"
  have hn: "hd ys \<noteq> b" "hd ys \<noteq> 0" "hd ys \<in> set ys" if "ys \<noteq> []" using that D S(12) by (cases ys; auto)+
  have h': "h' = h\<lparr>hst := (if ys = [] then ?st(b := ?b) else ?st(b := ?b, hd ys := (?st (hd ys))\<lparr>b_prev := b\<rparr>)),
      g_free_bytes := g_free_bytes h + 48\<rparr>"
  proof (cases "ys = []")
    case True
    then show ?thesis using nx fl nn by (simp add: h'_def merge_with_next_def upd_block_def Let_def c_def)
  next
    case False
    then show ?thesis
      using nx fl nn hn [OF False] by (simp add: h'_def merge_with_next_def upd_block_def Let_def c_def)
  qed
  have b': "hst h' b = ?b" and hd': "ys \<noteq> [] \<Longrightarrow> hst h' (hd ys) = (?st (hd ys))\<lparr>b_prev := b\<rparr>"
    and o': "\<And>x. x \<noteq> b \<Longrightarrow> ys = [] \<or> x \<noteq> hd ys \<Longrightarrow> hst h' x = ?st x"
    using hn by (auto simp: h')
  have gl: "g_head h' = g_head h" "g_heap_next h' = g_heap_next h" "g_heap_pages h' = g_heap_pages h"
    "heap_ready h' = heap_ready h" "hmm h' = hmm h" "intr h' = intr h"
    "g_free_bytes h' = g_free_bytes h + 48" "g_allocations h' = g_allocations h"
    by (simp_all add: h')
  have xs: "hst h' x = ?st x" if "x \<in> set xs" for x
    using that D hn by (intro o') auto
  have ys: "hst h' x = ?st x" if "x \<in> set ys" "x \<noteq> hd ys" for x
    using that D by (intro o') auto
  have lt: "lseg ?st n (if ys = [] then 0 else hd ys) ys 0" using N(4) nn by simp
  have dy: "distinct ys" using D by simp
  note R = relink_tail [OF lt dy hd' ys]
  have L: "lseg (hst h') 0 (g_head h') (xs @ b # ys) 0"
  proof -
    have "lseg (hst h') 0 (g_head h) xs b = lseg ?st 0 (g_head h) xs b"
      using xs by (intro lseg_cong) simp
    then show ?thesis using S(1,2,3) R(1) nn by (auto simp: lseg_append gl b')
  qed
  have T: "tiled (hst h') (unat HEAP_BASE) (xs @ b # ys) (unat (g_heap_next h'))"
  proof -
    have ok: "block_ok ?b" using S(5) N(5) c by (auto simp: block_ok_def intro!: dvd_add)
    have "tiled (hst h') (unat HEAP_BASE) xs (unat b)"
      using S(6) tiled_cong [of xs "hst h'" ?st] xs by (simp add: same_core_def)
    moreover have "tiled (hst h') (unat b + 48 + unat c) ys (unat (g_heap_next h))"
    proof -
      have e: "unat b + 48 + unat c = unat n + 48 + unat (b_capacity (?st n))" using end_n c by simp
      show ?thesis unfolding e using N(7) tiled_cong [of ys "hst h'" ?st] R(2) by blast
    qed
    ultimately show ?thesis using ok by (auto simp: tiled_append b' gl)
  qed
  have fb: "unat (g_free_bytes h + 48) = unat (g_free_bytes h) + 48"
  proof -
    have t: "tiled ?st (unat HEAP_BASE) (xs @ b # n # ys) (unat (g_heap_next h))"
      and u: "unat (g_free_bytes h) = free_sum ?st (xs @ b # n # ys)" using B by (auto simp: blocks_inv_def)
    have "unat (g_free_bytes h) + 48 < 18446744073709551616"
      using free_sum_bound [OF t] u unat_u64_bound [of "g_heap_next h"] by (simp del: unat_u64_bound)
    then show ?thesis by (subst unat_add_u64) simp_all
  qed
  have "unat (g_free_bytes h') = free_sum (hst h') (xs @ b # ys)"
    "unat (g_allocations h') = used_count (hst h') (xs @ b # ys)"
    using B f fb c sums_cong [of xs "hst h'" ?st] sums_cong [OF R(2)] xs
    by (auto simp: blocks_inv_def same_core_def gl b')
  then show "blocks_inv h' (xs @ b # ys)" using B L T by (simp add: blocks_inv_def gl)
  show fl': "b_flags (hst h' x) = b_flags (?st x)" if "x \<in> set (xs @ b # ys)" for x
    using that xs R(2) [of x] b' by (auto simp: same_core_def)
  have cp: "b_capacity (hst h' x) = b_capacity (?st x)" if "x \<in> set xs \<union> set ys" for x
    using that xs R(2) [of x] by (auto simp: same_core_def)
  show "used h' (xs @ b # ys) = used h (xs @ b # n # ys)"
  proof -
    have "used h' (xs @ b # ys) = {(x, b_capacity (?st x)) | x. x \<in> set xs \<union> set ys \<and> \<not> is_free (?st x)}"
      using fl' cp f b' by (auto simp: used_def)
    also have "\<dots> = used h (xs @ b # n # ys)" using f by (auto simp: used_def)
    finally show ?thesis .
  qed
  show "intr h' = intr h" "b_prev (hst h' b) = b_prev (?st b)" by (simp_all add: gl b')
qed

lemma merge_none: "b_next (hst h b) = 0 \<or> \<not> is_free (hst h (b_next (hst h b))) \<Longrightarrow> merge_with_next b h = h"
  by (auto simp: merge_with_next_def Let_def)

text \<open>Marking a block free.\<close>

definition mark_free :: "u64 \<Rightarrow> heap \<Rightarrow> heap" where
  "mark_free b h = (let h1 = upd_block b (\<lambda>c. c\<lparr>b_flags := b_flags c OR BLOCK_FREE\<rparr>) h;
      h2 = (if g_used_bytes h1 \<ge> b_size (hst h1 b) then h1\<lparr>g_used_bytes := g_used_bytes h1 - b_size (hst h1 b)\<rparr> else h1);
      h3 = h2\<lparr>g_free_bytes := g_free_bytes h2 + b_capacity (hst h1 b)\<rparr>
    in if g_allocations h3 \<noteq> 0 then h3\<lparr>g_allocations := g_allocations h3 - 1\<rparr> else h3)"

lemma release_block_eq:
  "release_block b h = (let h5 = merge_with_next b (mark_free b h); pv = b_prev (hst h5 b)
     in if pv \<noteq> 0 \<and> is_free (hst h5 pv) then merge_with_next pv h5 else h5)"
  by (simp add: release_block_def mark_free_def Let_def)

lemma mark_free_spec:
  assumes B: "blocks_inv h (xs @ b # ys)" and u: "\<not> is_free (hst h b)"
  defines "h' \<equiv> mark_free b h"
  shows "blocks_inv h' (xs @ b # ys)" "hst h' = (hst h)(b := (hst h b)\<lparr>b_flags := 1\<rparr>)"
    "used h' (xs @ b # ys) = used h (xs @ b # ys) - {(b, b_capacity (hst h b))}" "intr h' = intr h"
proof -
  note S = blocks_split [OF B]
  let ?c = "(hst h b)\<lparr>b_flags := 1\<rparr>"
  have fl: "b_flags (hst h b) = 0" using u S(5) by (auto simp: block_ok_def)
  have cnt: "unat (g_allocations h) = used_count (hst h) (xs @ b # ys)" "unat (g_free_bytes h) = free_sum (hst h) (xs @ b # ys)"
    and t: "tiled (hst h) (unat HEAP_BASE) (xs @ b # ys) (unat (g_heap_next h))"
    using B by (auto simp: blocks_inv_def)
  have a1: "1 \<le> unat (g_allocations h)" using cnt(1) u by simp
  then have a0: "g_allocations h \<noteq> 0" by auto
  obtain n where h': "h' = h\<lparr>hst := (hst h)(b := ?c), g_used_bytes := n, g_free_bytes := g_free_bytes h + b_capacity (hst h b),
      g_allocations := g_allocations h - 1\<rparr>"
  proof (cases "g_used_bytes h \<ge> b_size (hst h b)")
    case True
    then show ?thesis
      using that [of "g_used_bytes h - b_size (hst h b)"] a0 fl by (simp add: h'_def mark_free_def upd_block_def Let_def)
  next
    case False
    then show ?thesis
      using that [of "g_used_bytes h"] a0 fl by (simp add: h'_def mark_free_def upd_block_def Let_def)
  qed
  show st: "hst h' = (hst h)(b := ?c)" by (simp add: h')
  show "intr h' = intr h" by (simp add: h')
  have nb: "b \<notin> set xs" "b \<notin> set ys" using S(8) by auto
  have core: "same_core (((hst h)(b := ?c)) x) (hst h x)" if "x \<in> set xs \<union> set ys" for x
    using that nb by (auto simp: same_core_def)
  have fb: "unat (g_free_bytes h + b_capacity (hst h b)) = unat (g_free_bytes h) + unat (b_capacity (hst h b))"
  proof -
    have "tiled ((hst h)(b := ?c)) (unat HEAP_BASE) (xs @ b # ys) (unat (g_heap_next h))"
    proof -
      have "block_ok ?c" using S(5) by (simp add: block_ok_def)
      moreover have "tiled ((hst h)(b := ?c)) a xs e = tiled (hst h) a xs e" "tiled ((hst h)(b := ?c)) a ys e = tiled (hst h) a ys e" for a e
        by (rule tiled_cong; use core in blast)+
      ultimately show ?thesis using S(6,7) by (auto simp: tiled_append)
    qed
    from free_sum_bound [OF this]
    have "unat (g_free_bytes h) + unat (b_capacity (hst h b)) \<le> unat (g_heap_next h)"
      using cnt(2) u sums_cong(1) [of xs "(hst h)(b := ?c)" "hst h"] sums_cong(1) [of ys "(hst h)(b := ?c)" "hst h"] core
      by simp
    then show ?thesis using unat_u64_bound [of "g_heap_next h"] by (intro unat_add_u64) linarith
  qed
  show "blocks_inv h' (xs @ b # ys)"
  proof (rule blocks_inv_flags [OF B st])
    show "unat (g_free_bytes h') + (if is_free (hst h b) then unat (b_capacity (hst h b)) else 0)
        = unat (g_free_bytes h) + (if is_free ?c then unat (b_capacity (hst h b)) else 0)"
      using u fb by (simp add: h')
    show "unat (g_allocations h') + (if is_free (hst h b) then 0 else 1) =
       unat (g_allocations h) + (if is_free ?c then 0 else 1)"
      using u a1 by (simp add: h' unat_sub_u64 word_le_nat_alt)
  qed (use S(5) in \<open>simp_all add: h' block_ok_def\<close>)
  show "used h' (xs @ b # ys) = used h (xs @ b # ys) - {(b, b_capacity (hst h b))}"
    using nb by (auto simp: used_def h')
qed

lemma release_block_spec:
  assumes inv: "heap_inv h (xs @ b # ys)" and u: "\<not> is_free (hst h b)"
  shows "\<exists>bs'. heap_inv (release_block b h) bs' \<and>
    used (release_block b h) bs' = used h (xs @ b # ys) - {(b, b_capacity (hst h b))} \<and>
    intr (release_block b h) = intr h \<and> length bs' \<le> length (xs @ b # ys)"
proof -
  have B: "blocks_inv h (xs @ b # ys)" and A: "apart (hst h) (xs @ b # ys)" using inv by (auto simp: heap_inv_def)
  note S = blocks_split [OF B]
  define h4 where "h4 = mark_free b h"
  note M = mark_free_spec [OF B u, folded h4_def]
  have nb: "b \<notin> set xs" "b \<notin> set ys" using S(8) by auto
  have f4: "is_free (hst h4 b)" "\<And>x. x \<noteq> b \<Longrightarrow> hst h4 x = hst h x" by (auto simp: M(2))
  define h5 where "h5 = merge_with_next b h4"
  obtain ys2 where h5: "blocks_inv h5 (xs @ b # ys2)" "used h5 (xs @ b # ys2) = used h4 (xs @ b # ys)"
    "intr h5 = intr h4" "\<And>x. x \<in> set (xs @ b # ys2) \<Longrightarrow> b_flags (hst h5 x) = b_flags (hst h4 x)"
    "b_prev (hst h5 b) = b_prev (hst h b)" "ys2 = [] \<or> \<not> is_free (hst h (hd ys2))" "apart (hst h) ys2" "set ys2 \<subseteq> set ys" "length ys2 \<le> length ys"
  proof (cases "ys \<noteq> [] \<and> is_free (hst h (hd ys))")
    case True
    then obtain n zs where ys: "ys = n # zs" by (cases ys) auto
    have fn: "is_free (hst h4 n)" using True nb ys f4(2) [of n] by auto
    note mg = merge_spec [OF M(1) [unfolded ys] f4(1) fn, folded h5_def]
    have "zs = [] \<or> \<not> is_free (hst h (hd zs))" "apart (hst h) zs"
      using A True by (auto simp: ys apart_append apart_Cons)
    then show ?thesis
    proof (intro that [of zs])
      show "b_prev (hst h5 b) = b_prev (hst h b)" using mg(5) M(2) by simp
      show "set zs \<subseteq> set ys" "length zs \<le> length ys" using ys by auto
      show "used h5 (xs @ b # zs) = used h4 (xs @ b # ys)" using mg(2) ys by simp
    qed (rule mg | assumption)+
  next
    case False
    have nx: "b_next (hst h4 b) = (if ys = [] then 0 else hd ys)" by (rule blocks_split(9) [OF M(1)])
    have "h5 = h4" unfolding h5_def
    proof (rule merge_none)
      show "b_next (hst h4 b) = 0 \<or> \<not> is_free (hst h4 (b_next (hst h4 b)))"
        using nx False nb f4(2) [of "hd ys"] by (cases ys) auto
    qed
    then show ?thesis
    proof (intro that [of ys])
      show "b_prev (hst h5 b) = b_prev (hst h b)" if "h5 = h4" using that M(2) by simp
      show "ys = [] \<or> \<not> is_free (hst h (hd ys))" using False by simp
      show "apart (hst h) ys" using A unfolding apart_append apart_Cons by blast
    qed (simp_all add: M(1))
  qed
  have a5: "apart (hst h5) ys2" "apart (hst h5) xs"
  proof -
    have "apart (hst h5) zs = apart (hst h) zs" if "set zs \<subseteq> set xs \<union> set ys2" for zs
    proof (rule apart_cong)
      fix x assume "x \<in> set zs"
      then have "x \<in> set (xs @ b # ys2)" "x \<noteq> b" using that h5(8) nb by auto
      then show "b_flags (hst h5 x) = b_flags (hst h x)" using h5(4) f4(2) by simp
    qed
    moreover have "apart (hst h) xs" using A unfolding apart_append by blast
    ultimately show "apart (hst h5) ys2" "apart (hst h5) xs" using h5(7) by simp_all
  qed
  have f5: "is_free (hst h5 x) = is_free (hst h x)" if "x \<in> set xs \<union> set ys2" for x
  proof -
    have "x \<in> set (xs @ b # ys2)" "x \<noteq> b" using that h5(8) nb by auto
    then show ?thesis using h5(4) f4(2) by simp
  qed
  have b5: "is_free (hst h5 b)" using h5(4) [of b] f4(1) by simp
  have hy: "ys2 = [] \<or> \<not> is_free (hst h5 (hd ys2))" using h5(6) f5 [of "hd ys2"] by (cases ys2) auto
  have pv: "b_prev (hst h5 b) = last (0 # xs)" using h5(5) S(3) by simp
  show ?thesis
  proof (cases "xs \<noteq> [] \<and> is_free (hst h (last xs))")
    case True
    then obtain ws p where xs: "xs = ws @ [p]" by (metis append_butlast_last_id)
    have fp: "is_free (hst h5 p)" using True f5 [of p] xs by auto
    have p0: "p \<noteq> 0" using S(12) xs by auto
    have B5: "blocks_inv h5 (ws @ p # b # ys2)" using h5(1) xs by simp
    note mg = merge_spec [OF B5 fp b5]
    have rel: "release_block b h = merge_with_next p h5"
      using pv xs p0 fp by (simp add: release_block_eq Let_def flip: h4_def h5_def)
    have "ws = [] \<or> \<not> is_free (hst h (last ws))" using A True xs by (auto simp: apart_append apart_Cons)
    then have lw: "ws = [] \<or> \<not> is_free (hst h5 (last ws))" using f5 [of "last ws"] xs by (cases "ws = []") auto
    have "apart (hst (merge_with_next p h5)) (ws @ p # ys2)"
    proof -
      have "apart (hst (merge_with_next p h5)) (ws @ p # ys2) = apart (hst h5) (ws @ p # ys2)"
        by (rule apart_cong) (rule mg(4))
      also have "\<dots>" using a5 hy lw xs by (auto simp: apart_append apart_Cons)
      finally show ?thesis by simp
    qed
    then show ?thesis
      using mg(1,2,3) rel h5(2,3,9) xs M(3,4) by (intro exI [of _ "ws @ p # ys2"]) (simp add: heap_inv_def)
  next
    case False
    have rel: "release_block b h = h5"
    proof (cases "xs = []")
      case True
      then show ?thesis using pv by (simp add: release_block_eq Let_def flip: h4_def h5_def)
    next
      case xs: False
      then have "\<not> is_free (hst h5 (last xs))" using False f5 [of "last xs"] by simp
      then show ?thesis using pv xs by (simp add: release_block_eq Let_def flip: h4_def h5_def)
    qed
    have "xs = [] \<or> \<not> is_free (hst h5 (last xs))" using False f5 [of "last xs"] by (cases "xs = []") auto
    then have "apart (hst h5) (xs @ b # ys2)" using a5 hy by (auto simp: apart_append apart_Cons)
    then show ?thesis using h5(1-3,9) rel M(3,4) by (intro exI [of _ "xs @ b # ys2"]) (simp add: heap_inv_def)
  qed
qed

lemma kflags_release:
  assumes inv: "heap_inv h bs" and b: "(b, c) \<in> used h bs" and len: "length bs \<le> 1000001"
  shows "kfree (b + HEADER_SIZE) h = heap_unlock (intr h) (release_block b (heap_lock h))"
proof -
  obtain xs ys where bs: "bs = xs @ b # ys" and u: "\<not> is_free (hst h b)" and c: "c = b_capacity (hst h b)"
    using b by (auto simp: used_def dest: split_list)
  have B: "blocks_inv h (xs @ b # ys)" using inv by (simp add: heap_inv_def bs)
  note S = blocks_split [OF B]
  let ?h1 = "heap_lock h" and ?p = "b + HEADER_SIZE"
  have "unat b + 48 < 18446744073709551616" using S(10) unat_u64_bound [of "g_heap_next h"] by linarith
  then have p: "unat ?p = unat b + 48" by (subst unat_add_u64) simp_all
  have "16 \<le> unat (b_capacity (hst h b))" using S(5) by (simp add: block_ok_def)
  then have g: "\<not> (?p < HEAP_BASE + HEADER_SIZE \<or> ?p \<ge> g_heap_next h)" "?p \<noteq> 0" "?p - HEADER_SIZE = b"
    using p S(10,11) by (auto simp: word_less_nat_alt word_le_nat_alt heap_consts)
  have m: "b_magic (hst h b) = BLOCK_MAGIC" "heap_ready h" using S(5) B by (auto simp: block_ok_def blocks_inv_def)
  have v: "heap_validate ?h1 = (True, ?h1)"
    using heap_validate_inv [of ?h1 bs] inv len by (simp add: heap_inv_def heap_lock_def)
  show ?thesis using g m u v by (simp add: kfree_def Let_def heap_lock_def)
qed

lemma kfree_spec:
  assumes inv: "heap_inv h bs" and b: "(b, c) \<in> used h bs" and len: "length bs \<le> 1000001"
  shows "\<exists>bs'. heap_inv (kfree (b + HEADER_SIZE) h) bs' \<and> used (kfree (b + HEADER_SIZE) h) bs' = used h bs - {(b, c)} \<and>
    intr (kfree (b + HEADER_SIZE) h) = intr h \<and> length bs' \<le> length bs"
proof -
  obtain xs ys where bs: "bs = xs @ b # ys" and u: "\<not> is_free (hst h b)" and c: "c = b_capacity (hst h b)"
    using b by (auto simp: used_def dest: split_list)
  have B: "blocks_inv h (xs @ b # ys)" using inv by (simp add: heap_inv_def bs)
  let ?h1 = "heap_lock h" and ?p = "b + HEADER_SIZE"
  have h1: "heap_inv ?h1 (xs @ b # ys)" "hst ?h1 = hst h" "used ?h1 (xs @ b # ys) = used h bs"
    using inv by (simp_all add: heap_inv_def heap_lock_def bs)
  note k = kflags_release [OF inv b len]
  have u1: "\<not> is_free (hst ?h1 b)" using u h1(2) by simp
  obtain bs' where r: "heap_inv (release_block b ?h1) bs'" "used (release_block b ?h1) bs' = used h bs - {(b, c)}"
    "intr (release_block b ?h1) = False" "length bs' \<le> length bs"
    using release_block_spec [OF h1(1) u1] by (auto simp: h1 c bs heap_lock_def)
  show ?thesis
    unfolding k using r by (intro exI [of _ bs']) (simp add: heap_unlock_def heap_inv_def)
qed

lemma kfree_ignored:
  assumes "\<not> heap_ready h \<or> ptr = 0 \<or> ptr < HEAP_BASE + HEADER_SIZE \<or> ptr \<ge> g_heap_next h \<or>
    b_magic (hst h (ptr - HEADER_SIZE)) \<noteq> BLOCK_MAGIC \<or> is_free (hst h (ptr - HEADER_SIZE))"
  shows "kfree ptr h = h"
  using assms unfolding kfree_def Let_def by (elim disjE) (simp_all only: simp_thms if_True if_cancel HOL.if_bool_eq_disj split: if_split)

lemma used_disjoint:
  assumes "heap_inv h bs" "(x, c) \<in> used h bs" "(y, d) \<in> used h bs" "x \<noteq> y"
  shows "unat x + 48 + unat c \<le> unat y \<or> unat y + 48 + unat d \<le> unat x"
  using assms tiled_disjoint [of "hst h" "unat HEAP_BASE" bs "unat (g_heap_next h)" x y]
  by (auto simp: heap_inv_def blocks_inv_def used_def)

lemma used_bounds:
  assumes "heap_inv h bs" "(x, c) \<in> used h bs"
  shows "16 dvd unat x" "unat HEAP_BASE \<le> unat x" "unat x + 48 + unat c \<le> unat (g_heap_next h)"
    "unat (x + HEADER_SIZE) = unat x + 48"
proof -
  obtain xs ys where bs: "bs = xs @ x # ys" and c: "c = b_capacity (hst h x)"
    using assms(2) by (auto simp: used_def dest: split_list)
  have B: "blocks_inv h (xs @ x # ys)" using assms(1) by (simp add: heap_inv_def bs)
  note S = blocks_split [OF B]
  show "unat HEAP_BASE \<le> unat x" using S(11) by (simp add: heap_consts)
  show e: "unat x + 48 + unat c \<le> unat (g_heap_next h)" using S(10) c by simp
  then have "unat x + 48 < 18446744073709551616" using unat_u64_bound [of "g_heap_next h"] by linarith
  then show "unat (x + HEADER_SIZE) = unat x + 48" by (subst unat_add_u64) simp_all
  have "16 dvd e" if "tiled st a zs e" "16 dvd a" for st a zs e
    using that by (induction zs arbitrary: a) (auto simp: block_ok_def)
  from this [OF S(6)] show "16 dvd unat x" by (simp add: heap_consts)
qed

section \<open>The interface of the allocator\<close>

text \<open>
  What callers of \<open>kmalloc\<close> and \<open>kfree\<close> rely on.  \<open>live h\<close> is the set of blocks handed out and not yet
  released, \<open>few h\<close> that there are few enough blocks for the validation walk.
\<close>

locale block_allocator =
  fixes ok :: "'h \<Rightarrow> bool" and few :: "'h \<Rightarrow> bool" and live :: "'h \<Rightarrow> (u64 \<times> u64) set"
    and alloc :: "u64 \<Rightarrow> 'h \<Rightarrow> (u64 \<times> 'h) option" and release :: "u64 \<Rightarrow> 'h \<Rightarrow> 'h"
  assumes alloc_law: "ok h \<Longrightarrow> \<exists>p h'. alloc n h = Some (p, h') \<and> ok h' \<and>
      (if p = 0 then live h' = live h
       else \<exists>c\<ge>n. p \<notin> fst ` live h \<and> live h' = insert (p, c) (live h))"
    and release_law: "ok h \<Longrightarrow> few h \<Longrightarrow> (p, c) \<in> live h \<Longrightarrow>
      ok (release p h) \<and> few (release p h) \<and> live (release p h) = live h - {(p, c)}"
    and live_inj: "ok h \<Longrightarrow> (p, c) \<in> live h \<Longrightarrow> (p, d) \<in> live h \<Longrightarrow> c = d"
begin

lemma alloc_release:
  assumes "ok h" "alloc n h = Some (p, h')" "p \<noteq> 0" "few h'"
  shows "ok (release p h')" "live (release p h') = live h"
proof -
  obtain c where l: "ok h'" "p \<notin> fst ` live h" "live h' = insert (p, c) (live h)"
    using alloc_law [OF assms(1), of n] assms(2,3) by auto
  have "(p, c) \<in> live h'" using l(3) by simp
  note r = release_law [OF l(1) assms(4) this]
  show "ok (release p h')" using r by simp
  have "(p, c) \<notin> live h" using l(2) by force
  then show "live (release p h') = live h" using r l(3) by auto
qed

lemma release_all:
  assumes "ok h" "few h" "distinct ps" "set ps \<subseteq> fst ` live h"
  shows "ok (fold release ps h) \<and> few (fold release ps h) \<and>
    live (fold release ps h) = {(p, c) \<in> live h. p \<notin> set ps}"
  using assms
proof (induction ps arbitrary: h)
  case (Cons p ps)
  then obtain c where c: "(p, c) \<in> live h" by auto
  note r = release_law [OF Cons.prems(1,2) c]
  have s: "live (release p h) = {(q, d) \<in> live h. q \<noteq> p}"
  proof -
    have rl: "live (release p h) = live h - {(p, c)}" using r by simp
    have "d = c" if "(p, d) \<in> live h" for d using live_inj [OF Cons.prems(1) c that] by simp
    then show ?thesis unfolding rl by auto
  qed
  have "set ps \<subseteq> fst ` live (release p h)"
  proof
    fix q assume q: "q \<in> set ps"
    then have "q \<in> fst ` live h" "q \<noteq> p" using Cons.prems(3,4) by auto
    then obtain d where "(q, d) \<in> live h" "q \<noteq> p" by auto
    then show "q \<in> fst ` live (release p h)" unfolding s by force
  qed
  then have "ok (fold release ps (release p h)) \<and> few (fold release ps (release p h)) \<and>
      live (fold release ps (release p h)) = {(q, d) \<in> live (release p h). q \<notin> set ps}"
    using Cons.IH [of "release p h"] r Cons.prems(3) by simp
  then show ?case unfolding s by auto
qed auto

end

definition heap_ok :: "heap \<Rightarrow> bool" where
  "heap_ok h \<longleftrightarrow> (\<exists>bs. heap_inv h bs)"

definition heap_few :: "heap \<Rightarrow> bool" where
  "heap_few h \<longleftrightarrow> (\<exists>bs. heap_inv h bs \<and> length bs \<le> 1000001)"

definition live_blocks :: "heap \<Rightarrow> (u64 \<times> u64) set" where
  "live_blocks h = {(x + HEADER_SIZE, c) | x c bs. heap_inv h bs \<and> (x, c) \<in> used h bs}"

lemma lseg_unique: "lseg st p a xs 0 \<Longrightarrow> lseg st p a ys 0 \<Longrightarrow> xs = ys"
proof (induction xs arbitrary: p a ys)
  case Nil
  then show ?case by (cases ys) auto
next
  case (Cons x xs)
  then show ?case by (cases ys) auto
qed

lemma heap_inv_unique: "heap_inv h bs \<Longrightarrow> heap_inv h bs' \<Longrightarrow> bs' = bs"
  unfolding heap_inv_def blocks_inv_def using lseg_unique by metis

lemma live_blocks_used: "heap_inv h bs \<Longrightarrow> live_blocks h = (\<lambda>(x, c). (x + HEADER_SIZE, c)) ` used h bs"
  unfolding live_blocks_def by (auto dest: heap_inv_unique)

lemma heap_few_length: "heap_inv h bs \<Longrightarrow> heap_few h \<longleftrightarrow> length bs \<le> 1000001"
  unfolding heap_few_def by (auto dest: heap_inv_unique)

interpretation kheap: block_allocator heap_ok heap_few live_blocks kmalloc kfree
proof unfold_locales
  fix h n
  assume "heap_ok h"
  then obtain bs where inv: "heap_inv h bs" by (auto simp: heap_ok_def)
  obtain p h' bs' where k: "kmalloc n h = Some (p, h')" "heap_inv h' bs'"
    "if p = 0 then bs' = bs \<and> used h' bs' = used h bs
     else \<exists>c. n \<le> c \<and> (\<forall>d. (p - HEADER_SIZE, d) \<notin> used h bs) \<and>
       used h' bs' = insert (p - HEADER_SIZE, c) (used h bs)"
    using kmalloc_spec [OF inv, of n] by blast
  have "if p = 0 then live_blocks h' = live_blocks h
       else \<exists>c\<ge>n. p \<notin> fst ` live_blocks h \<and> live_blocks h' = insert (p, c) (live_blocks h)"
    using k(3) unfolding live_blocks_used [OF inv] live_blocks_used [OF k(2)] by (cases "p = 0") force+
  then show "\<exists>p h'. kmalloc n h = Some (p, h') \<and> heap_ok h' \<and>
      (if p = 0 then live_blocks h' = live_blocks h
       else \<exists>c\<ge>n. p \<notin> fst ` live_blocks h \<and> live_blocks h' = insert (p, c) (live_blocks h))"
    using k(1,2) by (auto simp: heap_ok_def)
next
  fix h p c
  assume "heap_ok h" and few: "heap_few h" and "(p, c) \<in> live_blocks h"
  then obtain bs b where inv: "heap_inv h bs" and b: "(b, c) \<in> used h bs" and p: "p = b + HEADER_SIZE"
    by (auto simp: live_blocks_def)
  obtain bs' where k: "heap_inv (kfree p h) bs'" "used (kfree p h) bs' = used h bs - {(b, c)}" "length bs' \<le> length bs"
    using kfree_spec [OF inv b] few heap_few_length [OF inv] p by auto
  have "live_blocks (kfree p h) = live_blocks h - {(p, c)}"
  proof -
    have i: "inj (\<lambda>(x, c). (x + HEADER_SIZE, c))" by (auto intro: injI)
    show ?thesis
      unfolding live_blocks_used [OF inv] live_blocks_used [OF k(1)] k(2) image_set_diff [OF i] by (simp add: p)
  qed
  then show "heap_ok (kfree p h) \<and> heap_few (kfree p h) \<and> live_blocks (kfree p h) = live_blocks h - {(p, c)}"
    using k few heap_few_length [OF inv] heap_few_length [OF k(1)] by (auto simp: heap_ok_def)
next
  fix h p c d
  assume "heap_ok h" and "(p, c) \<in> live_blocks h" "(p, d) \<in> live_blocks h"
  then obtain bs where inv: "heap_inv h bs" by (auto simp: heap_ok_def)
  show "c = d"
    using \<open>(p, c) \<in> live_blocks h\<close> \<open>(p, d) \<in> live_blocks h\<close> unfolding live_blocks_used [OF inv]
    by (auto simp: used_def)
qed

section \<open>Repeated release\<close>

text \<open>The header of a released block keeps its free flag, also when the block is merged into its neighbour.\<close>

abbreviation freed :: "heap \<Rightarrow> u64 \<Rightarrow> bool" where
  "freed h p \<equiv> is_free (hst h (p - HEADER_SIZE))"

lemma flags_merge: "b_flags (hst (merge_with_next b h) x) = b_flags (hst h x)"
  by (simp add: merge_with_next_def upd_block_def Let_def)

lemma flags_release: "b_flags (hst (release_block b h) x) AND 1 = (if x = b then 1 else b_flags (hst h x) AND 1)"
proof -
  have "b_flags (hst (release_block b h) x) = b_flags (hst (mark_free b h) x)"
    unfolding release_block_eq Let_def by (simp add: flags_merge)
  also have "\<dots> = (if x = b then b_flags (hst h x) OR 1 else b_flags (hst h x))"
    by (simp add: mark_free_def upd_block_def BLOCK_FREE_def Let_def)
  finally show ?thesis by (simp add: word_ao_dist)
qed

lemma validate_hst: "heap_validate h = (v, h') \<Longrightarrow> hst h' = hst h"
  by (auto simp: heap_validate_def split: if_splits)

lemma freed_kfree: "freed h q \<Longrightarrow> freed (kfree p h) q"
  unfolding kfree_def Let_def
  by (auto simp: heap_unlock_def heap_lock_def flags_release dest!: validate_hst split: prod.splits bool.splits)

lemma kfree_freed:
  assumes "heap_ok h" "heap_few h" "(p, c) \<in> live_blocks h"
  shows "freed (kfree p h) p"
proof -
  obtain bs b where inv: "heap_inv h bs" and b: "(b, c) \<in> used h bs" and p: "p = b + HEADER_SIZE"
    using assms(3) by (auto simp: live_blocks_def)
  have "length bs \<le> 1000001" using assms(2) heap_few_length [OF inv] by simp
  note k = kflags_release [OF inv b this]
  show ?thesis unfolding p k by (simp add: heap_unlock_def flags_release)
qed

lemma kfree_repeated:
  assumes "heap_ok h" "heap_few h" "\<forall>p\<in>set ps. p \<in> fst ` live_blocks h \<or> freed h p"
  shows "heap_ok (fold kfree ps h) \<and> (\<forall>p. p \<in> set ps \<or> freed h p \<longrightarrow> freed (fold kfree ps h) p)"
  using assms
proof (induction ps arbitrary: h)
  case (Cons p ps)
  show ?case
  proof (cases "freed h p")
    case True
    then have "kfree p h = h" using kfree_ignored by blast
    then show ?thesis using Cons.IH [OF Cons.prems(1,2)] Cons.prems(3) True by auto
  next
    case False
    then obtain c where c: "(p, c) \<in> live_blocks h" using Cons.prems(3) by auto
    note r = kheap.release_law [OF Cons.prems(1,2) c]
    have f: "freed (kfree p h) p" by (rule kfree_freed [OF Cons.prems(1,2) c])
    have "q \<in> fst ` live_blocks (kfree p h) \<or> freed (kfree p h) q" if q: "q \<in> set ps" for q
    proof (cases "q = p \<or> freed h q")
      case True
      then show ?thesis using f freed_kfree by blast
    next
      case False
      then obtain d where "(q, d) \<in> live_blocks h" "q \<noteq> p" using Cons.prems(3) q by auto
      then show ?thesis using r by force
    qed
    then show ?thesis using Cons.IH [of "kfree p h"] r f freed_kfree [of h _ p] by auto
  qed
qed simp

section \<open>Properties\<close>

text \<open>
  C1. \<open>kmalloc\<close> returns on every heap that satisfies the invariant (its list walks end), keeps the
  invariant, and either gives 0 and leaves the blocks handed out as they were, or gives a 16-byte aligned
  pointer to at least \<open>n\<close> bytes inside the mapped arena that overlap no block handed out before.
\<close>

theorem kmalloc_correct:
  assumes "heap_ok h"
  shows "\<exists>p h'. kmalloc n h = Some (p, h') \<and> heap_ok h' \<and> intr h' = intr h \<and>
    (if p = 0 then live_blocks h' = live_blocks h
     else \<exists>c\<ge>n. live_blocks h' = insert (p, c) (live_blocks h) \<and> 16 dvd unat p \<and>
       unat HEAP_BASE + 48 \<le> unat p \<and> unat p + unat c \<le> unat (g_heap_next h') \<and>
       (\<forall>(q, d) \<in> live_blocks h. unat p + unat c \<le> unat q \<or> unat q + unat d \<le> unat p))"
proof -
  obtain bs where inv: "heap_inv h bs" using assms by (auto simp: heap_ok_def)
  obtain p h' bs' where k: "kmalloc n h = Some (p, h')" "heap_inv h' bs'" "intr h' = intr h"
    "if p = 0 then bs' = bs \<and> used h' bs' = used h bs
     else \<exists>c. n \<le> c \<and> (\<forall>d. (p - HEADER_SIZE, d) \<notin> used h bs) \<and>
       used h' bs' = insert (p - HEADER_SIZE, c) (used h bs)"
    using kmalloc_spec [OF inv, of n] by blast
  note lb = live_blocks_used [OF inv] live_blocks_used [OF k(2)]
  have ok: "heap_ok h'" using k(2) by (auto simp: heap_ok_def)
  show ?thesis
  proof (cases "p = 0")
    case True
    then show ?thesis using k ok lb by auto
  next
    case False
    define x where "x = p - HEADER_SIZE"
    have p: "p = x + HEADER_SIZE" by (simp add: x_def)
    obtain c where c: "n \<le> c" "\<And>d. (x, d) \<notin> used h bs" "used h' bs' = insert (x, c) (used h bs)"
      using k(4) False by (auto simp: x_def)
    have xu: "(x, c) \<in> used h' bs'" using c(3) by simp
    note ub = used_bounds [OF k(2) xu]
    have "unat p + unat c \<le> unat q \<or> unat q + unat d \<le> unat p" if qd: "(q, d) \<in> live_blocks h" for q d
    proof -
      obtain y where y: "(y, d) \<in> used h bs" "q = y + HEADER_SIZE" using qd unfolding lb by auto
      have yu: "(y, d) \<in> used h' bs'" "x \<noteq> y" using c y by auto
      show ?thesis using used_disjoint [OF k(2) xu yu] used_bounds(4) [OF k(2) yu(1)] ub(4) p y(2) by auto
    qed
    moreover have "16 dvd unat p" using ub(1,4) p by (auto intro: dvd_add)
    moreover have "live_blocks h' = insert (p, c) (live_blocks h)" unfolding lb c(3) p by simp
    moreover have "unat HEAP_BASE + 48 \<le> unat p" "unat p + unat c \<le> unat (g_heap_next h')"
      using ub p by (simp_all del: heap_consts)
    ultimately have "\<exists>c\<ge>n. live_blocks h' = insert (p, c) (live_blocks h) \<and> 16 dvd unat p \<and>
       unat HEAP_BASE + 48 \<le> unat p \<and> unat p + unat c \<le> unat (g_heap_next h') \<and>
       (\<forall>(q, d) \<in> live_blocks h. unat p + unat c \<le> unat q \<or> unat q + unat d \<le> unat p)"
      using c(1) by blast
    then show ?thesis using k(1,3) ok False by auto
  qed
qed

definition ex_heap :: heap where
  "ex_heap = heap_init \<lparr>hmm = ex_mm, hst = (\<lambda>_. \<lparr>b_magic = 0, b_size = 0, b_capacity = 0, b_flags = 0,
     b_prev = 0, b_next = 0\<rparr>), g_head = 0, g_heap_next = 0, g_heap_pages = 0, g_used_bytes = 0,
     g_free_bytes = 0, g_allocations = 0, g_corruption_count = 0, heap_ready = False, intr = True\<rparr>"

lemma ex_heap_inv: "heap_inv ex_heap []"
  using ex_mm_sound by (simp add: heap_inv_def blocks_inv_def ex_heap_def heap_init_def ex_mm_def ex_pmm8_def
    VMM_PAGE_SIZE_def free_sum_def used_count_def backed_def heap_consts)

lemma heap_few_pages:
  assumes "heap_inv h bs" "unat (g_heap_pages h) \<le> 15625"
  shows "heap_few h"
proof -
  have "unat HEAP_BASE + 64 * length bs \<le> unat HEAP_BASE + 4096 * unat (g_heap_pages h)"
    using assms(1) tiled_length [of "hst h" "unat HEAP_BASE" bs "unat (g_heap_next h)"]
    by (auto simp: heap_inv_def blocks_inv_def simp del: heap_consts)
  then have "64 * length bs \<le> 4096 * unat (g_heap_pages h)" by linarith
  then show ?thesis using assms by (simp add: heap_few_length)
qed

lemma ex_grow:
  "map_option (\<lambda>(p, h). (p, g_heap_pages h)) (grow 112 (heap_lock ex_heap)) = Some (HEAP_BASE + HEADER_SIZE, 1)"
  by code_simp

lemma ex_kmalloc:
  obtains h where "kmalloc 100 ex_heap = Some (HEAP_BASE + HEADER_SIZE, h)" "g_heap_pages h = 1"
proof -
  let ?h = "heap_lock ex_heap"
  have v: "heap_validate ?h = (True, ?h)"
    using heap_validate_inv [of ?h "[]"] ex_heap_inv by (simp add: heap_inv_def heap_lock_def)
  have f: "find_fit (hst ?h) 112 (g_head ?h) = Some 0"
    by (subst find_fit.simps) (simp add: heap_lock_def ex_heap_def heap_init_def)
  obtain h where g: "grow 112 ?h = Some (HEAP_BASE + HEADER_SIZE, h)" "g_heap_pages h = 1"
    using ex_grow by auto
  have a: "align_size 100 = 112" "heap_ready ex_heap" by code_simp+
  show ?thesis
    using that [of "heap_unlock (intr ex_heap) h"] g a v f
    by (simp add: kmalloc_def Let_def heap_unlock_def del: heap_consts)
qed

theorem kmalloc_correct_witness:
  "\<exists>h c. kmalloc 100 ex_heap = Some (HEAP_BASE + HEADER_SIZE, h) \<and> live_blocks h = {(HEAP_BASE + HEADER_SIZE, c)} \<and>
     100 \<le> c \<and> heap_ok h"
proof -
  obtain h where h: "kmalloc 100 ex_heap = Some (HEAP_BASE + HEADER_SIZE, h)" by (rule ex_kmalloc)
  have ok: "heap_ok ex_heap" using ex_heap_inv by (auto simp: heap_ok_def)
  have "live_blocks ex_heap = {}" by (simp add: live_blocks_used [OF ex_heap_inv] used_def)
  then show ?thesis using kmalloc_correct [OF ok, of 100] h by auto
qed

text \<open>
  C23. Round trip: on a heap of at most 1000001 blocks (\<open>heap_few\<close>), releasing the pointer that \<open>kmalloc\<close> gave leaves exactly
  the blocks handed out before, and the invariant holds again.  On a longer list \<open>heap_validate\<close> gives up, and \<open>kfree\<close>
  releases nothing.
\<close>

theorem kmalloc_kfree:
  assumes "heap_ok h" and "kmalloc n h = Some (p, h')" and "p \<noteq> 0" and "heap_few h'"
  shows "heap_ok (kfree p h') \<and> live_blocks (kfree p h') = live_blocks h"
  using kheap.alloc_release [OF assms] by simp

theorem kmalloc_kfree_witness:
  "\<exists>p h. kmalloc 100 ex_heap = Some (p, h) \<and> p \<noteq> 0 \<and> live_blocks (kfree p h) = {}"
proof -
  obtain h where h: "kmalloc 100 ex_heap = Some (HEAP_BASE + HEADER_SIZE, h)" "g_heap_pages h = 1" by (rule ex_kmalloc)
  have ok: "heap_ok ex_heap" using ex_heap_inv by (auto simp: heap_ok_def)
  obtain bs where "heap_inv h bs" using kheap.alloc_law [OF ok, of 100] h(1) by (auto simp: heap_ok_def)
  then have few: "heap_few h" by (rule heap_few_pages) (simp add: h(2))
  have "live_blocks ex_heap = {}" by (simp add: live_blocks_used [OF ex_heap_inv] used_def)
  then show ?thesis using kmalloc_kfree [OF ok h(1) _ few] h(1) by simp
qed

text \<open>
  C14. On a heap of at most 1000001 blocks (\<open>heap_few\<close>), any selection of distinct blocks handed out can be released one
  after the other, in any order: exactly these disappear and the invariant is kept.  The bound is the one of
  \<open>heap_validate\<close>; beyond it \<open>kfree\<close> releases nothing.
\<close>

theorem kfree_all:
  assumes "heap_ok h" and "heap_few h" and "distinct ps" and "set ps \<subseteq> fst ` live_blocks h"
  shows "heap_ok (fold kfree ps h) \<and> live_blocks (fold kfree ps h) = {(p, c) \<in> live_blocks h. p \<notin> set ps}"
  using kheap.release_all [OF assms] by simp

theorem kfree_all_witness:
  "\<exists>p h. p \<in> fst ` live_blocks h \<and> live_blocks (fold kfree [p] h) = {}"
proof -
  obtain h where h: "kmalloc 100 ex_heap = Some (HEAP_BASE + HEADER_SIZE, h)" "g_heap_pages h = 1" by (rule ex_kmalloc)
  have ok: "heap_ok ex_heap" using ex_heap_inv by (auto simp: heap_ok_def)
  have "live_blocks ex_heap = {}" by (simp add: live_blocks_used [OF ex_heap_inv] used_def)
  then obtain bs c where b: "heap_inv h bs" "live_blocks h = {(HEAP_BASE + HEADER_SIZE, c)}"
    using kheap.alloc_law [OF ok, of 100] h(1) by (auto simp: heap_ok_def)
  have few: "heap_few h" by (rule heap_few_pages [OF b(1)]) (simp add: h(2))
  have "heap_ok h" using b(1) by (auto simp: heap_ok_def)
  from kfree_all [OF this few, of "[HEAP_BASE + HEADER_SIZE]"] show ?thesis
    using b(2) by (intro exI [of _ "HEAP_BASE + HEADER_SIZE"] exI [of _ h]) (simp del: heap_consts)
qed

text \<open>
  C24. Double release is harmless: on a heap of at most 1000001 blocks (\<open>heap_few\<close>), once the pointers \<open>ps\<close> of blocks handed
  out have been released, in any order and even repeatedly, releasing any of them again before the next allocation changes
  nothing at all.  This includes blocks that were merged into their neighbours meanwhile, whose headers are no longer on the
  list of blocks.
\<close>

theorem kfree_double:
  assumes "heap_ok h" and "heap_few h" and "set ps \<subseteq> fst ` live_blocks h" and "p \<in> set ps"
  shows "kfree p (fold kfree ps h) = fold kfree ps h"
proof -
  have "freed (fold kfree ps h) p" using kfree_repeated [OF assms(1,2), of ps] assms(3,4) by blast
  then show ?thesis using kfree_ignored by blast
qed

theorem kfree_double_witness:
  "\<exists>p h. p \<in> fst ` live_blocks h \<and> kfree p h \<noteq> h \<and> kfree p (kfree p h) = kfree p h"
proof -
  let ?p = "HEAP_BASE + HEADER_SIZE"
  obtain h where h: "kmalloc 100 ex_heap = Some (?p, h)" "g_heap_pages h = 1" by (rule ex_kmalloc)
  have ok: "heap_ok ex_heap" using ex_heap_inv by (auto simp: heap_ok_def)
  have "live_blocks ex_heap = {}" by (simp add: live_blocks_used [OF ex_heap_inv] used_def)
  then obtain bs c where b: "heap_inv h bs" "live_blocks h = {(?p, c)}"
    using kheap.alloc_law [OF ok, of 100] h(1) by (auto simp: heap_ok_def)
  have few: "heap_few h" by (rule heap_few_pages [OF b(1)]) (simp add: h(2))
  have ok': "heap_ok h" using b(1) by (auto simp: heap_ok_def)
  have "live_blocks (kfree ?p h) = {}" using kheap.release_law [OF ok' few, of ?p c] b(2) by (simp del: heap_consts)
  then have "kfree ?p h \<noteq> h" using b(2) by (metis insert_not_empty)
  then show ?thesis using kfree_double [OF ok' few, of "[?p]" ?p] b(2)
    by (intro exI [of _ ?p] exI [of _ h]) (simp del: heap_consts)
qed

end
