(* ===== verification/Fifo.thy ===== *)
theory Fifo
  imports Nexus_Prelude
begin

text \<open>
  Ring buffers and the contract of a bounded first-in first-out queue.  Event queue, channel queues,
  and wait queues are arrays with a head index; \<open>ring_items\<close> is the sequence they
  stand for, and the locale \<open>bounded_fifo\<close> is what their clients rely on.
\<close>

section \<open>Rings\<close>

definition ring_items :: "'a list \<Rightarrow> nat \<Rightarrow> nat \<Rightarrow> 'a list" where
  "ring_items buf h n = map (\<lambda>i. buf ! ((h + i) mod length buf)) [0..<n]"

lemma length_ring_items [simp]: "length (ring_items buf h n) = n"
  by (simp add: ring_items_def)

lemma ring_items_0 [simp]: "ring_items buf h 0 = []"
  by (simp add: ring_items_def)

lemma set_ring_items: "set (ring_items buf h n) = (\<lambda>i. buf ! ((h + i) mod length buf)) ` {..<n}"
  by (auto simp: ring_items_def atLeast0LessThan)

lemma ring_index_inj:
  assumes "i < L" "j < L" "(h + i) mod L = (h + j) mod L"
  shows "i = (j::nat)"
proof -
  have "i = j" if "i \<le> j" "j < L" "(h + i) mod L = (h + j) mod L" for i j
  proof -
    have "L dvd (h + j) - (h + i)" using that by (subst mod_eq_dvd_iff_nat [symmetric]) simp_all
    then have "L dvd j - i" by simp
    moreover have "j - i < L" using that(2) by simp
    ultimately have "j - i = 0" using nat_dvd_not_less by blast
    then show ?thesis using that(1) by simp
  qed
  from this [of i j] this [of j i] show ?thesis using assms by (cases "i \<le> j") auto
qed

lemma ring_push:
  assumes "n < length buf"
  shows "ring_items (buf[(h + n) mod length buf := x]) h (Suc n) = ring_items buf h n @ [x]"
proof -
  have "(h + n) mod length buf < length buf" using assms by (intro mod_less_divisor) linarith
  moreover have "(h + n) mod length buf \<noteq> (h + i) mod length buf" if "i < n" for i
    using ring_index_inj [of n "length buf" i h] assms that by auto
  ultimately show ?thesis by (simp add: ring_items_def)
qed

lemma ring_pop:
  assumes "0 < n" "h < length buf"
  shows "ring_items buf h n = buf ! h # ring_items buf ((h + 1) mod length buf) (n - 1)"
proof -
  have "[0..<n] = 0 # map Suc [0..<n - 1]"
    using assms(1) by (cases n) (simp_all add: upt_conv_Cons map_Suc_upt del: upt_Suc)
  then show ?thesis using assms(2) by (simp add: ring_items_def mod_add_left_eq)
qed

lemma ring_pop_clear:
  assumes "0 < n" "n \<le> length buf" "h < length buf"
  shows "ring_items (buf[h := x]) ((h + 1) mod length buf) (n - 1) = tl (ring_items buf h n)"
proof -
  have "h \<noteq> (Suc (h + i)) mod length buf" if "i < n - 1" for i
  proof
    assume "h = (Suc (h + i)) mod length buf"
    then have "(h + (1 + i)) mod length buf = (h + 0) mod length buf" using assms(3) by simp
    moreover have "1 + i < length buf" "0 < length buf" using that assms(2) by linarith+
    ultimately show False using ring_index_inj [of "1 + i" "length buf" 0 h] by simp
  qed
  then show ?thesis
    unfolding ring_pop [OF assms(1,3)] by (simp add: ring_items_def mod_Suc_eq mod_add_left_eq)
qed

section \<open>The contract\<close>

primrec push_all :: "('a \<Rightarrow> 'q \<Rightarrow> bool \<times> 'q) \<Rightarrow> 'a list \<Rightarrow> 'q \<Rightarrow> 'q" where
  "push_all push [] q = q"
| "push_all push (x # xs) q = push_all push xs (snd (push x q))"

primrec pop_all :: "('q \<Rightarrow> 'a option \<times> 'q) \<Rightarrow> nat \<Rightarrow> 'q \<Rightarrow> 'a option list \<times> 'q" where
  "pop_all pop 0 q = ([], q)"
| "pop_all pop (Suc n) q = (case pop q of (r, q') \<Rightarrow> case pop_all pop n q' of (rs, q'') \<Rightarrow> (r # rs, q''))"

locale bounded_fifo =
  fixes wf :: "'q \<Rightarrow> bool" and contents :: "'q \<Rightarrow> 'a list" and cap :: nat and admits :: "'a \<Rightarrow> bool"
    and push :: "'a \<Rightarrow> 'q \<Rightarrow> bool \<times> 'q" and pop :: "'q \<Rightarrow> 'a option \<times> 'q"
  assumes push_ok: "wf q \<Longrightarrow> admits x \<Longrightarrow> length (contents q) < cap \<Longrightarrow>
      \<exists>q'. push x q = (True, q') \<and> wf q' \<and> contents q' = contents q @ [x]"
    and push_full: "wf q \<Longrightarrow> admits x \<Longrightarrow> cap \<le> length (contents q) \<Longrightarrow>
      \<exists>q'. push x q = (False, q') \<and> wf q' \<and> contents q' = contents q"
    and pop_empty: "wf q \<Longrightarrow> contents q = [] \<Longrightarrow> pop q = (None, q)"
    and pop_ok: "wf q \<Longrightarrow> contents q = x # xs \<Longrightarrow> \<exists>q'. pop q = (Some x, q') \<and> wf q' \<and> contents q' = xs"
begin

lemma push_all_contents:
  assumes "wf q" "\<forall>x \<in> set xs. admits x" "length (contents q) \<le> cap"
  shows "wf (push_all push xs q) \<and> contents (push_all push xs q) = contents q @ take (cap - length (contents q)) xs"
  using assms
proof (induction xs arbitrary: q)
  case (Cons x xs)
  have a: "admits x" "\<forall>x \<in> set xs. admits x" using Cons.prems(2) by simp_all
  show ?case
  proof (cases "length (contents q) < cap")
    case True
    then obtain q' where q: "push x q = (True, q')" "wf q'" "contents q' = contents q @ [x]"
      using push_ok [OF Cons.prems(1) a(1)] by blast
    have "cap - length (contents q) = Suc (cap - length (contents q'))" using True q(3) by simp
    then show ?thesis using Cons.IH [OF q(2) a(2)] q True by simp
  next
    case False
    then obtain q' where q: "push x q = (False, q')" "wf q'" "contents q' = contents q"
      using push_full [OF Cons.prems(1) a(1)] by (meson not_less)
    then show ?thesis using Cons.IH [OF q(2) a(2)] Cons.prems(3) False by simp
  qed
qed simp

lemma pop_all_contents:
  assumes "wf q" "n \<le> length (contents q)"
  shows "fst (pop_all pop n q) = map Some (take n (contents q))"
    "wf (snd (pop_all pop n q))" "contents (snd (pop_all pop n q)) = drop n (contents q)"
proof -
  have "fst (pop_all pop n q) = map Some (take n (contents q)) \<and> wf (snd (pop_all pop n q)) \<and>
      contents (snd (pop_all pop n q)) = drop n (contents q)"
    using assms
  proof (induction n arbitrary: q)
    case (Suc n)
    then obtain x xs where c: "contents q = x # xs" by (cases "contents q") auto
    then obtain q' where q: "pop q = (Some x, q')" "wf q'" "contents q' = xs"
      using pop_ok Suc.prems(1) by blast
    obtain rs q'' where r: "pop_all pop n q' = (rs, q'')" by fastforce
    show ?case using Suc.IH [of q'] c Suc.prems(2) q r by simp
  qed auto
  then show "fst (pop_all pop n q) = map Some (take n (contents q))"
    "wf (snd (pop_all pop n q))" "contents (snd (pop_all pop n q)) = drop n (contents q)" by simp_all
qed

text \<open>What was pushed comes out, in order, after what was there before.\<close>

lemma push_pop_all:
  assumes "wf q" "\<forall>x \<in> set xs. admits x" "length (contents q) + length xs \<le> cap"
  shows "fst (pop_all pop (length (contents q) + length xs) (push_all push xs q)) = map Some (contents q @ xs)"
    "contents (snd (pop_all pop (length (contents q) + length xs) (push_all push xs q))) = []"
proof -
  have "length (contents q) \<le> cap" "length xs \<le> cap - length (contents q)" using assms(3) by linarith+
  then have c: "contents (push_all push xs q) = contents q @ xs"
    using push_all_contents [OF assms(1,2)] by simp
  have w: "wf (push_all push xs q)" using push_all_contents [OF assms(1,2)] assms(3) by simp
  show "fst (pop_all pop (length (contents q) + length xs) (push_all push xs q)) = map Some (contents q @ xs)"
    "contents (snd (pop_all pop (length (contents q) + length xs) (push_all push xs q))) = []"
    using pop_all_contents [OF w, of "length (contents q) + length xs"] c by simp_all
qed

end

end
