(* ===== verification/Event_Queue.thy ===== *)
theory Event_Queue
  imports Fifo
begin

text \<open>
  The interrupt event queue (\<open>kernel/core/events/event_queue.c\<close>) and the stall detector
  (\<open>kernel/core/watchdog.c\<close>).  The queue is a ring of 256 records of which one stays free; it satisfies
  the contract of a first-in first-out queue for 255 events and counts what it drops.
\<close>

section \<open>The event queue\<close>

definition NEXUS_EVENT_QUEUE_CAPACITY :: nat where "NEXUS_EVENT_QUEUE_CAPACITY = 256"

datatype nexus_event_type = NEXUS_EVENT_NONE | NEXUS_EVENT_TIMER_TICK | NEXUS_EVENT_KEYBOARD_SCANCODE
  | NEXUS_EVENT_MOUSE_BYTE

record nexus_event =
  ev_type :: nexus_event_type
  ev_source :: u32
  ev_data :: u64

record event_queue =
  evq_buf :: "nexus_event list"
  evq_head :: nat
  evq_tail :: nat
  evq_pushed :: u64
  evq_dropped :: u64
  evq_popped :: u64
  evq_ready :: bool

definition event_queue_init :: "event_queue \<Rightarrow> event_queue" where
  "event_queue_init q = q\<lparr>evq_head := 0, evq_tail := 0, evq_pushed := 0, evq_dropped := 0, evq_popped := 0,
     evq_ready := True\<rparr>"

definition event_queue_push :: "nexus_event \<Rightarrow> event_queue \<Rightarrow> bool \<times> event_queue" where
  "event_queue_push e q =
     (if \<not> evq_ready q \<or> ev_type e = NEXUS_EVENT_NONE then (False, q)
      else
        let head = evq_head q; nxt = (head + 1) mod NEXUS_EVENT_QUEUE_CAPACITY; tail = evq_tail q
        in if nxt = tail then (False, q\<lparr>evq_dropped := evq_dropped q + 1\<rparr>)
           else (True, q\<lparr>evq_buf := (evq_buf q)[head := e], evq_head := nxt, evq_pushed := evq_pushed q + 1\<rparr>))"

definition event_queue_pop :: "event_queue \<Rightarrow> nexus_event option \<times> event_queue" where
  "event_queue_pop q =
     (if \<not> evq_ready q then (None, q)
      else if evq_tail q = evq_head q then (None, q)
      else (Some (evq_buf q ! evq_tail q),
            q\<lparr>evq_tail := (evq_tail q + 1) mod NEXUS_EVENT_QUEUE_CAPACITY, evq_popped := evq_popped q + 1\<rparr>))"

definition event_queue_count :: "event_queue \<Rightarrow> nat" where
  "event_queue_count q =
     (if evq_head q \<ge> evq_tail q then evq_head q - evq_tail q
      else NEXUS_EVENT_QUEUE_CAPACITY - evq_tail q + evq_head q)"

section \<open>The watchdog\<close>

definition WATCHDOG_TIMEOUT_MS :: u64 where "WATCHDOG_TIMEOUT_MS = 3000"

record watchdog =
  wd_tick :: u64
  wd_last_heartbeat :: u64
  wd_heartbeats :: u64
  wd_trips :: u64
  wd_timer_hz :: u32
  wd_ready :: bool
  wd_trip_pending :: bool

definition nexus_watchdog_init :: "u32 \<Rightarrow> watchdog \<Rightarrow> watchdog" where
  "nexus_watchdog_init hz w = w\<lparr>wd_tick := 0, wd_last_heartbeat := 0, wd_heartbeats := 0, wd_trips := 0,
     wd_timer_hz := (if hz \<noteq> 0 then hz else 100), wd_ready := True, wd_trip_pending := False\<rparr>"

definition nexus_watchdog_heartbeat :: "watchdog \<Rightarrow> watchdog" where
  "nexus_watchdog_heartbeat w =
     (if \<not> wd_ready w then w
      else w\<lparr>wd_last_heartbeat := wd_tick w, wd_heartbeats := wd_heartbeats w + 1\<rparr>)"

definition timeout_ticks :: "watchdog \<Rightarrow> u64" where
  "timeout_ticks w = (let t = (ucast (wd_timer_hz w) * WATCHDOG_TIMEOUT_MS) div 1000 in if t = 0 then 1 else t)"

definition nexus_watchdog_timer_tick :: "watchdog \<Rightarrow> watchdog" where
  "nexus_watchdog_timer_tick w =
     (if \<not> wd_ready w then w
      else
        let w1 = w\<lparr>wd_tick := wd_tick w + 1\<rparr>
        in if \<not> wd_trip_pending w1 \<and> wd_tick w1 > wd_last_heartbeat w1 + timeout_ticks w1
           then w1\<lparr>wd_trip_pending := True, wd_trips := wd_trips w1 + 1\<rparr> else w1)"

definition nexus_watchdog_clear_trip :: "watchdog \<Rightarrow> watchdog" where
  "nexus_watchdog_clear_trip w = w\<lparr>wd_trip_pending := False\<rparr>"

section \<open>The queue keeps the order of events\<close>

definition evq_wf :: "event_queue \<Rightarrow> bool" where
  "evq_wf q \<longleftrightarrow> evq_ready q \<and> length (evq_buf q) = 256 \<and> evq_head q < 256 \<and> evq_tail q < 256"

text \<open>The waiting events: the records from the tail up to, not including, the head.\<close>

definition evq_contents :: "event_queue \<Rightarrow> nexus_event list" where
  "evq_contents q = ring_items (evq_buf q) (evq_tail q) ((evq_head q + 256 - evq_tail q) mod 256)"

lemma evq_count: "evq_wf q \<Longrightarrow> event_queue_count q = (evq_head q + 256 - evq_tail q) mod 256"
  by (auto simp: evq_wf_def event_queue_count_def NEXUS_EVENT_QUEUE_CAPACITY_def mod_if)

lemma evq_contents_ring: "evq_wf q \<Longrightarrow> evq_contents q = ring_items (evq_buf q) (evq_tail q) (event_queue_count q)"
  by (simp add: evq_contents_def evq_count)

lemma evq_length: "evq_wf q \<Longrightarrow> length (evq_contents q) = event_queue_count q"
  by (simp add: evq_contents_ring)

lemma evq_head_tail:
  assumes "evq_wf q"
  shows "evq_head q = (evq_tail q + event_queue_count q) mod 256" "event_queue_count q < 256"
proof -
  have "evq_tail q < 256" "evq_head q < 256" using assms by (auto simp: evq_wf_def)
  then show "evq_head q = (evq_tail q + event_queue_count q) mod 256" "event_queue_count q < 256"
    by (auto simp: event_queue_count_def NEXUS_EVENT_QUEUE_CAPACITY_def)
qed

lemma evq_full: "evq_wf q \<Longrightarrow> (evq_head q + 1) mod 256 = evq_tail q \<longleftrightarrow> event_queue_count q = 255"
  by (auto simp: evq_wf_def event_queue_count_def NEXUS_EVENT_QUEUE_CAPACITY_def mod_Suc split: if_splits)

lemma event_queue_push_spec:
  assumes q: "evq_wf q" and e: "ev_type e \<noteq> NEXUS_EVENT_NONE" and n: "event_queue_count q < 255"
  shows "\<exists>q'. event_queue_push e q = (True, q') \<and> evq_wf q' \<and> evq_contents q' = evq_contents q @ [e] \<and>
    evq_pushed q' = evq_pushed q + 1 \<and> evq_dropped q' = evq_dropped q \<and> evq_popped q' = evq_popped q"
proof -
  let ?h = "(evq_head q + 1) mod 256"
  let ?q = "q\<lparr>evq_buf := (evq_buf q)[evq_head q := e], evq_head := ?h, evq_pushed := evq_pushed q + 1\<rparr>"
  have l: "length (evq_buf q) = 256" "evq_ready q" "evq_tail q < 256" "evq_head q < 256" using q by (auto simp: evq_wf_def)
  have c: "event_queue_count ?q = Suc (event_queue_count q)"
    using l n by (auto simp: event_queue_count_def NEXUS_EVENT_QUEUE_CAPACITY_def mod_Suc split: if_splits)
  have w: "evq_wf ?q" using l by (simp add: evq_wf_def)
  have "evq_contents ?q = evq_contents q @ [e]"
    using ring_push [of "event_queue_count q" "evq_buf q" "evq_tail q" e] n l(1)
    unfolding evq_contents_ring [OF q] evq_contents_ring [OF w] c by (simp flip: evq_head_tail(1) [OF q])
  then show ?thesis
    using l e n evq_full [OF q] q
    by (intro exI [of _ ?q]) (auto simp: event_queue_push_def Let_def evq_wf_def NEXUS_EVENT_QUEUE_CAPACITY_def)
qed

lemma event_queue_pop_spec:
  assumes q: "evq_wf q" and c: "evq_contents q = e # es"
  shows "\<exists>q'. event_queue_pop q = (Some e, q') \<and> evq_wf q' \<and> evq_contents q' = es \<and>
    evq_pushed q' = evq_pushed q \<and> evq_dropped q' = evq_dropped q \<and> evq_popped q' = evq_popped q + 1"
proof -
  let ?q = "q\<lparr>evq_tail := (evq_tail q + 1) mod 256, evq_popped := evq_popped q + 1\<rparr>"
  have l: "length (evq_buf q) = 256" "evq_ready q" "evq_tail q < 256" "evq_head q < 256" using q by (auto simp: evq_wf_def)
  have n: "0 < event_queue_count q" using c evq_length [OF q] by (cases "event_queue_count q") auto
  then have ht: "evq_tail q \<noteq> evq_head q" by (auto simp: event_queue_count_def)
  have d: "event_queue_count ?q = event_queue_count q - 1"
    using l n by (auto simp: event_queue_count_def NEXUS_EVENT_QUEUE_CAPACITY_def mod_Suc split: if_splits)
  have w: "evq_wf ?q" using l by (simp add: evq_wf_def)
  have "evq_buf q ! evq_tail q = e" "evq_contents ?q = es"
    using ring_pop [OF n, of "evq_tail q" "evq_buf q"] c l
    unfolding evq_contents_ring [OF q] evq_contents_ring [OF w] d by simp_all
  then show ?thesis
    using l ht by (intro exI [of _ ?q]) (simp add: event_queue_pop_def evq_wf_def NEXUS_EVENT_QUEUE_CAPACITY_def)
qed

lemma event_queue_push_full:
  assumes q: "evq_wf q" and e: "ev_type e \<noteq> NEXUS_EVENT_NONE" and n: "255 \<le> event_queue_count q"
  shows "event_queue_push e q = (False, q\<lparr>evq_dropped := evq_dropped q + 1\<rparr>)"
proof -
  have "event_queue_count q = 255" using evq_head_tail(2) [OF q] n by simp
  then show ?thesis
    using evq_full [OF q] e q by (simp add: event_queue_push_def Let_def NEXUS_EVENT_QUEUE_CAPACITY_def evq_wf_def)
qed

lemma evq_dropped_update [simp]:
  "evq_wf (q\<lparr>evq_dropped := n\<rparr>) = evq_wf q" "evq_contents (q\<lparr>evq_dropped := n\<rparr>) = evq_contents q"
  by (simp_all add: evq_wf_def evq_contents_def)

interpretation evq: bounded_fifo evq_wf evq_contents 255 "\<lambda>e. ev_type e \<noteq> NEXUS_EVENT_NONE" event_queue_push event_queue_pop
proof unfold_locales
  fix q :: event_queue and e :: nexus_event
  assume q: "evq_wf q"
  note len = evq_length [OF q]
  {
    assume "ev_type e \<noteq> NEXUS_EVENT_NONE" "length (evq_contents q) < 255"
    then show "\<exists>q'. event_queue_push e q = (True, q') \<and> evq_wf q' \<and> evq_contents q' = evq_contents q @ [e]"
      using event_queue_push_spec [OF q] len by force
  next
    assume e: "ev_type e \<noteq> NEXUS_EVENT_NONE" "255 \<le> length (evq_contents q)"
    then show "\<exists>q'. event_queue_push e q = (False, q') \<and> evq_wf q' \<and> evq_contents q' = evq_contents q"
      using event_queue_push_full [OF q] q len by simp
  next
    assume "evq_contents q = []"
    then have "event_queue_count q = 0" using len by simp
    then have "evq_tail q = evq_head q" using evq_head_tail(1) [OF q] q by (simp add: evq_wf_def)
    then show "event_queue_pop q = (None, q)" by (simp add: event_queue_pop_def)
  }
next
  fix q :: event_queue and e :: nexus_event and es
  assume "evq_wf q" "evq_contents q = e # es"
  then show "\<exists>q'. event_queue_pop q = (Some e, q') \<and> evq_wf q' \<and> evq_contents q' = es"
    using event_queue_pop_spec by blast
qed

text \<open>
  C25. The event queue is first-in first-out: while there is room for 255 events, popping returns what
  was waiting and then every event pushed, in order, and leaves the queue empty.
\<close>

theorem event_queue_order:
  assumes "evq_wf q" and "\<forall>e \<in> set es. ev_type e \<noteq> NEXUS_EVENT_NONE"
    and "length (evq_contents q) + length es \<le> 255"
  shows "fst (pop_all event_queue_pop (length (evq_contents q) + length es) (push_all event_queue_push es q))
      = map Some (evq_contents q @ es) \<and>
    evq_contents (snd (pop_all event_queue_pop (length (evq_contents q) + length es) (push_all event_queue_push es q))) = []"
  using evq.push_pop_all [OF assms] by simp

definition ex_event :: "u64 \<Rightarrow> nexus_event" where
  "ex_event d = \<lparr>ev_type = NEXUS_EVENT_KEYBOARD_SCANCODE, ev_source = 1, ev_data = d\<rparr>"

definition ex_evq :: event_queue where
  "ex_evq = event_queue_init \<lparr>evq_buf = replicate 256 (ex_event 0), evq_head = 7, evq_tail = 9, evq_pushed = 1,
     evq_dropped = 0, evq_popped = 0, evq_ready = False\<rparr>"

theorem event_queue_order_witness:
  "fst (pop_all event_queue_pop 2 (push_all event_queue_push [ex_event 30, ex_event 48] ex_evq))
     = [Some (ex_event 30), Some (ex_event 48)]"
proof -
  have w: "evq_wf ex_evq" "evq_contents ex_evq = []"
    by (simp_all add: evq_wf_def evq_contents_def ex_evq_def event_queue_init_def event_queue_count_def)
  then show ?thesis
    using event_queue_order [of ex_evq "[ex_event 30, ex_event 48]"] by (simp add: ex_event_def numeral_2_eq_2)
qed

text \<open>
  Operations on the queue, and the reference: a list of at most 255 events with three counters, for the events accepted,
  dropped and delivered.
\<close>

datatype event_op = Push nexus_event | Pop

fun event_step :: "event_op \<Rightarrow> event_queue \<Rightarrow> (bool \<times> nexus_event option) \<times> event_queue" where
  "event_step (Push e) q = (case event_queue_push e q of (r, q') \<Rightarrow> ((r, None), q'))"
| "event_step Pop q = (case event_queue_pop q of (x, q') \<Rightarrow> ((x \<noteq> None, x), q'))"

type_synonym event_ref = "nexus_event list \<times> nat \<times> nat \<times> nat"

fun ref_step :: "event_op \<Rightarrow> event_ref \<Rightarrow> (bool \<times> nexus_event option) \<times> event_ref" where
  "ref_step (Push e) (xs, a, d, g) =
     (if ev_type e = NEXUS_EVENT_NONE then ((False, None), xs, a, d, g)
      else if length xs < 255 then ((True, None), xs @ [e], a + 1, d, g)
      else ((False, None), xs, a, d + 1, g))"
| "ref_step Pop ([], a, d, g) = ((False, None), [], a, d, g)"
| "ref_step Pop (x # xs, a, d, g) = ((True, Some x), xs, a, d, g + 1)"

primrec run_ops :: "('o \<Rightarrow> 's \<Rightarrow> 'r \<times> 's) \<Rightarrow> 'o list \<Rightarrow> 's \<Rightarrow> 'r list \<times> 's" where
  "run_ops step [] s = ([], s)"
| "run_ops step (x # xs) s = (case step x s of (r, s') \<Rightarrow> case run_ops step xs s' of (rs, s'') \<Rightarrow> (r # rs, s''))"

fun evq_sim :: "event_queue \<Rightarrow> event_ref \<Rightarrow> bool" where
  "evq_sim q (xs, a, d, g) \<longleftrightarrow> evq_wf q \<and> evq_contents q = xs \<and> length xs \<le> 255 \<and>
     evq_pushed q = of_nat a \<and> evq_dropped q = of_nat d \<and> evq_popped q = of_nat g"

lemma event_step_sim:
  assumes "evq_sim q r"
  shows "fst (event_step x q) = fst (ref_step x r) \<and> evq_sim (snd (event_step x q)) (snd (ref_step x r))"
proof -
  obtain xs a d g where r: "r = (xs, a, d, g)" by (cases r)
  have q: "evq_wf q" "evq_contents q = xs" using assms by (simp_all add: r)
  note len = evq_length [OF q(1)]
  show ?thesis
  proof (cases x)
    case (Push e)
    consider "ev_type e = NEXUS_EVENT_NONE" | "ev_type e \<noteq> NEXUS_EVENT_NONE" "length xs < 255"
      | "ev_type e \<noteq> NEXUS_EVENT_NONE" "255 \<le> length xs" by linarith
    then show ?thesis
    proof cases
      case 1
      then show ?thesis using assms by (simp add: Push r event_queue_push_def)
    next
      case 2
      then show ?thesis using event_queue_push_spec [OF q(1), of e] len assms by (auto simp: Push r)
    next
      case 3
      then show ?thesis using event_queue_push_full [OF q(1), of e] len assms by (simp add: Push r)
    qed
  next
    case Pop
    show ?thesis
    proof (cases xs)
      case Nil
      then show ?thesis using evq.pop_empty [OF q(1)] assms by (simp add: Pop r)
    next
      case (Cons y ys)
      then show ?thesis using event_queue_pop_spec [OF q(1), of y ys] assms by (auto simp: Pop r)
    qed
  qed
qed

lemma run_ops_sim:
  assumes "evq_sim q r"
  shows "fst (run_ops event_step ops q) = fst (run_ops ref_step ops r) \<and>
    evq_sim (snd (run_ops event_step ops q)) (snd (run_ops ref_step ops r))"
  using assms
proof (induction ops arbitrary: q r)
  case (Cons x ops)
  from Cons.IH [OF conjunct2 [OF event_step_sim [OF Cons.prems, of x]]] event_step_sim [OF Cons.prems, of x]
  show ?case by (simp add: case_prod_beta)
qed simp

text \<open>
  C26. Every history of pushes and pops after \<open>event_queue_init\<close>, of any length and order, behaves like a list of at most 255
  events: each push is accepted exactly when the event has a type and fewer than 255 events wait, each pop delivers the
  oldest event that was accepted and not yet delivered, or nothing when there is none, \<open>event_queue_count\<close> is the number of events
  waiting, and the three counters are the numbers of events accepted, dropped for want of room and delivered (modulo the
  64-bit width).
\<close>

theorem event_queue_refines:
  assumes "length (evq_buf q) = NEXUS_EVENT_QUEUE_CAPACITY"
    and "run_ops event_step ops (event_queue_init q) = (rs, q')" and "run_ops ref_step ops ([], 0, 0, 0) = (rs', xs, a, d, g)"
  shows "rs = rs' \<and> event_queue_count q' = length xs \<and> length xs \<le> 255 \<and>
    evq_pushed q' = of_nat a \<and> evq_dropped q' = of_nat d \<and> evq_popped q' = of_nat g"
proof -
  have "evq_sim (event_queue_init q) ([], 0, 0, 0)"
    using assms(1) by (simp add: evq_wf_def evq_contents_def event_queue_init_def NEXUS_EVENT_QUEUE_CAPACITY_def)
  from run_ops_sim [OF this, of ops] show ?thesis using assms(2,3) evq_length by auto
qed

lemma run_ops_append:
  "run_ops step (xs @ ys) s = (case run_ops step xs s of (rs, s') \<Rightarrow> case run_ops step ys s' of (rs', s'') \<Rightarrow> (rs @ rs', s''))"
  by (induction xs arbitrary: s) (auto split: prod.split)

lemma ref_fill:
  assumes "ev_type e \<noteq> NEXUS_EVENT_NONE" "length xs + n \<le> 255"
  shows "run_ops ref_step (replicate n (Push e)) (xs, a, d, g) = (replicate n (True, None), xs @ replicate n e, a + n, d, g)"
  using assms(2)
proof (induction n arbitrary: xs a)
  case (Suc n)
  then show ?case using Suc.IH [of "xs @ [e]" "a + 1"] assms(1) by (simp add: replicate_append_same)
qed simp

text \<open>The queue filled with 255 events drops the next one, and takes one again after a pop.\<close>

theorem event_queue_refines_witness:
  "\<exists>q'. run_ops event_step (replicate 255 (Push (ex_event 1)) @ [Push (ex_event 2), Pop, Push (ex_event 3)]) ex_evq =
       (replicate 255 (True, None) @ [(False, None), (True, Some (ex_event 1)), (True, None)], q') \<and>
     event_queue_count q' = 255 \<and> evq_pushed q' = 256 \<and> evq_dropped q' = 1 \<and> evq_popped q' = 1"
proof -
  let ?ops = "replicate 255 (Push (ex_event 1)) @ [Push (ex_event 2), Pop, Push (ex_event 3)]"
  let ?q = "\<lparr>evq_buf = replicate 256 (ex_event 0), evq_head = 7, evq_tail = 9, evq_pushed = 1, evq_dropped = 0,
    evq_popped = 0, evq_ready = False\<rparr>"
  have ty: "ev_type (ex_event n) \<noteq> NEXUS_EVENT_NONE" for n by (simp add: ex_event_def)
  have c: "replicate 255 (ex_event 1) = ex_event 1 # replicate 254 (ex_event 1)" by (simp flip: replicate_Suc)
  have r: "run_ops ref_step ?ops ([], 0, 0, 0) = (replicate 255 (True, None) @ [(False, None), (True, Some (ex_event 1)), (True, None)],
      replicate 254 (ex_event 1) @ [ex_event 3], 256, 1, 1)"
    using ref_fill [OF ty, of "[]" 255 1 0 0 0] ty by (simp add: run_ops_append c)
  obtain rs q' where q: "run_ops event_step ?ops (event_queue_init ?q) = (rs, q')" by fastforce
  have "length (evq_buf ?q) = NEXUS_EVENT_QUEUE_CAPACITY" by (simp add: NEXUS_EVENT_QUEUE_CAPACITY_def)
  from event_queue_refines [OF this q r] show ?thesis using q unfolding ex_evq_def by simp
qed

section \<open>The watchdog notices a stalled kernel\<close>

lemma watchdog_ticks:
  assumes "wd_ready w" "unat (wd_tick w) + n < 2 ^ 64"
  defines "w' \<equiv> (nexus_watchdog_timer_tick ^^ n) w"
  shows "wd_ready w' \<and> unat (wd_tick w') = unat (wd_tick w) + n \<and> wd_last_heartbeat w' = wd_last_heartbeat w \<and>
    wd_timer_hz w' = wd_timer_hz w \<and>
    wd_trip_pending w' = (wd_trip_pending w \<or>
      (\<exists>t. unat (wd_tick w) < t \<and> t \<le> unat (wd_tick w) + n \<and> unat (wd_last_heartbeat w + timeout_ticks w) < t))"
  unfolding w'_def using assms(2)
proof (induction n)
  case 0
  then show ?case using assms(1) by auto
next
  case (Suc n)
  define u where "u = (nexus_watchdog_timer_tick ^^ n) w"
  have IH: "wd_ready u" "unat (wd_tick u) = unat (wd_tick w) + n" "wd_last_heartbeat u = wd_last_heartbeat w"
    "wd_timer_hz u = wd_timer_hz w"
    "wd_trip_pending u = (wd_trip_pending w \<or>
      (\<exists>t. unat (wd_tick w) < t \<and> t \<le> unat (wd_tick w) + n \<and> unat (wd_last_heartbeat w + timeout_ticks w) < t))"
    using Suc unfolding u_def by simp_all
  have t: "unat (wd_tick u + 1) = unat (wd_tick w) + n + 1"
    using Suc.prems IH(2) by (subst unat_add_u64) simp_all
  have to: "timeout_ticks (u\<lparr>wd_tick := x\<rparr>) = timeout_ticks w" for x
    using IH(4) by (simp add: timeout_ticks_def)
  have ex: "(\<exists>s. a < s \<and> s \<le> Suc b \<and> c < s) \<longleftrightarrow> (\<exists>s. a < s \<and> s \<le> b \<and> c < s) \<or> (a < Suc b \<and> c < Suc b)" for a b c :: nat
    by (auto simp: le_Suc_eq)
  show ?case
    unfolding funpow.simps comp_def u_def [symmetric]
    using IH t to by (simp add: nexus_watchdog_timer_tick_def Let_def word_less_nat_alt ex) blast
qed

text \<open>
  C27. Stall detection: after \<open>n\<close> timer ticks without a heartbeat the watchdog has tripped exactly when
  it had before or the timeout lies within these ticks; in particular it never trips earlier, and a
  kernel that stops for longer than the timeout is noticed.
\<close>

theorem watchdog_detects_stall:
  assumes "wd_ready w" and "\<not> wd_trip_pending w" and "unat (wd_tick w) + n < 2 ^ 64"
    and "unat (wd_tick w) + unat (timeout_ticks w) < 2 ^ 64"
  shows "wd_trip_pending ((nexus_watchdog_timer_tick ^^ n) (nexus_watchdog_heartbeat w)) \<longleftrightarrow> unat (timeout_ticks w) < n"
proof -
  let ?h = "nexus_watchdog_heartbeat w"
  have h: "wd_ready ?h" "wd_tick ?h = wd_tick w" "\<not> wd_trip_pending ?h" "wd_last_heartbeat ?h = wd_tick w"
    "timeout_ticks ?h = timeout_ticks w"
    using assms(1,2) by (simp_all add: nexus_watchdog_heartbeat_def timeout_ticks_def)
  have "unat (wd_tick w + timeout_ticks w) = unat (wd_tick w) + unat (timeout_ticks w)"
    using assms(4) by (subst unat_add_u64) simp_all
  then show ?thesis
    using watchdog_ticks [of ?h n] h assms(3)
    by (auto intro: exI [of _ "unat (wd_tick w) + n"])
qed

definition ex_watchdog :: watchdog where
  "ex_watchdog = nexus_watchdog_init 1 \<lparr>wd_tick = 5, wd_last_heartbeat = 0, wd_heartbeats = 0, wd_trips = 0,
     wd_timer_hz = 0, wd_ready = False, wd_trip_pending = False\<rparr>"

theorem watchdog_detects_stall_witness:
  "wd_trip_pending ((nexus_watchdog_timer_tick ^^ 4) (nexus_watchdog_heartbeat ex_watchdog)) \<and>
   \<not> wd_trip_pending ((nexus_watchdog_timer_tick ^^ 3) (nexus_watchdog_heartbeat ex_watchdog))"
proof -
  have t: "timeout_ticks ex_watchdog = 3" by code_simp
  have w: "wd_ready ex_watchdog" "\<not> wd_trip_pending ex_watchdog" "wd_tick ex_watchdog = 0"
    by (simp_all add: ex_watchdog_def nexus_watchdog_init_def)
  show ?thesis
    using watchdog_detects_stall [of ex_watchdog 4] watchdog_detects_stall [of ex_watchdog 3] w t by simp
qed

end
