(* ===== verification/Process.thy ===== *)
theory Process
  imports Heap
begin

text \<open>
  The process table (\<open>kernel/core/process/process.c\<close>, \<open>capability.c\<close>, \<open>usermode.c\<close>): creation, the
  current process, user memory, the descriptor table, environment and capabilities.  A process pointer
  is the index of its slot.  A nullable pointer is an option; a character array is its content up to the
  terminating zero.  The critical sections run with interrupts disabled on the only processor, so each
  operation is one step on the state \<open>kern\<close>, which also holds the heap below and the channels of
  \<open>ipc.c\<close>, since termination closes them.
\<close>

section \<open>Capabilities\<close>

definition NEXUS_CAP_RUNTIME :: u64 where "NEXUS_CAP_RUNTIME = 0x1"
definition NEXUS_CAP_IPC :: u64 where "NEXUS_CAP_IPC = 0x2"
definition NEXUS_CAP_FILESYSTEM_READ :: u64 where "NEXUS_CAP_FILESYSTEM_READ = 0x4"
definition NEXUS_CAP_FILESYSTEM_WRITE :: u64 where "NEXUS_CAP_FILESYSTEM_WRITE = 0x8"
definition NEXUS_CAP_PROCESS_SPAWN :: u64 where "NEXUS_CAP_PROCESS_SPAWN = 0x10"
definition NEXUS_CAP_PROCESS_CONTROL :: u64 where "NEXUS_CAP_PROCESS_CONTROL = 0x20"
definition NEXUS_CAP_MEMORY :: u64 where "NEXUS_CAP_MEMORY = 0x40"
definition NEXUS_CAP_SYSTEM_INFO :: u64 where "NEXUS_CAP_SYSTEM_INFO = 0x80"
definition NEXUS_CAP_DEVICE :: u64 where "NEXUS_CAP_DEVICE = 0x100"
definition NEXUS_CAP_NETWORK :: u64 where "NEXUS_CAP_NETWORK = 0x200"
definition NEXUS_CAP_ADMIN :: u64 where "NEXUS_CAP_ADMIN = 0x400"

definition NEXUS_CAP_DEFAULT_USER :: u64 where
  "NEXUS_CAP_DEFAULT_USER = NEXUS_CAP_RUNTIME OR NEXUS_CAP_IPC OR NEXUS_CAP_FILESYSTEM_READ OR
     NEXUS_CAP_FILESYSTEM_WRITE OR NEXUS_CAP_PROCESS_SPAWN OR NEXUS_CAP_PROCESS_CONTROL OR
     NEXUS_CAP_MEMORY OR NEXUS_CAP_SYSTEM_INFO"

definition NEXUS_CAP_ALL :: u64 where
  "NEXUS_CAP_ALL = NEXUS_CAP_DEFAULT_USER OR NEXUS_CAP_DEVICE OR NEXUS_CAP_NETWORK OR NEXUS_CAP_ADMIN"

definition nexus_capability_valid :: "u64 \<Rightarrow> bool" where
  "nexus_capability_valid c = (if c = 0 \<or> c AND (c - 1) \<noteq> 0 then False else c AND NEXUS_CAP_ALL \<noteq> 0)"

definition nexus_capability_name :: "u64 \<Rightarrow> string" where
  "nexus_capability_name c =
     (if c = NEXUS_CAP_RUNTIME then ''runtime''
      else if c = NEXUS_CAP_IPC then ''ipc''
      else if c = NEXUS_CAP_FILESYSTEM_READ then ''filesystem.read''
      else if c = NEXUS_CAP_FILESYSTEM_WRITE then ''filesystem.write''
      else if c = NEXUS_CAP_PROCESS_SPAWN then ''process.spawn''
      else if c = NEXUS_CAP_PROCESS_CONTROL then ''process.control''
      else if c = NEXUS_CAP_MEMORY then ''memory''
      else if c = NEXUS_CAP_SYSTEM_INFO then ''system.info''
      else if c = NEXUS_CAP_DEVICE then ''device''
      else if c = NEXUS_CAP_NETWORK then ''network''
      else if c = NEXUS_CAP_ADMIN then ''admin''
      else ''unknown'')"

section \<open>State\<close>

definition PROCESS_MAX_COUNT :: nat where "PROCESS_MAX_COUNT = 8"
definition PROCESS_USER_BASE :: u64 where "PROCESS_USER_BASE = 0x400000"
definition PROCESS_USER_LIMIT :: u64 where "PROCESS_USER_LIMIT = 0x00007FFFFFFFF000"
definition PROCESS_FLAG_USER_CONTEXT :: u32 where "PROCESS_FLAG_USER_CONTEXT = 1"
definition PROCESS_FLAG_USER_MEMORY :: u32 where "PROCESS_FLAG_USER_MEMORY = 2"
definition PROCESS_FLAG_SCHEDULER_OWNED :: u32 where "PROCESS_FLAG_SCHEDULER_OWNED = 4"
definition PROCESS_USER_MAX_PAGES :: nat where "PROCESS_USER_MAX_PAGES = 16"
definition PROCESS_MAX_FDS :: nat where "PROCESS_MAX_FDS = 16"
definition PROCESS_NAME_LEN :: nat where "PROCESS_NAME_LEN = 32"
definition PROCESS_CWD_LEN :: nat where "PROCESS_CWD_LEN = 128"
definition PROCESS_ENV_COUNT :: nat where "PROCESS_ENV_COUNT = 8"
definition PROCESS_ENV_KEY_LEN :: nat where "PROCESS_ENV_KEY_LEN = 24"
definition PROCESS_ENV_VALUE_LEN :: nat where "PROCESS_ENV_VALUE_LEN = 64"
definition PROCESS_MAX_CHANNELS :: nat where "PROCESS_MAX_CHANNELS = 8"
definition VMM_PAGE_USER :: u64 where "VMM_PAGE_USER = 4"
definition VMM_PAGE_NX :: u64 where "VMM_PAGE_NX = 0x8000000000000000"

datatype process_fd_type = PROCESS_FD_UNUSED | PROCESS_FD_STDIN_CONSOLE | PROCESS_FD_STDOUT_CONSOLE
  | PROCESS_FD_STDERR_CONSOLE | PROCESS_FD_VFS_FILE | PROCESS_FD_VFS_DIR

record process_fd =
  fd_type :: process_fd_type
  fd_flags :: u32
  fd_object :: u64
  fd_offset :: u64
  fd_path :: string

datatype process_state = PROCESS_UNUSED | PROCESS_READY | PROCESS_RUNNING | PROCESS_ZOMBIE

record nexus_process =
  p_pid :: u64
  p_parent_pid :: u64
  p_cr3 :: u64
  p_capabilities :: u64
  p_start_tick :: u64
  p_cpu_ticks :: u64
  p_heap_base :: u64
  p_heap_end :: u64
  p_memory_limit :: u64
  p_priority :: u32
  p_env_count :: nat
  p_name :: string
  p_cwd :: string
  p_env :: "(string \<times> string) list"
  p_user_entry :: u64
  p_stack_base :: u64
  p_stack_size :: u64
  p_pages_reserved :: u64
  p_page_base :: u64
  p_page_count :: nat
  p_page_phys :: "u64 list"
  p_page_va :: "u64 list"
  p_page_flags :: "u64 list"
  p_kernel_stack :: u64
  p_thread_id :: u64
  p_fds :: "process_fd list"
  p_ipc_handles :: "u32 list"
  p_exit_code :: u64
  p_exit_reason :: u32
  p_state :: process_state
  p_flags :: u32

record ipc_channel =
  ch_active :: bool
  ch_closed :: "bool list"
  ch_pid :: "u64 list"
  ch_head :: "nat list"
  ch_count :: "nat list"
  ch_queue :: "u8 list list list"

record kern =
  kheap :: heap
  g_processes :: "nexus_process list"
  g_next_pid :: u64
  g_current_pid :: u64
  g_process_count :: u64
  g_zombie_count :: u64
  proc_ready :: bool
  g_channels :: "ipc_channel list"
  ipc_ready :: bool

abbreviation kmm :: "kern \<Rightarrow> mm" where
  "kmm k \<equiv> hmm (kheap k)"

definition set_mm :: "mm \<Rightarrow> kern \<Rightarrow> kern" where
  "set_mm m k = k\<lparr>kheap := (kheap k)\<lparr>hmm := m\<rparr>\<rparr>"

definition upd_proc :: "nat \<Rightarrow> (nexus_process \<Rightarrow> nexus_process) \<Rightarrow> kern \<Rightarrow> kern" where
  "upd_proc i f k = k\<lparr>g_processes := (g_processes k)[i := f (g_processes k ! i)]\<rparr>"

section \<open>Lookup and life cycle\<close>

definition aligned_range :: "u64 \<Rightarrow> u64 \<Rightarrow> bool" where
  "aligned_range base n =
     (if n = 0 \<or> base AND (PAGE_SIZE - 1) \<noteq> 0 \<or> n AND (PAGE_SIZE - 1) \<noteq> 0 then False
      else if base < PROCESS_USER_BASE \<or> base \<ge> PROCESS_USER_LIMIT then False
      else if n > PROCESS_USER_LIMIT - base then False
      else True)"

definition process_init :: "kern \<Rightarrow> kern" where
  "process_init k = k\<lparr>g_processes := map (\<lambda>p. p\<lparr>p_state := PROCESS_UNUSED\<rparr>) (g_processes k),
     g_next_pid := 1, g_current_pid := 0, g_process_count := 0, g_zombie_count := 0, proc_ready := True\<rparr>"

definition process_get :: "u64 \<Rightarrow> kern \<Rightarrow> nat option" where
  "process_get pid k =
     (if \<not> proc_ready k \<or> pid = 0 then None
      else find (\<lambda>i. p_state (g_processes k ! i) \<noteq> PROCESS_UNUSED \<and> p_pid (g_processes k ! i) = pid)
             [0..<PROCESS_MAX_COUNT])"

abbreviation proc_at :: "kern \<Rightarrow> nat \<Rightarrow> nexus_process" where
  "proc_at k i \<equiv> g_processes k ! i"

definition unused_fd :: "process_fd \<Rightarrow> process_fd" where
  "unused_fd f = f\<lparr>fd_type := PROCESS_FD_UNUSED, fd_flags := 0, fd_object := 0, fd_offset := 0, fd_path := []\<rparr>"

definition standard_fds :: "process_fd list \<Rightarrow> process_fd list" where
  "standard_fds fds = (map unused_fd fds)
     [0 := (unused_fd (fds ! 0))\<lparr>fd_type := PROCESS_FD_STDIN_CONSOLE\<rparr>,
      1 := (unused_fd (fds ! 1))\<lparr>fd_type := PROCESS_FD_STDOUT_CONSOLE\<rparr>,
      2 := (unused_fd (fds ! 2))\<lparr>fd_type := PROCESS_FD_STDERR_CONSOLE\<rparr>]"

text \<open>The assignments of \<open>process_create\<close> before and after the address space is built.\<close>

definition process_identity :: "u64 \<Rightarrow> u64 \<Rightarrow> u64 \<Rightarrow> u64 \<Rightarrow> nexus_process \<Rightarrow> nexus_process" where
  "process_identity pid parent_pid caps ticks p = p\<lparr>p_pid := pid, p_parent_pid := parent_pid,
     p_capabilities := caps, p_start_tick := ticks, p_cpu_ticks := 0, p_heap_base := 0x10000000,
     p_heap_end := 0x10000000, p_memory_limit := 0, p_priority := 16, p_env_count := 0,
     p_name := [], p_cwd := ''/''\<rparr>"

definition process_fresh :: "nexus_process \<Rightarrow> nexus_process" where
  "process_fresh p = p\<lparr>p_user_entry := 0, p_stack_base := 0, p_stack_size := 0, p_pages_reserved := 0,
     p_page_base := 0, p_page_count := 0, p_page_phys := replicate PROCESS_USER_MAX_PAGES 0,
     p_page_va := replicate PROCESS_USER_MAX_PAGES 0, p_page_flags := replicate PROCESS_USER_MAX_PAGES 0,
     p_kernel_stack := 0, p_thread_id := 0, p_ipc_handles := replicate PROCESS_MAX_CHANNELS 0,
     p_fds := standard_fds (p_fds p), p_exit_code := 0, p_exit_reason := 0, p_flags := 0,
     p_state := PROCESS_READY\<rparr>"

definition process_create :: "u64 \<Rightarrow> u64 \<Rightarrow> kern \<Rightarrow> u64 \<times> kern" where
  "process_create ticks parent_pid k =
     (if \<not> proc_ready k then (0, k)
      else case find (\<lambda>i. p_state (proc_at k i) = PROCESS_UNUSED) [0..<PROCESS_MAX_COUNT] of
             None \<Rightarrow> (0, k)
           | Some i \<Rightarrow>
               let (pid, nxt) = (if g_next_pid k = 0 then (g_next_pid k + 1, g_next_pid k + 2)
                                 else (g_next_pid k, g_next_pid k + 1));
                   k1 = k\<lparr>g_next_pid := nxt\<rparr>;
                   caps = (case process_get parent_pid k1 of
                             Some j \<Rightarrow> p_capabilities (proc_at k1 j)
                           | None \<Rightarrow> NEXUS_CAP_ALL);
                   k2 = upd_proc i (process_identity pid parent_pid caps ticks) k1;
                   (cr3, m) = paging_create_address_space (kmm k2);
                   k3 = upd_proc i (\<lambda>p. p\<lparr>p_cr3 := cr3\<rparr>) (set_mm m k2)
               in if cr3 = 0 then (0, upd_proc i (\<lambda>p. p\<lparr>p_state := PROCESS_UNUSED\<rparr>) k3)
                  else (pid, (upd_proc i process_fresh k3)\<lparr>g_process_count := g_process_count k3 + 1\<rparr>))"

definition process_set_current :: "u64 \<Rightarrow> kern \<Rightarrow> bool \<times> kern" where
  "process_set_current pid k =
     (case process_get pid k of
        None \<Rightarrow> (False, k)
      | Some i \<Rightarrow>
          if p_state (proc_at k i) \<noteq> PROCESS_READY \<and> p_state (proc_at k i) \<noteq> PROCESS_RUNNING then (False, k)
          else
            let k1 = (case process_get (g_current_pid k) k of
                        None \<Rightarrow> k
                      | Some j \<Rightarrow>
                          if j \<noteq> i \<and> p_state (proc_at k j) = PROCESS_RUNNING
                          then upd_proc j (\<lambda>p. p\<lparr>p_state := PROCESS_READY\<rparr>) k else k)
            in (True, (upd_proc i (\<lambda>p. p\<lparr>p_state := PROCESS_RUNNING\<rparr>) k1)\<lparr>g_current_pid := pid\<rparr>))"

definition process_current :: "kern \<Rightarrow> nat option" where
  "process_current k = process_get (g_current_pid k) k"

definition process_clear_current :: "kern \<Rightarrow> kern" where
  "process_clear_current k =
     (let k1 = (case process_get (g_current_pid k) k of
                  None \<Rightarrow> k
                | Some j \<Rightarrow> if p_state (proc_at k j) = PROCESS_RUNNING
                            then upd_proc j (\<lambda>p. p\<lparr>p_state := PROCESS_READY\<rparr>) k else k)
      in k1\<lparr>g_current_pid := 0\<rparr>)"

section \<open>User memory\<close>

definition process_reserve_user_range :: "u64 \<Rightarrow> u64 \<Rightarrow> u64 \<Rightarrow> kern \<Rightarrow> bool \<times> kern" where
  "process_reserve_user_range pid base n k =
     (if \<not> aligned_range base n then (False, k)
      else case process_get pid k of
             None \<Rightarrow> (False, k)
           | Some i \<Rightarrow>
               if p_state (proc_at k i) = PROCESS_ZOMBIE \<or> p_pages_reserved (proc_at k i) \<noteq> 0 then (False, k)
               else (True, upd_proc i (\<lambda>p. p\<lparr>p_stack_base := base, p_stack_size := n,
                             p_pages_reserved := n div PAGE_SIZE\<rparr>) k))"

definition process_map_user_page :: "u64 \<Rightarrow> u64 \<Rightarrow> u64 \<Rightarrow> kern \<Rightarrow> bool \<times> kern" where
  "process_map_user_page pid va flags k =
     (if \<not> proc_ready k \<or> va AND (PAGE_SIZE - 1) \<noteq> 0 \<or> va < PROCESS_USER_BASE \<or> va \<ge> PROCESS_USER_LIMIT
      then (False, k)
      else case process_get pid k of
             None \<Rightarrow> (False, k)
           | Some i \<Rightarrow>
               let p = proc_at k i
               in if p_state p = PROCESS_ZOMBIE \<or> p_page_count p \<ge> PROCESS_USER_MAX_PAGES then (False, k)
                  else if \<exists>j \<in> set [0..<p_page_count p]. p_page_va p ! j = va then (False, k)
                  else
                    let (frame, q) = pmm_alloc_page (pm (kmm k));
                        k1 = set_mm ((kmm k)\<lparr>pm := q\<rparr>) k
                    in if frame = 0 then (False, k1)
                       else
                         let (r, m) = paging_map_page_in_cr3 (p_cr3 p) va frame
                               (VMM_PAGE_PRESENT OR VMM_PAGE_USER OR flags) (kmm k1);
                             k2 = set_mm m k1
                         in if r = 0
                            then (False, set_mm ((kmm k2)\<lparr>pm := pmm_free_page frame (pm (kmm k2))\<rparr>) k2)
                            else
                              let k3 = set_mm ((kmm k2)\<lparr>phys := zero_bytes (phys (kmm k2)) frame PAGE_SIZE\<rparr>) k2;
                                  slot = p_page_count p
                              in (True, upd_proc i (\<lambda>p. p\<lparr>p_page_count := slot + 1,
                                    p_page_va := (p_page_va p)[slot := va],
                                    p_page_phys := (p_page_phys p)[slot := frame],
                                    p_page_flags := (p_page_flags p)[slot := flags],
                                    p_flags := p_flags p OR PROCESS_FLAG_USER_MEMORY\<rparr>) k3))"

definition unmap_slot :: "nat \<Rightarrow> nat \<Rightarrow> kern \<Rightarrow> kern" where
  "unmap_slot i j k =
     (let p = proc_at k i; va = p_page_va p ! j; frame = p_page_phys p ! j;
          k1 = (if p_cr3 p \<noteq> 0 \<and> va \<noteq> 0 then set_mm (snd (paging_unmap_page_in_cr3 (p_cr3 p) va (kmm k))) k else k);
          k2 = (if frame \<noteq> 0 then set_mm ((kmm k1)\<lparr>pm := pmm_free_page frame (pm (kmm k1))\<rparr>) k1 else k1)
      in upd_proc i (\<lambda>p. p\<lparr>p_page_va := (p_page_va p)[j := 0], p_page_phys := (p_page_phys p)[j := 0],
           p_page_flags := (p_page_flags p)[j := 0]\<rparr>) k2)"

definition process_unmap_user_memory :: "u64 \<Rightarrow> kern \<Rightarrow> bool \<times> kern" where
  "process_unmap_user_memory pid k =
     (case process_get pid k of
        None \<Rightarrow> (False, k)
      | Some i \<Rightarrow>
          (True, upd_proc i (\<lambda>p. p\<lparr>p_page_base := 0, p_page_count := 0, p_pages_reserved := 0,
                   p_flags := p_flags p AND NOT PROCESS_FLAG_USER_MEMORY\<rparr>)
                   (fold (unmap_slot i) [0..<p_page_count (proc_at k i)] k)))"

fun map_user_pages :: "u64 \<Rightarrow> u64 \<Rightarrow> u64 \<Rightarrow> nat list \<Rightarrow> kern \<Rightarrow> nat option \<times> kern" where
  "map_user_pages pid base flags [] k = (None, k)"
| "map_user_pages pid base flags (j # js) k =
     (case process_map_user_page pid (base + of_nat j * PAGE_SIZE) flags k of
        (True, k1) \<Rightarrow> map_user_pages pid base flags js k1
      | (False, k1) \<Rightarrow> (Some j, k1))"

definition process_map_user_memory :: "u64 \<Rightarrow> u64 \<Rightarrow> u64 \<Rightarrow> kern \<Rightarrow> bool \<times> kern" where
  "process_map_user_memory pid base pages k =
     (if pages = 0 \<or> pages > of_nat PROCESS_USER_MAX_PAGES \<or>
         pages > (PROCESS_USER_LIMIT - base) div PAGE_SIZE \<or> base AND (PAGE_SIZE - 1) \<noteq> 0
      then (False, k)
      else case process_get pid k of
             None \<Rightarrow> (False, k)
           | Some i \<Rightarrow>
               if p_state (proc_at k i) = PROCESS_ZOMBIE \<or> p_page_count (proc_at k i) \<noteq> 0 then (False, k)
               else case map_user_pages pid base VMM_PAGE_WRITABLE [0..<unat pages] k of
                      (Some _, k1) \<Rightarrow> (False, snd (process_unmap_user_memory pid k1))
                    | (None, k1) \<Rightarrow> (True, upd_proc i (\<lambda>p. p\<lparr>p_page_base := base, p_pages_reserved := pages\<rparr>) k1))"

section \<open>Access to user memory\<close>

text \<open>
  The loops over a user range advance page by page: \<open>user_chunks\<close> is their sequence of addresses, offsets
  and lengths.
\<close>

lemma page_rest:
  assumes "(off::u64) < n" and "c = (if PAGE_SIZE - (va AND (PAGE_SIZE - 1)) > n - off then n - off
    else PAGE_SIZE - (va AND (PAGE_SIZE - 1)))"
  shows "0 < unat c" "unat off + unat c \<le> unat n" "unat (off + c) = unat off + unat c"
proof -
  have "unat (va AND (PAGE_SIZE - 1)) < 4096"
    using unat_and_mask [of va 12] by (simp add: PAGE_SIZE_def mask_literals)
  then have r: "0 < unat (PAGE_SIZE - (va AND (PAGE_SIZE - 1)))"
    by (subst unat_sub) (simp_all add: PAGE_SIZE_def word_le_nat_alt)
  have d: "unat (n - off) = unat n - unat off" "unat off < unat n"
    using unat_sub [of off n] assms(1) by (simp_all add: word_less_nat_alt order.strict_implies_order)
  show p: "0 < unat c" using r d assms(2) by (auto split: if_splits)
  have "c \<le> n - off" using assms(2) by (auto split: if_splits)
  then show l: "unat off + unat c \<le> unat n" using d by (simp add: word_le_nat_alt)
  show "unat (off + c) = unat off + unat c"
    using l unat_u64_bound [of n] by (intro unat_add_u64) linarith
qed

function user_chunks :: "u64 \<Rightarrow> u64 \<Rightarrow> u64 \<Rightarrow> (u64 \<times> u64 \<times> u64) list" where
  "user_chunks base n off =
     (if off < n then
        let va = base + off;
            c0 = PAGE_SIZE - (va AND (PAGE_SIZE - 1));
            c = (if c0 > n - off then n - off else c0)
        in (va, off, c) # user_chunks base n (off + c)
      else [])"
  by pat_completeness auto
termination
proof (relation "measure (\<lambda>(base, n, off). unat n - unat off)")
  fix base n off va c0 c :: u64
  assume a: "off < n" "va = base + off" "c0 = PAGE_SIZE - (va AND (PAGE_SIZE - 1))" "c = (if n - off < c0 then n - off else c0)"
  show "((base, n, off + c), base, n, off) \<in> measure (\<lambda>(base, n, off). unat n - unat off)"
  proof -
    have "c = (if PAGE_SIZE - (va AND (PAGE_SIZE - 1)) > n - off then n - off else PAGE_SIZE - (va AND (PAGE_SIZE - 1)))"
      using a(3,4) by simp
    from page_rest [OF a(1) this] show ?thesis by simp
  qed
qed simp

declare user_chunks.simps [simp del]

definition put_bytes :: "memory \<Rightarrow> u64 \<Rightarrow> u8 list \<Rightarrow> memory" where
  "put_bytes m a bs = fold (\<lambda>i m. m(a + of_nat i := bs ! i)) [0..<length bs] m"

definition get_bytes :: "memory \<Rightarrow> u64 \<Rightarrow> nat \<Rightarrow> u8 list" where
  "get_bytes m a n = map (\<lambda>i. m (a + of_nat i)) [0..<n]"

definition user_target :: "u64 \<Rightarrow> u64 \<Rightarrow> u64" where
  "user_target frame va = (frame AND NOT (PAGE_SIZE - 1)) + (va AND (PAGE_SIZE - 1))"

fun copy_chunks :: "u64 \<Rightarrow> (nat \<Rightarrow> u8) \<Rightarrow> (u64 \<times> u64 \<times> u64) list \<Rightarrow> mm \<Rightarrow> bool \<times> mm" where
  "copy_chunks root src [] m = (True, m)"
| "copy_chunks root src ((va, off, c) # cs) m =
     (let frame = paging_virt_to_phys_in_cr3 root va m
      in if frame = 0 then (False, m)
         else copy_chunks root src cs
                (m\<lparr>phys := put_bytes (phys m) (user_target frame va) (map (\<lambda>i. src (unat off + i)) [0..<unat c])\<rparr>))"

fun read_chunks :: "u64 \<Rightarrow> (u64 \<times> u64 \<times> u64) list \<Rightarrow> mm \<Rightarrow> bool \<times> u8 list" where
  "read_chunks root [] m = (True, [])"
| "read_chunks root ((va, off, c) # cs) m =
     (let frame = paging_virt_to_phys_in_cr3 root va m
      in if frame = 0 then (False, [])
         else case read_chunks root cs m of
                (ok, out) \<Rightarrow> (ok, get_bytes (phys m) (user_target frame va) (unat c) @ out))"

definition slot_of_page :: "nexus_process \<Rightarrow> u64 \<Rightarrow> nat option" where
  "slot_of_page p page = find (\<lambda>j. p_page_va p ! j = page) [0..<p_page_count p]"

definition page_allows :: "nexus_process \<Rightarrow> u64 \<Rightarrow> u64 \<Rightarrow> bool" where
  "page_allows p required va =
     (case slot_of_page p (va AND NOT (PAGE_SIZE - 1)) of
        None \<Rightarrow> False
      | Some j \<Rightarrow>
          let fl = p_page_flags p ! j
          in if required AND VMM_PAGE_WRITABLE \<noteq> 0 \<and> fl AND VMM_PAGE_WRITABLE = 0 then False
             else if required AND VMM_PAGE_NX \<noteq> 0 \<and> fl AND VMM_PAGE_NX = 0 then False
             else if required AND VMM_PAGE_NX = 0 \<and> fl AND VMM_PAGE_NX \<noteq> 0 then False
             else True)"

definition user_bounds :: "u64 \<Rightarrow> u64 \<Rightarrow> bool" where
  "user_bounds va n \<longleftrightarrow> \<not> (n = 0 \<or> va < PROCESS_USER_BASE \<or> n > PROCESS_USER_LIMIT - va)"

definition process_user_range_valid :: "u64 \<Rightarrow> u64 \<Rightarrow> u64 \<Rightarrow> u64 \<Rightarrow> kern \<Rightarrow> bool" where
  "process_user_range_valid pid va n required k =
     (case process_get pid k of
        None \<Rightarrow> False
      | Some i \<Rightarrow>
          if p_state (proc_at k i) = PROCESS_ZOMBIE \<or> \<not> user_bounds va n then False
          else list_all (\<lambda>(a, off, c). page_allows (proc_at k i) required a) (user_chunks va n 0))"

definition process_user_copy :: "u64 \<Rightarrow> u64 \<Rightarrow> (nat \<Rightarrow> u8) option \<Rightarrow> u64 \<Rightarrow> kern \<Rightarrow> bool \<times> kern" where
  "process_user_copy pid va src n k =
     (case (process_get pid k, src) of
        (Some i, Some inp) \<Rightarrow>
          if \<not> user_bounds va n then (False, k)
          else case copy_chunks (p_cr3 (proc_at k i)) inp (user_chunks va n 0) (kmm k) of
                 (ok, m) \<Rightarrow> (ok, set_mm m k)
      | _ \<Rightarrow> (False, k))"

definition process_user_read :: "u64 \<Rightarrow> u64 \<Rightarrow> u64 \<Rightarrow> kern \<Rightarrow> bool \<times> u8 list" where
  "process_user_read pid va n k =
     (case process_get pid k of
        None \<Rightarrow> (False, [])
      | Some i \<Rightarrow>
          if p_state (proc_at k i) = PROCESS_ZOMBIE \<or> \<not> user_bounds va n \<or>
             \<not> process_user_range_valid pid va n 0 k then (False, [])
          else read_chunks (p_cr3 (proc_at k i)) (user_chunks va n 0) (kmm k))"

definition process_user_write :: "u64 \<Rightarrow> u64 \<Rightarrow> (nat \<Rightarrow> u8) option \<Rightarrow> u64 \<Rightarrow> kern \<Rightarrow> bool \<times> kern" where
  "process_user_write pid va src n k =
     (case (process_get pid k, src) of
        (Some i, Some inp) \<Rightarrow>
          if p_state (proc_at k i) = PROCESS_ZOMBIE \<or> \<not> user_bounds va n \<or>
             \<not> process_user_range_valid pid va n VMM_PAGE_WRITABLE k then (False, k)
          else case copy_chunks (p_cr3 (proc_at k i)) inp (user_chunks va n 0) (kmm k) of
                 (ok, m) \<Rightarrow> (ok, set_mm m k)
      | _ \<Rightarrow> (False, k))"

definition process_user_zero :: "u64 \<Rightarrow> u64 \<Rightarrow> u64 \<Rightarrow> kern \<Rightarrow> bool \<times> kern" where
  "process_user_zero pid va n k =
     (case process_get pid k of
        None \<Rightarrow> (False, k)
      | Some i \<Rightarrow>
          if \<not> user_bounds va n then (False, k)
          else case copy_chunks (p_cr3 (proc_at k i)) (\<lambda>_. 0) (user_chunks va n 0) (kmm k) of
                 (ok, m) \<Rightarrow> (ok, set_mm m k))"

text \<open>
  The loop of \<open>process_unmap_user_range\<close>: a page in the range is released and the last slot moved into
  its place, otherwise the index advances; each round brings \<open>i\<close> and the count one closer.
\<close>

primrec unmap_range_loop :: "nat \<Rightarrow> nat \<Rightarrow> u64 \<Rightarrow> u64 \<Rightarrow> nat \<Rightarrow> kern \<Rightarrow> kern" where
  "unmap_range_loop 0 i base e j k = k"
| "unmap_range_loop (Suc n) i base e j k =
     (let p = proc_at k i
      in if j \<ge> p_page_count p then k
         else
           let va = p_page_va p ! j; frame = p_page_phys p ! j
           in if va \<ge> base \<and> va < e then
                let k1 = (if p_cr3 p \<noteq> 0 then set_mm (snd (paging_unmap_page_in_cr3 (p_cr3 p) va (kmm k))) k else k);
                    k2 = (if frame \<noteq> 0 then set_mm ((kmm k1)\<lparr>pm := pmm_free_page frame (pm (kmm k1))\<rparr>) k1 else k1);
                    l = p_page_count p - 1
                in unmap_range_loop n i base e j
                     (upd_proc i (\<lambda>p. p\<lparr>p_page_va := (p_page_va p)[j := p_page_va p ! l],
                        p_page_phys := (p_page_phys p)[j := p_page_phys p ! l],
                        p_page_flags := (p_page_flags p)[j := p_page_flags p ! l], p_page_count := l\<rparr>) k2)
              else unmap_range_loop n i base e (j + 1) k)"

definition process_unmap_user_range :: "u64 \<Rightarrow> u64 \<Rightarrow> u64 \<Rightarrow> kern \<Rightarrow> bool \<times> kern" where
  "process_unmap_user_range pid base n k =
     (case process_get pid k of
        None \<Rightarrow> (False, k)
      | Some i \<Rightarrow>
          if n = 0 \<or> base AND (PAGE_SIZE - 1) \<noteq> 0 \<or> n AND (PAGE_SIZE - 1) \<noteq> 0 then (False, k)
          else if base + n < base then (False, k)
          else (True, unmap_range_loop (p_page_count (proc_at k i)) i base (base + n) 0 k))"

definition process_alloc_user_range :: "u64 \<Rightarrow> u64 \<Rightarrow> u64 \<Rightarrow> kern \<Rightarrow> u64 \<times> kern" where
  "process_alloc_user_range pid pages flags k =
     (case process_get pid k of
        None \<Rightarrow> (0, k)
      | Some i \<Rightarrow>
          let p = proc_at k i
          in if p_state p = PROCESS_ZOMBIE \<or> pages = 0 then (0, k)
             else if of_nat (p_page_count p) + pages > of_nat PROCESS_USER_MAX_PAGES then (0, k)
             else
               let base = (if p_heap_end p < PROCESS_USER_BASE \<or> p_heap_end p \<ge> PROCESS_USER_LIMIT
                           then 0x10000000 else p_heap_end p);
                   bytes = pages * PAGE_SIZE
               in if bytes div pages \<noteq> PAGE_SIZE \<or> base > PROCESS_USER_LIMIT - bytes then (0, k)
                  else case map_user_pages pid base flags [0..<unat pages] k of
                         (Some j, k1) \<Rightarrow> (0, snd (process_unmap_user_range pid base (of_nat j * PAGE_SIZE) k1))
                       | (None, k1) \<Rightarrow> (base, upd_proc i (\<lambda>p. p\<lparr>p_heap_end := base + bytes\<rparr>) k1))"

section \<open>Descriptors, names, environment, accounting\<close>

definition process_fd_is_valid :: "u64 \<Rightarrow> u64 \<Rightarrow> kern \<Rightarrow> bool" where
  "process_fd_is_valid pid fd k =
     (case process_get pid k of
        None \<Rightarrow> False
      | Some i \<Rightarrow>
          if p_state (proc_at k i) = PROCESS_ZOMBIE \<or> fd \<ge> of_nat PROCESS_MAX_FDS then False
          else fd_type (p_fds (proc_at k i) ! unat fd) \<noteq> PROCESS_FD_UNUSED)"

definition process_fd_is_writable :: "u64 \<Rightarrow> u64 \<Rightarrow> kern \<Rightarrow> bool" where
  "process_fd_is_writable pid fd k =
     (case process_get pid k of
        None \<Rightarrow> False
      | Some i \<Rightarrow>
          if p_state (proc_at k i) = PROCESS_ZOMBIE \<or> fd \<ge> of_nat PROCESS_MAX_FDS then False
          else fd_type (p_fds (proc_at k i) ! unat fd) = PROCESS_FD_STDOUT_CONSOLE \<or>
               fd_type (p_fds (proc_at k i) ! unat fd) = PROCESS_FD_STDERR_CONSOLE)"

definition upd_fd :: "nat \<Rightarrow> nat \<Rightarrow> (process_fd \<Rightarrow> process_fd) \<Rightarrow> kern \<Rightarrow> kern" where
  "upd_fd i fd f k = upd_proc i (\<lambda>p. p\<lparr>p_fds := (p_fds p)[fd := f (p_fds p ! fd)]\<rparr>) k"

definition process_fd_close :: "u64 \<Rightarrow> u64 \<Rightarrow> kern \<Rightarrow> bool \<times> kern" where
  "process_fd_close pid fd k =
     (case process_get pid k of
        None \<Rightarrow> (False, k)
      | Some i \<Rightarrow>
          if p_state (proc_at k i) = PROCESS_ZOMBIE \<or> fd \<ge> of_nat PROCESS_MAX_FDS \<or>
             fd_type (p_fds (proc_at k i) ! unat fd) = PROCESS_FD_UNUSED then (False, k)
          else (True, upd_fd i (unat fd) unused_fd k))"

definition local_copy :: "string option \<Rightarrow> nat \<Rightarrow> string" where
  "local_copy src cap = (case src of None \<Rightarrow> [] | Some s \<Rightarrow> take (cap - 1) s)"

definition process_set_name :: "u64 \<Rightarrow> string option \<Rightarrow> kern \<Rightarrow> bool \<times> kern" where
  "process_set_name pid name k =
     (case (process_get pid k, name) of
        (Some i, Some nm) \<Rightarrow>
          if p_state (proc_at k i) = PROCESS_ZOMBIE \<or> nm = [] then (False, k)
          else (True, upd_proc i (\<lambda>p. p\<lparr>p_name := local_copy (Some nm) PROCESS_NAME_LEN\<rparr>) k)
      | _ \<Rightarrow> (False, k))"

definition process_get_name :: "u64 \<Rightarrow> u64 \<Rightarrow> kern \<Rightarrow> string option" where
  "process_get_name pid n k =
     (case process_get pid k of
        None \<Rightarrow> None
      | Some i \<Rightarrow> if n = 0 then None else Some (local_copy (Some (p_name (proc_at k i))) (unat n)))"

definition process_has_capability :: "u64 \<Rightarrow> u64 \<Rightarrow> kern \<Rightarrow> bool" where
  "process_has_capability pid c k =
     (case process_get pid k of
        None \<Rightarrow> False
      | Some i \<Rightarrow> nexus_capability_valid c \<and> p_capabilities (proc_at k i) AND c = c)"

definition process_get_capabilities :: "u64 \<Rightarrow> kern \<Rightarrow> u64" where
  "process_get_capabilities pid k =
     (case process_get pid k of None \<Rightarrow> 0 | Some i \<Rightarrow> p_capabilities (proc_at k i))"

definition process_drop_capability :: "u64 \<Rightarrow> u64 \<Rightarrow> kern \<Rightarrow> bool \<times> kern" where
  "process_drop_capability pid c k =
     (case process_get pid k of
        None \<Rightarrow> (False, k)
      | Some i \<Rightarrow> if \<not> nexus_capability_valid c then (False, k)
                 else (True, upd_proc i (\<lambda>p. p\<lparr>p_capabilities := p_capabilities p AND NOT c\<rparr>) k))"

definition process_grant_capability :: "u64 \<Rightarrow> u64 \<Rightarrow> kern \<Rightarrow> bool \<times> kern" where
  "process_grant_capability pid c k =
     (case process_get pid k of
        None \<Rightarrow> (False, k)
      | Some i \<Rightarrow> if \<not> nexus_capability_valid c then (False, k)
                 else (True, upd_proc i (\<lambda>p. p\<lparr>p_capabilities := p_capabilities p OR c\<rparr>) k))"

definition process_set_priority :: "u64 \<Rightarrow> u32 \<Rightarrow> kern \<Rightarrow> bool \<times> kern" where
  "process_set_priority pid prio k =
     (case process_get pid k of
        None \<Rightarrow> (False, k)
      | Some i \<Rightarrow> if p_state (proc_at k i) = PROCESS_ZOMBIE \<or> prio > 31 then (False, k)
                 else (True, upd_proc i (\<lambda>p. p\<lparr>p_priority := prio\<rparr>) k))"

definition process_get_priority :: "u64 \<Rightarrow> kern \<Rightarrow> u32" where
  "process_get_priority pid k = (case process_get pid k of None \<Rightarrow> 0 | Some i \<Rightarrow> p_priority (proc_at k i))"

definition env_slot :: "nexus_process \<Rightarrow> string \<Rightarrow> nat option" where
  "env_slot p key = find (\<lambda>j. fst (p_env p ! j) = key) [0..<p_env_count p]"

definition process_set_env :: "u64 \<Rightarrow> string option \<Rightarrow> string option \<Rightarrow> kern \<Rightarrow> bool \<times> kern" where
  "process_set_env pid key val k =
     (case (process_get pid k, key) of
        (Some i, Some ky) \<Rightarrow>
          let p = proc_at k i; v = local_copy val PROCESS_ENV_VALUE_LEN
          in if p_state p = PROCESS_ZOMBIE \<or> ky = [] then (False, k)
             else (case env_slot p ky of
                     Some j \<Rightarrow> (True, upd_proc i (\<lambda>p. p\<lparr>p_env := (p_env p)[j := (fst (p_env p ! j), v)]\<rparr>) k)
                   | None \<Rightarrow>
                       if p_env_count p \<ge> PROCESS_ENV_COUNT then (False, k)
                       else (True, upd_proc i (\<lambda>p. p\<lparr>p_env := (p_env p)[p_env_count p :=
                               (local_copy (Some ky) PROCESS_ENV_KEY_LEN, v)], p_env_count := p_env_count p + 1\<rparr>) k))
      | _ \<Rightarrow> (False, k))"

definition process_unset_env :: "u64 \<Rightarrow> string option \<Rightarrow> kern \<Rightarrow> bool \<times> kern" where
  "process_unset_env pid key k =
     (case (process_get pid k, key) of
        (Some i, Some ky) \<Rightarrow>
          (case env_slot (proc_at k i) ky of
             None \<Rightarrow> (False, k)
           | Some j \<Rightarrow> (True, upd_proc i (\<lambda>p. p\<lparr>p_env := fold (\<lambda>l e. e[l - 1 := e ! l]) [j + 1..<p_env_count p] (p_env p),
                               p_env_count := p_env_count p - 1\<rparr>) k))
      | _ \<Rightarrow> (False, k))"

definition process_get_env :: "u64 \<Rightarrow> string option \<Rightarrow> u64 \<Rightarrow> kern \<Rightarrow> string option" where
  "process_get_env pid key n k =
     (case (process_get pid k, key) of
        (Some i, Some ky) \<Rightarrow>
          if n = 0 then None
          else map_option (\<lambda>j. local_copy (Some (snd (p_env (proc_at k i) ! j))) (unat n)) (env_slot (proc_at k i) ky)
      | _ \<Rightarrow> None)"

definition process_get_cwd :: "u64 \<Rightarrow> u64 \<Rightarrow> kern \<Rightarrow> string option" where
  "process_get_cwd pid n k =
     (case process_get pid k of
        None \<Rightarrow> None
      | Some i \<Rightarrow> if n = 0 then None else Some (local_copy (Some (p_cwd (proc_at k i))) (unat n)))"

definition process_set_cwd :: "u64 \<Rightarrow> string option \<Rightarrow> kern \<Rightarrow> bool \<times> kern" where
  "process_set_cwd pid cwd k =
     (case (process_get pid k, cwd) of
        (Some i, Some d) \<Rightarrow>
          if p_state (proc_at k i) = PROCESS_ZOMBIE \<or> d = [] \<or> hd d \<noteq> CHR ''/'' then (False, k)
          else (True, upd_proc i (\<lambda>p. p\<lparr>p_cwd := local_copy (Some d) PROCESS_CWD_LEN\<rparr>) k)
      | _ \<Rightarrow> (False, k))"

definition process_account_cpu_tick :: "u64 \<Rightarrow> kern \<Rightarrow> kern" where
  "process_account_cpu_tick pid k =
     (case process_get pid k of
        None \<Rightarrow> k
      | Some i \<Rightarrow> if p_state (proc_at k i) = PROCESS_RUNNING
                 then upd_proc i (\<lambda>p. p\<lparr>p_cpu_ticks := p_cpu_ticks p + 1\<rparr>) k else k)"

definition process_cpu_ticks :: "u64 \<Rightarrow> kern \<Rightarrow> u64" where
  "process_cpu_ticks pid k = (case process_get pid k of None \<Rightarrow> 0 | Some i \<Rightarrow> p_cpu_ticks (proc_at k i))"

definition process_start_tick :: "u64 \<Rightarrow> kern \<Rightarrow> u64" where
  "process_start_tick pid k = (case process_get pid k of None \<Rightarrow> 0 | Some i \<Rightarrow> p_start_tick (proc_at k i))"

definition process_ipc_reset_handles :: "u64 \<Rightarrow> kern \<Rightarrow> kern" where
  "process_ipc_reset_handles pid k =
     (case process_get pid k of
        None \<Rightarrow> k
      | Some i \<Rightarrow> upd_proc i (\<lambda>p. p\<lparr>p_ipc_handles := replicate PROCESS_MAX_CHANNELS 0\<rparr>) k)"

section \<open>Entry into user mode\<close>

text \<open>\<open>ready\<close> is the variable of \<open>usermode.c\<close>; the result of \<open>usermode_enter\<close> is the entry point, the
  user stack and the kernel stack it hands to the processor, if it gets that far.\<close>

definition usermode_prepare :: "bool \<Rightarrow> u64 \<Rightarrow> u64 \<Rightarrow> u64 \<Rightarrow> u64 \<Rightarrow> kern \<Rightarrow> bool \<times> kern" where
  "usermode_prepare ready pid entry user_stack kernel_stack k =
     (if \<not> ready \<or> entry = 0 \<or> user_stack = 0 \<or> kernel_stack = 0 then (False, k)
      else case process_get pid k of
             None \<Rightarrow> (False, k)
           | Some i \<Rightarrow>
               if p_state (proc_at k i) = PROCESS_ZOMBIE then (False, k)
               else (True, upd_proc i (\<lambda>p. p\<lparr>p_user_entry := entry, p_stack_base := user_stack, p_stack_size := 0,
                       p_kernel_stack := kernel_stack, p_flags := p_flags p OR PROCESS_FLAG_USER_CONTEXT\<rparr>) k))"

definition usermode_enter :: "bool \<Rightarrow> u64 \<Rightarrow> kern \<Rightarrow> (u64 \<times> u64 \<times> u64) option \<times> kern" where
  "usermode_enter ready pid k =
     (if \<not> ready then (None, k)
      else case process_get pid k of
             None \<Rightarrow> (None, k)
           | Some i \<Rightarrow>
               let p = proc_at k i
               in if p_state p = PROCESS_ZOMBIE \<or> p_flags p AND PROCESS_FLAG_USER_CONTEXT = 0 \<or>
                     p_user_entry p = 0 \<or> p_stack_base p = 0 \<or> p_kernel_stack p = 0 then (None, k)
                  else case process_set_current pid k of
                         (False, k1) \<Rightarrow> (None, k1)
                       | (True, k1) \<Rightarrow> (Some (p_user_entry p, p_stack_base p, p_kernel_stack p), k1))"

end
