(* ===== verification/Ipc.thy ===== *)
theory Ipc
  imports Process Fifo Heap_Blocks
begin

text \<open>
  Channels between processes (\<open>kernel/core/ipc/ipc.c\<close>) and the end of a process
  (\<open>process_exit_with_code\<close> and \<open>process_reap\<close> of \<open>process.c\<close>), which closes its channels and gives
  its memory back.  Arrays indexed by a side are lists of length two, the messages of a queue are the
  bytes that \<open>size\<close> marks as valid.
\<close>

definition IPC_MAX_CHANNELS :: nat where "IPC_MAX_CHANNELS = 16"
definition NEXUS_CHANNEL_MESSAGE_MAX :: u32 where "NEXUS_CHANNEL_MESSAGE_MAX = 256"
definition NEXUS_CHANNEL_QUEUE_DEPTH :: nat where "NEXUS_CHANNEL_QUEUE_DEPTH = 8"
definition NEXUS_PROCESS_CHANNELS :: nat where "NEXUS_PROCESS_CHANNELS = 8"

section \<open>Operations\<close>

definition find_side :: "ipc_channel \<Rightarrow> u64 \<Rightarrow> nat option" where
  "find_side c pid =
     (if \<not> ch_active c then None
      else if ch_pid c ! 0 = pid then Some 0
      else if ch_pid c ! 1 = pid then Some 1
      else None)"

abbreviation chan_at :: "kern \<Rightarrow> nat \<Rightarrow> ipc_channel" where
  "chan_at k c \<equiv> g_channels k ! c"

definition upd_chan :: "nat \<Rightarrow> (ipc_channel \<Rightarrow> ipc_channel) \<Rightarrow> kern \<Rightarrow> kern" where
  "upd_chan c f k = k\<lparr>g_channels := (g_channels k)[c := f (g_channels k ! c)]\<rparr>"

definition upd_handle :: "nat \<Rightarrow> nat \<Rightarrow> u32 \<Rightarrow> kern \<Rightarrow> kern" where
  "upd_handle i h v = upd_proc i (\<lambda>p. p\<lparr>p_ipc_handles := (p_ipc_handles p)[h := v]\<rparr>)"

definition find_channel_for_handle :: "u64 \<Rightarrow> u32 \<Rightarrow> kern \<Rightarrow> nat option" where
  "find_channel_for_handle pid handle k =
     (case process_get pid k of
        None \<Rightarrow> None
      | Some i \<Rightarrow>
          if handle = 0 \<or> handle > of_nat NEXUS_PROCESS_CHANNELS then None
          else
            let channel_id = p_ipc_handles (proc_at k i) ! (unat handle - 1)
            in if channel_id = 0 \<or> channel_id > of_nat IPC_MAX_CHANNELS then None
               else
                 let c = unat channel_id - 1
                 in case find_side (chan_at k c) pid of
                      None \<Rightarrow> None
                    | Some side \<Rightarrow> if ch_closed (chan_at k c) ! side then None else Some c)"

definition find_free_handle :: "nexus_process \<Rightarrow> nat option" where
  "find_free_handle p = find (\<lambda>h. p_ipc_handles p ! h = 0) [0..<NEXUS_PROCESS_CHANNELS]"

definition find_free_channel :: "kern \<Rightarrow> nat option" where
  "find_free_channel k = find (\<lambda>c. \<not> ch_active (chan_at k c)) [0..<IPC_MAX_CHANNELS]"

definition nexus_ipc_init :: "kern \<Rightarrow> kern" where
  "nexus_ipc_init k = k\<lparr>g_channels := map (\<lambda>c. c\<lparr>ch_active := False, ch_closed := [False, False]\<rparr>) (g_channels k),
     ipc_ready := True\<rparr>"

text \<open>The result is the owner's handle, \<open>None\<close> when the function returns 0.\<close>

definition nexus_ipc_create :: "u64 \<Rightarrow> u64 \<Rightarrow> kern \<Rightarrow> u32 option \<times> kern" where
  "nexus_ipc_create owner_pid peer_pid k =
     (if \<not> ipc_ready k \<or> owner_pid = 0 \<or> peer_pid = 0 \<or> owner_pid = peer_pid then (None, k)
      else case (process_get owner_pid k, process_get peer_pid k) of
             (Some i, Some j) \<Rightarrow>
               if p_state (proc_at k i) = PROCESS_ZOMBIE \<or> p_state (proc_at k j) = PROCESS_ZOMBIE then (None, k)
               else (case (find_free_handle (proc_at k i), find_free_handle (proc_at k j)) of
                       (Some oh, Some ph) \<Rightarrow>
                         (case find_free_channel k of
                            None \<Rightarrow> (None, k)
                          | Some c \<Rightarrow>
                              let k1 = upd_chan c (\<lambda>c. c\<lparr>ch_active := True, ch_closed := [False, False],
                                         ch_pid := [owner_pid, peer_pid], ch_head := [0, 0], ch_count := [0, 0]\<rparr>) k;
                                  k2 = upd_handle i oh (of_nat (c + 1)) k1;
                                  k3 = upd_handle j ph (of_nat (c + 1)) k2
                              in (Some (of_nat (oh + 1)), k3))
                     | _ \<Rightarrow> (None, k))
           | _ \<Rightarrow> (None, k))"

definition nexus_ipc_close :: "u64 \<Rightarrow> u32 \<Rightarrow> kern \<Rightarrow> bool \<times> kern" where
  "nexus_ipc_close pid handle k =
     (case process_get pid k of
        None \<Rightarrow> (False, k)
      | Some i \<Rightarrow>
          if handle = 0 \<or> handle > of_nat NEXUS_PROCESS_CHANNELS then (False, k)
          else
            let h = unat handle - 1; channel_id = p_ipc_handles (proc_at k i) ! h
            in if channel_id = 0 \<or> channel_id > of_nat IPC_MAX_CHANNELS then (False, k)
               else
                 let c = unat channel_id - 1
                 in case find_side (chan_at k c) pid of
                      None \<Rightarrow> (False, k)
                    | Some side \<Rightarrow>
                        let k1 = upd_handle i h 0 (upd_chan c (\<lambda>c. c\<lparr>ch_closed := (ch_closed c)[side := True]\<rparr>) k)
                        in (True, if ch_closed (chan_at k1 c) ! 0 \<and> ch_closed (chan_at k1 c) ! 1
                                  then upd_chan c (\<lambda>c. c\<lparr>ch_active := False\<rparr>) k1 else k1))"

definition upd_queue :: "nat \<Rightarrow> nat \<Rightarrow> u8 list \<Rightarrow> ipc_channel \<Rightarrow> ipc_channel" where
  "upd_queue side pos msg c = c\<lparr>ch_queue := (ch_queue c)[side := (ch_queue c ! side)[pos := msg]]\<rparr>"

text \<open>Sending returns the number of bytes sent, 0 on failure.\<close>

definition nexus_ipc_send :: "u64 \<Rightarrow> u32 \<Rightarrow> (nat \<Rightarrow> u8) option \<Rightarrow> u32 \<Rightarrow> kern \<Rightarrow> u32 \<times> kern" where
  "nexus_ipc_send pid handle data n k =
     (case data of
        None \<Rightarrow> (0, k)
      | Some src \<Rightarrow>
          if n = 0 \<or> n > NEXUS_CHANNEL_MESSAGE_MAX then (0, k)
          else case process_get pid k of
                 None \<Rightarrow> (0, k)
               | Some i \<Rightarrow>
                   if p_state (proc_at k i) = PROCESS_ZOMBIE then (0, k)
                   else case find_channel_for_handle pid handle k of
                          None \<Rightarrow> (0, k)
                        | Some c \<Rightarrow>
                            (case find_side (chan_at k c) pid of
                               None \<Rightarrow> (0, k)
                             | Some side \<Rightarrow>
                                 let target = 1 - side; ch = chan_at k c
                                 in if ch_closed ch ! target \<or> ch_count ch ! target \<ge> NEXUS_CHANNEL_QUEUE_DEPTH then (0, k)
                                    else
                                      let pos = (ch_head ch ! target + ch_count ch ! target) mod NEXUS_CHANNEL_QUEUE_DEPTH;
                                          msg = map src [0..<unat n]
                                      in (n, upd_chan c (\<lambda>c. (upd_queue target pos msg c)
                                               \<lparr>ch_count := (ch_count c)[target := ch_count c ! target + 1]\<rparr>) k)))"

definition nexus_ipc_recv :: "u64 \<Rightarrow> u32 \<Rightarrow> u32 \<Rightarrow> kern \<Rightarrow> u8 list option \<times> kern" where
  "nexus_ipc_recv pid handle capacity k =
     (if capacity = 0 then (None, k)
      else case process_get pid k of
             None \<Rightarrow> (None, k)
           | Some i \<Rightarrow>
               if p_state (proc_at k i) = PROCESS_ZOMBIE then (None, k)
               else case find_channel_for_handle pid handle k of
                      None \<Rightarrow> (None, k)
                    | Some c \<Rightarrow>
                        (case find_side (chan_at k c) pid of
                           None \<Rightarrow> (None, k)
                         | Some side \<Rightarrow>
                             let ch = chan_at k c
                             in if ch_count ch ! side = 0 then (None, k)
                                else
                                  let msg = ch_queue ch ! side ! (ch_head ch ! side)
                                  in (Some (take (unat capacity) msg),
                                      upd_chan c (\<lambda>c. c\<lparr>
                                        ch_head := (ch_head c)[side := (ch_head c ! side + 1) mod NEXUS_CHANNEL_QUEUE_DEPTH],
                                        ch_count := (ch_count c)[side := ch_count c ! side - 1]\<rparr>) k)))"

definition nexus_ipc_poll :: "u64 \<Rightarrow> u32 \<Rightarrow> kern \<Rightarrow> nat" where
  "nexus_ipc_poll pid handle k =
     (case find_channel_for_handle pid handle k of
        None \<Rightarrow> 0
      | Some c \<Rightarrow> (case find_side (chan_at k c) pid of None \<Rightarrow> 0 | Some side \<Rightarrow> ch_count (chan_at k c) ! side))"

definition terminate_handle :: "u64 \<Rightarrow> nat \<Rightarrow> nat \<Rightarrow> kern \<Rightarrow> kern" where
  "terminate_handle pid i h k =
     (let channel_id = p_ipc_handles (proc_at k i) ! h
      in if channel_id = 0 \<or> channel_id > of_nat IPC_MAX_CHANNELS then k
         else
           let c = unat channel_id - 1
           in case find_side (chan_at k c) pid of
                None \<Rightarrow> k
              | Some side \<Rightarrow>
                  let k1 = upd_handle i h 0 (upd_chan c (\<lambda>c. c\<lparr>ch_closed := (ch_closed c)[side := True]\<rparr>) k)
                  in if ch_closed (chan_at k1 c) ! 0 \<and> ch_closed (chan_at k1 c) ! 1
                     then upd_chan c (\<lambda>c. c\<lparr>ch_active := False\<rparr>) k1
                     else case process_get (ch_pid (chan_at k1 c) ! (1 - side)) k1 of
                            None \<Rightarrow> k1
                          | Some j \<Rightarrow>
                              (case find (\<lambda>ph. p_ipc_handles (proc_at k1 j) ! ph = channel_id) [0..<NEXUS_PROCESS_CHANNELS] of
                                 None \<Rightarrow> k1
                               | Some ph \<Rightarrow> upd_handle j ph 0 k1))"

definition nexus_ipc_process_terminate :: "u64 \<Rightarrow> kern \<Rightarrow> kern" where
  "nexus_ipc_process_terminate pid k =
     (case process_get pid k of
        None \<Rightarrow> k
      | Some i \<Rightarrow> fold (terminate_handle pid i) [0..<NEXUS_PROCESS_CHANNELS] k)"

definition nexus_ipc_open_count :: "u64 \<Rightarrow> kern \<Rightarrow> nat" where
  "nexus_ipc_open_count pid k =
     (case process_get pid k of
        None \<Rightarrow> 0
      | Some i \<Rightarrow> length (filter (\<lambda>h. p_ipc_handles (proc_at k i) ! h \<noteq> 0) [0..<NEXUS_PROCESS_CHANNELS]))"

section \<open>The end of a process\<close>

definition process_exit_with_code :: "u64 \<Rightarrow> u64 \<Rightarrow> u32 \<Rightarrow> kern \<Rightarrow> bool \<times> kern" where
  "process_exit_with_code pid exit_code exit_reason k =
     (case process_get pid k of
        None \<Rightarrow> (False, k)
      | Some i \<Rightarrow>
          if p_state (proc_at k i) = PROCESS_UNUSED \<or> p_state (proc_at k i) = PROCESS_ZOMBIE then (False, k)
          else
            let k1 = nexus_ipc_process_terminate pid k;
                k2 = upd_proc i (\<lambda>p. p\<lparr>p_exit_code := exit_code, p_exit_reason := exit_reason,
                       p_state := PROCESS_ZOMBIE\<rparr>) k1;
                k3 = (if g_process_count k2 \<noteq> 0 then k2\<lparr>g_process_count := g_process_count k2 - 1\<rparr> else k2)
            in (True, k3\<lparr>g_zombie_count := g_zombie_count k3 + 1\<rparr>))"

definition process_exit :: "u64 \<Rightarrow> kern \<Rightarrow> bool \<times> kern" where
  "process_exit pid = process_exit_with_code pid 0 0"

definition process_reset :: "nexus_process \<Rightarrow> nexus_process" where
  "process_reset p = p\<lparr>p_kernel_stack := 0, p_thread_id := 0, p_fds := map unused_fd (p_fds p), p_user_entry := 0,
     p_stack_base := 0, p_stack_size := 0, p_exit_code := 0, p_exit_reason := 0, p_parent_pid := 0,
     p_start_tick := 0, p_cpu_ticks := 0, p_heap_base := 0, p_heap_end := 0, p_memory_limit := 0,
     p_priority := 0, p_env_count := 0, p_name := [], p_cwd := [], p_pid := 0, p_flags := 0,
     p_state := PROCESS_UNUSED\<rparr>"

definition process_reap :: "u64 \<Rightarrow> u64 \<Rightarrow> kern \<Rightarrow> bool \<times> kern" where
  "process_reap pid tid k =
     (if pid = 0 then (False, k)
      else case process_get pid k of
             None \<Rightarrow> (False, k)
           | Some i \<Rightarrow>
               if p_state (proc_at k i) \<noteq> PROCESS_ZOMBIE \<or>
                  tid \<noteq> 0 \<and> p_thread_id (proc_at k i) \<noteq> tid \<or>
                  tid = 0 \<and> p_thread_id (proc_at k i) \<noteq> 0 then (False, k)
               else
                 let k1 = snd (process_unmap_user_memory pid k);
                     root = p_cr3 (proc_at k1 i);
                     k2 = upd_proc i (\<lambda>p. p\<lparr>p_cr3 := 0\<rparr>) k1;
                     k3 = (if root \<noteq> 0 then set_mm (paging_destroy_address_space root (kmm k2)) k2 else k2);
                     k4 = process_ipc_reset_handles pid k3;
                     k5 = upd_proc i process_reset k4
                 in (True, if g_zombie_count k5 \<noteq> 0 then k5\<lparr>g_zombie_count := g_zombie_count k5 - 1\<rparr> else k5))"

section \<open>Updates do not interfere\<close>

lemma process_get_cong: "g_processes k' = g_processes k \<Longrightarrow> proc_ready k' = proc_ready k \<Longrightarrow>
    process_get pid k' = process_get pid k"
  by (simp add: process_get_def)

lemma upd_chan_simps [simp]:
  "g_processes (upd_chan c f k) = g_processes k" "proc_ready (upd_chan c f k) = proc_ready k"
  "length (g_channels (upd_chan c f k)) = length (g_channels k)" "ipc_ready (upd_chan c f k) = ipc_ready k"
  "c < length (g_channels k) \<Longrightarrow> chan_at (upd_chan c f k) c = f (chan_at k c)"
  "d \<noteq> c \<Longrightarrow> chan_at (upd_chan c f k) d = chan_at k d"
  "process_get pid (upd_chan c f k) = process_get pid k"
  by (simp_all add: upd_chan_def process_get_def)

lemma upd_proc_simps [simp]:
  "g_channels (upd_proc i f k) = g_channels k" "ipc_ready (upd_proc i f k) = ipc_ready k"
  "proc_ready (upd_proc i f k) = proc_ready k" "length (g_processes (upd_proc i f k)) = length (g_processes k)"
  "i < length (g_processes k) \<Longrightarrow> proc_at (upd_proc i f k) i = f (proc_at k i)"
  "j \<noteq> i \<Longrightarrow> proc_at (upd_proc i f k) j = proc_at k j"
  by (simp_all add: upd_proc_def)

lemma find_upt_SomeD: "find P [0..<n] = Some i \<Longrightarrow> i < n \<and> P i"
  by (auto simp: find_Some_iff)

lemma process_get_SomeD:
  "process_get pid k = Some i \<Longrightarrow> i < PROCESS_MAX_COUNT \<and> p_state (proc_at k i) \<noteq> PROCESS_UNUSED \<and>
     p_pid (proc_at k i) = pid \<and> pid \<noteq> 0 \<and> proc_ready k"
  by (auto simp: process_get_def dest: find_upt_SomeD split: if_splits)

lemma process_get_upd_proc:
  assumes "length (g_processes k) = 8" "\<And>p. p_state (f p) = p_state p \<and> p_pid (f p) = p_pid p"
  shows "process_get pid (upd_proc i f k) = process_get pid k"
proof -
  have "p_state (proc_at (upd_proc i f k) j) = p_state (proc_at k j) \<and>
      p_pid (proc_at (upd_proc i f k) j) = p_pid (proc_at k j)" if "j < 8" for j
    using assms that by (cases "j = i") simp_all
  then show ?thesis by (auto simp: process_get_def PROCESS_MAX_COUNT_def intro!: find_cong)
qed

section \<open>A channel is a pair of queues\<close>

definition chan_ok :: "ipc_channel \<Rightarrow> bool" where
  "chan_ok c \<longleftrightarrow> length (ch_closed c) = 2 \<and> length (ch_pid c) = 2 \<and> length (ch_head c) = 2 \<and> length (ch_count c) = 2 \<and>
     length (ch_queue c) = 2 \<and> (\<forall>s < 2. length (ch_queue c ! s) = 8 \<and> ch_head c ! s < 8 \<and> ch_count c ! s \<le> 8)"

definition inbox :: "nat \<Rightarrow> ipc_channel \<Rightarrow> u8 list list" where
  "inbox s c = ring_items (ch_queue c ! s) (ch_head c ! s) (ch_count c ! s)"

lemma find_side_less: "find_side c pid = Some s \<Longrightarrow> s < 2 \<and> ch_active c \<and> ch_pid c ! s = pid"
  by (auto simp: find_side_def split: if_splits)

lemma find_sides:
  assumes "find_side c a = Some s" "find_side c b = Some t" "a \<noteq> b"
  shows "t = 1 - s"
  using assms by (auto simp: find_side_def split: if_splits)

lemma find_channel_SomeD:
  assumes "find_channel_for_handle pid h k = Some c"
  obtains s where "find_side (chan_at k c) pid = Some s" "\<not> ch_closed (chan_at k c) ! s" "c < 16"
proof -
  from assms obtain i s where "let id = p_ipc_handles (proc_at k i) ! (unat h - 1) in id \<noteq> 0 \<and> id \<le> 16 \<and> c = unat id - 1"
    "find_side (chan_at k c) pid = Some s" "\<not> ch_closed (chan_at k c) ! s"
    by (auto simp: find_channel_for_handle_def Let_def IPC_MAX_CHANNELS_def not_less split: option.splits if_splits)
  then show thesis using that [of s] by (auto simp: Let_def word_le_nat_alt unat_gt_0 [symmetric])
qed

lemma find_channel_upd_chan:
  assumes "\<And>c. ch_active (f c) = ch_active c \<and> ch_pid (f c) = ch_pid c \<and> ch_closed (f c) = ch_closed c"
  shows "find_channel_for_handle pid h (upd_chan c f k) = find_channel_for_handle pid h k"
proof -
  have "find_side (chan_at (upd_chan c f k) d) pid = find_side (chan_at k d) pid \<and>
      ch_closed (chan_at (upd_chan c f k) d) = ch_closed (chan_at k d)" for d
  proof (cases "c < length (g_channels k)")
    case True
    then show ?thesis using assms by (cases "d = c") (simp_all add: find_side_def)
  next
    case False
    then show ?thesis by (simp add: upd_chan_def not_less list_update_beyond)
  qed
  then show ?thesis by (simp add: find_channel_for_handle_def Let_def split: option.splits)
qed

text \<open>\<open>link a ha b hb\<close>: process \<open>a\<close> reaches process \<open>b\<close> through its handle \<open>ha\<close>, and \<open>b\<close> reads the
  messages through \<open>hb\<close>.\<close>

definition alive :: "u64 \<Rightarrow> kern \<Rightarrow> bool" where
  "alive pid k \<longleftrightarrow> (case process_get pid k of None \<Rightarrow> False | Some i \<Rightarrow> p_state (proc_at k i) \<noteq> PROCESS_ZOMBIE)"

definition link :: "u64 \<Rightarrow> u32 \<Rightarrow> u64 \<Rightarrow> u32 \<Rightarrow> kern \<Rightarrow> bool" where
  "link a ha b hb k \<longleftrightarrow> a \<noteq> b \<and> alive a k \<and> alive b k \<and> length (g_channels k) = 16 \<and>
     (\<exists>c. find_channel_for_handle a ha k = Some c \<and> find_channel_for_handle b hb k = Some c \<and> chan_ok (chan_at k c) \<and>
       (\<forall>s < 2. \<forall>m \<in> set (inbox s (chan_at k c)). length m \<le> 256))"

definition waiting :: "u64 \<Rightarrow> u32 \<Rightarrow> kern \<Rightarrow> u8 list list" where
  "waiting b hb k =
     (case find_channel_for_handle b hb k of
        None \<Rightarrow> []
      | Some c \<Rightarrow> (case find_side (chan_at k c) b of None \<Rightarrow> [] | Some s \<Rightarrow> inbox s (chan_at k c)))"

definition send_message :: "u64 \<Rightarrow> u32 \<Rightarrow> u8 list \<Rightarrow> kern \<Rightarrow> bool \<times> kern" where
  "send_message a ha m k = (case nexus_ipc_send a ha (Some (\<lambda>i. m ! i)) (of_nat (length m)) k of (r, k') \<Rightarrow> (r \<noteq> 0, k'))"

definition recv_message :: "u64 \<Rightarrow> u32 \<Rightarrow> kern \<Rightarrow> u8 list option \<times> kern" where
  "recv_message b hb = nexus_ipc_recv b hb NEXUS_CHANNEL_MESSAGE_MAX"

lemma linkD:
  assumes "link a ha b hb k"
  obtains i j c s where "process_get a k = Some i" "p_state (proc_at k i) \<noteq> PROCESS_ZOMBIE"
    "process_get b k = Some j" "p_state (proc_at k j) \<noteq> PROCESS_ZOMBIE"
    "find_channel_for_handle a ha k = Some c" "find_channel_for_handle b hb k = Some c" "c < length (g_channels k)"
    "find_side (chan_at k c) a = Some (1 - s)" "find_side (chan_at k c) b = Some s" "s < 2" "1 - (1 - s) = s"
    "\<not> ch_closed (chan_at k c) ! s" "chan_ok (chan_at k c)" "waiting b hb k = inbox s (chan_at k c)"
    "\<forall>s < 2. \<forall>m \<in> set (inbox s (chan_at k c)). length m \<le> 256"
proof -
  obtain c where c: "a \<noteq> b" "find_channel_for_handle a ha k = Some c" "find_channel_for_handle b hb k = Some c"
    "chan_ok (chan_at k c)" "\<forall>s < 2. \<forall>m \<in> set (inbox s (chan_at k c)). length m \<le> 256" "length (g_channels k) = 16"
    using assms by (auto simp: link_def)
  obtain t where t: "find_side (chan_at k c) a = Some t" using c(2) by (rule find_channel_SomeD)
  obtain s where s: "find_side (chan_at k c) b = Some s" "\<not> ch_closed (chan_at k c) ! s" "c < 16"
    using c(3) by (rule find_channel_SomeD)
  have "t = 1 - s" "s < 2" "1 - (1 - s) = s"
    using find_sides [OF s(1) t] find_sides [OF t s(1)] c(1) find_side_less [OF s(1)] by auto
  moreover obtain i j where "process_get a k = Some i" "p_state (proc_at k i) \<noteq> PROCESS_ZOMBIE"
    "process_get b k = Some j" "p_state (proc_at k j) \<noteq> PROCESS_ZOMBIE"
    using assms by (auto simp: link_def alive_def split: option.splits)
  moreover have "waiting b hb k = inbox s (chan_at k c)" using c(3) s(1) by (simp add: waiting_def)
  ultimately show thesis using that c s t by metis
qed

lemma inbox_push:
  fixes m :: "u8 list"
  assumes "chan_ok c" "s < 2" "ch_count c ! s < 8"
  defines "c' \<equiv> (upd_queue s ((ch_head c ! s + ch_count c ! s) mod 8) m c)\<lparr>ch_count := (ch_count c)[s := ch_count c ! s + 1]\<rparr>"
  shows "chan_ok c'" "inbox s c' = inbox s c @ [m]" "t \<noteq> s \<Longrightarrow> inbox t c' = inbox t c"
proof -
  have q: "length (ch_queue c ! s) = 8" "length (ch_queue c) = 2" "length (ch_count c) = 2" using assms(1,2) by (auto simp: chan_ok_def)
  show "chan_ok c'" using assms by (auto simp: chan_ok_def upd_queue_def nth_list_update)
  show "inbox s c' = inbox s c @ [m]"
    using ring_push [of "ch_count c ! s" "ch_queue c ! s" "ch_head c ! s" m] assms(2,3) q
    by (simp add: inbox_def c'_def upd_queue_def)
  show "t \<noteq> s \<Longrightarrow> inbox t c' = inbox t c" by (simp add: inbox_def c'_def upd_queue_def)
qed

lemma inbox_pop:
  assumes "chan_ok c" "s < 2" "0 < ch_count c ! s"
  defines "c' \<equiv> c\<lparr>ch_head := (ch_head c)[s := (ch_head c ! s + 1) mod 8], ch_count := (ch_count c)[s := ch_count c ! s - 1]\<rparr>"
  shows "chan_ok c'" "inbox s c = ch_queue c ! s ! (ch_head c ! s) # inbox s c'" "t \<noteq> s \<Longrightarrow> inbox t c' = inbox t c"
proof -
  have q: "length (ch_queue c ! s) = 8" "length (ch_head c) = 2" "length (ch_count c) = 2" "ch_head c ! s < 8"
    using assms(1,2) by (auto simp: chan_ok_def)
  show "chan_ok c'" using assms by (auto simp: chan_ok_def nth_list_update)
  show "inbox s c = ch_queue c ! s ! (ch_head c ! s) # inbox s c'"
    using ring_pop [OF assms(3), of "ch_head c ! s" "ch_queue c ! s"] assms(2) q by (simp add: inbox_def c'_def)
  show "t \<noteq> s \<Longrightarrow> inbox t c' = inbox t c" by (simp add: inbox_def c'_def)
qed

text \<open>A change of the queues of a linked channel keeps the link.\<close>

lemma link_upd_chan:
  assumes L: "link a ha b hb k" and c: "find_channel_for_handle b hb k = Some c" "find_side (chan_at k c) b = Some s"
    and f: "\<And>d. ch_active (f d) = ch_active d \<and> ch_pid (f d) = ch_pid d \<and> ch_closed (f d) = ch_closed d"
    and ok: "chan_ok (f (chan_at k c))" "\<forall>s < 2. \<forall>m \<in> set (inbox s (f (chan_at k c))). length m \<le> 256"
  shows "link a ha b hb (upd_chan c f k)" "waiting b hb (upd_chan c f k) = inbox s (f (chan_at k c))"
proof -
  have a: "find_channel_for_handle a ha k = Some c" "length (g_channels k) = 16" using L c(1) by (auto simp: link_def)
  then have cl: "c < length (g_channels k)" using c(1) find_channel_SomeD by metis
  note fc = find_channel_upd_chan [of f, OF f]
  show "link a ha b hb (upd_chan c f k)"
    using L cl ok a c(1) by (simp add: link_def fc alive_def split: option.splits)
  have "find_side (f (chan_at k c)) b = Some s" using c(2) f by (auto simp: find_side_def split: if_splits)
  then show "waiting b hb (upd_chan c f k) = inbox s (f (chan_at k c))"
    using c cl by (simp add: waiting_def fc)
qed

lemma send_message_spec:
  assumes L: "link a ha b hb k" and m: "m \<noteq> []" "length m \<le> 256"
  shows "\<exists>k'. send_message a ha m k = (length (waiting b hb k) < 8, k') \<and> link a ha b hb k' \<and>
    waiting b hb k' = (if length (waiting b hb k) < 8 then waiting b hb k @ [m] else waiting b hb k)"
proof -
  from L obtain i j c s where l: "process_get a k = Some i" "p_state (proc_at k i) \<noteq> PROCESS_ZOMBIE"
    "find_channel_for_handle a ha k = Some c" "find_channel_for_handle b hb k = Some c"
    "find_side (chan_at k c) a = Some (1 - s)" "find_side (chan_at k c) b = Some s" "s < 2" "1 - (1 - s) = s"
    "\<not> ch_closed (chan_at k c) ! s" "chan_ok (chan_at k c)" "waiting b hb k = inbox s (chan_at k c)"
    "\<forall>s < 2. \<forall>m \<in> set (inbox s (chan_at k c)). length m \<le> 256"
    by (rule linkD)
  have n: "unat (of_nat (length m) :: u32) = length m" using m(2) by (simp add: unat_of_nat_u32)
  then have nz: "(of_nat (length m) :: u32) \<noteq> 0" "(of_nat (length m) :: u32) \<le> 256"
    using m by (auto simp: word_le_nat_alt simp flip: unat_eq_0)
  have w: "length (waiting b hb k) = ch_count (chan_at k c) ! s" using l(11) by (simp add: inbox_def)
  show ?thesis
  proof (cases "ch_count (chan_at k c) ! s < 8")
    case True
    let ?ch = "chan_at k c"
    let ?f = "\<lambda>d. (upd_queue s ((ch_head ?ch ! s + ch_count ?ch ! s) mod 8) m d)\<lparr>ch_count := (ch_count d)[s := ch_count d ! s + 1]\<rparr>"
    have snd: "send_message a ha m k = (True, upd_chan c ?f k)"
      using l True n nz m
      by (simp add: send_message_def nexus_ipc_send_def Let_def NEXUS_CHANNEL_MESSAGE_MAX_def NEXUS_CHANNEL_QUEUE_DEPTH_def
        linorder_not_less map_nth)
    note ib = inbox_push [OF l(10,7) True, where m = m]
    have small: "\<forall>t < 2. \<forall>x \<in> set (inbox t (?f ?ch)). length x \<le> 256"
    proof (intro allI impI ballI)
      fix t x assume "t < (2::nat)" "x \<in> set (inbox t (?f ?ch))"
      then show "length x \<le> 256" using ib(2) ib(3) [of t] l(7,12) m(2) by (cases "t = s") auto
    qed
    have f: "\<And>d. ch_active (?f d) = ch_active d \<and> ch_pid (?f d) = ch_pid d \<and> ch_closed (?f d) = ch_closed d"
      by (simp add: upd_queue_def)
    note lk = link_upd_chan [OF L l(4,6), of ?f, OF f ib(1) small]
    show ?thesis using snd lk ib(2) l(11) True w by (intro exI [of _ "upd_chan c ?f k"]) simp
  next
    case False
    then have "send_message a ha m k = (False, k)"
      using l n nz by (simp add: send_message_def nexus_ipc_send_def Let_def NEXUS_CHANNEL_QUEUE_DEPTH_def)
    then show ?thesis using L w False by simp
  qed
qed

lemma recv_message_spec:
  assumes L: "link a ha b hb k"
  shows "waiting b hb k = [] \<Longrightarrow> recv_message b hb k = (None, k)"
    and "waiting b hb k = m # ms \<Longrightarrow> \<exists>k'. recv_message b hb k = (Some m, k') \<and> link a ha b hb k' \<and> waiting b hb k' = ms"
proof -
  from L obtain i j c s where l: "process_get b k = Some j" "p_state (proc_at k j) \<noteq> PROCESS_ZOMBIE"
    "find_channel_for_handle a ha k = Some c" "find_channel_for_handle b hb k = Some c"
    "find_side (chan_at k c) b = Some s" "s < 2" "chan_ok (chan_at k c)" "waiting b hb k = inbox s (chan_at k c)"
    "\<forall>s < 2. \<forall>m \<in> set (inbox s (chan_at k c)). length m \<le> 256"
    by (rule linkD)
  let ?ch = "chan_at k c"
  have w: "length (waiting b hb k) = ch_count ?ch ! s" using l(8) by (simp add: inbox_def)
  show "recv_message b hb k = (None, k)" if "waiting b hb k = []"
    using that l w by (simp add: recv_message_def nexus_ipc_recv_def Let_def NEXUS_CHANNEL_MESSAGE_MAX_def)
  show "\<exists>k'. recv_message b hb k = (Some m, k') \<and> link a ha b hb k' \<and> waiting b hb k' = ms" if wm: "waiting b hb k = m # ms"
  proof -
    have n: "0 < ch_count ?ch ! s" using wm w by simp
    let ?f = "\<lambda>d. d\<lparr>ch_head := (ch_head d)[s := (ch_head d ! s + 1) mod 8], ch_count := (ch_count d)[s := ch_count d ! s - 1]\<rparr>"
    note ib = inbox_pop [OF l(7,6) n]
    have hd: "ch_queue ?ch ! s ! (ch_head ?ch ! s) = m" "inbox s (?f ?ch) = ms" using ib(2) wm l(8) by simp_all
    have "length m \<le> 256" using wm l(6,8,9) by (metis list.set_intros(1))
    then have rc: "recv_message b hb k = (Some m, upd_chan c ?f k)"
      using l n hd
      by (simp add: recv_message_def nexus_ipc_recv_def Let_def NEXUS_CHANNEL_MESSAGE_MAX_def NEXUS_CHANNEL_QUEUE_DEPTH_def)
    have small: "\<forall>t < 2. \<forall>x \<in> set (inbox t (?f ?ch)). length x \<le> 256"
    proof (intro allI impI ballI)
      fix t x assume "t < (2::nat)" "x \<in> set (inbox t (?f ?ch))"
      then show "length x \<le> 256" using ib(2) ib(3) [of t] l(6,9) by (cases "t = s") auto
    qed
    have f: "\<And>d. ch_active (?f d) = ch_active d \<and> ch_pid (?f d) = ch_pid d \<and> ch_closed (?f d) = ch_closed d" by simp
    note lk = link_upd_chan [OF L l(4,5), of ?f, OF f ib(1) small]
    show ?thesis using rc lk hd by (intro exI [of _ "upd_chan c ?f k"]) simp
  qed
qed

interpretation ipc: bounded_fifo "link a ha b hb" "waiting b hb" 8 "\<lambda>m. m \<noteq> [] \<and> length m \<le> 256"
  "send_message a ha" "recv_message b hb" for a ha b hb
proof unfold_locales
  fix k m ms
  assume L: "link a ha b hb k"
  show "\<exists>k'. send_message a ha m k = (True, k') \<and> link a ha b hb k' \<and> waiting b hb k' = waiting b hb k @ [m]"
    if "m \<noteq> [] \<and> length m \<le> 256" "length (waiting b hb k) < 8"
    using send_message_spec [OF L, of m] that by auto
  show "\<exists>k'. send_message a ha m k = (False, k') \<and> link a ha b hb k' \<and> waiting b hb k' = waiting b hb k"
    if "m \<noteq> [] \<and> length m \<le> 256" "8 \<le> length (waiting b hb k)"
    using send_message_spec [OF L, of m] that by auto
  show "recv_message b hb k = (None, k)" if "waiting b hb k = []"
    using recv_message_spec(1) [OF L that] .
  show "\<exists>k'. recv_message b hb k = (Some m, k') \<and> link a ha b hb k' \<and> waiting b hb k' = ms" if "waiting b hb k = m # ms"
    using recv_message_spec(2) [OF L that] .
qed

section \<open>Invariant of the channel table\<close>

definition ipc_inv :: "kern \<Rightarrow> bool" where
  "ipc_inv k \<longleftrightarrow> length (g_processes k) = 8 \<and> (\<forall>i < 8. length (p_ipc_handles (proc_at k i)) = 8) \<and>
     length (g_channels k) = 16 \<and> (\<forall>c < 16. chan_ok (chan_at k c))"

lemma ipc_inv_upd_chan:
  assumes "ipc_inv k" "c < 16 \<Longrightarrow> chan_ok (f (chan_at k c))"
  shows "ipc_inv (upd_chan c f k)"
proof -
  have "chan_ok (chan_at (upd_chan c f k) d)" if "d < 16" for d
    using assms that by (cases "d = c") (simp_all add: ipc_inv_def)
  then show ?thesis using assms(1) by (simp add: ipc_inv_def)
qed

lemma ipc_inv_upd_proc:
  assumes "ipc_inv k" "i < 8 \<Longrightarrow> length (p_ipc_handles (f (proc_at k i))) = 8"
  shows "ipc_inv (upd_proc i f k)"
proof -
  have "length (p_ipc_handles (proc_at (upd_proc i f k) j)) = 8" if "j < 8" for j
    using assms that by (cases "j = i") (simp_all add: ipc_inv_def)
  then show ?thesis using assms(1) by (simp add: ipc_inv_def)
qed

lemma ipc_inv_upd_handle: "ipc_inv k \<Longrightarrow> ipc_inv (upd_handle i h v k)"
  unfolding upd_handle_def by (rule ipc_inv_upd_proc) (simp_all add: ipc_inv_def)

lemma chan_ok_close: "chan_ok c \<Longrightarrow> chan_ok (c\<lparr>ch_closed := (ch_closed c)[s := b]\<rparr>)" "chan_ok c \<Longrightarrow> chan_ok (c\<lparr>ch_active := b\<rparr>)"
  by (simp_all add: chan_ok_def)

lemma chan_ok_open: "chan_ok c \<Longrightarrow> chan_ok (c\<lparr>ch_active := True, ch_closed := [False, False], ch_pid := [a, b],
    ch_head := [0, 0], ch_count := [0, 0]\<rparr>)"
  by (auto simp: chan_ok_def less_2_cases_iff)

lemma ipc_inv_chan: "ipc_inv k \<Longrightarrow> c < 16 \<Longrightarrow> chan_ok (chan_at k c)"
  by (simp add: ipc_inv_def)

lemmas ipc_inv_intros = ipc_inv_upd_handle ipc_inv_upd_chan chan_ok_open chan_ok_close ipc_inv_chan

lemma ipc_inv_create: "ipc_inv k \<Longrightarrow> ipc_inv (snd (nexus_ipc_create a b k))"
  by (auto simp: nexus_ipc_create_def Let_def intro!: ipc_inv_intros split: option.splits prod.splits)

lemma ipc_inv_close: "ipc_inv k \<Longrightarrow> ipc_inv (snd (nexus_ipc_close pid h k))"
  by (auto simp: nexus_ipc_close_def Let_def intro!: ipc_inv_intros split: option.splits prod.splits)

lemma ipc_inv_send: "ipc_inv k \<Longrightarrow> ipc_inv (snd (nexus_ipc_send pid h data n k))"
proof -
  assume inv: "ipc_inv k"
  have "chan_ok ((upd_queue (1 - s) ((ch_head c ! (1 - s) + ch_count c ! (1 - s)) mod 8) m c)
      \<lparr>ch_count := (ch_count c)[1 - s := ch_count c ! (1 - s) + 1]\<rparr>)"
    if "chan_ok c" "ch_count c ! (1 - s) < 8" for c s m
    using inbox_push(1) [of c "1 - s" m] that by simp
  then show ?thesis
    using inv by (auto simp: nexus_ipc_send_def Let_def NEXUS_CHANNEL_QUEUE_DEPTH_def not_le
      intro!: ipc_inv_upd_chan ipc_inv_chan split: option.splits)
qed

lemma ipc_inv_recv: "ipc_inv k \<Longrightarrow> ipc_inv (snd (nexus_ipc_recv pid h n k))"
proof -
  assume inv: "ipc_inv k"
  have "chan_ok (c\<lparr>ch_head := (ch_head c)[s := (ch_head c ! s + 1) mod 8], ch_count := (ch_count c)[s := ch_count c ! s - 1]\<rparr>)"
    if "chan_ok c" "0 < ch_count c ! s" "find_side c pid = Some s" for c s
    using inbox_pop(1) [of c s] that find_side_less by blast
  then show ?thesis
    using inv by (auto simp: nexus_ipc_recv_def Let_def NEXUS_CHANNEL_QUEUE_DEPTH_def
      intro!: ipc_inv_upd_chan ipc_inv_chan split: option.splits)
qed

lemma ipc_inv_terminate_handle: "ipc_inv k \<Longrightarrow> ipc_inv (terminate_handle pid i h k)"
  by (auto simp: terminate_handle_def Let_def intro!: ipc_inv_intros split: option.splits)

lemma ipc_inv_terminate: "ipc_inv k \<Longrightarrow> ipc_inv (nexus_ipc_process_terminate pid k)"
proof -
  assume inv: "ipc_inv k"
  have "ipc_inv (fold (terminate_handle pid i) hs k)" for i hs
    using inv by (induction hs arbitrary: k) (auto intro: ipc_inv_terminate_handle)
  then show ?thesis using inv by (simp add: nexus_ipc_process_terminate_def split: option.splits)
qed

text \<open>The calls that reach the channel table, in any order.\<close>

inductive ipc_step :: "kern \<Rightarrow> kern \<Rightarrow> bool" where
  create: "ipc_step k (snd (nexus_ipc_create a b k))"
| close: "ipc_step k (snd (nexus_ipc_close pid h k))"
| send: "ipc_step k (snd (nexus_ipc_send pid h data n k))"
| recv: "ipc_step k (snd (nexus_ipc_recv pid h n k))"
| terminate: "ipc_step k (nexus_ipc_process_terminate pid k)"

lemma ipc_step_inv: "ipc_step k k' \<Longrightarrow> ipc_inv k \<Longrightarrow> ipc_inv k'"
  by (induction rule: ipc_step.induct)
    (auto intro: ipc_inv_create ipc_inv_close ipc_inv_send ipc_inv_recv ipc_inv_terminate)

interpretation ipc_calls: preserved ipc_step ipc_inv
  by unfold_locales (rule ipc_step_inv)

section \<open>Opening a channel\<close>

lemma upd_handle_simps [simp]:
  "g_channels (upd_handle i h v k) = g_channels k" "ipc_ready (upd_handle i h v k) = ipc_ready k"
  "length (g_processes (upd_handle i h v k)) = length (g_processes k)"
  "length (g_processes k) = 8 \<Longrightarrow> process_get pid (upd_handle i h v k) = process_get pid k"
  "i < length (g_processes k) \<Longrightarrow> h < length (p_ipc_handles (proc_at k i)) \<Longrightarrow>
     p_ipc_handles (proc_at (upd_handle i h v k) i) ! h = v"
  "j \<noteq> i \<Longrightarrow> p_ipc_handles (proc_at (upd_handle i h v k) j) = p_ipc_handles (proc_at k j)"
  "length (g_processes k) = 8 \<Longrightarrow> j < 8 \<Longrightarrow> p_state (proc_at (upd_handle i h v k) j) = p_state (proc_at k j)"
  unfolding upd_handle_def
  by (simp_all add: process_get_upd_proc) (cases "j = i"; simp)

lemma create_link:
  assumes inv: "ipc_inv k" and c: "nexus_ipc_create a b k = (Some ha, k')"
  shows "\<exists>hb. link a ha b hb k' \<and> link b hb a ha k' \<and> waiting b hb k' = [] \<and> waiting a ha k' = []"
proof -
  from c obtain i j oh ph ch where ab: "a \<noteq> b" "process_get a k = Some i" "process_get b k = Some j"
    "p_state (proc_at k i) \<noteq> PROCESS_ZOMBIE" "p_state (proc_at k j) \<noteq> PROCESS_ZOMBIE"
    "find_free_handle (proc_at k i) = Some oh" "find_free_handle (proc_at k j) = Some ph"
    "find_free_channel k = Some ch" and ha: "ha = of_nat (oh + 1)"
    and k': "k' = upd_handle j ph (of_nat (ch + 1)) (upd_handle i oh (of_nat (ch + 1))
       (upd_chan ch (\<lambda>c. c\<lparr>ch_active := True, ch_closed := [False, False], ch_pid := [a, b], ch_head := [0, 0],
          ch_count := [0, 0]\<rparr>) k))"
    by (auto simp: nexus_ipc_create_def Let_def split: option.splits if_splits prod.splits)
  define c0 where "c0 = (chan_at k ch)\<lparr>ch_active := True, ch_closed := [False, False], ch_pid := [a, b],
      ch_head := [0, 0], ch_count := [0, 0]\<rparr>"
  have lt: "oh < 8" "ph < 8" "ch < 16" "i < 8" "j < 8"
    using ab process_get_SomeD
    by (auto simp: find_free_handle_def find_free_channel_def NEXUS_PROCESS_CHANNELS_def IPC_MAX_CHANNELS_def
      PROCESS_MAX_COUNT_def dest: find_upt_SomeD)
  have ij: "i \<noteq> j" using process_get_SomeD [OF ab(2)] process_get_SomeD [OF ab(3)] ab(1) by auto
  have len: "length (g_processes k) = 8" "length (g_channels k) = 16"
    "length (p_ipc_handles (proc_at k i)) = 8" "length (p_ipc_handles (proc_at k j)) = 8" "chan_ok (chan_at k ch)"
    using inv lt by (auto simp: ipc_inv_def)
  have c0: "chan_at k' ch = c0" "chan_ok c0" "inbox 0 c0 = []" "inbox 1 c0 = []"
    "find_side c0 a = Some 0" "find_side c0 b = Some 1" "\<not> ch_closed c0 ! 0" "\<not> ch_closed c0 ! 1"
    using lt len ab(1) chan_ok_open [OF len(5)] by (simp_all add: k' c0_def inbox_def find_side_def)
  have pg: "process_get pid k' = process_get pid k" for pid using len by (simp add: k')
  have st: "p_state (proc_at k' i) = p_state (proc_at k i)" "p_state (proc_at k' j) = p_state (proc_at k j)"
    using len lt by (simp_all add: k')
  have hd: "p_ipc_handles (proc_at k' i) ! oh = of_nat (ch + 1)" "p_ipc_handles (proc_at k' j) ! ph = of_nat (ch + 1)"
    using len lt ij by (simp_all add: k')
  have w: "unat (of_nat (oh + 1) :: u32) = oh + 1" "unat (of_nat (ph + 1) :: u32) = ph + 1" "unat (of_nat (ch + 1) :: u32) = ch + 1"
    using lt by (simp_all add: unat_of_nat_u32 del: of_nat_Suc of_nat_add)
  have fc: "find_channel_for_handle a ha k' = Some ch" "find_channel_for_handle b (of_nat (ph + 1)) k' = Some ch"
    using lt w hd c0 ab pg unfolding find_channel_for_handle_def Let_def ha NEXUS_PROCESS_CHANNELS_def IPC_MAX_CHANNELS_def
    by (simp_all add: word_less_nat_alt del: of_nat_Suc of_nat_add flip: unat_eq_0)
  have "link a ha b (of_nat (ph + 1)) k'" "link b (of_nat (ph + 1)) a ha k'"
    using fc ab pg st c0 len by (auto simp: link_def alive_def less_2_cases_iff k' simp del: of_nat_Suc of_nat_add)
  moreover have "waiting b (of_nat (ph + 1)) k' = []" "waiting a ha k' = []"
    using fc c0 by (simp_all add: waiting_def del: of_nat_Suc of_nat_add)
  ultimately show ?thesis by blast
qed

section \<open>Properties\<close>

text \<open>
  C29. The channel table stays within its bounds under every sequence of channel calls: queues have their
  eight slots, head and count index into them, and every process keeps its eight handles.
\<close>

theorem ipc_bounds:
  assumes "ipc_step\<^sup>*\<^sup>* k k'" and "ipc_inv k"
  shows "ipc_inv k'"
  using assms by (rule ipc_calls.history)

definition ex_proc :: "u64 \<Rightarrow> nexus_process" where
  "ex_proc pid = \<lparr>p_pid = pid, p_parent_pid = 0, p_cr3 = 0x7000, p_capabilities = NEXUS_CAP_ALL, p_start_tick = 0,
     p_cpu_ticks = 0, p_heap_base = 0x10000000, p_heap_end = 0x10000000, p_memory_limit = 0, p_priority = 16,
     p_env_count = 0, p_name = [], p_cwd = ''/'', p_env = replicate 8 ([], []), p_user_entry = 0, p_stack_base = 0,
     p_stack_size = 0, p_pages_reserved = 0, p_page_base = 0, p_page_count = 0, p_page_phys = replicate 16 0,
     p_page_va = replicate 16 0, p_page_flags = replicate 16 0, p_kernel_stack = 0, p_thread_id = 0,
     p_fds = replicate 16 \<lparr>fd_type = PROCESS_FD_UNUSED, fd_flags = 0, fd_object = 0, fd_offset = 0, fd_path = []\<rparr>,
     p_ipc_handles = replicate 8 0, p_exit_code = 0, p_exit_reason = 0,
     p_state = (if pid = 0 then PROCESS_UNUSED else PROCESS_READY), p_flags = 0\<rparr>"

definition ex_channel :: ipc_channel where
  "ex_channel = \<lparr>ch_active = False, ch_closed = [False, False], ch_pid = [0, 0], ch_head = [0, 0], ch_count = [0, 0],
     ch_queue = replicate 2 (replicate 8 [])\<rparr>"

definition ex_kern :: kern where
  "ex_kern = nexus_ipc_init \<lparr>kheap = ex_heap, g_processes = [ex_proc 1, ex_proc 2] @ replicate 6 (ex_proc 0), g_next_pid = 3,
     g_current_pid = 1, g_process_count = 2, g_zombie_count = 0, proc_ready = True,
     g_channels = replicate 16 ex_channel, ipc_ready = False\<rparr>"

lemma ex_kern_inv: "ipc_inv ex_kern"
proof -
  have "length (p_ipc_handles (([ex_proc 1, ex_proc 2] @ replicate 6 (ex_proc 0)) ! i)) = 8" if "i < 8" for i
  proof -
    have "([ex_proc 1, ex_proc 2] @ replicate 6 (ex_proc 0)) ! i \<in> set ([ex_proc 1, ex_proc 2] @ replicate 6 (ex_proc 0))"
      using that by (intro nth_mem) simp
    then show ?thesis by (auto simp: ex_proc_def)
  qed
  moreover have "chan_ok (ex_channel\<lparr>ch_active := False, ch_closed := [False, False]\<rparr>)"
    by (auto simp: chan_ok_def ex_channel_def less_2_cases_iff)
  ultimately show ?thesis by (simp add: ipc_inv_def ex_kern_def nexus_ipc_init_def map_replicate)
qed

lemma ex_create: "fst (nexus_ipc_create 1 2 ex_kern) = Some 1"
  by code_simp

theorem ipc_bounds_witness: "ipc_inv (snd (nexus_ipc_send 1 1 (Some (\<lambda>_. 7)) 3 (snd (nexus_ipc_create 1 2 ex_kern))))"
proof -
  have "ipc_step ex_kern (snd (nexus_ipc_create 1 2 ex_kern))" by (rule ipc_step.create)
  moreover have "ipc_step (snd (nexus_ipc_create 1 2 ex_kern))
      (snd (nexus_ipc_send 1 1 (Some (\<lambda>_. 7)) 3 (snd (nexus_ipc_create 1 2 ex_kern))))" by (rule ipc_step.send)
  ultimately show ?thesis
    using ipc_bounds [OF _ ex_kern_inv] by (meson rtranclp.rtrancl_into_rtrancl r_into_rtranclp)
qed

text \<open>
  C28. Delivery: on a fresh channel every sequence of at most eight messages of 1 to 256 bytes that the
  owner sends arrives at the peer complete, unchanged and in order, after which the queue is empty.
\<close>

theorem ipc_delivery:
  assumes "ipc_inv k" and "nexus_ipc_create a b k = (Some ha, k')"
    and "\<forall>m \<in> set ms. m \<noteq> [] \<and> length m \<le> 256" and "length ms \<le> 8"
  shows "\<exists>hb. fst (pop_all (recv_message b hb) (length ms) (push_all (send_message a ha) ms k')) = map Some ms \<and>
    waiting b hb (snd (pop_all (recv_message b hb) (length ms) (push_all (send_message a ha) ms k'))) = []"
proof -
  obtain hb where l: "link a ha b hb k'" "waiting b hb k' = []" using create_link [OF assms(1,2)] by blast
  show ?thesis
    using ipc.push_pop_all [OF l(1) assms(3)] l(2) assms(4) by (intro exI [of _ hb]) simp
qed

theorem ipc_delivery_witness:
  "\<exists>hb k'. nexus_ipc_create 1 2 ex_kern = (Some 1, k') \<and>
     fst (pop_all (recv_message 2 hb) 2 (push_all (send_message 1 1) [[1, 2], [3]] k')) = [Some [1, 2], Some [3]]"
proof -
  obtain k' where c: "nexus_ipc_create 1 2 ex_kern = (Some 1, k')" using ex_create by (metis prod.collapse)
  define ms :: "u8 list list" where "ms = [[1, 2], [3]]"
  have "length ms = 2" "\<forall>m \<in> set ms. m \<noteq> [] \<and> length m \<le> 256" by (simp_all add: ms_def)
  then have "\<exists>hb. fst (pop_all (recv_message 2 hb) 2 (push_all (send_message 1 1) ms k')) = map Some ms"
    using ipc_delivery [OF ex_kern_inv c, of ms] by auto
  then show ?thesis using c unfolding ms_def by auto
qed

text \<open>
  C30. Truncation: on a linked pair receiving with a buffer of \<open>n\<close> bytes returns the first \<open>n\<close> bytes of the oldest message and drops its
  rest with it.
\<close>

theorem ipc_truncates:
  assumes "link a ha b hb k" and "waiting b hb k = m # ms" and "n \<noteq> 0"
  shows "fst (nexus_ipc_recv b hb n k) = Some (take (unat n) m) \<and> waiting b hb (snd (nexus_ipc_recv b hb n k)) = ms"
proof -
  obtain j c s where l: "process_get b k = Some j" "p_state (proc_at k j) \<noteq> PROCESS_ZOMBIE"
    "find_channel_for_handle b hb k = Some c" "find_side (chan_at k c) b = Some s"
    "chan_ok (chan_at k c)" "s < 2" "waiting b hb k = inbox s (chan_at k c)"
    using assms(1) by (rule linkD)
  have cnt: "0 < ch_count (chan_at k c) ! s"
    using assms(2) l(7) by (cases "ch_count (chan_at k c) ! s") (auto simp: inbox_def)
  have hd: "ch_queue (chan_at k c) ! s ! (ch_head (chan_at k c) ! s) = m"
    using inbox_pop(2) [OF l(5,6) cnt] assms(2) l(7) by simp
  have same: "snd (nexus_ipc_recv b hb n k) = snd (recv_message b hb k)"
    using l cnt assms(3)
    by (simp add: recv_message_def nexus_ipc_recv_def Let_def NEXUS_CHANNEL_MESSAGE_MAX_def)
  have "fst (nexus_ipc_recv b hb n k) = Some (take (unat n) m)"
    using l cnt hd assms(3) by (simp add: nexus_ipc_recv_def Let_def)
  moreover obtain k' where "recv_message b hb k = (Some m, k')" "waiting b hb k' = ms"
    using recv_message_spec(2) [OF assms(1,2)] by blast
  ultimately show ?thesis using same by simp
qed

theorem ipc_truncates_witness:
  "\<exists>hb k. waiting 2 hb k = [[1, 2, 3]] \<and> fst (nexus_ipc_recv 2 hb 2 k) = Some [1, 2]"
proof -
  obtain k' where c: "nexus_ipc_create 1 2 ex_kern = (Some 1, k')" using ex_create by (metis prod.collapse)
  obtain hb where l: "link 1 1 2 hb k'" "waiting 2 hb k' = []" using create_link [OF ex_kern_inv c] by blast
  obtain k where k: "link 1 1 2 hb k" "waiting 2 hb k = [[1, 2, 3]]"
    using send_message_spec [OF l(1), of "[1, 2, 3]"] l(2) by auto
  show ?thesis using ipc_truncates [OF k, of 2] k(2) by auto
qed

end
