(* ===== verification/Process_Table.thy ===== *)
theory Process_Table
  imports Ipc
begin

text \<open>
  Invariants of the process table over the whole life cycle of processes, the rights of processes, their
  environment, and the checks on user memory.
\<close>

section \<open>The table as states and identifiers\<close>

definition tab :: "kern \<Rightarrow> (process_state \<times> u64) list" where
  "tab k = map (\<lambda>p. (p_state p, p_pid p)) (g_processes k)"

definition counts :: "kern \<Rightarrow> u64 \<times> u64 \<times> u64 \<times> u64 \<times> bool" where
  "counts k = (g_next_pid k, g_current_pid k, g_process_count k, g_zombie_count k, proc_ready k)"

lemma tab_upd_proc:
  "tab (upd_proc i f k) = (tab k)[i := (p_state (f (proc_at k i)), p_pid (f (proc_at k i)))]"
  by (simp add: tab_def upd_proc_def map_update)

lemma tab_upd_proc_same:
  assumes "\<And>p. p_state (f p) = p_state p \<and> p_pid (f p) = p_pid p"
  shows "tab (upd_proc i f k) = tab k"
proof (cases "i < length (g_processes k)")
  case True
  then show ?thesis
    unfolding tab_upd_proc using assms by (simp add: tab_def list_update_same_conv)
next
  case False
  then show ?thesis unfolding tab_upd_proc by (simp add: tab_def list_update_beyond)
qed

lemma tab_simps [simp]:
  "tab (set_mm m k) = tab k" "tab (upd_chan c g k) = tab k" "tab (upd_handle i h v k) = tab k"
  "tab (k\<lparr>g_process_count := n\<rparr>) = tab k" "tab (k\<lparr>g_zombie_count := n\<rparr>) = tab k" "tab (k\<lparr>g_current_pid := n\<rparr>) = tab k"
  "tab (k\<lparr>g_next_pid := n\<rparr>) = tab k"
  by (simp_all add: tab_def set_mm_def upd_chan_def) (simp add: upd_handle_def tab_upd_proc_same [unfolded tab_def])

lemma counts_simps [simp]:
  "counts (set_mm m k) = counts k" "counts (upd_chan c g k) = counts k" "counts (upd_handle i h v k) = counts k"
  "counts (upd_proc i f k) = counts k"
  by (simp_all add: counts_def set_mm_def upd_chan_def upd_handle_def upd_proc_def)

lemma upd_proc_counters [simp]:
  "g_next_pid (upd_proc i f k) = g_next_pid k" "g_current_pid (upd_proc i f k) = g_current_pid k"
  "g_process_count (upd_proc i f k) = g_process_count k" "g_zombie_count (upd_proc i f k) = g_zombie_count k"
  "kheap (upd_proc i f k) = kheap k"
  by (simp_all add: upd_proc_def)

lemma tab_nth: "i < length (g_processes k) \<Longrightarrow> tab k ! i = (p_state (proc_at k i), p_pid (proc_at k i))"
  by (simp add: tab_def)

lemma length_tab [simp]: "length (tab k) = length (g_processes k)"
  by (simp add: tab_def)

lemma process_get_tab:
  assumes "length (g_processes k) = 8"
  shows "process_get pid k = (if \<not> proc_ready k \<or> pid = 0 then None
    else find (\<lambda>i. fst (tab k ! i) \<noteq> PROCESS_UNUSED \<and> snd (tab k ! i) = pid) [0..<8])"
  unfolding process_get_def PROCESS_MAX_COUNT_def using assms by (auto simp: tab_nth intro!: find_cong)

lemma find_upt_unique:
  assumes "\<And>i j. i < n \<Longrightarrow> j < n \<Longrightarrow> P i \<Longrightarrow> P j \<Longrightarrow> i = j"
  shows "find P [0..<n] = Some i \<longleftrightarrow> i < n \<and> P i"
proof
  show "i < n \<and> P i" if "find P [0..<n] = Some i" using find_upt_SomeD [OF that] .
  show "find P [0..<n] = Some i" if "i < n \<and> P i"
  proof (cases "find P [0..<n]")
    case None
    then show ?thesis using that by (auto simp: find_None_iff)
  next
    case (Some j)
    then show ?thesis using find_upt_SomeD [OF Some] assms that by auto
  qed
qed

lemma set_mm_simps [simp]:
  "g_processes (set_mm m k) = g_processes k" "proc_ready (set_mm m k) = proc_ready k" "kmm (set_mm m k) = m"
  "g_channels (set_mm m k) = g_channels k" "process_get pid (set_mm m k) = process_get pid k"
  by (simp_all add: set_mm_def process_get_def)

section \<open>Counting\<close>

definition cnt :: "process_state set \<Rightarrow> (process_state \<times> u64) list \<Rightarrow> nat" where
  "cnt S t = length (filter (\<lambda>x. fst x \<in> S) t)"

lemma cnt_update:
  assumes "i < length t"
  shows "cnt S (t[i := x]) + (if fst (t ! i) \<in> S then 1 else 0) = cnt S t + (if fst x \<in> S then 1 else 0)"
proof -
  have t: "t = take i t @ t ! i # drop (Suc i) t" using assms by (rule id_take_nth_drop)
  have u: "t[i := x] = take i t @ x # drop (Suc i) t" using assms by (rule upd_conv_take_nth_drop)
  have "cnt S t = cnt S (take i t) + (if fst (t ! i) \<in> S then 1 else 0) + cnt S (drop (Suc i) t)"
    by (subst t) (simp add: cnt_def)
  moreover have "cnt S (t[i := x]) = cnt S (take i t) + (if fst x \<in> S then 1 else 0) + cnt S (drop (Suc i) t)"
    unfolding u by (simp add: cnt_def)
  ultimately show ?thesis by simp
qed

lemma cnt_le: "cnt S t \<le> length t"
  by (simp add: cnt_def)

section \<open>Invariant\<close>

definition pinv :: "(process_state \<times> u64) list \<Rightarrow> u64 \<times> u64 \<times> u64 \<times> u64 \<times> bool \<Rightarrow> bool" where
  "pinv t c \<longleftrightarrow> (case c of (nxt, cur, n, z, rdy) \<Rightarrow>
     rdy \<and> length t = 8 \<and> nxt \<noteq> 0 \<and> (\<forall>i < 8. fst (t ! i) \<noteq> PROCESS_UNUSED \<longrightarrow> snd (t ! i) \<noteq> 0 \<and> snd (t ! i) < nxt) \<and>
     (\<forall>i < 8. \<forall>j < 8. fst (t ! i) \<noteq> PROCESS_UNUSED \<and> fst (t ! j) \<noteq> PROCESS_UNUSED \<and> snd (t ! i) = snd (t ! j) \<longrightarrow> i = j) \<and>
     (\<forall>i < 8. fst (t ! i) = PROCESS_RUNNING \<longrightarrow> snd (t ! i) = cur) \<and>
     unat n = cnt {PROCESS_READY, PROCESS_RUNNING} t \<and> unat z = cnt {PROCESS_ZOMBIE} t)"

definition proc_inv :: "kern \<Rightarrow> bool" where
  "proc_inv k \<longleftrightarrow> pinv (tab k) (counts k)"

text \<open>One slot changes its state and keeps its process.\<close>

lemma pinv_state:
  assumes P: "pinv t (nxt, cur, n, z, rdy)" and i: "i < 8" "t ! i = (s, pid)" "s \<noteq> PROCESS_UNUSED"
    and s': "s' \<noteq> PROCESS_UNUSED" "s' = PROCESS_RUNNING \<longrightarrow> pid = cur"
    and n': "unat n' + (if s \<in> {PROCESS_READY, PROCESS_RUNNING} then 1 else 0) = unat n + (if s' \<in> {PROCESS_READY, PROCESS_RUNNING} then 1 else 0)"
    and z': "unat z' + (if s = PROCESS_ZOMBIE then 1 else 0) = unat z + (if s' = PROCESS_ZOMBIE then 1 else 0)"
  shows "pinv (t[i := (s', pid)]) (nxt, cur, n', z', rdy)"
proof -
  have l: "length t = 8" using P by (simp add: pinv_def)
  have a: "fst (t[i := (s', pid)] ! j) \<noteq> PROCESS_UNUSED \<longleftrightarrow> fst (t ! j) \<noteq> PROCESS_UNUSED"
    "snd (t[i := (s', pid)] ! j) = snd (t ! j)" if "j < 8" for j
    using that l i s'(1) by (auto simp: nth_list_update)
  have r: "snd (t ! j) = cur" if "j < 8" "fst (t[i := (s', pid)] ! j) = PROCESS_RUNNING" for j
    using that l i s'(2) P by (cases "j = i") (auto simp: pinv_def)
  show ?thesis
    using P a r l i n' z' cnt_update [of i t "{PROCESS_READY, PROCESS_RUNNING}" "(s', pid)"]
      cnt_update [of i t "{PROCESS_ZOMBIE}" "(s', pid)"]
    by (simp add: pinv_def)
qed

lemma pinv_run:
  assumes P: "pinv t (nxt, cur, n, z, rdy)" and i: "i < 8" "t ! i = (s, pid)" "s \<in> {PROCESS_READY, PROCESS_RUNNING}"
    and nr: "\<And>j. j < 8 \<Longrightarrow> j \<noteq> i \<Longrightarrow> fst (t ! j) \<noteq> PROCESS_RUNNING"
  shows "pinv (t[i := (PROCESS_RUNNING, pid)]) (nxt, pid, n, z, rdy)"
proof -
  have l: "length t = 8" using P by (simp add: pinv_def)
  have a: "fst (t[i := (PROCESS_RUNNING, pid)] ! j) \<noteq> PROCESS_UNUSED \<longleftrightarrow> fst (t ! j) \<noteq> PROCESS_UNUSED"
    "snd (t[i := (PROCESS_RUNNING, pid)] ! j) = snd (t ! j)" if "j < 8" for j
    using that l i by (auto simp: nth_list_update)
  have r: "snd (t ! j) = pid" if "j < 8" "fst (t[i := (PROCESS_RUNNING, pid)] ! j) = PROCESS_RUNNING" for j
    using that l i nr by (cases "j = i") auto
  show ?thesis
    using P a r l i cnt_update [of i t "{PROCESS_READY, PROCESS_RUNNING}" "(PROCESS_RUNNING, pid)"]
      cnt_update [of i t "{PROCESS_ZOMBIE}" "(PROCESS_RUNNING, pid)"]
    by (auto simp: pinv_def)
qed

lemma pinv_drop_current:
  assumes "pinv t (nxt, cur, n, z, rdy)" "\<And>j. j < 8 \<Longrightarrow> fst (t ! j) \<noteq> PROCESS_RUNNING"
  shows "pinv t (nxt, cur', n, z, rdy)"
  using assms by (simp add: pinv_def)

lemma pinv_new:
  assumes P: "pinv t (nxt, cur, n, z, rdy)" and i: "i < 8" "fst (t ! i) = PROCESS_UNUSED" and nx: "nxt \<noteq> UINT64_MAX"
  shows "pinv (t[i := (PROCESS_READY, nxt)]) (nxt + 1, cur, n + 1, z, rdy)" "pinv (t[i := (PROCESS_UNUSED, nxt)]) (nxt + 1, cur, n, z, rdy)"
proof -
  have l: "length t = 8" using P by (simp add: pinv_def)
  have u: "unat (nxt + 1) = unat nxt + 1"
  proof -
    have "unat nxt \<noteq> unat UINT64_MAX" using nx by (metis word_unat_eq_iff)
    then have "unat nxt < 18446744073709551615" using unat_u64_bound [of nxt] by (simp del: unat_u64_bound)
    then show ?thesis by (subst unat_add_u64) simp_all
  qed
  then have nz: "nxt + 1 \<noteq> 0" "x < nxt \<Longrightarrow> x < nxt + 1" "nxt < nxt + 1" for x
    by (auto simp: word_less_nat_alt simp flip: unat_eq_0)
  have c8: "unat n \<le> 8" using P cnt_le [of "{PROCESS_READY, PROCESS_RUNNING}" t] l by (simp add: pinv_def)
  then have n1: "unat (n + 1) = unat n + 1" by (subst unat_add_u64) simp_all
  have o: "snd (t ! j) \<noteq> nxt" "snd (t ! j) < nxt + 1" if "j < 8" "fst (t ! j) \<noteq> PROCESS_UNUSED" for j
    using P that nz(2) by (auto simp: pinv_def)
  have nn: "nxt \<noteq> 0" using P by (simp add: pinv_def)
  have R: "t[i := x] ! j = (if j = i then x else t ! j)" if "j < 8" for j x using that l i(1) by (simp add: nth_list_update)
  show "pinv (t[i := (PROCESS_READY, nxt)]) (nxt + 1, cur, n + 1, z, rdy)"
    using P R o nz nn l i n1 cnt_update [of i t "{PROCESS_READY, PROCESS_RUNNING}" "(PROCESS_READY, nxt)"]
      cnt_update [of i t "{PROCESS_ZOMBIE}" "(PROCESS_READY, nxt)"]
    by (auto simp: pinv_def split: if_splits) 
  show "pinv (t[i := (PROCESS_UNUSED, nxt)]) (nxt + 1, cur, n, z, rdy)"
    using P R o nz nn l i cnt_update [of i t "{PROCESS_READY, PROCESS_RUNNING}" "(PROCESS_UNUSED, nxt)"]
      cnt_update [of i t "{PROCESS_ZOMBIE}" "(PROCESS_UNUSED, nxt)"]
    by (auto simp: pinv_def split: if_splits)
qed

lemma pinv_free:
  assumes P: "pinv t (nxt, cur, n, z, rdy)" and i: "i < 8" "fst (t ! i) = PROCESS_ZOMBIE"
  shows "pinv (t[i := (PROCESS_UNUSED, 0)]) (nxt, cur, n, z - 1, rdy)" "z \<noteq> 0"
proof -
  have l: "length t = 8" using P by (simp add: pinv_def)
  note c = cnt_update [of i t "{PROCESS_ZOMBIE}" "(PROCESS_UNUSED, 0)"]
  have z: "1 \<le> unat z" using P c i l by (simp add: pinv_def)
  then show "z \<noteq> 0" by auto
  have z1: "unat (z - 1) = unat z - 1" using z by (subst unat_sub) (simp_all add: word_le_nat_alt)
  have R: "t[i := x] ! j = (if j = i then x else t ! j)" if "j < 8" for j x using that l i(1) by (simp add: nth_list_update)
  show "pinv (t[i := (PROCESS_UNUSED, 0)]) (nxt, cur, n, z - 1, rdy)"
    using P R l i z z1 c cnt_update [of i t "{PROCESS_READY, PROCESS_RUNNING}" "(PROCESS_UNUSED, 0)"]
    by (auto simp: pinv_def split: if_splits)
qed

section \<open>The operations keep the invariant\<close>

lemma proc_invD:
  assumes "proc_inv k"
  shows "length (g_processes k) = 8" "proc_ready k" "pinv (tab k) (g_next_pid k, g_current_pid k, g_process_count k, g_zombie_count k, True)"
  using assms by (auto simp: proc_inv_def pinv_def counts_def)

lemma process_get_proc_inv:
  assumes "proc_inv k"
  shows "process_get pid k = Some i \<longleftrightarrow> pid \<noteq> 0 \<and> i < 8 \<and> fst (tab k ! i) \<noteq> PROCESS_UNUSED \<and> snd (tab k ! i) = pid"
proof -
  note I = proc_invD [OF assms]
  have u: "i = j" if "i < 8" "j < 8" "fst (tab k ! i) \<noteq> PROCESS_UNUSED" "fst (tab k ! j) \<noteq> PROCESS_UNUSED"
    "snd (tab k ! i) = snd (tab k ! j)" for i j
    using I(3) that by (simp add: pinv_def)
  let ?P = "\<lambda>i. fst (tab k ! i) \<noteq> PROCESS_UNUSED \<and> snd (tab k ! i) = pid"
  have "find ?P [0..<8] = Some i \<longleftrightarrow> i < 8 \<and> ?P i" by (rule find_upt_unique) (use u in auto)
  then show ?thesis unfolding process_get_tab [OF I(1)] using I(2) by auto
qed

definition inherited :: "u64 \<Rightarrow> kern \<Rightarrow> u64" where
  "inherited parent k = (case process_get parent k of Some j \<Rightarrow> p_capabilities (proc_at k j) | None \<Rightarrow> NEXUS_CAP_ALL)"

lemma process_create_eq:
  fixes parent ticks :: u64
  assumes "proc_ready k" "g_next_pid k \<noteq> 0" "find (\<lambda>i. p_state (proc_at k i) = PROCESS_UNUSED) [0..<PROCESS_MAX_COUNT] = Some i"
    "paging_create_address_space (kmm k) = (root, m)"
  defines "k3 \<equiv> upd_proc i (\<lambda>p. p\<lparr>p_cr3 := root\<rparr>) (set_mm m (upd_proc i (process_identity (g_next_pid k) parent (inherited parent k) ticks)
      (k\<lparr>g_next_pid := g_next_pid k + 1\<rparr>)))"
  shows "fst (process_create ticks parent k) = (if root = 0 then 0 else g_next_pid k)"
    "snd (process_create ticks parent k) = (if root = 0 then upd_proc i (\<lambda>p. p\<lparr>p_state := PROCESS_UNUSED\<rparr>) k3
       else (upd_proc i process_fresh k3)\<lparr>g_process_count := g_process_count k3 + 1\<rparr>)"
proof -
  have kc: "kmm (upd_proc i f (k\<lparr>g_next_pid := x\<rparr>)) = kmm k" for f x by (simp add: upd_proc_def)
  have inh: "(case process_get parent (k\<lparr>g_next_pid := x\<rparr>) of None \<Rightarrow> NEXUS_CAP_ALL
      | Some j \<Rightarrow> p_capabilities (proc_at (k\<lparr>g_next_pid := x\<rparr>) j)) = inherited parent k" for x
    unfolding inherited_def process_get_def by (simp split: option.splits)
  show "fst (process_create ticks parent k) = (if root = 0 then 0 else g_next_pid k)"
    "snd (process_create ticks parent k) = (if root = 0 then upd_proc i (\<lambda>p. p\<lparr>p_state := PROCESS_UNUSED\<rparr>) k3
       else (upd_proc i process_fresh k3)\<lparr>g_process_count := g_process_count k3 + 1\<rparr>)"
    using assms(1-4) unfolding process_create_def Let_def k3_def inh by (simp_all add: kc)
qed

lemma proc_inv_create:
  assumes inv: "proc_inv k" and nx: "g_next_pid k \<noteq> UINT64_MAX"
  shows "proc_inv (snd (process_create ticks parent k))"
proof -
  note I = proc_invD [OF inv]
  have nz: "g_next_pid k \<noteq> 0" using I(3) by (simp add: pinv_def)
  show ?thesis
  proof (cases "find (\<lambda>i. p_state (proc_at k i) = PROCESS_UNUSED) [0..<PROCESS_MAX_COUNT]")
    case None
    then show ?thesis using inv by (simp add: process_create_def)
  next
    case (Some i)
    then have i: "i < 8" "fst (tab k ! i) = PROCESS_UNUSED"
      using find_upt_SomeD [OF Some] I(1) by (auto simp: PROCESS_MAX_COUNT_def tab_nth)
    note N = pinv_new [OF I(3) i nx]
    obtain root m where pc: "paging_create_address_space (kmm k) = (root, m)" by fastforce
    define caps where "caps = inherited parent k"
    note C = process_create_eq [OF I(2) nz Some pc, of ticks parent, folded caps_def]
    let ?k2 = "\<lambda>caps. upd_proc i (process_identity (g_next_pid k) parent caps ticks) (k\<lparr>g_next_pid := g_next_pid k + 1\<rparr>)"
    let ?k3 = "\<lambda>caps. upd_proc i (\<lambda>p. p\<lparr>p_cr3 := root\<rparr>) (set_mm m (?k2 caps))"
    have len: "i < length (g_processes (?k3 caps))" "i < length (g_processes (?k2 caps))" "i < length (g_processes k)"
      using i(1) I(1) by simp_all
    have pid: "p_pid (proc_at (?k3 caps) i) = g_next_pid k"
      using len by (simp add: process_identity_def)
    have t3: "tab (?k3 caps) = (tab k)[i := (PROCESS_UNUSED, g_next_pid k)]"
      using len(3) i(2) by (simp add: tab_upd_proc process_identity_def tab_nth)
    have c3: "counts (?k3 caps) = (g_next_pid k + 1, g_current_pid k, g_process_count k, g_zombie_count k, True)"
      using I(2) by (simp add: counts_def upd_proc_def set_mm_def)
    show ?thesis
    proof (cases "root = 0")
      case True
      then show ?thesis
        unfolding C(2) proc_inv_def using N(2) c3 t3 pid by (simp add: tab_upd_proc)
    next
      case False
      have "tab (upd_proc i process_fresh (?k3 caps)) = (tab k)[i := (PROCESS_READY, g_next_pid k)]"
        unfolding tab_upd_proc [of i process_fresh] t3 by (simp only: list_update_overwrite) (simp add: process_fresh_def pid)
      moreover have "counts ((upd_proc i process_fresh (?k3 caps))\<lparr>g_process_count := g_process_count (?k3 caps) + 1\<rparr>) =
          (g_next_pid k + 1, g_current_pid k, g_process_count k + 1, g_zombie_count k, True)"
        using c3 by (simp add: counts_def upd_proc_def)
      ultimately show ?thesis unfolding C(2) proc_inv_def using N(1) False by simp
    qed
  qed
qed

lemma proc_inv_same:
  assumes "tab k' = tab k" "counts k' = counts k" "proc_inv k"
  shows "proc_inv k'"
  using assms by (simp add: proc_inv_def)

text \<open>Releasing the current process leaves no running one.\<close>

lemma proc_inv_pause:
  assumes inv: "proc_inv k"
  defines "k1 \<equiv> (case process_get (g_current_pid k) k of None \<Rightarrow> k
     | Some j \<Rightarrow> if p_state (proc_at k j) = PROCESS_RUNNING then upd_proc j (\<lambda>p. p\<lparr>p_state := PROCESS_READY\<rparr>) k else k)"
  shows "proc_inv k1" "\<And>j. j < 8 \<Longrightarrow> fst (tab k1 ! j) \<noteq> PROCESS_RUNNING" "counts k1 = counts k"
proof -
  note I = proc_invD [OF inv]
  have cur: "snd (tab k ! j) = g_current_pid k" "snd (tab k ! j) \<noteq> 0" if "j < 8" "fst (tab k ! j) = PROCESS_RUNNING" for j
    using I(3) that by (auto simp: pinv_def)
  show c: "counts k1 = counts k" by (auto simp: k1_def split: option.splits)
  show "proc_inv k1" 
  proof (cases "process_get (g_current_pid k) k")
    case None
    then show ?thesis using inv by (simp add: k1_def)
  next
    case (Some j)
    note g = Some [unfolded process_get_proc_inv [OF inv]]
    show ?thesis
    proof (cases "p_state (proc_at k j) = PROCESS_RUNNING")
      case True
      have t: "tab k ! j = (PROCESS_RUNNING, g_current_pid k)" using g True I(1) by (auto simp: tab_nth prod_eq_iff)
      have "pinv ((tab k)[j := (PROCESS_READY, g_current_pid k)])
          (g_next_pid k, g_current_pid k, g_process_count k, g_zombie_count k, True)"
        using g t by (intro pinv_state [OF I(3), where s = PROCESS_RUNNING]) auto
      then have "pinv ((tab k)[j := (PROCESS_READY, g_current_pid k)]) (counts k)" using I(2) by (simp add: counts_def)
      then show ?thesis
        using Some True t g I(1) by (auto simp: k1_def proc_inv_def tab_upd_proc tab_nth)
    next
      case False
      then show ?thesis using Some inv by (simp add: k1_def)
    qed
  qed
  show "fst (tab k1 ! j) \<noteq> PROCESS_RUNNING" if "j < 8" for j
  proof (cases "fst (tab k ! j) = PROCESS_RUNNING")
    case True
    then have "process_get (g_current_pid k) k = Some j"
      using cur [OF that] that by (simp add: process_get_proc_inv [OF inv])
    then show ?thesis using True that I(1) by (simp add: k1_def tab_upd_proc tab_nth)
  next
    case False
    then have "fst ((tab k)[x := (PROCESS_READY, v)] ! j) \<noteq> PROCESS_RUNNING" for x v
      using that I(1) by (cases "x = j") simp_all
    then show ?thesis using False by (auto simp: k1_def tab_upd_proc split: option.splits)
  qed
qed

lemma proc_inv_clear_current: "proc_inv k \<Longrightarrow> proc_inv (process_clear_current k)"
proof -
  assume inv: "proc_inv k"
  note P = proc_inv_pause [OF inv]
  show ?thesis
    unfolding process_clear_current_def Let_def proc_inv_def
    using pinv_drop_current [OF proc_invD(3) [OF P(1)] P(2)] proc_invD(2) [OF P(1)] by (simp add: counts_def)
qed

lemma proc_inv_set_current: "proc_inv k \<Longrightarrow> proc_inv (snd (process_set_current pid k))"
proof -
  assume inv: "proc_inv k"
  note I = proc_invD [OF inv]
  show ?thesis
  proof (cases "process_get pid k")
    case None
    then show ?thesis using inv by (simp add: process_set_current_def)
  next
    case (Some i)
    note g = Some [unfolded process_get_proc_inv [OF inv]]
    show ?thesis
    proof (cases "p_state (proc_at k i) \<in> {PROCESS_READY, PROCESS_RUNNING}")
      case False
      then show ?thesis using Some inv by (auto simp: process_set_current_def)
    next
      case st: True
      define k1 where "k1 = (case process_get (g_current_pid k) k of None \<Rightarrow> k
         | Some j \<Rightarrow> if j \<noteq> i \<and> p_state (proc_at k j) = PROCESS_RUNNING
                     then upd_proc j (\<lambda>p. p\<lparr>p_state := PROCESS_READY\<rparr>) k else k)"
      have r: "snd (process_set_current pid k) = (upd_proc i (\<lambda>p. p\<lparr>p_state := PROCESS_RUNNING\<rparr>) k1)\<lparr>g_current_pid := pid\<rparr>"
        using Some st by (auto simp: process_set_current_def Let_def k1_def)
      have k1: "proc_inv k1 \<and> (\<forall>j < 8. j \<noteq> i \<longrightarrow> fst (tab k1 ! j) \<noteq> PROCESS_RUNNING) \<and> counts k1 = counts k \<and> tab k1 ! i = tab k ! i"
      proof (cases "process_get (g_current_pid k) k = Some i")
        case True
        have "fst (tab k ! j) \<noteq> PROCESS_RUNNING" if "j < 8" "j \<noteq> i" for j
        proof
          assume run: "fst (tab k ! j) = PROCESS_RUNNING"
          then have "snd (tab k ! j) = g_current_pid k" "snd (tab k ! j) \<noteq> 0" using I(3) that by (auto simp: pinv_def)
          then have "process_get (g_current_pid k) k = Some j"
            using run that by (simp add: process_get_proc_inv [OF inv])
          then show False using True that by simp
        qed
        then show ?thesis using True inv by (simp add: k1_def)
      next
        case False
        then have e: "k1 = (case process_get (g_current_pid k) k of None \<Rightarrow> k
            | Some j \<Rightarrow> if p_state (proc_at k j) = PROCESS_RUNNING then upd_proc j (\<lambda>p. p\<lparr>p_state := PROCESS_READY\<rparr>) k else k)"
          by (auto simp: k1_def split: option.splits)
        have "tab k1 ! i = tab k ! i"
          using False by (auto simp: k1_def tab_upd_proc nth_list_update split: option.splits)
        then show ?thesis using proc_inv_pause [OF inv, folded e] by blast
      qed
      have p1: "p_pid (proc_at k1 i) = pid" "tab k1 ! i = (p_state (proc_at k i), pid)"
        using k1 g I(1) proc_invD(1) [of k1] by (auto simp: tab_nth)
      have "pinv ((tab k1)[i := (PROCESS_RUNNING, pid)]) (g_next_pid k1, pid, g_process_count k1, g_zombie_count k1, True)"
        using k1 g p1 st by (intro pinv_run [OF proc_invD(3)]) auto
      then show ?thesis
        unfolding r proc_inv_def using p1 proc_invD(2) [of k1] k1 by (simp add: tab_upd_proc counts_def)
    qed
  qed
qed

lemma terminate_same: "tab (nexus_ipc_process_terminate pid k) = tab k" "counts (nexus_ipc_process_terminate pid k) = counts k"
proof -
  have 1: "tab (terminate_handle pid i h k) = tab k" "counts (terminate_handle pid i h k) = counts k" for i h k
    by (auto simp: terminate_handle_def Let_def split: option.splits)
  have "tab (fold (terminate_handle pid i) hs k) = tab k \<and> counts (fold (terminate_handle pid i) hs k) = counts k" for i hs
    by (induction hs arbitrary: k) (simp_all add: 1)
  then show "tab (nexus_ipc_process_terminate pid k) = tab k" "counts (nexus_ipc_process_terminate pid k) = counts k"
    by (simp_all add: nexus_ipc_process_terminate_def split: option.splits)
qed

lemma proc_inv_exit: "proc_inv k \<Longrightarrow> proc_inv (snd (process_exit_with_code pid code reason k))"
proof -
  assume inv: "proc_inv k"
  note I = proc_invD [OF inv]
  show ?thesis
  proof (cases "process_get pid k")
    case None
    then show ?thesis using inv by (simp add: process_exit_with_code_def)
  next
    case (Some i)
    note g = Some [unfolded process_get_proc_inv [OF inv]]
    show ?thesis
    proof (cases "p_state (proc_at k i) = PROCESS_ZOMBIE \<or> p_state (proc_at k i) = PROCESS_UNUSED")
      case True
      then show ?thesis using Some inv by (auto simp: process_exit_with_code_def)
    next
      case False
      define k1 where "k1 = nexus_ipc_process_terminate pid k"
      have k1: "tab k1 = tab k" "counts k1 = counts k" by (simp_all add: k1_def terminate_same)
      then have i1: "proc_inv k1" using inv by (rule proc_inv_same)
      note I1 = proc_invD [OF i1]
      have t: "tab k1 ! i = (p_state (proc_at k i), pid)" "p_pid (proc_at k1 i) = pid"
        using g I(1) I1(1) k1(1) tab_nth [of i k1] by (auto simp: tab_nth)
      let ?s = "p_state (proc_at k i)"
      have rr: "?s \<in> {PROCESS_READY, PROCESS_RUNNING}" using False by (cases ?s) auto
      have "cnt {PROCESS_READY, PROCESS_RUNNING} (tab k1) \<ge> 1"
        using cnt_update [of i "tab k1" "{PROCESS_READY, PROCESS_RUNNING}" "(PROCESS_UNUSED, 0)"] g I1(1) t rr by simp
      then have n: "1 \<le> unat (g_process_count k1)" using I1(3) by (simp add: pinv_def)
      then have n1: "unat (g_process_count k1 - 1) = unat (g_process_count k1) - 1" "g_process_count k1 \<noteq> 0"
        by (auto simp: unat_sub word_le_nat_alt)
      have "unat (g_zombie_count k1) \<le> 8" using I1(1,3) cnt_le [of "{PROCESS_ZOMBIE}" "tab k1"] by (simp add: pinv_def)
      then have z1: "unat (g_zombie_count k1 + 1) = unat (g_zombie_count k1) + 1" by (subst unat_add_u64) simp_all
      have "pinv ((tab k1)[i := (PROCESS_ZOMBIE, pid)])
          (g_next_pid k1, g_current_pid k1, g_process_count k1 - 1, g_zombie_count k1 + 1, True)"
        using g t(1) False n n1 z1 rr by (intro pinv_state [OF I1(3), where s = ?s]) auto
      moreover have "snd (process_exit_with_code pid code reason k) =
          (upd_proc i (\<lambda>p. p\<lparr>p_exit_code := code, p_exit_reason := reason, p_state := PROCESS_ZOMBIE\<rparr>) k1)
            \<lparr>g_process_count := g_process_count k1 - 1, g_zombie_count := g_zombie_count k1 + 1\<rparr>"
        using Some False n1(2) by (simp add: process_exit_with_code_def Let_def k1_def)
      ultimately show ?thesis
        using t(2) I1(2) by (simp add: proc_inv_def tab_upd_proc counts_def)
    qed
  qed
qed

lemma unmap_slot_same: "tab (unmap_slot i j k) = tab k" "counts (unmap_slot i j k) = counts k"
  unfolding unmap_slot_def Let_def by (simp_all add: tab_upd_proc_same)

lemma unmap_memory_same:
  "tab (snd (process_unmap_user_memory pid k)) = tab k" "counts (snd (process_unmap_user_memory pid k)) = counts k"
proof -
  have "tab (fold (unmap_slot i) js k) = tab k \<and> counts (fold (unmap_slot i) js k) = counts k" for i js
    by (induction js arbitrary: k) (simp_all add: unmap_slot_same)
  then show "tab (snd (process_unmap_user_memory pid k)) = tab k" "counts (snd (process_unmap_user_memory pid k)) = counts k"
    by (auto simp: process_unmap_user_memory_def tab_upd_proc_same split: option.splits)
qed

lemma reap_spec:
  assumes inv: "proc_inv k" and Some: "process_get pid k = Some i"
    and ok: "\<not> (p_state (proc_at k i) \<noteq> PROCESS_ZOMBIE \<or> tid \<noteq> 0 \<and> p_thread_id (proc_at k i) \<noteq> tid \<or>
                  tid = 0 \<and> p_thread_id (proc_at k i) \<noteq> 0)"
  shows "fst (process_reap pid tid k)" "tab (snd (process_reap pid tid k)) = (tab k)[i := (PROCESS_UNUSED, 0)]"
    "proc_inv (snd (process_reap pid tid k))"
proof -
  note I = proc_invD [OF inv]
  note g = Some [unfolded process_get_proc_inv [OF inv]]
  define k1 where "k1 = snd (process_unmap_user_memory pid k)"
  define k2 where "k2 = upd_proc i (\<lambda>p. p\<lparr>p_cr3 := 0\<rparr>) k1"
  define k3 where "k3 = (if p_cr3 (proc_at k1 i) \<noteq> 0 then set_mm (paging_destroy_address_space (p_cr3 (proc_at k1 i)) (kmm k2)) k2 else k2)"
  define k4 where "k4 = process_ipc_reset_handles pid k3"
  have t3: "tab k3 = tab k" "counts k3 = counts k"
    by (simp_all add: k3_def k2_def k1_def unmap_memory_same tab_upd_proc_same)
  then have t4: "tab k4 = tab k" "counts k4 = counts k"
    by (auto simp: k4_def process_ipc_reset_handles_def tab_upd_proc_same split: option.splits)
  note I4 = proc_invD [OF proc_inv_same [OF t4 inv]]
  have i: "i < 8" "fst (tab k4 ! i) = PROCESS_ZOMBIE" using g ok I(1) t4 by (auto simp: tab_nth)
  note F = pinv_free [OF I4(3) i]
  have pid: "pid \<noteq> 0" using g by simp
  have r: "process_reap pid tid k = (True, (upd_proc i process_reset k4)\<lparr>g_zombie_count := g_zombie_count k4 - 1\<rparr>)"
    using pid F(2) unfolding process_reap_def Let_def Some option.case(2) if_not_P [OF ok] k4_def k3_def k2_def k1_def
    by simp
  show "fst (process_reap pid tid k)" unfolding r by simp
  show "tab (snd (process_reap pid tid k)) = (tab k)[i := (PROCESS_UNUSED, 0)]"
    unfolding r using t4(1) by (simp add: tab_upd_proc process_reset_def)
  show "proc_inv (snd (process_reap pid tid k))"
    unfolding r proc_inv_def using F(1) I4(2) by (simp add: tab_upd_proc counts_def process_reset_def)
qed

lemma proc_inv_reap: "proc_inv k \<Longrightarrow> proc_inv (snd (process_reap pid tid k))"
proof -
  assume inv: "proc_inv k"
  show ?thesis
  proof (cases "process_get pid k")
    case None
    then show ?thesis using inv by (auto simp: process_reap_def)
  next
    case (Some i)
    show ?thesis
    proof (cases "p_state (proc_at k i) \<noteq> PROCESS_ZOMBIE \<or> tid \<noteq> 0 \<and> p_thread_id (proc_at k i) \<noteq> tid \<or>
                  tid = 0 \<and> p_thread_id (proc_at k i) \<noteq> 0")
      case True
      then show ?thesis using Some inv by (auto simp: process_reap_def)
    next
      case False
      then show ?thesis by (rule reap_spec(3) [OF inv Some])
    qed
  qed
qed

section \<open>Life cycle\<close>

text \<open>The calls that change the table.  A new identifier is drawn while the counter is below its limit.\<close>

inductive proc_step :: "kern \<Rightarrow> kern \<Rightarrow> bool" where
  create: "g_next_pid k \<noteq> UINT64_MAX \<Longrightarrow> proc_step k (snd (process_create ticks parent k))"
| set_current: "proc_step k (snd (process_set_current pid k))"
| clear_current: "proc_step k (process_clear_current k)"
| exit: "proc_step k (snd (process_exit_with_code pid code reason k))"
| reap: "proc_step k (snd (process_reap pid tid k))"

lemma proc_step_inv: "proc_step k k' \<Longrightarrow> proc_inv k \<Longrightarrow> proc_inv k'"
  by (induction rule: proc_step.induct)
    (auto intro: proc_inv_create proc_inv_set_current proc_inv_clear_current proc_inv_exit proc_inv_reap)

interpretation proc_calls: preserved proc_step proc_inv
  by unfold_locales (rule proc_step_inv)

lemma proc_inv_init: "length (g_processes k) = 8 \<Longrightarrow> proc_inv (process_init k)"
  by (auto simp: proc_inv_def pinv_def counts_def tab_def process_init_def cnt_def filter_empty_conv)

text \<open>
  C10. From initialisation on, whatever processes are created, made current, terminated and reaped: no
  two processes share an identifier, at most one is running and it is the current one, and the two
  counters are the numbers of live and of dead processes.
\<close>

theorem process_table_invariant:
  assumes "length (g_processes k0) = 8" and "proc_step\<^sup>*\<^sup>* (process_init k0) k"
  shows "(\<forall>i < 8. \<forall>j < 8. p_state (proc_at k i) \<noteq> PROCESS_UNUSED \<and> p_state (proc_at k j) \<noteq> PROCESS_UNUSED \<and>
      p_pid (proc_at k i) = p_pid (proc_at k j) \<longrightarrow> i = j) \<and>
    (\<forall>i < 8. p_state (proc_at k i) = PROCESS_RUNNING \<longrightarrow> process_current k = Some i) \<and>
    unat (g_process_count k) = length (filter (\<lambda>p. p_state p = PROCESS_READY \<or> p_state p = PROCESS_RUNNING) (g_processes k)) \<and>
    unat (g_zombie_count k) = length (filter (\<lambda>p. p_state p = PROCESS_ZOMBIE) (g_processes k))"
proof -
  have inv: "proc_inv k" using proc_calls.history [OF assms(2) proc_inv_init [OF assms(1)]] .
  note I = proc_invD [OF inv]
  have c: "cnt S (tab k) = length (filter (\<lambda>p. p_state p \<in> S) (g_processes k))" for S
    by (simp add: cnt_def tab_def filter_map comp_def)
  have r: "process_current k = Some i" if i: "i < 8" "p_state (proc_at k i) = PROCESS_RUNNING" for i
  proof -
    have "fst (tab k ! i) = PROCESS_RUNNING" using i I(1) by (simp add: tab_nth)
    moreover from this have "snd (tab k ! i) = g_current_pid k" "snd (tab k ! i) \<noteq> 0"
      using i(1) I(3) by (auto simp: pinv_def)
    ultimately show ?thesis using i(1) by (simp add: process_current_def process_get_proc_inv [OF inv])
  qed
  have u: "i = j" if "i < 8" "j < 8" "p_state (proc_at k i) \<noteq> PROCESS_UNUSED" "p_state (proc_at k j) \<noteq> PROCESS_UNUSED"
    "p_pid (proc_at k i) = p_pid (proc_at k j)" for i j
  proof -
    have "fst (tab k ! i) \<noteq> PROCESS_UNUSED" "fst (tab k ! j) \<noteq> PROCESS_UNUSED" "snd (tab k ! i) = snd (tab k ! j)"
      using that I(1) by (simp_all add: tab_nth)
    then show ?thesis using that(1,2) I(3) by (simp add: pinv_def)
  qed
  have n: "unat (g_process_count k) = cnt {PROCESS_READY, PROCESS_RUNNING} (tab k)" "unat (g_zombie_count k) = cnt {PROCESS_ZOMBIE} (tab k)"
    using I(3) by (simp_all add: pinv_def)
  show ?thesis using u r n unfolding c by auto
qed

theorem process_table_invariant_witness:
  "unat (g_process_count (snd (process_create 7 0 (process_init ex_kern)))) =
     length (filter (\<lambda>p. p_state p = PROCESS_READY \<or> p_state p = PROCESS_RUNNING)
       (g_processes (snd (process_create 7 0 (process_init ex_kern)))))"
proof -
  have l: "length (g_processes ex_kern) = 8" by (simp add: ex_kern_def nexus_ipc_init_def)
  have "proc_step (process_init ex_kern) (snd (process_create 7 0 (process_init ex_kern)))"
    by (rule proc_step.create) (simp add: process_init_def)
  then have "proc_step\<^sup>*\<^sup>* (process_init ex_kern) (snd (process_create 7 0 (process_init ex_kern)))" by (rule r_into_rtranclp)
  from process_table_invariant [OF l this] show ?thesis by simp
qed

lemma tab_exit:
  assumes inv: "proc_inv k" and g: "process_get pid k = Some i" "p_state (proc_at k i) \<noteq> PROCESS_ZOMBIE"
  shows "fst (process_exit_with_code pid code reason k)"
    "tab (snd (process_exit_with_code pid code reason k)) = (tab k)[i := (PROCESS_ZOMBIE, pid)]"
    "p_thread_id (proc_at (snd (process_exit_with_code pid code reason k)) i) = p_thread_id (proc_at k i)"
proof -
  note I = proc_invD [OF inv]
  have G: "i < 8" "p_state (proc_at k i) \<noteq> PROCESS_UNUSED" "p_pid (proc_at k i) = pid"
    using process_get_SomeD [OF g(1)] by (auto simp: PROCESS_MAX_COUNT_def)
  let ?k1 = "nexus_ipc_process_terminate pid k"
  have l1: "length (g_processes ?k1) = 8" using arg_cong [OF terminate_same(1) [of pid k], of length] I(1) by simp
  have p1: "p_pid (proc_at ?k1 i) = pid"
    using arg_cong [OF terminate_same(1) [of pid k], of "\<lambda>t. snd (t ! i)"] G I(1) l1 by (simp add: tab_nth)
  have th: "p_thread_id (proc_at (upd_handle j h v k) i) = p_thread_id (proc_at k i)" for j h v k
  proof (cases "j < length (g_processes k)")
    case True
    then show ?thesis by (cases "i = j") (simp_all add: upd_handle_def)
  next
    case False
    then show ?thesis by (simp add: upd_handle_def upd_proc_def list_update_beyond)
  qed
  have "p_thread_id (proc_at (terminate_handle pid j h k) i) = p_thread_id (proc_at k i)" for j h k
    by (auto simp: terminate_handle_def Let_def th split: option.splits)
  then have "p_thread_id (proc_at (fold (terminate_handle pid j) hs k) i) = p_thread_id (proc_at k i)" for j hs k
    by (induction hs arbitrary: k) simp_all
  then have t1: "p_thread_id (proc_at ?k1 i) = p_thread_id (proc_at k i)"
    by (simp add: nexus_ipc_process_terminate_def split: option.splits)
  show "fst (process_exit_with_code pid code reason k)"
    using g G by (simp add: process_exit_with_code_def Let_def)
  show "tab (snd (process_exit_with_code pid code reason k)) = (tab k)[i := (PROCESS_ZOMBIE, pid)]"
    using g G p1 by (simp add: process_exit_with_code_def Let_def tab_upd_proc terminate_same)
  show "p_thread_id (proc_at (snd (process_exit_with_code pid code reason k)) i) = p_thread_id (proc_at k i)"
    using g G l1 t1 by (simp add: process_exit_with_code_def Let_def)
qed

text \<open>
  C31. The end of a process: terminating a live process succeeds once and leaves a zombie that cannot be
  terminated again or made current; reaping it through its thread succeeds and frees its identifier.
\<close>

theorem process_lifecycle:
  assumes "proc_inv k" and "process_get pid k = Some i" and "p_state (proc_at k i) \<noteq> PROCESS_ZOMBIE"
    and "process_exit_with_code pid code reason k = (r, k1)"
  shows "r \<and> p_state (proc_at k1 i) = PROCESS_ZOMBIE \<and> process_exit_with_code pid code' reason' k1 = (False, k1) \<and>
    process_set_current pid k1 = (False, k1) \<and>
    (\<exists>k2. process_reap pid (p_thread_id (proc_at k i)) k1 = (True, k2) \<and> proc_inv k2 \<and> process_get pid k2 = None)"
proof -
  note E = tab_exit [OF assms(1-3), of code reason]
  have i1: "proc_inv k1" using proc_inv_exit [OF assms(1), of pid code reason] assms(4) by simp
  note I1 = proc_invD [OF i1]
  have G: "i < 8" "pid \<noteq> 0" using process_get_SomeD [OF assms(2)] by (auto simp: PROCESS_MAX_COUNT_def)
  have t: "tab k1 ! i = (PROCESS_ZOMBIE, pid)" "p_thread_id (proc_at k1 i) = p_thread_id (proc_at k i)"
    using E assms(4) G proc_invD(1) [OF assms(1)] by simp_all
  then have z: "p_state (proc_at k1 i) = PROCESS_ZOMBIE" "process_get pid k1 = Some i"
    using G I1(1) by (simp_all add: tab_nth process_get_proc_inv [OF i1])
  obtain r2 k2 where rp: "process_reap pid (p_thread_id (proc_at k i)) k1 = (r2, k2)" by fastforce
  have i2: "proc_inv k2" using proc_inv_reap [OF i1, of pid "p_thread_id (proc_at k i)"] rp by simp
  have "\<not> (p_state (proc_at k1 i) \<noteq> PROCESS_ZOMBIE \<or> p_thread_id (proc_at k i) \<noteq> 0 \<and> p_thread_id (proc_at k1 i) \<noteq> p_thread_id (proc_at k i) \<or>
      p_thread_id (proc_at k i) = 0 \<and> p_thread_id (proc_at k1 i) \<noteq> 0)"
    using z t(2) by simp
  note R = reap_spec [OF i1 z(2) this]
  have r2: "r2" and "tab k2 = (tab k1)[i := (PROCESS_UNUSED, 0)]" using R rp by simp_all
  then have u: "tab k2 ! j = (if j = i then (PROCESS_UNUSED, 0) else tab k1 ! j)" for j
    using G(1) I1(1) by (simp add: nth_list_update)
  have "process_get pid k2 \<noteq> Some j" for j
  proof
    assume "process_get pid k2 = Some j"
    then have j: "j < 8" "fst (tab k2 ! j) \<noteq> PROCESS_UNUSED" "snd (tab k2 ! j) = pid" by (auto simp: process_get_proc_inv [OF i2])
    then have "j \<noteq> i" "process_get pid k1 = Some j" using u G(2) by (auto simp: process_get_proc_inv [OF i1] split: if_splits)
    then show False using z(2) by simp
  qed
  then have "process_get pid k2 = None" by (cases "process_get pid k2") auto
  then show ?thesis
    using E(1) assms(4) z rp r2 i2 by (simp add: process_exit_with_code_def process_set_current_def)
qed

lemma ex_kern_tab: "tab ex_kern = [(PROCESS_READY, 1), (PROCESS_READY, 2)] @ replicate 6 (PROCESS_UNUSED, 0)"
  "counts ex_kern = (3, 1, 2, 0, True)"
  by code_simp+

lemma ex_kern_proc_inv: "proc_inv ex_kern"
proof -
  have 8: "(\<forall>i < 8. P i) \<longleftrightarrow> (\<forall>i \<in> {0, 1, 2, 3, 4, 5, 6, 7}. P i)" for P :: "nat \<Rightarrow> bool"
    by (simp add: eval_nat_numeral All_less_Suc) blast
  show ?thesis
    unfolding proc_inv_def ex_kern_tab pinv_def 8 by (simp add: cnt_def)
qed

lemma ex_kern_get: "process_get 2 ex_kern = Some 1" "p_state (proc_at ex_kern 1) = PROCESS_READY"
  by code_simp+

theorem process_lifecycle_witness:
  "\<exists>k1 k2. process_exit_with_code 2 7 0 ex_kern = (True, k1) \<and> process_exit_with_code 2 7 0 k1 = (False, k1) \<and>
     process_reap 2 (p_thread_id (proc_at ex_kern 1)) k1 = (True, k2) \<and> process_get 2 k2 = None"
proof -
  obtain r k1 where e: "process_exit_with_code 2 7 0 ex_kern = (r, k1)" by fastforce
  have "p_state (proc_at ex_kern 1) \<noteq> PROCESS_ZOMBIE" using ex_kern_get(2) by simp
  from process_lifecycle [OF ex_kern_proc_inv ex_kern_get(1) this e, of 7 0] show ?thesis using e by auto
qed

section \<open>Rights\<close>

text \<open>
  C32. Rights are inherited, not gained: a process created by an existing one has exactly its parent's
  capabilities, whatever capability a process drops it no longer has, and dropping leaves every other
  capability and every other process as it was.
\<close>

theorem capabilities_inherited:
  assumes "proc_inv k" and "g_next_pid k \<noteq> UINT64_MAX" and "process_get parent k = Some j"
    and "process_create ticks parent k = (pid, k')" and "pid \<noteq> 0" and "nexus_capability_valid c"
  shows "process_get_capabilities pid k' = process_get_capabilities parent k \<and>
    (let k'' = snd (process_drop_capability pid c k') in
       \<not> process_has_capability pid c k'' \<and>
       process_get_capabilities pid k'' = process_get_capabilities parent k AND NOT c \<and>
       (\<forall>q. q \<noteq> pid \<longrightarrow> process_get_capabilities q k'' = process_get_capabilities q k'))"
proof -
  note I = proc_invD [OF assms(1)]
  have nz: "g_next_pid k \<noteq> 0" using I(3) by (simp add: pinv_def)
  obtain i where i: "find (\<lambda>i. p_state (proc_at k i) = PROCESS_UNUSED) [0..<PROCESS_MAX_COUNT] = Some i"
    using assms(4,5) by (auto simp: process_create_def split: option.splits if_splits)
  have i8: "i < 8" using find_upt_SomeD [OF i] by (simp add: PROCESS_MAX_COUNT_def)
  obtain root m where pc: "paging_create_address_space (kmm k) = (root, m)" by fastforce
  note C = process_create_eq [OF I(2) nz i pc, of ticks parent]
  have r: "root \<noteq> 0" "pid = g_next_pid k" using C(1) assms(4,5) by (auto split: if_splits)
  have at: "p_pid (proc_at k' i) = pid \<and> p_state (proc_at k' i) = PROCESS_READY \<and> p_capabilities (proc_at k' i) = inherited parent k"
    using C(2) assms(4) r i8 I(1) by (simp add: process_fresh_def process_identity_def)
  have i': "proc_inv k'" using proc_inv_create [OF assms(1,2), of ticks parent] assms(4) by simp
  note I' = proc_invD [OF i']
  have g: "process_get pid k' = Some i"
    using at i8 assms(5) I'(1) by (simp add: process_get_proc_inv [OF i'] tab_nth)
  have caps: "process_get_capabilities pid k' = process_get_capabilities parent k"
    using g at assms(3) by (simp add: process_get_capabilities_def inherited_def)
  let ?k = "upd_proc i (\<lambda>p. p\<lparr>p_capabilities := p_capabilities p AND NOT c\<rparr>) k'"
  have d: "snd (process_drop_capability pid c k') = ?k" using g assms(6) by (simp add: process_drop_capability_def)
  have pg: "process_get q ?k = process_get q k'" for q using I'(1) by (simp add: process_get_upd_proc)
  have c0: "c \<noteq> 0" using assms(6) by (auto simp: nexus_capability_valid_def)
  have "(x AND NOT c) AND c \<noteq> c" for x using c0 by (simp add: and.assoc)
  moreover have "process_get_capabilities q ?k = process_get_capabilities q k'" if "q \<noteq> pid" for q
  proof (cases "process_get q k'")
    case (Some l)
    then have "l \<noteq> i" using process_get_SomeD [OF Some] at that by auto
    then show ?thesis using Some pg by (simp add: process_get_capabilities_def)
  qed (simp add: process_get_capabilities_def pg)
  ultimately show ?thesis
    using caps g pg i8 I'(1) unfolding d Let_def by (simp add: process_get_capabilities_def process_has_capability_def)
qed

lemma for_entries_skip: "(\<And>i. f i s = (True, s)) \<Longrightarrow> for_entries f is s = (True, s)"
  by (induction "is") auto

lemma clone_empty:
  assumes "alloc_table_page s = (dst, s1)" "dst \<noteq> 0" "table_from_phys src = Some src" "table_from_phys dst = Some dst"
    "\<And>i. get_entry src i s1 = 0"
  shows "clone_table (Suc n) src s = (Some dst, s1)"
proof -
  have "for_entries (clone_entry (clone_table n) (Suc n) src dst) indices s1 = (True, s1)"
    by (rule for_entries_skip) (simp add: clone_entry_def assms(5))
  then show ?thesis using assms(1-4) by simp
qed

lemma ex_alloc: "fst (alloc_table_page ex_mm) = 0x1000" by code_simp

lemma ex_address_space: "fst (paging_create_address_space ex_mm) = 0x1000"
proof -
  obtain s1 where a: "alloc_table_page ex_mm = (0x1000, s1)" using ex_alloc by (metis prod.collapse)
  have "phys s1 = (\<lambda>_. 0)"
    using a by (auto simp: alloc_table_page_def Let_def zero_bytes_def zero_table_def ex_mm_def split: if_splits prod.splits option.splits)
  then have z: "get_entry 0x7000 i s1 = 0" for i by (simp add: get_entry_def load64_def)
  have "clone_table (Suc 3) 0x7000 ex_mm = (Some 0x1000, s1)"
    by (rule clone_empty [OF a]) (simp_all add: table_from_phys_def z)
  then show ?thesis by (simp add: paging_create_address_space_def ex_mm_def eval_nat_numeral)
qed
theorem capabilities_inherited_witness:
  "\<exists>pid k'. process_create 9 2 ex_kern = (pid, k') \<and> pid \<noteq> 0 \<and>
     process_get_capabilities pid (snd (process_drop_capability pid NEXUS_CAP_ADMIN k')) = NEXUS_CAP_ALL AND NOT NEXUS_CAP_ADMIN"
proof -
  obtain pid k' where c: "process_create 9 2 ex_kern = (pid, k')" by fastforce
  have n: "proc_ready ex_kern" "g_next_pid ex_kern = 3" "kmm ex_kern = ex_mm"
    by (simp_all add: ex_kern_def nexus_ipc_init_def ex_heap_def heap_init_def)
  have f: "find (\<lambda>i. p_state (proc_at ex_kern i) = PROCESS_UNUSED) [0..<PROCESS_MAX_COUNT] = Some 2" by code_simp
  have v: "nexus_capability_valid NEXUS_CAP_ADMIN" by code_simp
  have p: "process_get_capabilities 2 ex_kern = NEXUS_CAP_ALL" by code_simp
  obtain m where a: "paging_create_address_space (kmm ex_kern) = (0x1000, m)"
    using ex_address_space n(3) by (metis prod.collapse)
  have "fst (process_create 9 2 ex_kern) = 3"
    using process_create_eq(1) [OF n(1) _ f a, of 9 2] n(2) by simp
  then have pid: "pid \<noteq> 0" using c by simp
  have nx: "g_next_pid ex_kern \<noteq> UINT64_MAX" using n(2) by simp
  show ?thesis
    using capabilities_inherited [OF ex_kern_proc_inv nx ex_kern_get(1) c pid v] c pid p by (simp add: Let_def)
qed

section \<open>User memory\<close>

lemma page_of_near:
  assumes "unat va mod 4096 + d < 4096"
  shows "(va + of_nat d) AND NOT (PAGE_SIZE - 1) = va AND NOT (PAGE_SIZE - 1)"
proof -
  have "unat va div 4096 < 4503599627370496"
    using unat_u64_bound [of va] by (simp only: less_mult_imp_div_less)
  moreover have "unat va = 4096 * (unat va div 4096) + unat va mod 4096" by simp
  ultimately have b: "unat va + d < 18446744073709551616" using assms by linarith
  have u: "unat (va + of_nat d) = unat va + d" using b by (subst unat_add_u64) (simp_all add: unat_of_nat_u64)
  have m: "(PAGE_SIZE - 1 :: u64) = mask 12" by (simp add: PAGE_SIZE_def mask_literals)
  have "unat va + d = (unat va mod 4096 + d) + 4096 * (unat va div 4096)" by simp
  then have "(unat va + d) div 4096 = (unat va mod 4096 + d) div 4096 + unat va div 4096"
    by (metis div_mult_self2 zero_neq_numeral add.commute)
  then have "(unat va + d) div 4096 = unat va div 4096" using assms(1) by simp
  then show ?thesis unfolding word_unat_eq_iff m unat_align_mult u by simp
qed

lemma page_offset: "unat (va AND (PAGE_SIZE - 1)) = unat va mod 4096"
proof -
  have m: "(PAGE_SIZE - 1 :: u64) = mask 12" by (simp add: PAGE_SIZE_def mask_literals)
  show ?thesis unfolding m unat_and_mask by simp
qed

text \<open>The chunks of a range reach every page of it and no other.\<close>

lemma user_chunks_pages:
  assumes "\<And>a b. a AND NOT (PAGE_SIZE - 1) = b AND NOT (PAGE_SIZE - 1) \<Longrightarrow> P a = P b"
  shows "list_all (\<lambda>x. P (fst x)) (user_chunks base n off) \<longleftrightarrow> (\<forall>o1. off \<le> o1 \<and> o1 < n \<longrightarrow> P (base + o1))"
  using assms
proof (induction base n off rule: user_chunks.induct)
  case (1 base n off)
  show ?case
  proof (cases "off < n")
    case False
    then show ?thesis by (subst user_chunks.simps) auto
  next
    case True
    define c where "c = (if PAGE_SIZE - (base + off AND (PAGE_SIZE - 1)) > n - off then n - off
      else PAGE_SIZE - (base + off AND (PAGE_SIZE - 1)))"
    note R = page_rest [OF True c_def]
    have u: "user_chunks base n off = (base + off, off, c) # user_chunks base n (off + c)"
      using True by (subst user_chunks.simps) (simp add: Let_def c_def)
    have IH: "list_all (\<lambda>x. P (fst x)) (user_chunks base n (off + c)) \<longleftrightarrow> (\<forall>o1. off + c \<le> o1 \<and> o1 < n \<longrightarrow> P (base + o1))"
      by (rule "1.IH" [OF True refl refl _ "1.prems"]) (simp add: c_def)
    have cw: "c \<le> PAGE_SIZE - (base + off AND (PAGE_SIZE - 1))" by (auto simp: c_def)
    have off4: "unat (base + off AND (PAGE_SIZE - 1)) < 4096" unfolding page_offset by simp
    then have "unat (PAGE_SIZE - (base + off AND (PAGE_SIZE - 1))) = 4096 - unat (base + off) mod 4096"
      by (subst unat_sub) (simp_all add: word_le_nat_alt PAGE_SIZE_def page_offset [unfolded PAGE_SIZE_def, simplified])
    then have c4: "unat (base + off) mod 4096 + unat c \<le> 4096" using cw by (simp add: word_le_nat_alt)
    have near: "P (base + o1) = P (base + off)" if "off \<le> o1" "o1 < off + c" for o1
    proof (rule "1.prems")
      define d where "d = unat o1 - unat off"
      have d: "unat o1 = unat off + d" "d < unat c" using that R(3) by (auto simp: d_def word_le_nat_alt word_less_nat_alt)
      have du: "unat (of_nat d :: u64) = d" using d(2) unat_u64_bound [of c] by (intro unat_of_nat_u64) linarith
      have "unat (off + of_nat d) = unat off + d"
        using du d(2) R(2) unat_u64_bound [of n] by (subst unat_add_u64) linarith+
      then have o1: "o1 = off + of_nat d" using d(1) by (simp add: word_unat_eq_iff)
      have "base + o1 = (base + off) + of_nat d" by (simp add: o1 add.assoc)
      then show "base + o1 AND NOT (PAGE_SIZE - 1) = base + off AND NOT (PAGE_SIZE - 1)"
        using page_of_near [of "base + off" d] c4 d(2) by (simp only:)
    qed
    have oc: "off \<le> off + c" "off < off + c" using R by (simp_all add: word_le_nat_alt word_less_nat_alt)
    have "(\<forall>o1. off \<le> o1 \<and> o1 < n \<longrightarrow> P (base + o1)) \<longleftrightarrow>
        P (base + off) \<and> (\<forall>o1. off + c \<le> o1 \<and> o1 < n \<longrightarrow> P (base + o1))"
      using near oc True by (meson linorder_not_le order.trans order_refl)
    then show ?thesis unfolding u using IH by simp
  qed
qed

text \<open>
  C18. The check of user ranges is exact: \<open>process_user_range_valid\<close> accepts a range exactly when the
  process is alive, the range is not empty and lies within the user area, and every byte of it is in a
  page registered for the process with the required rights.
\<close>

theorem user_range_valid_exact:
  "process_user_range_valid pid va n required k \<longleftrightarrow>
     (\<exists>i. process_get pid k = Some i \<and> p_state (proc_at k i) \<noteq> PROCESS_ZOMBIE \<and> user_bounds va n \<and>
        (\<forall>off < n. page_allows (proc_at k i) required (va + off)))"
proof -
  have "list_all (\<lambda>(a, off, c). page_allows p required a) (user_chunks va n 0) \<longleftrightarrow>
      (\<forall>off < n. page_allows p required (va + off))" for p
  proof -
    have "(\<lambda>(a, off, c). page_allows p required a) = (\<lambda>x :: u64 \<times> u64 \<times> u64. page_allows p required (fst x))"
      by (auto simp: fun_eq_iff)
    then show ?thesis using user_chunks_pages [of "page_allows p required" va n 0] by (simp add: page_allows_def)
  qed
  then show ?thesis by (auto simp: process_user_range_valid_def split: option.splits)
qed

definition ex_kern_paged :: kern where
  "ex_kern_paged = upd_proc 1 (\<lambda>p. p\<lparr>p_page_count := 1, p_page_va := (p_page_va p)[0 := 0x400000],
     p_page_flags := (p_page_flags p)[0 := VMM_PAGE_WRITABLE]\<rparr>) ex_kern"

theorem user_range_valid_exact_witness:
  "process_user_range_valid 2 0x400010 8 VMM_PAGE_WRITABLE ex_kern_paged \<and>
   page_allows (proc_at ex_kern_paged 1) VMM_PAGE_WRITABLE 0x400015"
proof -
  have v: "process_user_range_valid 2 0x400010 8 VMM_PAGE_WRITABLE ex_kern_paged"
    "process_get 2 ex_kern_paged = Some 1" by code_simp+
  then have "\<forall>off < 8. page_allows (proc_at ex_kern_paged 1) VMM_PAGE_WRITABLE (0x400010 + off)"
    unfolding user_range_valid_exact by simp
  from this [rule_format, of 5] show ?thesis using v by simp
qed

lemma zero_bytes_xlate:
  assumes "hier m 4 root" "page_aligned frame" "frame \<notin> tset m 4 root"
  shows "xlate (zero_bytes m frame 4096) 4 root a = xlate m 4 root a"
proof (rule hier_frame(2) [OF assms(1)])
  fix x assume "page_of x \<in> tset m 4 root"
  then have "page_of x \<noteq> frame" using assms(3) by auto
  then show "zero_bytes m frame 4096 x = m x" by (simp add: zero_bytes_page [OF assms(2)])
qed

text \<open>The three outcomes of mapping a page: nothing happens, the page is mapped and reported as failed, or the mapping
  fails and is reported as done.\<close>

lemma map_user_page_cases:
  assumes "process_get pid k = Some i" "process_map_user_page pid va flags k = (ok, k')" "pmm_alloc_page (pm (kmm k)) = (frame, q)"
    and "paging_map_page_in_cr3 (p_cr3 (proc_at k i)) va frame (VMM_PAGE_PRESENT OR VMM_PAGE_USER OR flags) ((kmm k)\<lparr>pm := q\<rparr>) = (r, s2)"
  obtains (none) "kmm k' = kmm k \<or> kmm k' = (kmm k)\<lparr>pm := q\<rparr>" "\<not> ok"
    | (mapped) "frame \<noteq> 0" "r = 0" "\<not> ok" "kmm k' = s2\<lparr>pm := pmm_free_page frame (pm s2)\<rparr>" "va AND 0xFFF = 0"
    | (kept) "frame \<noteq> 0" "r \<noteq> 0" "ok" "kmm k' = s2\<lparr>phys := zero_bytes (phys s2) frame 4096\<rparr>"
  using assms
  by (auto simp: process_map_user_page_def Let_def set_mm_def upd_proc_def PAGE_SIZE_def split: if_splits)

text \<open>
  C15. \<open>process_map_user_page\<close> reads the result of \<open>paging_map_page_in_cr3\<close> the wrong way round, 0 being
  its success: whenever the function reports success no translation of the process has changed, so the
  new frame is not mapped; and whenever the page does become mapped the function reports failure and
  its frame has been given back to the allocator.
\<close>

theorem map_user_page_inverted:
  assumes "process_get pid k = Some i" and "sound 4 (p_cr3 (proc_at k i)) (kmm k)"
    and "process_map_user_page pid va flags k = (ok, k')"
  shows "(ok \<longrightarrow> paging_virt_to_phys_in_cr3 (p_cr3 (proc_at k i)) a (kmm k') = paging_virt_to_phys_in_cr3 (p_cr3 (proc_at k i)) a (kmm k)) \<and>
    (paging_virt_to_phys_in_cr3 (p_cr3 (proc_at k i)) va (kmm k') \<noteq> paging_virt_to_phys_in_cr3 (p_cr3 (proc_at k i)) va (kmm k) \<longrightarrow>
       \<not> ok \<and> (\<exists>frame. page_free (kmm k') frame \<and>
         paging_virt_to_phys_in_cr3 (p_cr3 (proc_at k i)) va (kmm k') = frame OR page_of (VMM_PAGE_PRESENT OR VMM_PAGE_USER OR flags)))"
proof -
  let ?root = "p_cr3 (proc_at k i)"
  let ?X = "\<lambda>s a. paging_virt_to_phys_in_cr3 ?root a s"
  have X: "?X s a = xval (xlate (phys s) 4 ?root a)" for s a by (simp add: paging_virt_to_phys_in_cr3_def virt_to_phys_xlate)
  obtain frame q where al: "pmm_alloc_page (pm (kmm k)) = (frame, q)" by fastforce
  define s1 where "s1 = (kmm k)\<lparr>pm := q\<rparr>"
  have inv: "pmm_inv (pm (kmm k))" using assms(2) by (simp add: sound_def)
  note A = pmm_alloc_page_spec [OF inv al]
  have p1: "phys s1 = phys (kmm k)" "pm s1 = q" by (simp_all add: s1_def)
  have fs: "free_set q \<subseteq> free_set (pm (kmm k))" using A(4) A(5) by (cases "frame = 0") blast+
  have snd1: "sound 4 ?root s1" using assms(2) A(1) fs by (auto simp: sound_def s1_def page_free_def)
  obtain r s2 where mp: "paging_map_page_in_cr3 ?root va frame (VMM_PAGE_PRESENT OR VMM_PAGE_USER OR flags) s1 = (r, s2)" by fastforce
  note M = map_page_root_spec [OF snd1 mp [unfolded paging_map_page_in_cr3_def]]
  show ?thesis
  proof (cases rule: map_user_page_cases [OF assms(1,3) al mp [unfolded s1_def]])
    case 1
    then show ?thesis by (auto simp: X)
  next
    case 2
    note mapped = 2
    have f: "page_aligned frame" "page_no frame < unat (g_total_pages (pm s2))"
    proof -
      have a: "page_aligned frame" "page_no frame \<in> free_set (pm (kmm k))" using A(5) [OF mapped(1)] by blast+
      then have "page_no frame < unat (g_total_pages (pm (kmm k)))" by (simp add: free_set_def)
      then show "page_aligned frame" "page_no frame < unat (g_total_pages (pm s2))"
        using a(1) A(2) M(2) p1 by (simp_all add: evolves_def)
    qed
    have "pmm_inv (pm s2)" using M(2) by (simp add: evolves_def)
    then have "page_free (kmm k') frame" using pmm_free_page_spec(3) [OF _ f] mapped(4) by (simp add: page_free_def)
    moreover have "?X (kmm k') va = frame OR page_of (VMM_PAGE_PRESENT OR VMM_PAGE_USER OR flags)"
      using M(4) [of va] mapped by (simp add: X xval_def)
    ultimately show ?thesis using mapped by blast
  next
    case 3
    note kept = 3
    have f: "page_aligned frame" "page_no frame \<in> free_set (pm (kmm k))" "page_no frame \<notin> free_set q"
      using A(5) [OF kept(1)] by blast+
    have nt: "frame \<notin> tset (phys s2) 4 ?root"
    proof
      assume "frame \<in> tset (phys s2) 4 ?root"
      then have "frame \<in> tset (phys s1) 4 ?root \<or> page_free s1 frame" by (rule M(3))
      then show False using assms(2) f p1 by (auto simp: sound_def page_free_def)
    qed
    have h2: "hier (phys s2) 4 ?root" using M(1) by (simp add: sound_def)
    have "xlate (zero_bytes (phys s2) frame 4096) 4 ?root a = xlate (phys s2) 4 ?root a" for a using zero_bytes_xlate [OF h2 f(1) nt] .
    then have "?X (kmm k') a = ?X (kmm k) a" for a using M(4) [of a] kept p1 by (simp add: X)
    then show ?thesis by blast
  qed
qed

theorem map_user_page_inverted_witness:
  "\<exists>k'. process_map_user_page 2 0x400000 2 ex_kern = (False, k') \<and>
     paging_virt_to_phys_in_cr3 0x7000 0x400000 (kmm k') = 0x1000 \<and> (\<exists>frame. page_free (kmm k') frame \<and> 0x1000 = frame OR page_of 7)"
proof -
  obtain ok k' where m: "process_map_user_page 2 0x400000 2 ex_kern = (ok, k')" by fastforce
  have c: "p_cr3 (proc_at ex_kern 1) = 0x7000" "paging_virt_to_phys_in_cr3 0x7000 0x400000 (kmm ex_kern) = 0"
    "VMM_PAGE_PRESENT OR VMM_PAGE_USER OR 2 = 7" by code_simp+
  have x: "paging_virt_to_phys_in_cr3 0x7000 0x400000 (kmm (snd (process_map_user_page 2 0x400000 2 ex_kern))) = 0x1000"
    by code_simp
  have "sound 4 (p_cr3 (proc_at ex_kern 1)) (kmm ex_kern)"
    using ex_mm_sound c(1) by (simp add: ex_kern_def nexus_ipc_init_def ex_heap_def heap_init_def)
  from map_user_page_inverted [OF ex_kern_get(1) this m] show ?thesis using m x c by auto
qed

end
