(* ===== verification/Scheduler.thy ===== *)
theory Scheduler
  imports Ipc Event_Queue
begin

text \<open>
  The thread scheduler (\<open>kernel/core/scheduler/scheduler.c\<close>).  A pointer to a thread control block is its
  index in the table, the intrusive ready and sleep lists are the \<open>next\<close> fields of the blocks.  The loops
  along these lists take the size of the table as a bound on their rounds; under the invariant of the
  lists they end earlier.  \<open>scheduler_process\<close> ends in one of three ways: it returns to its caller, hands
  the processor to another thread, or stops it.  The fields \<open>flags\<close> and \<open>wait_next\<close> of a block are never
  read and left out.
\<close>

section \<open>State\<close>

definition SCHED_MAX_THREADS :: nat where "SCHED_MAX_THREADS = 8"
definition SCHED_STACK_SIZE :: u64 where "SCHED_STACK_SIZE = 16384"
definition THREAD_MAGIC :: u64 where "THREAD_MAGIC = 0x4E58544852454144"
definition NEXUS_SCHEDULER_DEFAULT_QUANTUM_MS :: u64 where "NEXUS_SCHEDULER_DEFAULT_QUANTUM_MS = 100"

text \<open>The values of the field \<open>state\<close>; \<open>THREAD_NONE\<close> is the zero of an unused block.\<close>

datatype thread_state = THREAD_NONE | THREAD_READY | THREAD_RUNNING | THREAD_SLEEPING | THREAD_BLOCKED | THREAD_ZOMBIE

record nexus_tcb =
  t_rsp :: u64
  t_stack_base :: u64
  t_stack_size :: u64
  t_id :: u64
  t_process_pid :: u64
  t_switches :: u64
  t_runtime_ticks :: u64
  t_wake_tick :: u64
  t_magic :: u64
  t_state :: thread_state
  t_entry :: u64
  t_arg :: u64
  t_next :: "nat option"

record sched =
  s_kern :: kern
  s_watchdog :: watchdog
  s_usermode :: bool
  s_words :: "u64 \<Rightarrow> u64"
  s_bootstrap :: u64
  s_user_bootstrap :: u64
  s_ticks :: u64
  s_quantum_expirations :: u64
  s_context_switches :: u64
  s_quantum_ticks :: u32
  s_quantum_remaining :: u32
  s_timer_hz :: u32
  s_reschedule :: bool
  s_wakeup :: bool
  s_ready :: bool
  s_tcbs :: "nexus_tcb list"
  s_current :: "nat option"
  s_ready_head :: "nat option"
  s_ready_tail :: "nat option"
  s_sleep_head :: "nat option"
  s_thread_count :: u32
  s_ready_count :: u32
  s_sleeping_count :: u32
  s_next_tid :: u64

datatype sched_outcome = Returned | Switched nat nat | Halted

abbreviation tcb :: "sched \<Rightarrow> nat \<Rightarrow> nexus_tcb" where
  "tcb s i \<equiv> s_tcbs s ! i"

definition upd_tcb :: "nat \<Rightarrow> (nexus_tcb \<Rightarrow> nexus_tcb) \<Rightarrow> sched \<Rightarrow> sched" where
  "upd_tcb i f s = s\<lparr>s_tcbs := (s_tcbs s)[i := f (s_tcbs s ! i)]\<rparr>"

section \<open>Ready and sleep lists\<close>

definition calculate_quantum_ticks :: "u32 \<Rightarrow> u32" where
  "calculate_quantum_ticks hz =
     (let t = (ucast hz * NEXUS_SCHEDULER_DEFAULT_QUANTUM_MS) div 1000 :: u64;
          t1 = (if t = 0 then 1 else t);
          t2 = (if t1 > 0xFFFFFFFF then 0xFFFFFFFF else t1)
      in ucast t2)"

definition ready_append :: "nat \<Rightarrow> sched \<Rightarrow> sched" where
  "ready_append th s =
     (let s1 = upd_tcb th (\<lambda>t. t\<lparr>t_next := None\<rparr>) s;
          s2 = (case s_ready_tail s1 of
                  None \<Rightarrow> s1\<lparr>s_ready_head := Some th, s_ready_tail := Some th\<rparr>
                | Some z \<Rightarrow> (upd_tcb z (\<lambda>t. t\<lparr>t_next := Some th\<rparr>) s1)\<lparr>s_ready_tail := Some th\<rparr>)
      in s2\<lparr>s_ready_count := s_ready_count s2 + 1\<rparr>)"

definition ready_pop :: "sched \<Rightarrow> nat option \<times> sched" where
  "ready_pop s =
     (case s_ready_head s of
        None \<Rightarrow> (None, s)
      | Some th \<Rightarrow>
          let s1 = s\<lparr>s_ready_head := t_next (tcb s th)\<rparr>;
              s2 = (if s_ready_head s1 = None then s1\<lparr>s_ready_tail := None\<rparr> else s1);
              s3 = upd_tcb th (\<lambda>t. t\<lparr>t_next := None\<rparr>) s2
          in (Some th, if s_ready_count s3 > 0 then s3\<lparr>s_ready_count := s_ready_count s3 - 1\<rparr> else s3))"

primrec sleep_cursor :: "nat \<Rightarrow> nat \<Rightarrow> u64 \<Rightarrow> sched \<Rightarrow> nat" where
  "sleep_cursor 0 cursor w s = cursor"
| "sleep_cursor (Suc n) cursor w s =
     (case t_next (tcb s cursor) of
        None \<Rightarrow> cursor
      | Some nx \<Rightarrow> if t_wake_tick (tcb s nx) \<le> w then sleep_cursor n nx w s else cursor)"

definition sleep_insert :: "nat \<Rightarrow> sched \<Rightarrow> sched" where
  "sleep_insert th s =
     (let s1 = upd_tcb th (\<lambda>t. t\<lparr>t_next := None\<rparr>) s; w = t_wake_tick (tcb s1 th)
      in case s_sleep_head s1 of
           None \<Rightarrow> (upd_tcb th (\<lambda>t. t\<lparr>t_next := s_sleep_head s1\<rparr>) s1)\<lparr>s_sleep_head := Some th, s_sleeping_count := s_sleeping_count s1 + 1\<rparr>
         | Some h \<Rightarrow>
             if w < t_wake_tick (tcb s1 h)
             then (upd_tcb th (\<lambda>t. t\<lparr>t_next := s_sleep_head s1\<rparr>) s1)\<lparr>s_sleep_head := Some th, s_sleeping_count := s_sleeping_count s1 + 1\<rparr>
             else
               let c = sleep_cursor SCHED_MAX_THREADS h w s1;
                   s2 = upd_tcb th (\<lambda>t. t\<lparr>t_next := t_next (tcb s1 c)\<rparr>) s1;
                   s3 = upd_tcb c (\<lambda>t. t\<lparr>t_next := Some th\<rparr>) s2
               in s3\<lparr>s_sleeping_count := s_sleeping_count s3 + 1\<rparr>)"

definition sleeper_due :: "sched \<Rightarrow> bool" where
  "sleeper_due s = (case s_sleep_head s of None \<Rightarrow> False | Some h \<Rightarrow> t_wake_tick (tcb s h) \<le> s_ticks s)"

definition wake_first :: "nat \<Rightarrow> sched \<Rightarrow> sched" where
  "wake_first th s =
     (let s1 = s\<lparr>s_sleep_head := t_next (tcb s th)\<rparr>;
          s2 = upd_tcb th (\<lambda>t. t\<lparr>t_next := None\<rparr>) s1;
          s3 = (if s_sleeping_count s2 > 0 then s2\<lparr>s_sleeping_count := s_sleeping_count s2 - 1\<rparr> else s2);
          s4 = upd_tcb th (\<lambda>t. t\<lparr>t_state := THREAD_READY\<rparr>) s3
      in ready_append th s4)"

primrec wake_loop :: "nat \<Rightarrow> sched \<Rightarrow> sched" where
  "wake_loop 0 s = s"
| "wake_loop (Suc n) s =
     (case s_sleep_head s of
        None \<Rightarrow> s
      | Some th \<Rightarrow> if t_wake_tick (tcb s th) \<le> s_ticks s then wake_loop n (wake_first th s) else s)"

definition wake_due_threads :: "sched \<Rightarrow> sched" where
  "wake_due_threads s = (let s1 = wake_loop SCHED_MAX_THREADS s in s1\<lparr>s_wakeup := sleeper_due s1\<rparr>)"

text \<open>The predecessor in the sleep list: \<open>None\<close> is the head variable itself.\<close>

primrec sleep_link :: "nat \<Rightarrow> nat option \<Rightarrow> nat \<Rightarrow> sched \<Rightarrow> nat option \<times> nat option" where
  "sleep_link 0 pre th s = (pre, case pre of None \<Rightarrow> s_sleep_head s | Some p \<Rightarrow> t_next (tcb s p))"
| "sleep_link (Suc n) pre th s =
     (let cur = (case pre of None \<Rightarrow> s_sleep_head s | Some p \<Rightarrow> t_next (tcb s p))
      in case cur of
           None \<Rightarrow> (pre, None)
         | Some c \<Rightarrow> if c = th then (pre, Some c) else sleep_link n (Some c) th s)"

definition wake_thread_locked :: "nat \<Rightarrow> sched \<Rightarrow> sched" where
  "wake_thread_locked th s =
     (if t_state (tcb s th) \<noteq> THREAD_SLEEPING then s
      else case sleep_link (SCHED_MAX_THREADS + 1) None th s of
             (pre, cur) \<Rightarrow>
               if cur \<noteq> Some th then s
               else
                 let nx = t_next (tcb s th);
                     s1 = (case pre of None \<Rightarrow> s\<lparr>s_sleep_head := nx\<rparr> | Some p \<Rightarrow> upd_tcb p (\<lambda>t. t\<lparr>t_next := nx\<rparr>) s);
                     s2 = upd_tcb th (\<lambda>t. t\<lparr>t_next := None\<rparr>) s1;
                     s3 = (if s_sleeping_count s2 > 0 then s2\<lparr>s_sleeping_count := s_sleeping_count s2 - 1\<rparr> else s2);
                     s4 = upd_tcb th (\<lambda>t. t\<lparr>t_wake_tick := 0, t_state := THREAD_READY\<rparr>) s3
                 in ready_append th s4)"

section \<open>Threads\<close>

definition clear_tcb :: "nexus_tcb \<Rightarrow> nexus_tcb" where
  "clear_tcb t = t\<lparr>t_stack_base := 0, t_stack_size := 0, t_rsp := 0, t_entry := 0, t_arg := 0, t_next := None,
     t_wake_tick := 0, t_magic := 0, t_state := THREAD_NONE\<rparr>"

definition reap_zombie :: "nat \<Rightarrow> sched \<Rightarrow> sched" where
  "reap_zombie i s =
     (if s_current s = Some i \<or> t_magic (tcb s i) \<noteq> THREAD_MAGIC \<or> t_state (tcb s i) \<noteq> THREAD_ZOMBIE then s
      else
        let pid = t_process_pid (tcb s i);
            (ok, k1) = (if pid \<noteq> 0 then process_reap pid (t_id (tcb s i)) (s_kern s) else (True, s_kern s));
            s1 = s\<lparr>s_kern := k1\<rparr>
        in if \<not> ok then s1
           else
             let base = t_stack_base (tcb s1 i);
                 s2 = (if base \<noteq> 0 then s1\<lparr>s_kern := (s_kern s1)\<lparr>kheap := kfree base (kheap (s_kern s1))\<rparr>\<rparr> else s1)
             in upd_tcb i clear_tcb s2)"

definition reap_zombies :: "sched \<Rightarrow> sched" where
  "reap_zombies s = fold reap_zombie [1..<SCHED_MAX_THREADS] s"

definition pick_next :: "sched \<Rightarrow> nat option \<times> sched" where
  "pick_next s = ready_pop s"

text \<open>The initial frame of a thread: seven words below the aligned top of its stack, the return address
  first.\<close>

definition init_thread_stack :: "nat \<Rightarrow> sched \<Rightarrow> sched" where
  "init_thread_stack th s =
     (let top = (t_stack_base (tcb s th) + t_stack_size (tcb s th)) AND NOT 0xF;
          stack = top - 8;
          ws = (s_words s)(stack - 8 := s_bootstrap s, stack - 16 := 0, stack - 24 := 0, stack - 32 := 0,
                 stack - 40 := 0, stack - 48 := 0, stack - 56 := 0)
      in (upd_tcb th (\<lambda>t. t\<lparr>t_rsp := stack - 56\<rparr>) s)\<lparr>s_words := ws\<rparr>)"

definition find_thread_by_id :: "u64 \<Rightarrow> sched \<Rightarrow> nat option" where
  "find_thread_by_id tid s =
     find (\<lambda>i. t_magic (tcb s i) = THREAD_MAGIC \<and> t_id (tcb s i) = tid) [0..<SCHED_MAX_THREADS]"

section \<open>Wait queues\<close>

record nexus_wait_queue =
  wq_ids :: "u64 list"
  wq_head :: nat
  wq_count :: nat

definition scheduler_wait_queue_init :: "nexus_wait_queue \<Rightarrow> nexus_wait_queue" where
  "scheduler_wait_queue_init q = q\<lparr>wq_head := 0, wq_count := 0, wq_ids := replicate SCHED_MAX_THREADS 0\<rparr>"

definition scheduler_wait_queue_contains :: "nexus_wait_queue \<Rightarrow> u64 \<Rightarrow> bool" where
  "scheduler_wait_queue_contains q tid =
     (tid \<noteq> 0 \<and> (\<exists>i \<in> set [0..<wq_count q]. wq_ids q ! ((wq_head q + i) mod SCHED_MAX_THREADS) = tid))"

definition scheduler_wait_queue_push_locked :: "u64 \<Rightarrow> nexus_wait_queue \<Rightarrow> nexus_wait_queue" where
  "scheduler_wait_queue_push_locked tid q =
     (if tid = 0 \<or> wq_count q \<ge> SCHED_MAX_THREADS \<or> scheduler_wait_queue_contains q tid then q
      else q\<lparr>wq_ids := (wq_ids q)[(wq_head q + wq_count q) mod SCHED_MAX_THREADS := tid], wq_count := wq_count q + 1\<rparr>)"

definition scheduler_wait_queue_pop_locked :: "nexus_wait_queue \<Rightarrow> u64 \<times> nexus_wait_queue" where
  "scheduler_wait_queue_pop_locked q =
     (if wq_count q = 0 then (0, q)
      else (wq_ids q ! wq_head q,
            q\<lparr>wq_ids := (wq_ids q)[wq_head q := 0], wq_head := (wq_head q + 1) mod SCHED_MAX_THREADS,
              wq_count := wq_count q - 1\<rparr>))"

definition scheduler_wake_thread_locked :: "u64 \<Rightarrow> sched \<Rightarrow> sched" where
  "scheduler_wake_thread_locked tid s =
     (case find_thread_by_id tid s of
        None \<Rightarrow> s
      | Some th \<Rightarrow>
          if t_state (tcb s th) \<noteq> THREAD_BLOCKED then s
          else (ready_append th (upd_tcb th (\<lambda>t. t\<lparr>t_state := THREAD_READY\<rparr>) s))\<lparr>s_wakeup := True, s_reschedule := True\<rparr>)"

definition scheduler_wake_thread :: "u64 \<Rightarrow> sched \<Rightarrow> bool \<times> sched" where
  "scheduler_wake_thread tid s =
     (if \<not> s_ready s \<or> tid = 0 then (False, s)
      else case find_thread_by_id tid s of
             None \<Rightarrow> (False, s)
           | Some th \<Rightarrow>
               if t_state (tcb s th) \<noteq> THREAD_BLOCKED then (False, s)
               else (True, scheduler_wake_thread_locked tid s))"

section \<open>Initialisation and ticks\<close>

definition scheduler_init :: "u64 \<Rightarrow> u32 \<Rightarrow> sched \<Rightarrow> sched" where
  "scheduler_init rsp hz s =
     (let hz1 = (if hz \<noteq> 0 then hz else 100);
          cleared = map (\<lambda>t. t\<lparr>t_magic := 0, t_state := THREAD_NONE, t_next := None, t_wake_tick := 0\<rparr>) (s_tcbs s);
          boot = (cleared ! 0)\<lparr>t_magic := THREAD_MAGIC, t_id := 0, t_process_pid := 0, t_rsp := rsp, t_stack_base := 0,
                   t_stack_size := 0, t_switches := 0, t_runtime_ticks := 0, t_wake_tick := 0, t_state := THREAD_RUNNING,
                   t_entry := 0, t_arg := 0, t_next := None\<rparr>
      in s\<lparr>s_ticks := 0, s_quantum_expirations := 0, s_context_switches := 0, s_timer_hz := hz1,
           s_quantum_ticks := calculate_quantum_ticks hz1, s_quantum_remaining := calculate_quantum_ticks hz1,
           s_reschedule := False, s_wakeup := False, s_ready := True, s_ready_count := 0, s_sleeping_count := 0,
           s_next_tid := 1, s_current := Some 0, s_ready_head := None, s_ready_tail := None, s_sleep_head := None,
           s_tcbs := cleared[0 := boot], s_thread_count := 1\<rparr>)"

definition scheduler_tick_irq :: "sched \<Rightarrow> sched" where
  "scheduler_tick_irq s =
     (if \<not> s_ready s then s
      else
        let s1 = s\<lparr>s_ticks := s_ticks s + 1\<rparr>;
            s2 = (case s_current s1 of
                    None \<Rightarrow> s1
                  | Some c \<Rightarrow>
                      let s' = upd_tcb c (\<lambda>t. t\<lparr>t_runtime_ticks := t_runtime_ticks t + 1\<rparr>) s1
                      in if t_process_pid (tcb s' c) \<noteq> 0
                         then s'\<lparr>s_kern := process_account_cpu_tick (t_process_pid (tcb s' c)) (s_kern s')\<rparr> else s');
            s3 = s2\<lparr>s_watchdog := nexus_watchdog_timer_tick (s_watchdog s2)\<rparr>;
            s4 = (if s_quantum_remaining s3 > 0 then s3\<lparr>s_quantum_remaining := s_quantum_remaining s3 - 1\<rparr> else s3);
            s5 = (if s_quantum_remaining s4 = 0
                  then s4\<lparr>s_quantum_expirations := s_quantum_expirations s4 + 1, s_reschedule := True,
                          s_quantum_remaining := s_quantum_ticks s4\<rparr> else s4)
        in if sleeper_due s5 then s5\<lparr>s_wakeup := True, s_reschedule := True\<rparr> else s5)"

definition scheduler_request_reschedule :: "sched \<Rightarrow> sched" where
  "scheduler_request_reschedule s = (if s_ready s then s\<lparr>s_reschedule := True\<rparr> else s)"

section \<open>The switch\<close>

text \<open>The address space for the next thread; \<open>None\<close> when its process is gone.\<close>

definition enter_process :: "nat \<Rightarrow> kern \<Rightarrow> (u64 \<times> kern) option" where
  "enter_process pidx k = (if p_state (proc_at k pidx) \<noteq> PROCESS_ZOMBIE \<and> p_cr3 (proc_at k pidx) \<noteq> 0
     then Some (p_cr3 (proc_at k pidx), snd (process_set_current (p_pid (proc_at k pidx)) k)) else None)"

definition select_space :: "nat \<Rightarrow> sched \<Rightarrow> (u64 \<times> kern) option" where
  "select_space nx s =
     (if t_process_pid (tcb s nx) \<noteq> 0
      then (case process_get (t_process_pid (tcb s nx)) (s_kern s) of
              None \<Rightarrow> None
            | Some pidx \<Rightarrow> enter_process pidx (s_kern s))
      else Some (paging_kernel_cr3 (kmm (s_kern s)), process_clear_current (s_kern s)))"

text \<open>\<open>rsp\<close> is the stack pointer of the caller, which \<open>arch_context_switch\<close> stores in the old block.\<close>

definition switch_to :: "u64 \<Rightarrow> nat \<Rightarrow> nat \<Rightarrow> sched \<Rightarrow> sched_outcome \<times> sched" where
  "switch_to rsp old nx s =
     (let s1 = (upd_tcb nx (\<lambda>t. t\<lparr>t_state := THREAD_RUNNING\<rparr>) s)\<lparr>s_current := Some nx\<rparr>
      in case select_space nx s1 of
           None \<Rightarrow>
             let s2 = (upd_tcb nx (\<lambda>t. t\<lparr>t_state := THREAD_ZOMBIE\<rparr>) s1)\<lparr>s_current := Some old\<rparr>
             in (Returned, upd_tcb old (\<lambda>t. t\<lparr>t_state := THREAD_RUNNING\<rparr>) s2)
         | Some (root, k) \<Rightarrow>
             let s2 = s1\<lparr>s_kern := set_mm (snd (paging_switch_cr3 root (kmm k))) k\<rparr>;
                 s3 = upd_tcb old (\<lambda>t. t\<lparr>t_switches := t_switches t + 1\<rparr>) s2;
                 s4 = upd_tcb nx (\<lambda>t. t\<lparr>t_switches := t_switches t + 1\<rparr>) s3;
                 s5 = s4\<lparr>s_context_switches := s_context_switches s4 + 1\<rparr>
             in (Switched old nx, upd_tcb old (\<lambda>t. t\<lparr>t_rsp := rsp\<rparr>) s5))"

definition scheduler_process :: "u64 \<Rightarrow> sched \<Rightarrow> sched_outcome \<times> sched" where
  "scheduler_process rsp s =
     (if \<not> s_ready s then (Returned, s)
      else
        let s1 = reap_zombies (wake_due_threads s)
        in if \<not> (s_reschedule s1 \<or> s_wakeup s1) then (Returned, s1)
           else
             let s2 = s1\<lparr>s_reschedule := False, s_wakeup := False\<rparr>
             in case s_current s2 of
                  None \<Rightarrow> (Returned, s2)
                | Some old \<Rightarrow>
                    let s3 = (if t_state (tcb s2 old) = THREAD_RUNNING
                              then ready_append old (upd_tcb old (\<lambda>t. t\<lparr>t_state := THREAD_READY\<rparr>) s2) else s2)
                    in case pick_next s3 of
                         (None, s4) \<Rightarrow>
                           if t_state (tcb s4 old) = THREAD_READY
                           then (Returned, upd_tcb old (\<lambda>t. t\<lparr>t_state := THREAD_RUNNING\<rparr>) s4)
                           else (Halted, s4)
                       | (Some nx, s4) \<Rightarrow>
                           if nx = old then (Returned, upd_tcb old (\<lambda>t. t\<lparr>t_state := THREAD_RUNNING\<rparr>) s4)
                           else switch_to rsp old nx s4)"

section \<open>Thread operations\<close>

definition thread_create :: "u64 \<Rightarrow> u64 \<Rightarrow> sched \<Rightarrow> (u64 \<times> sched) option" where
  "thread_create entry arg s =
     (if \<not> s_ready s \<or> entry = 0 \<or> \<not> heap_ready (kheap (s_kern s)) then Some (0, s)
      else case find (\<lambda>i. t_magic (tcb s i) = 0) [1..<SCHED_MAX_THREADS] of
             None \<Rightarrow> Some (0, s)
           | Some slot \<Rightarrow>
               (case kmalloc SCHED_STACK_SIZE (kheap (s_kern s)) of
                  None \<Rightarrow> None
                | Some (stack, h) \<Rightarrow>
                    let s1 = s\<lparr>s_kern := (s_kern s)\<lparr>kheap := h\<rparr>\<rparr>
                    in if stack = 0 then Some (0, s1)
                       else
                         let tid = s_next_tid s1;
                             s2 = s1\<lparr>s_next_tid := tid + 1\<rparr>;
                             s3 = upd_tcb slot (\<lambda>t. t\<lparr>t_magic := THREAD_MAGIC, t_id := tid, t_process_pid := 0,
                                    t_stack_base := stack, t_stack_size := SCHED_STACK_SIZE, t_switches := 0,
                                    t_runtime_ticks := 0, t_wake_tick := 0, t_state := THREAD_READY, t_entry := entry,
                                    t_arg := arg, t_next := None\<rparr>) s2;
                             s4 = ready_append slot (init_thread_stack slot s3)
                         in Some (tid, s4\<lparr>s_thread_count := s_thread_count s4 + 1\<rparr>)))"

definition thread_create_user_process :: "u64 \<Rightarrow> sched \<Rightarrow> (u64 \<times> sched) option" where
  "thread_create_user_process pid s =
     (if \<not> s_ready s \<or> pid = 0 \<or> \<not> heap_ready (kheap (s_kern s)) \<or> \<not> s_usermode s then Some (0, s)
      else case process_get pid (s_kern s) of
             None \<Rightarrow> Some (0, s)
           | Some i \<Rightarrow>
               if p_state (proc_at (s_kern s) i) = PROCESS_ZOMBIE \<or> p_thread_id (proc_at (s_kern s) i) \<noteq> 0 then Some (0, s)
               else (case thread_create (s_user_bootstrap s) pid s of
                       None \<Rightarrow> None
                     | Some (tid, s1) \<Rightarrow>
                         if tid = 0 then Some (0, s1)
                         else (case find (\<lambda>j. t_magic (tcb s1 j) = THREAD_MAGIC \<and> t_id (tcb s1 j) = tid) [1..<SCHED_MAX_THREADS] of
                                 None \<Rightarrow> Some (0, s1)
                               | Some j \<Rightarrow>
                                   let s2 = upd_tcb j (\<lambda>t. t\<lparr>t_process_pid := pid\<rparr>) s1
                                   in Some (tid, s2\<lparr>s_kern := upd_proc i (\<lambda>p. p\<lparr>
                                        p_kernel_stack := t_stack_base (tcb s2 j) + t_stack_size (tcb s2 j),
                                        p_thread_id := tid, p_flags := p_flags p OR PROCESS_FLAG_SCHEDULER_OWNED\<rparr>) (s_kern s2)\<rparr>))))"

definition thread_yield :: "u64 \<Rightarrow> sched \<Rightarrow> sched_outcome \<times> sched" where
  "thread_yield rsp s = (if \<not> s_ready s then (Returned, s) else scheduler_process rsp (scheduler_request_reschedule s))"

definition thread_sleep_ms :: "u64 \<Rightarrow> u64 \<Rightarrow> sched \<Rightarrow> sched_outcome \<times> sched" where
  "thread_sleep_ms rsp ms s =
     (case s_current s of
        None \<Rightarrow> (Returned, s)
      | Some c \<Rightarrow>
          if \<not> s_ready s \<or> t_id (tcb s c) = 0 then (Returned, s)
          else
            let t0 = (ms * ucast (s_timer_hz s) + 999) div 1000;
                t1 = (if t0 = 0 then 1 else t0);
                s1 = upd_tcb c (\<lambda>t. t\<lparr>t_wake_tick := s_ticks s + t1, t_state := THREAD_SLEEPING\<rparr>) s;
                s2 = (sleep_insert c s1)\<lparr>s_reschedule := True\<rparr>
            in scheduler_process rsp s2)"

definition thread_wakeup :: "u64 \<Rightarrow> sched \<Rightarrow> bool \<times> sched" where
  "thread_wakeup tid s =
     (if \<not> s_ready s then (False, s)
      else case find_thread_by_id tid s of
             None \<Rightarrow> (False, s)
           | Some th \<Rightarrow>
               if t_state (tcb s th) \<noteq> THREAD_SLEEPING then (False, s)
               else (True, (wake_thread_locked th s)\<lparr>s_wakeup := True, s_reschedule := True\<rparr>))"

text \<open>A thread that has ended must not continue: when \<open>scheduler_process\<close> comes back to it, it stops the
  processor.\<close>

definition thread_exit :: "u64 \<Rightarrow> sched \<Rightarrow> sched_outcome \<times> sched" where
  "thread_exit rsp s =
     (case s_current s of
        None \<Rightarrow> (Returned, s)
      | Some c \<Rightarrow>
          if \<not> s_ready s \<or> t_id (tcb s c) = 0 then (Returned, s)
          else
            let s1 = upd_tcb c (\<lambda>t. t\<lparr>t_state := THREAD_ZOMBIE\<rparr>) s;
                s2 = (if s_thread_count s1 > 0 then s1\<lparr>s_thread_count := s_thread_count s1 - 1\<rparr> else s1)
            in case scheduler_process rsp (s2\<lparr>s_reschedule := True\<rparr>) of
                 (Returned, s3) \<Rightarrow> (Halted, s3)
               | r \<Rightarrow> r)"

definition thread_block_on_wait_queue :: "u64 \<Rightarrow> nexus_wait_queue \<Rightarrow> sched \<Rightarrow> bool \<times> nexus_wait_queue \<times> sched_outcome \<times> sched" where
  "thread_block_on_wait_queue rsp q s =
     (case s_current s of
        None \<Rightarrow> (False, q, Returned, s)
      | Some c \<Rightarrow>
          if \<not> s_ready s \<or> t_id (tcb s c) = 0 then (False, q, Returned, s)
          else
            let tid = t_id (tcb s c);
                q1 = (if \<not> scheduler_wait_queue_contains q tid then scheduler_wait_queue_push_locked tid q else q);
                s1 = (upd_tcb c (\<lambda>t. t\<lparr>t_state := THREAD_BLOCKED\<rparr>) s)\<lparr>s_reschedule := True\<rparr>
            in (True, q1, scheduler_process rsp s1))"

definition user_process_bootstrap :: "u64 \<Rightarrow> u64 \<Rightarrow> sched \<Rightarrow> (u64 \<times> u64 \<times> u64) option \<times> sched_outcome \<times> sched" where
  "user_process_bootstrap rsp pid s =
     (case usermode_enter (s_usermode s) pid (s_kern s) of
        (Some ctx, k) \<Rightarrow> (Some ctx, Returned, s\<lparr>s_kern := k\<rparr>)
      | (None, k) \<Rightarrow> (None, thread_exit rsp (s\<lparr>s_kern := snd (process_exit_with_code pid 0 2 k)\<rparr>)))"

section \<open>Observers\<close>

definition scheduler_current_thread_id :: "sched \<Rightarrow> u64" where
  "scheduler_current_thread_id s = (case s_current s of None \<Rightarrow> 0 | Some c \<Rightarrow> t_id (tcb s c))"

definition scheduler_elapsed_ms :: "sched \<Rightarrow> u64" where
  "scheduler_elapsed_ms s = (if s_timer_hz s \<noteq> 0 then (s_ticks s * 1000) div ucast (s_timer_hz s) else 0)"

definition scheduler_thread_switches :: "u64 \<Rightarrow> sched \<Rightarrow> u64" where
  "scheduler_thread_switches tid s = (case find_thread_by_id tid s of None \<Rightarrow> 0 | Some i \<Rightarrow> t_switches (tcb s i))"

definition scheduler_thread_runtime_ticks :: "u64 \<Rightarrow> sched \<Rightarrow> u64" where
  "scheduler_thread_runtime_ticks tid s = (case find_thread_by_id tid s of None \<Rightarrow> 0 | Some i \<Rightarrow> t_runtime_ticks (tcb s i))"

definition scheduler_process_accounting_tick :: "u64 \<Rightarrow> sched \<Rightarrow> sched" where
  "scheduler_process_accounting_tick pid s = (if pid \<noteq> 0 then s\<lparr>s_kern := process_account_cpu_tick pid (s_kern s)\<rparr> else s)"

end
