(* ===== verification/Scheduler_Queues.thy ===== *)
theory Scheduler_Queues
  imports Scheduler
begin

text \<open>
  The lists of the scheduler.  The intrusive ready and sleep lists of the thread table represent two lists of
  thread indices; the operations of the scheduler are list operations on them.  Under this representation the
  bounded loops of the model end before their bound.
\<close>

section \<open>Thread blocks\<close>

lemma upd_tcb_fields [simp]:
  "s_kern (upd_tcb i f s) = s_kern s" "s_ticks (upd_tcb i f s) = s_ticks s" "s_reschedule (upd_tcb i f s) = s_reschedule s"
  "s_wakeup (upd_tcb i f s) = s_wakeup s" "s_ready (upd_tcb i f s) = s_ready s" "s_current (upd_tcb i f s) = s_current s"
  "s_ready_head (upd_tcb i f s) = s_ready_head s" "s_ready_tail (upd_tcb i f s) = s_ready_tail s"
  "s_sleep_head (upd_tcb i f s) = s_sleep_head s" "s_ready_count (upd_tcb i f s) = s_ready_count s"
  "s_sleeping_count (upd_tcb i f s) = s_sleeping_count s" "s_next_tid (upd_tcb i f s) = s_next_tid s"
  "s_thread_count (upd_tcb i f s) = s_thread_count s" "s_timer_hz (upd_tcb i f s) = s_timer_hz s"
  "s_context_switches (upd_tcb i f s) = s_context_switches s"
  "s_tcbs (upd_tcb i f s) = (s_tcbs s)[i := f (s_tcbs s ! i)]"
  by (simp_all add: upd_tcb_def)

lemma nth_update_if: "xs[i := a] ! j = (if j = i \<and> i < length xs then a else xs ! j)"
  by (cases "i < length xs"; cases "i = j") (simp_all add: list_update_beyond)

text \<open>The list that starts at \<open>h\<close> and follows the \<open>next\<close> fields.\<close>

primrec chain :: "nexus_tcb list \<Rightarrow> nat option \<Rightarrow> nat list \<Rightarrow> bool" where
  "chain ts h [] \<longleftrightarrow> h = None"
| "chain ts h (x # xs) \<longleftrightarrow> h = Some x \<and> x < length ts \<and> chain ts (t_next (ts ! x)) xs"

lemma chain_bound: "chain ts h xs \<Longrightarrow> x \<in> set xs \<Longrightarrow> x < length ts"
  by (induction xs arbitrary: h) auto

lemma chain_cong:
  assumes "\<And>x. x \<in> set xs \<Longrightarrow> t_next (ts ! x) = t_next (ts' ! x)" "length ts' = length ts"
  shows "chain ts h xs \<longleftrightarrow> chain ts' h xs"
  using assms(1) by (induction xs arbitrary: h) (auto simp: assms(2))

lemma chain_frame [simp]: "i \<notin> set xs \<Longrightarrow> chain (ts[i := t]) h xs \<longleftrightarrow> chain ts h xs"
  by (rule chain_cong [symmetric]) (auto simp: nth_update_if)

lemma chain_update [simp]: "t_next t = t_next (ts ! i) \<Longrightarrow> chain (ts[i := t]) h xs \<longleftrightarrow> chain ts h xs"
  by (rule chain_cong [symmetric]) (auto simp: nth_update_if)


text \<open>The last block of a chain points nowhere, and redirecting it appends.\<close>

lemma chain_last: "chain ts h xs \<Longrightarrow> xs \<noteq> [] \<Longrightarrow> t_next (ts ! last xs) = None"
proof (induction xs arbitrary: h)
  case (Cons x xs) then show ?case by (cases xs) auto
qed simp

lemma chain_snoc:
  assumes "chain ts h xs" "distinct xs" "xs \<noteq> []" "y < length ts" "y \<notin> set xs" "t_next (ts ! y) = None" "t_next t = Some y"
  shows "chain (ts[last xs := t]) h (xs @ [y])"
  using assms(1-3,5)
proof (induction xs arbitrary: h)
  case (Cons x xs)
  show ?case
  proof (cases "xs = []")
    case True
    then show ?thesis using Cons.prems assms(4,6,7) by auto
  next
    case False
    then have "x \<noteq> last xs" using Cons.prems(2) by auto
    then show ?thesis using Cons False by auto
  qed
qed simp

section \<open>The two queues\<close>

definition rq :: "sched \<Rightarrow> nat list \<Rightarrow> bool" where
  "rq s rs \<longleftrightarrow> chain (s_tcbs s) (s_ready_head s) rs \<and> distinct rs \<and> s_ready_count s = of_nat (length rs) \<and>
     s_ready_tail s = (if rs = [] then None else Some (last rs))"

definition sq :: "sched \<Rightarrow> nat list \<Rightarrow> bool" where
  "sq s ss \<longleftrightarrow> chain (s_tcbs s) (s_sleep_head s) ss \<and> distinct ss \<and> s_sleeping_count s = of_nat (length ss) \<and>
     sorted (map (\<lambda>i. t_wake_tick (s_tcbs s ! i)) ss)"

definition table :: "sched \<Rightarrow> bool" where
  "table s \<longleftrightarrow> length (s_tcbs s) = SCHED_MAX_THREADS"

lemma queue_length:
  assumes "table s" "chain (s_tcbs s) h xs" "distinct xs" shows "length xs \<le> 8"
proof -
  have "set xs \<subseteq> {..<8}" using chain_bound [OF assms(2)] assms(1) by (auto simp: table_def SCHED_MAX_THREADS_def)
  then have "card (set xs) \<le> card {..<8::nat}" by (intro card_mono) auto
  then show ?thesis using distinct_card [OF assms(3)] by simp
qed

lemma rq_cong:
  assumes "rq s rs" "s_ready_head s' = s_ready_head s" "s_ready_tail s' = s_ready_tail s" "s_ready_count s' = s_ready_count s"
    "length (s_tcbs s') = length (s_tcbs s)" "\<And>x. x \<in> set rs \<Longrightarrow> t_next (tcb s' x) = t_next (tcb s x)"
  shows "rq s' rs"
  using assms chain_cong [of rs "s_tcbs s" "s_tcbs s'"] by (simp add: rq_def)

lemma sq_cong:
  assumes "sq s ss" "s_sleep_head s' = s_sleep_head s" "s_sleeping_count s' = s_sleeping_count s"
    "length (s_tcbs s') = length (s_tcbs s)"
    "\<And>x. x \<in> set ss \<Longrightarrow> t_next (tcb s' x) = t_next (tcb s x) \<and> t_wake_tick (tcb s' x) = t_wake_tick (tcb s x)"
  shows "sq s' ss"
proof -
  have m: "map (\<lambda>i. t_wake_tick (tcb s' i)) ss = map (\<lambda>i. t_wake_tick (tcb s i)) ss" using assms(5) by simp
  have "chain (s_tcbs s') (s_sleep_head s) ss" if "chain (s_tcbs s) (s_sleep_head s) ss"
    using that chain_cong [of ss "s_tcbs s" "s_tcbs s'"] assms(4,5) by simp
  then show ?thesis using assms(1-3) unfolding sq_def m by simp
qed

lemma of_nat_u32_pos: "0 < n \<Longrightarrow> n \<le> 8 \<Longrightarrow> (of_nat n :: u32) > 0"
proof -
  assume "0 < n" "n \<le> 8"
  then have "unat (of_nat n :: u32) = n" by (intro unat_of_nat_u32) simp
  then show ?thesis using \<open>0 < n\<close> by (metis unat_gt_0 word_neq_0_conv)
qed

subsection \<open>The ready queue\<close>

lemma ready_append_fields [simp]:
  "s_kern (ready_append th s) = s_kern s" "s_ticks (ready_append th s) = s_ticks s"
  "s_reschedule (ready_append th s) = s_reschedule s" "s_wakeup (ready_append th s) = s_wakeup s"
  "s_ready (ready_append th s) = s_ready s" "s_current (ready_append th s) = s_current s"
  "s_sleep_head (ready_append th s) = s_sleep_head s" "s_sleeping_count (ready_append th s) = s_sleeping_count s"
  "s_next_tid (ready_append th s) = s_next_tid s" "s_thread_count (ready_append th s) = s_thread_count s"
  "length (s_tcbs (ready_append th s)) = length (s_tcbs s)"
  by (simp_all add: ready_append_def Let_def split: option.split)

lemma ready_append_blocks [simp]:
  "t_state (tcb (ready_append th s) j) = t_state (tcb s j)" "t_magic (tcb (ready_append th s) j) = t_magic (tcb s j)"
  "t_wake_tick (tcb (ready_append th s) j) = t_wake_tick (tcb s j)" "t_id (tcb (ready_append th s) j) = t_id (tcb s j)"
  "t_process_pid (tcb (ready_append th s) j) = t_process_pid (tcb s j)"
  by (simp_all add: ready_append_def Let_def nth_update_if split: option.split)

lemma ready_append_other:
  assumes "rq s rs" "j \<notin> set rs" "j \<noteq> th" shows "tcb (ready_append th s) j = tcb s j"
  using assms by (auto simp: rq_def ready_append_def Let_def nth_update_if)

lemma ready_append_rq:
  assumes T: "table s" and R: "rq s rs" and th: "th < 8" "th \<notin> set rs"
  shows "rq (ready_append th s) (rs @ [th])"
proof (cases "rs = []")
  case True
  then show ?thesis using R th T by (auto simp: rq_def ready_append_def Let_def table_def SCHED_MAX_THREADS_def)
next
  case False
  have C: "chain (s_tcbs s) (s_ready_head s) rs" "distinct rs" using R by (auto simp: rq_def)
  let ?ts = "(s_tcbs s)[th := (tcb s th)\<lparr>t_next := None\<rparr>]"
  have "chain ?ts (s_ready_head s) rs" using C(1) th(2) by simp
  from chain_snoc [OF this C(2) False, of th "(?ts ! last rs)\<lparr>t_next := Some th\<rparr>"]
  have "chain (?ts[last rs := (?ts ! last rs)\<lparr>t_next := Some th\<rparr>]) (s_ready_head s) (rs @ [th])"
    using th T by (simp add: table_def SCHED_MAX_THREADS_def)
  then show ?thesis using False R th by (auto simp: rq_def ready_append_def Let_def)
qed

lemma ready_pop_Nil: "rq s [] \<Longrightarrow> ready_pop s = (None, s)"
  by (simp add: rq_def ready_pop_def)

text \<open>Popping takes the first thread off the queue and changes nothing but its link.\<close>

definition popped :: "nat \<Rightarrow> sched \<Rightarrow> sched" where
  "popped x s = (upd_tcb x (\<lambda>t. t\<lparr>t_next := None\<rparr>) s)\<lparr>s_ready_head := t_next (tcb s x),
     s_ready_tail := (if t_next (tcb s x) = None then None else s_ready_tail s), s_ready_count := s_ready_count s - 1\<rparr>"

lemma ready_pop_Cons:
  assumes T: "table s" and R: "rq s (x # xs)"
  shows "ready_pop s = (Some x, popped x s)" and "rq (popped x s) xs"
proof -
  have C: "chain (s_tcbs s) (t_next (tcb s x)) xs" "x \<notin> set xs" "distinct xs" "s_ready_head s = Some x"
    "s_ready_count s = of_nat (length (x # xs))" "s_ready_tail s = Some (last (x # xs))"
    using R by (auto simp: rq_def)
  have "length (x # xs) \<le> 8" by (rule queue_length [OF T]) (use R in \<open>auto simp: rq_def\<close>)
  then have "s_ready_count s > 0" unfolding C(5) by (intro of_nat_u32_pos) simp_all
  then show "ready_pop s = (Some x, popped x s)"
    using C(4) by (auto simp: ready_pop_def popped_def Let_def upd_tcb_def)
  have "xs = [] \<longleftrightarrow> t_next (tcb s x) = None" using C(1) by (cases xs) auto
  then show "rq (popped x s) xs" using C by (auto simp: rq_def popped_def)
qed

lemma popped_fields [simp]:
  "s_kern (popped x s) = s_kern s" "s_ticks (popped x s) = s_ticks s" "s_reschedule (popped x s) = s_reschedule s"
  "s_wakeup (popped x s) = s_wakeup s" "s_ready (popped x s) = s_ready s" "s_current (popped x s) = s_current s"
  "s_sleep_head (popped x s) = s_sleep_head s" "s_sleeping_count (popped x s) = s_sleeping_count s"
  "s_next_tid (popped x s) = s_next_tid s" "s_thread_count (popped x s) = s_thread_count s"
  "length (s_tcbs (popped x s)) = length (s_tcbs s)"
  "t_state (tcb (popped x s) j) = t_state (tcb s j)" "t_magic (tcb (popped x s) j) = t_magic (tcb s j)"
  "t_wake_tick (tcb (popped x s) j) = t_wake_tick (tcb s j)" "t_id (tcb (popped x s) j) = t_id (tcb s j)"
  "t_process_pid (tcb (popped x s) j) = t_process_pid (tcb s j)"
  "j \<noteq> x \<Longrightarrow> tcb (popped x s) j = tcb s j"
  by (simp_all add: popped_def nth_update_if)

subsection \<open>Both queues and the states of the threads\<close>

definition queues :: "sched \<Rightarrow> nat list \<Rightarrow> nat list \<Rightarrow> bool" where
  "queues s rs ss \<longleftrightarrow> table s \<and> rq s rs \<and> sq s ss \<and>
     (\<forall>i<8. (i \<in> set rs \<longleftrightarrow> t_state (tcb s i) = THREAD_READY) \<and> (i \<in> set ss \<longleftrightarrow> t_state (tcb s i) = THREAD_SLEEPING))"

lemma queues_bound:
  assumes "queues s rs ss" shows "set rs \<subseteq> {..<8}" "set ss \<subseteq> {..<8}" "set rs \<inter> set ss = {}"
proof -
  have L: "length (s_tcbs s) = 8" using assms by (simp add: queues_def table_def SCHED_MAX_THREADS_def)
  have C: "chain (s_tcbs s) (s_ready_head s) rs" "chain (s_tcbs s) (s_sleep_head s) ss"
    and st: "\<forall>i<8. (i \<in> set rs \<longleftrightarrow> t_state (tcb s i) = THREAD_READY) \<and> (i \<in> set ss \<longleftrightarrow> t_state (tcb s i) = THREAD_SLEEPING)"
    using assms unfolding queues_def rq_def sq_def by blast+
  show r: "set rs \<subseteq> {..<8}" using chain_bound [OF C(1)] L by auto
  show "set ss \<subseteq> {..<8}" using chain_bound [OF C(2)] L by auto
  have "x \<notin> set ss" if "x \<in> set rs" for x
  proof -
    have "x < 8" using r that by auto
    then show ?thesis using st that by (metis thread_state.distinct(13))
  qed
  then show "set rs \<inter> set ss = {}" by blast
qed

text \<open>A change that leaves links, states and wake ticks alone keeps the queues.\<close>

lemma queues_cong:
  assumes "queues s rs ss" "length (s_tcbs s') = length (s_tcbs s)" "s_ready_head s' = s_ready_head s" "s_ready_tail s' = s_ready_tail s"
    "s_ready_count s' = s_ready_count s" "s_sleep_head s' = s_sleep_head s" "s_sleeping_count s' = s_sleeping_count s"
    "\<And>x. x \<in> set rs \<union> set ss \<Longrightarrow> t_next (tcb s' x) = t_next (tcb s x)"
    "\<And>x. x \<in> set ss \<Longrightarrow> t_wake_tick (tcb s' x) = t_wake_tick (tcb s x)"
    "\<And>x. x < 8 \<Longrightarrow> (t_state (tcb s' x) = THREAD_READY \<longleftrightarrow> t_state (tcb s x) = THREAD_READY) \<and>
       (t_state (tcb s' x) = THREAD_SLEEPING \<longleftrightarrow> t_state (tcb s x) = THREAD_SLEEPING)"
  shows "queues s' rs ss"
  unfolding queues_def
proof (intro conjI)
  show "table s'" using assms(1,2) by (simp add: queues_def table_def)
  have R: "rq s rs" "sq s ss" using assms(1) by (simp_all add: queues_def)
  show "rq s' rs" by (rule rq_cong [OF R(1)]) (simp_all add: assms(2-8))
  show "sq s' ss" by (rule sq_cong [OF R(2)]) (simp_all add: assms(2-9))
  show "\<forall>i<8. (i \<in> set rs \<longleftrightarrow> t_state (tcb s' i) = THREAD_READY) \<and> (i \<in> set ss \<longleftrightarrow> t_state (tcb s' i) = THREAD_SLEEPING)"
    using assms(1,10) by (auto simp: queues_def)
qed

text \<open>Marking a thread that is in neither queue as ready and appending it.\<close>

lemma queues_enqueue:
  assumes Q: "queues s rs ss" and th: "th < 8" "th \<notin> set rs" "th \<notin> set ss" and f: "t_state (f (tcb s th)) = THREAD_READY"
  shows "queues (ready_append th (upd_tcb th f s)) (rs @ [th]) ss"
proof -
  let ?s = "upd_tcb th f s"
  have T: "table ?s" "length (s_tcbs s) = 8" using Q by (auto simp: queues_def table_def SCHED_MAX_THREADS_def)
  have "rq s rs" using Q by (simp add: queues_def)
  then have R: "rq ?s rs" by (rule rq_cong) (use th(2) in \<open>auto simp: nth_update_if\<close>)
  have S: "sq (ready_append th ?s) ss"
  proof (rule sq_cong [of s])
    show "sq s ss" using Q by (simp add: queues_def)
    fix x assume "x \<in> set ss"
    then have "x \<notin> set rs" "x \<noteq> th" using queues_bound(3) [OF Q] th(3) by auto
    then show "t_next (tcb (ready_append th ?s) x) = t_next (tcb s x) \<and> t_wake_tick (tcb (ready_append th ?s) x) = t_wake_tick (tcb s x)"
      using ready_append_other [OF R] by (simp add: nth_update_if)
  qed simp_all
  show ?thesis unfolding queues_def
  proof (intro conjI)
    show "table (ready_append th ?s)" using T by (simp add: table_def)
    show "rq (ready_append th ?s) (rs @ [th])" by (rule ready_append_rq [OF T(1) R th(1,2)])
    show "\<forall>i<8. (i \<in> set (rs @ [th]) \<longleftrightarrow> t_state (tcb (ready_append th ?s) i) = THREAD_READY) \<and>
        (i \<in> set ss \<longleftrightarrow> t_state (tcb (ready_append th ?s) i) = THREAD_SLEEPING)"
      using Q th f T(2) by (auto simp: queues_def nth_update_if)
  qed (rule S)
qed

text \<open>Taking the first ready thread off the queue and giving it another state.\<close>

lemma queues_dequeue:
  assumes Q: "queues s (x # rs) ss" and f: "t_state (f ((tcb s x)\<lparr>t_next := None\<rparr>)) \<notin> {THREAD_READY, THREAD_SLEEPING}"
  shows "queues (upd_tcb x f (popped x s)) rs ss"
proof -
  have T: "table s" "length (s_tcbs s) = 8" and R: "rq s (x # rs)" using Q by (auto simp: queues_def table_def SCHED_MAX_THREADS_def)
  have x: "x \<notin> set rs" "x \<notin> set ss" "x < 8" using R queues_bound [OF Q] by (auto simp: rq_def)
  have px: "tcb (popped x s) x = (tcb s x)\<lparr>t_next := None\<rparr>" using x T by (simp add: popped_def)
  show ?thesis unfolding queues_def
  proof (intro conjI)
    show "table (upd_tcb x f (popped x s))" using T by (simp add: table_def SCHED_MAX_THREADS_def)
    show "rq (upd_tcb x f (popped x s)) rs"
      by (rule rq_cong [OF ready_pop_Cons(2) [OF T(1) R]]) (use x in \<open>auto simp: nth_update_if\<close>)
    show "sq (upd_tcb x f (popped x s)) ss"
    proof (rule sq_cong [of s])
      show "sq s ss" using Q by (simp add: queues_def)
      fix y assume "y \<in> set ss"
      then have "y \<noteq> x" using x(2) by auto
      then show "t_next (tcb (upd_tcb x f (popped x s)) y) = t_next (tcb s y) \<and> t_wake_tick (tcb (upd_tcb x f (popped x s)) y) = t_wake_tick (tcb s y)"
        by (simp add: nth_update_if)
    qed simp_all
    show "\<forall>i<8. (i \<in> set rs \<longleftrightarrow> t_state (tcb (upd_tcb x f (popped x s)) i) = THREAD_READY) \<and>
        (i \<in> set ss \<longleftrightarrow> t_state (tcb (upd_tcb x f (popped x s)) i) = THREAD_SLEEPING)"
      using Q x f T px by (auto simp: queues_def nth_update_if)
  qed
qed

subsection \<open>Waking sleepers\<close>

text \<open>The state between unlinking the first sleeper and marking it as ready.\<close>

definition unlinked :: "nat \<Rightarrow> sched \<Rightarrow> sched" where
  "unlinked x s = (upd_tcb x (\<lambda>t. t\<lparr>t_next := None, t_state := THREAD_BLOCKED\<rparr>) s)\<lparr>s_sleep_head := t_next (tcb s x),
     s_sleeping_count := s_sleeping_count s - 1\<rparr>"

lemma queues_unlinked:
  assumes Q: "queues s rs (x # ss)" shows "queues (unlinked x s) rs ss"
proof -
  have P: "table s" "length (s_tcbs s) = 8" "rq s rs" "sq s (x # ss)"
    and st: "\<forall>i<8. (i \<in> set rs \<longleftrightarrow> t_state (tcb s i) = THREAD_READY) \<and> (i \<in> set (x # ss) \<longleftrightarrow> t_state (tcb s i) = THREAD_SLEEPING)"
    using Q unfolding queues_def table_def SCHED_MAX_THREADS_def by blast+
  have x: "x \<notin> set rs" "x \<notin> set ss" "x < 8" using P(4) queues_bound [OF Q] by (auto simp: sq_def)
  have m: "map (\<lambda>i. t_wake_tick (tcb (unlinked x s) i)) ss = map (\<lambda>i. t_wake_tick (tcb s i)) ss"
    by (simp add: unlinked_def nth_update_if)
  show ?thesis unfolding queues_def
  proof (intro conjI)
    show "table (unlinked x s)" using P(1) by (simp add: table_def unlinked_def)
    show "rq (unlinked x s) rs" by (rule rq_cong [OF P(3)]) (use x in \<open>auto simp: unlinked_def nth_update_if\<close>)
    show "sq (unlinked x s) ss" using P(4) x(2) unfolding sq_def m by (simp add: unlinked_def)
    show "\<forall>i<8. (i \<in> set rs \<longleftrightarrow> t_state (tcb (unlinked x s) i) = THREAD_READY) \<and>
        (i \<in> set ss \<longleftrightarrow> t_state (tcb (unlinked x s) i) = THREAD_SLEEPING)"
    proof (intro allI impI)
      fix i :: nat assume "i < 8"
      then show "(i \<in> set rs \<longleftrightarrow> t_state (tcb (unlinked x s) i) = THREAD_READY) \<and>
          (i \<in> set ss \<longleftrightarrow> t_state (tcb (unlinked x s) i) = THREAD_SLEEPING)"
        using st x P(2) by (cases "i = x") (auto simp: unlinked_def nth_update_if)
    qed
  qed
qed

lemma wake_first_unlinked:
  assumes "queues s rs (x # ss)"
  shows "wake_first x s = ready_append x (upd_tcb x (\<lambda>t. t\<lparr>t_state := THREAD_READY\<rparr>) (unlinked x s))"
proof -
  have C: "chain (s_tcbs s) (s_sleep_head s) (x # ss)" "distinct (x # ss)" "s_sleeping_count s = of_nat (length (x # ss))" "table s" "x < length (s_tcbs s)"
    using assms by (auto simp: queues_def sq_def)
  have "s_sleeping_count s > 0"
    unfolding C(3) by (intro of_nat_u32_pos queue_length [OF C(4,1,2)]) simp
  then show ?thesis using C(5) by (simp add: wake_first_def unlinked_def upd_tcb_def Let_def)
qed

definition due :: "sched \<Rightarrow> nat \<Rightarrow> bool" where
  "due s i \<longleftrightarrow> t_wake_tick (tcb s i) \<le> s_ticks s"

lemma queues_wake_first:
  assumes Q: "queues s rs (x # ss)" shows "queues (wake_first x s) (rs @ [x]) ss"
proof -
  have "x \<notin> set rs" "x \<notin> set ss" "x < 8" using Q queues_bound [OF Q] by (auto simp: queues_def sq_def)
  then show ?thesis unfolding wake_first_unlinked [OF Q] by (intro queues_enqueue [OF queues_unlinked [OF Q]]) simp_all
qed

lemma wake_first_fields [simp]:
  "s_kern (wake_first x s) = s_kern s" "s_ticks (wake_first x s) = s_ticks s" "s_reschedule (wake_first x s) = s_reschedule s"
  "s_ready (wake_first x s) = s_ready s" "s_current (wake_first x s) = s_current s"
  "s_next_tid (wake_first x s) = s_next_tid s" "s_thread_count (wake_first x s) = s_thread_count s"
  "length (s_tcbs (wake_first x s)) = length (s_tcbs s)"
  "t_magic (tcb (wake_first x s) j) = t_magic (tcb s j)" "t_wake_tick (tcb (wake_first x s) j) = t_wake_tick (tcb s j)"
  "t_id (tcb (wake_first x s) j) = t_id (tcb s j)" "t_process_pid (tcb (wake_first x s) j) = t_process_pid (tcb s j)"
  "due (wake_first x s) = due s" "j \<noteq> x \<Longrightarrow> t_state (tcb (wake_first x s) j) = t_state (tcb s j)"
  by (simp_all add: wake_first_def Let_def nth_update_if due_def fun_eq_iff)

text \<open>The loop wakes exactly the sleepers that are due, and ends within its bound.\<close>

lemma wake_loop_spec:
  assumes "queues s rs ss" "length ss \<le> n"
  shows "queues (wake_loop n s) (rs @ takeWhile (due s) ss) (dropWhile (due s) ss)"
  using assms
proof (induction n arbitrary: s rs ss)
  case (Suc n)
  show ?case
  proof (cases ss)
    case Nil
    then have "s_sleep_head s = None" using Suc.prems by (simp add: queues_def sq_def)
    then show ?thesis using Suc.prems Nil by simp
  next
    case (Cons x xs)
    then have h: "s_sleep_head s = Some x" using Suc.prems by (simp add: queues_def sq_def)
    show ?thesis
    proof (cases "due s x")
      case True
      have Q: "queues (wake_first x s) (rs @ [x]) xs" using queues_wake_first Suc.prems(1) Cons by blast
      from Suc.IH [OF Q] Suc.prems(2) Cons True h show ?thesis by (simp add: due_def)
    next
      case False
      then show ?thesis using h Cons Suc.prems by (simp add: due_def)
    qed
  qed
qed simp

lemma wake_loop_fields [simp]:
  "s_kern (wake_loop n s) = s_kern s" "s_ticks (wake_loop n s) = s_ticks s" "s_reschedule (wake_loop n s) = s_reschedule s"
  "s_ready (wake_loop n s) = s_ready s" "s_current (wake_loop n s) = s_current s"
  "s_next_tid (wake_loop n s) = s_next_tid s" "s_thread_count (wake_loop n s) = s_thread_count s"
  "length (s_tcbs (wake_loop n s)) = length (s_tcbs s)"
  "t_magic (tcb (wake_loop n s) j) = t_magic (tcb s j)" "t_wake_tick (tcb (wake_loop n s) j) = t_wake_tick (tcb s j)"
  "t_id (tcb (wake_loop n s) j) = t_id (tcb s j)" "t_process_pid (tcb (wake_loop n s) j) = t_process_pid (tcb s j)"
  "due (wake_loop n s) = due s"
  by (induction n arbitrary: s) (simp_all split: option.split)

text \<open>Only sleepers change their state.\<close>

lemma wake_loop_state:
  "queues s rs ss \<Longrightarrow> j \<notin> set ss \<Longrightarrow> t_state (tcb (wake_loop n s) j) = t_state (tcb s j)"
proof (induction n arbitrary: s rs ss)
  case (Suc n)
  show ?case
  proof (cases ss)
    case Nil
    then show ?thesis using Suc.prems by (simp add: queues_def sq_def)
  next
    case (Cons x xs)
    then have h: "s_sleep_head s = Some x" using Suc.prems by (simp add: queues_def sq_def)
    have Q: "queues (wake_first x s) (rs @ [x]) xs" using queues_wake_first Suc.prems(1) Cons by blast
    show ?thesis using h Suc.IH [OF Q] Suc.prems(2) Cons by simp
  qed
qed simp

lemma wake_due_threads_spec:
  assumes Q: "queues s rs ss"
  shows "queues (wake_due_threads s) (rs @ takeWhile (due s) ss) (dropWhile (due s) ss)"
    and "\<not> s_wakeup (wake_due_threads s)"
    and "\<And>j. j \<notin> set ss \<Longrightarrow> t_state (tcb (wake_due_threads s) j) = t_state (tcb s j)"
proof -
  have P: "table s" "sq s ss" using Q by (simp_all add: queues_def)
  have "length ss \<le> SCHED_MAX_THREADS"
    using queue_length [OF P(1)] P(2) unfolding sq_def SCHED_MAX_THREADS_def by blast
  note W = wake_loop_spec [OF Q this]
  let ?s = "wake_loop SCHED_MAX_THREADS s"
  show "queues (wake_due_threads s) (rs @ takeWhile (due s) ss) (dropWhile (due s) ss)"
    unfolding wake_due_threads_def Let_def by (rule queues_cong [OF W]) simp_all
  have "chain (s_tcbs ?s) (s_sleep_head ?s) (dropWhile (due s) ss)" using W by (simp add: queues_def sq_def)
  then have "\<not> sleeper_due ?s"
    using hd_dropWhile [of "due s" ss]
    by (cases "dropWhile (due s) ss") (auto simp: sleeper_due_def due_def)
  then show "\<not> s_wakeup (wake_due_threads s)" by (simp add: wake_due_threads_def Let_def)
  show "j \<notin> set ss \<Longrightarrow> t_state (tcb (wake_due_threads s) j) = t_state (tcb s j)" for j
    using wake_loop_state [OF Q] by (simp add: wake_due_threads_def Let_def)
qed

lemma wake_due_threads_fields [simp]:
  "s_kern (wake_due_threads s) = s_kern s" "s_ticks (wake_due_threads s) = s_ticks s"
  "s_reschedule (wake_due_threads s) = s_reschedule s" "s_ready (wake_due_threads s) = s_ready s"
  "s_current (wake_due_threads s) = s_current s" "s_next_tid (wake_due_threads s) = s_next_tid s"
  "length (s_tcbs (wake_due_threads s)) = length (s_tcbs s)"
  "t_magic (tcb (wake_due_threads s) j) = t_magic (tcb s j)" "t_id (tcb (wake_due_threads s) j) = t_id (tcb s j)"
  "t_process_pid (tcb (wake_due_threads s) j) = t_process_pid (tcb s j)"
  by (simp_all add: wake_due_threads_def Let_def)

subsection \<open>Inserting and removing sleepers\<close>

lemma chain_mid: "chain ts h (xs @ ys) \<Longrightarrow> xs \<noteq> [] \<Longrightarrow> chain ts (t_next (ts ! last xs)) ys"
proof (induction xs arbitrary: h)
  case (Cons x xs) then show ?case by (cases xs) auto
qed simp

text \<open>Redirecting the end of a prefix to another chain.\<close>

lemma chain_splice:
  assumes "chain ts h (xs @ ys)" "distinct xs" "xs \<noteq> []" "set xs \<inter> set zs = {}" "chain ts (t_next t) zs"
  shows "chain (ts[last xs := t]) h (xs @ zs)"
  using assms(1-4)
proof (induction xs arbitrary: h)
  case (Cons x xs)
  show ?case
  proof (cases "xs = []")
    case True
    then show ?thesis using Cons.prems assms(5) by auto
  next
    case False
    then have "x \<noteq> last xs" using Cons.prems(2) by auto
    then show ?thesis using Cons False by auto
  qed
qed simp

lemma sleep_cursor_spec:
  assumes "chain (s_tcbs s) (Some c) (c # xs)" "length xs \<le> n"
  shows "sleep_cursor n c w s = last (c # takeWhile (\<lambda>i. t_wake_tick (tcb s i) \<le> w) xs)"
  using assms
proof (induction n arbitrary: c xs)
  case (Suc n)
  then show ?case by (cases xs) auto
qed simp

lemma sorted_insert_pos:
  fixes f :: "'a \<Rightarrow> 'b::linorder"
  assumes "sorted (map f xs)"
  shows "sorted (map f (takeWhile (\<lambda>i. f i \<le> f x) xs @ x # dropWhile (\<lambda>i. f i \<le> f x) xs))"
  using assms by (induction xs) (auto dest: set_takeWhileD set_dropWhileD)

lemma sleep_insert_sq:
  assumes T: "table s" and S: "sq s ss" and th: "th < 8" "th \<notin> set ss"
  defines "P \<equiv> \<lambda>i. t_wake_tick (tcb s i) \<le> t_wake_tick (tcb s th)"
  shows "sq (sleep_insert th s) (takeWhile P ss @ th # dropWhile P ss)"
proof -
  let ?N = "\<lambda>t. t\<lparr>t_next := None\<rparr>"
  let ?s1 = "upd_tcb th ?N s"
  have L: "length (s_tcbs s) = 8" using T by (simp add: table_def SCHED_MAX_THREADS_def)
  have C: "chain (s_tcbs s) (s_sleep_head s) ss" "distinct ss" "s_sleeping_count s = of_nat (length ss)"
    "sorted (map (\<lambda>i. t_wake_tick (tcb s i)) ss)" using S by (auto simp: sq_def)
  have wk: "t_wake_tick (tcb ?s1 i) = t_wake_tick (tcb s i)" for i by (simp add: nth_update_if)
  have C1: "chain (s_tcbs ?s1) (s_sleep_head s) ss" using C(1) th(2) by simp
  have ss: "ss = takeWhile P ss @ dropWhile P ss" by simp
  have "set (takeWhile P ss) \<inter> set (dropWhile P ss) = {}" using C(2) by (metis distinct_append takeWhile_dropWhile_id)
  then have dist: "distinct (takeWhile P ss @ th # dropWhile P ss)"
    using th(2) C(2) by (auto dest: set_takeWhileD set_dropWhileD)
  have wake: "t_wake_tick (tcb (sleep_insert th s) i) = t_wake_tick (tcb s i)" for i
    by (simp add: sleep_insert_def Let_def nth_update_if split: option.split)
  have srt: "sorted (map (\<lambda>i. t_wake_tick (tcb (sleep_insert th s) i)) (takeWhile P ss @ th # dropWhile P ss))"
    unfolding wake P_def by (rule sorted_insert_pos [OF C(4)])
  have count: "s_sleeping_count (sleep_insert th s) = of_nat (length (takeWhile P ss @ th # dropWhile P ss))"
  proof -
    have "length (takeWhile P ss) + length (dropWhile P ss) = length ss" by (metis length_append takeWhile_dropWhile_id)
    then have "length (takeWhile P ss @ th # dropWhile P ss) = length ss + 1" by simp
    then show ?thesis using C(3) by (simp add: sleep_insert_def Let_def split: option.split)
  qed
  have "chain (s_tcbs (sleep_insert th s)) (s_sleep_head (sleep_insert th s)) (takeWhile P ss @ th # dropWhile P ss)"
  proof (cases "takeWhile P ss = []")
    case True
    have e: "sleep_insert th s = (upd_tcb th (\<lambda>t. t\<lparr>t_next := s_sleep_head s\<rparr>) ?s1)\<lparr>s_sleep_head := Some th, s_sleeping_count := s_sleeping_count s + 1\<rparr>"
    proof (cases ss)
      case Nil
      then show ?thesis using C(1) by (simp add: sleep_insert_def)
    next
      case (Cons h xs)
      then have "\<not> P h" "s_sleep_head s = Some h" "h \<noteq> th" using True C(1) th(2) by (auto split: if_splits)
      then show ?thesis by (simp add: sleep_insert_def P_def Let_def nth_update_if not_le)
    qed
    have "dropWhile P ss = ss" using True ss by (metis append_Nil)
    then show ?thesis unfolding True e using C(1) th L by simp
  next
    case False
    then obtain h xs where h: "ss = h # xs" "P h" by (cases ss) (auto split: if_splits)
    have hd: "s_sleep_head s = Some h" using C(1) h by simp
    have "length xs \<le> SCHED_MAX_THREADS" using queue_length [OF T C(1,2)] h by (simp add: SCHED_MAX_THREADS_def)
    moreover have "chain (s_tcbs ?s1) (Some h) (h # xs)" using C1 unfolding h hd .
    ultimately have "sleep_cursor SCHED_MAX_THREADS h (t_wake_tick (tcb s th)) ?s1
        = last (h # takeWhile (\<lambda>i. t_wake_tick (tcb s i) \<le> t_wake_tick (tcb s th)) xs)"
      using sleep_cursor_spec [of ?s1 h xs SCHED_MAX_THREADS "t_wake_tick (tcb s th)"] unfolding wk by blast
    then have cur: "sleep_cursor SCHED_MAX_THREADS h (t_wake_tick (tcb s th)) ?s1 = last (takeWhile P ss)"
      using h by (simp add: P_def)
    let ?c = "last (takeWhile P ss)"
    have c: "?c \<noteq> th" using False th(2) by (metis last_in_set set_takeWhileD)
    let ?ts1 = "s_tcbs ?s1"
    let ?ts2 = "?ts1[th := (?ts1 ! th)\<lparr>t_next := t_next (?ts1 ! ?c)\<rparr>]"
    have e: "s_tcbs (sleep_insert th s) = ?ts2[?c := (?ts2 ! ?c)\<lparr>t_next := Some th\<rparr>]" "s_sleep_head (sleep_insert th s) = s_sleep_head s"
    proof -
      have "\<not> t_wake_tick (tcb ?s1 th) < t_wake_tick (tcb ?s1 h)" using h(2) unfolding wk P_def by simp
      moreover have "sleep_cursor SCHED_MAX_THREADS h (t_wake_tick (tcb ?s1 th)) ?s1 = ?c" unfolding wk by (rule cur)
      moreover have "s_sleep_head ?s1 = Some h" using hd by simp
      ultimately have "sleep_insert th s = (let s2 = upd_tcb th (\<lambda>t. t\<lparr>t_next := t_next (tcb ?s1 ?c)\<rparr>) ?s1;
          s3 = upd_tcb ?c (\<lambda>t. t\<lparr>t_next := Some th\<rparr>) s2 in s3\<lparr>s_sleeping_count := s_sleeping_count s3 + 1\<rparr>)"
        unfolding sleep_insert_def Let_def by (simp only: option.case if_False)
      then show "s_tcbs (sleep_insert th s) = ?ts2[?c := (?ts2 ! ?c)\<lparr>t_next := Some th\<rparr>]" "s_sleep_head (sleep_insert th s) = s_sleep_head s"
        by (simp_all add: Let_def)
    qed
    have "chain ?ts1 (t_next (?ts1 ! ?c)) (dropWhile P ss)" using chain_mid [OF _ False] C1 ss by metis
    then have z: "chain ?ts2 (Some th) (th # dropWhile P ss)" using dist th L by simp
    have "chain ?ts2 (s_sleep_head s) (takeWhile P ss @ dropWhile P ss)" using C1 th(2) by simp
    from chain_splice [OF this _ False _ , of "th # dropWhile P ss" "(?ts2 ! ?c)\<lparr>t_next := Some th\<rparr>"]
    show ?thesis unfolding e using dist z by auto
  qed
  then show ?thesis using dist count srt by (simp add: sq_def)
qed

lemma sleep_insert_fields [simp]:
  "s_kern (sleep_insert th s) = s_kern s" "s_ticks (sleep_insert th s) = s_ticks s" "s_reschedule (sleep_insert th s) = s_reschedule s"
  "s_ready (sleep_insert th s) = s_ready s" "s_current (sleep_insert th s) = s_current s" "s_wakeup (sleep_insert th s) = s_wakeup s"
  "s_ready_head (sleep_insert th s) = s_ready_head s" "s_ready_tail (sleep_insert th s) = s_ready_tail s"
  "s_ready_count (sleep_insert th s) = s_ready_count s" "s_next_tid (sleep_insert th s) = s_next_tid s"
  "length (s_tcbs (sleep_insert th s)) = length (s_tcbs s)"
  "t_state (tcb (sleep_insert th s) j) = t_state (tcb s j)" "t_magic (tcb (sleep_insert th s) j) = t_magic (tcb s j)"
  "t_id (tcb (sleep_insert th s) j) = t_id (tcb s j)" "t_process_pid (tcb (sleep_insert th s) j) = t_process_pid (tcb s j)"
  "t_wake_tick (tcb (sleep_insert th s) j) = t_wake_tick (tcb s j)"
  by (simp_all add: sleep_insert_def Let_def nth_update_if split: option.split)

lemma sleep_insert_other:
  assumes T: "table s" and S: "sq s ss" and th: "th \<notin> set ss" and j: "j \<notin> set ss" "j \<noteq> th"
  shows "tcb (sleep_insert th s) j = tcb s j"
proof (cases ss)
  case Nil
  then have "s_sleep_head s = None" using S by (simp add: sq_def)
  then show ?thesis using j by (simp add: sleep_insert_def nth_update_if)
next
  case (Cons h xs)
  let ?s1 = "upd_tcb th (\<lambda>t. t\<lparr>t_next := None\<rparr>) s"
  have C: "chain (s_tcbs s) (s_sleep_head s) ss" "distinct ss" using S by (auto simp: sq_def)
  then have h: "s_sleep_head s = Some h" using Cons by simp
  have "chain (s_tcbs ?s1) (Some h) (h # xs)" using C(1) th Cons h by simp
  moreover have "length xs \<le> SCHED_MAX_THREADS" using queue_length [OF T C] Cons by (simp add: SCHED_MAX_THREADS_def)
  ultimately have e: "sleep_cursor SCHED_MAX_THREADS h w ?s1 = last (h # takeWhile (\<lambda>i. t_wake_tick (tcb ?s1 i) \<le> w) xs)" for w
    by (rule sleep_cursor_spec)
  have "last (h # takeWhile p xs) \<in> set ss" for p
    using last_in_set [of "h # takeWhile p xs"] Cons by (auto dest: set_takeWhileD)
  then have "sleep_cursor SCHED_MAX_THREADS h w ?s1 \<in> set ss" for w unfolding e .
  then have ne: "sleep_cursor SCHED_MAX_THREADS h (t_wake_tick (tcb ?s1 th)) ?s1 \<noteq> j" using j(1) by metis
  define cur where "cur = sleep_cursor SCHED_MAX_THREADS h (t_wake_tick (tcb ?s1 th)) ?s1"
  have sh: "s_sleep_head ?s1 = Some h" using h by simp
  show ?thesis unfolding sleep_insert_def Let_def sh option.case cur_def [symmetric]
    using j ne [folded cur_def] by (simp add: nth_update_if)
qed

text \<open>A thread outside both queues goes to sleep.\<close>

lemma queues_sleep:
  assumes Q: "queues s rs ss" and c: "c < 8" "c \<notin> set rs" "c \<notin> set ss" and f: "t_state (f (tcb s c)) = THREAD_SLEEPING"
  shows "\<exists>ss'. set ss' = insert c (set ss) \<and> queues (sleep_insert c (upd_tcb c f s)) rs ss'"
proof -
  let ?s1 = "upd_tcb c f s"
  let ?P = "\<lambda>i. t_wake_tick (tcb ?s1 i) \<le> t_wake_tick (tcb ?s1 c)"
  let ?ss = "takeWhile ?P ss @ c # dropWhile ?P ss"
  have P: "table s" "rq s rs" "sq s ss" "length (s_tcbs s) = 8"
    and st: "\<forall>i<8. (i \<in> set rs \<longleftrightarrow> t_state (tcb s i) = THREAD_READY) \<and> (i \<in> set ss \<longleftrightarrow> t_state (tcb s i) = THREAD_SLEEPING)"
    using Q unfolding queues_def table_def SCHED_MAX_THREADS_def by blast+
  have T: "table ?s1" using P(1) by (simp add: table_def)
  have S: "sq ?s1 ss" by (rule sq_cong [OF P(3)]) (use c in \<open>auto simp: nth_update_if\<close>)
  have R: "rq ?s1 rs" by (rule rq_cong [OF P(2)]) (use c in \<open>auto simp: nth_update_if\<close>)
  have set: "set ?ss = insert c (set ss)"
    by (metis set_append list.set(2) takeWhile_dropWhile_id Un_insert_right)
  have "queues (sleep_insert c ?s1) rs ?ss"
    unfolding queues_def
  proof (intro conjI)
    show "table (sleep_insert c ?s1)" using T by (simp add: table_def)
    show "rq (sleep_insert c ?s1) rs"
    proof (rule rq_cong [OF R])
      fix x assume "x \<in> set rs"
      then have "x \<notin> set ss" "x \<noteq> c" using queues_bound(3) [OF Q] c(2) by auto
      then show "t_next (tcb (sleep_insert c ?s1) x) = t_next (tcb ?s1 x)"
        using sleep_insert_other [OF T S c(3)] by metis
    qed simp_all
    show "sq (sleep_insert c ?s1) ?ss" by (rule sleep_insert_sq [OF T S c(1,3)])
    show "\<forall>i<8. (i \<in> set rs \<longleftrightarrow> t_state (tcb (sleep_insert c ?s1) i) = THREAD_READY) \<and>
        (i \<in> set ?ss \<longleftrightarrow> t_state (tcb (sleep_insert c ?s1) i) = THREAD_SLEEPING)"
    proof (intro allI impI)
      fix i :: nat assume "i < 8"
      then show "(i \<in> set rs \<longleftrightarrow> t_state (tcb (sleep_insert c ?s1) i) = THREAD_READY) \<and>
          (i \<in> set ?ss \<longleftrightarrow> t_state (tcb (sleep_insert c ?s1) i) = THREAD_SLEEPING)"
        using st c f P(4) unfolding set sleep_insert_fields by (cases "i = c") (simp_all add: nth_update_if)
    qed
  qed
  then show ?thesis using set by blast
qed

subsection \<open>Waking one sleeper\<close>

lemma sleep_link_spec:
  assumes "chain (s_tcbs s) (case pre of None \<Rightarrow> s_sleep_head s | Some p \<Rightarrow> t_next (tcb s p)) (xs @ th # ys)"
    "th \<notin> set xs" "length xs < n"
  shows "sleep_link n pre th s = (if xs = [] then pre else Some (last xs), Some th)"
  using assms
proof (induction n arbitrary: pre xs)
  case (Suc n)
  show ?case
  proof (cases xs)
    case Nil
    then show ?thesis using Suc.prems by (simp add: Let_def)
  next
    case (Cons x xs')
    have "sleep_link n (Some x) th s = (if xs' = [] then Some x else Some (last xs'), Some th)"
      by (rule Suc.IH) (use Suc.prems Cons in auto)
    then show ?thesis using Suc.prems Cons by (auto simp: Let_def)
  qed
qed simp

text \<open>The sleep list without \<open>th\<close>; \<open>pre\<close> is its predecessor.\<close>

definition bypassed :: "nat option \<Rightarrow> nat \<Rightarrow> sched \<Rightarrow> sched" where
  "bypassed pre th s =
     (upd_tcb th (\<lambda>t. t\<lparr>t_next := None, t_state := THREAD_BLOCKED\<rparr>)
       (case pre of None \<Rightarrow> s\<lparr>s_sleep_head := t_next (tcb s th)\<rparr>
        | Some p \<Rightarrow> upd_tcb p (\<lambda>t. t\<lparr>t_next := t_next (tcb s th)\<rparr>) s))\<lparr>s_sleeping_count := s_sleeping_count s - 1\<rparr>"

lemma queues_bypassed:
  assumes Q: "queues s rs (xs @ th # ys)"
  shows "queues (bypassed (if xs = [] then None else Some (last xs)) th s) rs (xs @ ys)"
proof -
  let ?pre = "if xs = [] then None else Some (last xs)"
  let ?s = "bypassed ?pre th s"
  have P: "table s" "rq s rs" "sq s (xs @ th # ys)" "length (s_tcbs s) = 8"
    and st: "\<forall>i<8. (i \<in> set rs \<longleftrightarrow> t_state (tcb s i) = THREAD_READY) \<and> (i \<in> set (xs @ th # ys) \<longleftrightarrow> t_state (tcb s i) = THREAD_SLEEPING)"
    using Q unfolding queues_def table_def SCHED_MAX_THREADS_def by blast+
  have C: "chain (s_tcbs s) (s_sleep_head s) (xs @ th # ys)" "distinct (xs @ th # ys)"
    "s_sleeping_count s = of_nat (length (xs @ th # ys))" using P(3) by (auto simp: sq_def)
  have th: "th < 8" "th \<notin> set rs" "th \<notin> set xs" "th \<notin> set ys" using queues_bound [OF Q] C(2) by auto
  have m: "map (\<lambda>i. t_wake_tick (tcb ?s i)) (xs @ ys) = map (\<lambda>i. t_wake_tick (tcb s i)) (xs @ ys)"
    by (simp add: bypassed_def nth_update_if)
  have chain: "chain (s_tcbs ?s) (s_sleep_head ?s) (xs @ ys)"
  proof (cases "xs = []")
    case True
    then show ?thesis using C(1) th by (simp add: bypassed_def)
  next
    case False
    have "chain (s_tcbs s) (t_next (tcb s th)) ys" using chain_mid [of _ _ "xs @ [th]" ys] C(1) by simp
    then have "chain ((s_tcbs s)[last xs := (tcb s (last xs))\<lparr>t_next := t_next (tcb s th)\<rparr>]) (s_sleep_head s) (xs @ ys)"
      using chain_splice [OF C(1) _ False, of ys] C(2) by auto
    then show ?thesis using False th by (simp add: bypassed_def)
  qed
  show ?thesis unfolding queues_def
  proof (intro conjI)
    show "table ?s" using P(1) by (simp add: table_def bypassed_def)
    show "rq ?s rs"
    proof (rule rq_cong [OF P(2)])
      fix x assume "x \<in> set rs"
      then have "x \<noteq> th" "xs \<noteq> [] \<Longrightarrow> x \<noteq> last xs" using queues_bound(3) [OF Q] by auto
      then show "t_next (tcb ?s x) = t_next (tcb s x)" by (simp add: bypassed_def nth_update_if)
    qed (simp_all add: bypassed_def)
    have "sorted (map (\<lambda>i. t_wake_tick (tcb s i)) (xs @ ys))" using P(3) by (auto simp: sq_def sorted_append)
    then show "sq ?s (xs @ ys)" unfolding sq_def m using chain C(2,3) by (simp add: bypassed_def)
    show "\<forall>i<8. (i \<in> set rs \<longleftrightarrow> t_state (tcb ?s i) = THREAD_READY) \<and> (i \<in> set (xs @ ys) \<longleftrightarrow> t_state (tcb ?s i) = THREAD_SLEEPING)"
    proof (intro allI impI)
      fix i :: nat assume "i < 8"
      then show "(i \<in> set rs \<longleftrightarrow> t_state (tcb ?s i) = THREAD_READY) \<and> (i \<in> set (xs @ ys) \<longleftrightarrow> t_state (tcb ?s i) = THREAD_SLEEPING)"
        using st th P(4) by (cases "i = th") (auto simp: bypassed_def nth_update_if)
    qed
  qed
qed

lemma queues_wake_thread:
  assumes Q: "queues s rs (xs @ th # ys)"
  shows "queues (wake_thread_locked th s) (rs @ [th]) (xs @ ys)"
proof -
  let ?pre = "if xs = [] then None else Some (last xs)"
  have C: "chain (s_tcbs s) (s_sleep_head s) (xs @ th # ys)" "distinct (xs @ th # ys)"
    "s_sleeping_count s = of_nat (length (xs @ th # ys))" "table s" "length (s_tcbs s) = 8"
    using Q by (auto simp: queues_def sq_def table_def SCHED_MAX_THREADS_def)
  have th: "th < 8" "th \<notin> set rs" "th \<notin> set (xs @ ys)" using queues_bound [OF Q] C(2) by auto
  have len: "length (xs @ th # ys) \<le> 8" by (rule queue_length [OF C(4,1,2)])
  then have pos: "s_sleeping_count s > 0" unfolding C(3) by (intro of_nat_u32_pos) simp_all
  have "sleep_link (SCHED_MAX_THREADS + 1) None th s = (?pre, Some th)"
    by (rule sleep_link_spec [where ys = ys]) (use C th len in \<open>auto simp: SCHED_MAX_THREADS_def\<close>)
  moreover have "t_state (tcb s th) = THREAD_SLEEPING" using Q th(1) by (auto simp: queues_def)
  ultimately have "wake_thread_locked th s
      = ready_append th (upd_tcb th (\<lambda>t. t\<lparr>t_wake_tick := 0, t_state := THREAD_READY\<rparr>) (bypassed ?pre th s))"
    using pos C(5) th(1) by (simp add: wake_thread_locked_def bypassed_def Let_def upd_tcb_def)
  then show ?thesis using queues_enqueue [OF queues_bypassed [OF Q] th] by simp
qed

end
