(* ===== verification/Sync.thy ===== *)
theory Sync
  imports Scheduler
begin

text \<open>
  Spin locks, mutexes (\<open>kernel/core/sync/sync.c\<close>) and the wait queues of the scheduler they are built on.
  Blocking ends the run of a thread, so \<open>mutex_lock\<close> is split at that point: \<open>mutex_lock_enter\<close> is the
  loop body up to the call of \<open>thread_block_on_wait_queue\<close>, \<open>mutex_lock_resume\<close> the test the thread makes
  when it runs again.
\<close>

section \<open>Spin locks\<close>

type_synonym spinlock = u32

definition spinlock_init :: "spinlock \<Rightarrow> spinlock" where
  "spinlock_init l = 0"

text \<open>The compare-and-exchange; \<open>spinlock_lock\<close> repeats it until it succeeds.\<close>

definition spinlock_try_lock :: "spinlock \<Rightarrow> bool \<times> spinlock" where
  "spinlock_try_lock l = (if l = 0 then (True, 1) else (False, l))"

partial_function (option) spinlock_lock :: "(nat \<Rightarrow> spinlock) \<Rightarrow> nat \<Rightarrow> nat option" where
  "spinlock_lock word t = (if fst (spinlock_try_lock (word t)) then Some t else spinlock_lock word (t + 1))"

definition spinlock_unlock :: "spinlock \<Rightarrow> spinlock" where
  "spinlock_unlock l = 0"

section \<open>Mutexes\<close>

record nexus_mutex =
  mx_owner :: u64
  mx_locked :: bool
  mx_waiters :: nexus_wait_queue

definition mutex_init :: "nexus_mutex \<Rightarrow> nexus_mutex" where
  "mutex_init m = m\<lparr>mx_owner := 0, mx_locked := False, mx_waiters := scheduler_wait_queue_init (mx_waiters m)\<rparr>"

definition mutex_try_lock :: "sched \<Rightarrow> nexus_mutex \<Rightarrow> bool \<times> nexus_mutex" where
  "mutex_try_lock s m =
     (if \<not> s_ready s then (False, m)
      else if \<not> mx_locked m then (True, m\<lparr>mx_locked := True, mx_owner := scheduler_current_thread_id s\<rparr>)
      else (False, m))"

datatype lock_outcome = Lock_done | Lock_blocked sched_outcome

definition mutex_lock_enter :: "u64 \<Rightarrow> nexus_mutex \<Rightarrow> sched \<Rightarrow> lock_outcome \<times> nexus_mutex \<times> sched" where
  "mutex_lock_enter rsp m s =
     (if \<not> s_ready s then (Lock_done, m, s)
      else case mutex_try_lock s m of
             (True, m1) \<Rightarrow> (Lock_done, m1, s)
           | (False, m1) \<Rightarrow>
               let tid = scheduler_current_thread_id s
               in if tid = 0 then (Lock_done, m1, s)
                  else if \<not> mx_locked m1 then (Lock_done, m1\<lparr>mx_locked := True, mx_owner := tid\<rparr>, s)
                  else
                    let q = (if \<not> scheduler_wait_queue_contains (mx_waiters m1) tid
                             then scheduler_wait_queue_push_locked tid (mx_waiters m1) else mx_waiters m1)
                    in case thread_block_on_wait_queue rsp q s of
                         (b, q1, r, s1) \<Rightarrow> (Lock_blocked r, m1\<lparr>mx_waiters := q1\<rparr>, s1))"

definition mutex_lock_resume :: "u64 \<Rightarrow> nexus_mutex \<Rightarrow> bool" where
  "mutex_lock_resume tid m \<longleftrightarrow> mx_locked m \<and> mx_owner m = tid"

definition mutex_unlock :: "nexus_mutex \<Rightarrow> sched \<Rightarrow> nexus_mutex \<times> sched" where
  "mutex_unlock m s =
     (if \<not> s_ready s then (m, s)
      else if \<not> mx_locked m \<or> mx_owner m \<noteq> scheduler_current_thread_id s then (m, s)
      else case scheduler_wait_queue_pop_locked (mx_waiters m) of
             (nx, q) \<Rightarrow>
               if nx \<noteq> 0 then (m\<lparr>mx_waiters := q, mx_owner := nx, mx_locked := True\<rparr>, scheduler_wake_thread_locked nx s)
               else (m\<lparr>mx_waiters := q, mx_owner := 0, mx_locked := False\<rparr>, s))"

definition mutex_is_locked :: "nexus_mutex option \<Rightarrow> bool" where
  "mutex_is_locked m = (case m of None \<Rightarrow> False | Some m \<Rightarrow> mx_locked m)"

definition mutex_owner :: "nexus_mutex option \<Rightarrow> u64" where
  "mutex_owner m = (case m of None \<Rightarrow> 0 | Some m \<Rightarrow> mx_owner m)"

section \<open>Wait queues are queues\<close>

definition wq_ok :: "nexus_wait_queue \<Rightarrow> bool" where
  "wq_ok q \<longleftrightarrow> length (wq_ids q) = 8 \<and> wq_head q < 8 \<and> wq_count q \<le> 8"

definition wq_list :: "nexus_wait_queue \<Rightarrow> u64 list" where
  "wq_list q = ring_items (wq_ids q) (wq_head q) (wq_count q)"

definition wq_inv :: "nexus_wait_queue \<Rightarrow> bool" where
  "wq_inv q \<longleftrightarrow> wq_ok q \<and> distinct (wq_list q) \<and> 0 \<notin> set (wq_list q)"

lemma wq_contains: "wq_ok q \<Longrightarrow> scheduler_wait_queue_contains q tid \<longleftrightarrow> tid \<noteq> 0 \<and> tid \<in> set (wq_list q)"
  by (auto simp: scheduler_wait_queue_contains_def wq_list_def ring_items_def wq_ok_def SCHED_MAX_THREADS_def)

lemma wq_push:
  fixes tid :: u64
  assumes "wq_inv q"
  defines "q' \<equiv> scheduler_wait_queue_push_locked tid q"
  shows "wq_inv q'" "wq_list q' = (if tid = 0 \<or> length (wq_list q) \<ge> 8 \<or> tid \<in> set (wq_list q) then wq_list q else wq_list q @ [tid])"
proof -
  have ok: "wq_ok q" using assms(1) by (simp add: wq_inv_def)
  then have l: "length (wq_ids q) = 8" by (simp add: wq_ok_def)
  have "wq_inv q' \<and> wq_list q' = (if tid = 0 \<or> length (wq_list q) \<ge> 8 \<or> tid \<in> set (wq_list q) then wq_list q else wq_list q @ [tid])"
  proof (cases "tid = 0 \<or> wq_count q \<ge> 8 \<or> tid \<in> set (wq_list q)")
    case True
    then have "q' = q" using wq_contains [OF ok] by (auto simp: q'_def scheduler_wait_queue_push_locked_def SCHED_MAX_THREADS_def)
    then show ?thesis using assms(1) True by (auto simp: wq_list_def)
  next
    case False
    then have q': "q' = q\<lparr>wq_ids := (wq_ids q)[(wq_head q + wq_count q) mod 8 := tid], wq_count := wq_count q + 1\<rparr>"
      using wq_contains [OF ok] by (simp add: q'_def scheduler_wait_queue_push_locked_def SCHED_MAX_THREADS_def)
    have w: "wq_list q' = wq_list q @ [tid]"
      using ring_push [of "wq_count q" "wq_ids q" "wq_head q" tid] False l by (simp add: wq_list_def q')
    moreover have "wq_ok q'" using ok False by (simp add: wq_ok_def q')
    ultimately show ?thesis using assms(1) False by (auto simp: wq_inv_def wq_list_def)
  qed
  then show "wq_inv q'" "wq_list q' = (if tid = 0 \<or> length (wq_list q) \<ge> 8 \<or> tid \<in> set (wq_list q) then wq_list q else wq_list q @ [tid])"
    by simp_all
qed

lemma wq_pop:
  assumes "wq_inv q" and r: "scheduler_wait_queue_pop_locked q = (tid, q')"
  shows "wq_inv q'" "wq_list q = (if tid = 0 then [] else tid # wq_list q')" "tid = 0 \<Longrightarrow> wq_list q' = []"
proof -
  have ok: "wq_ok q" and d: "distinct (wq_list q)" "0 \<notin> set (wq_list q)" using assms(1) by (auto simp: wq_inv_def)
  have "wq_inv q' \<and> wq_list q = (if tid = 0 then [] else tid # wq_list q') \<and> (tid = 0 \<longrightarrow> wq_list q' = [])"
  proof (cases "wq_count q = 0")
    case True
    then show ?thesis using r assms(1) by (auto simp: scheduler_wait_queue_pop_locked_def wq_list_def)
  next
    case False
    then have p: "0 < wq_count q" "wq_count q \<le> length (wq_ids q)" "wq_head q < length (wq_ids q)" using ok by (auto simp: wq_ok_def)
    have q: "tid = wq_ids q ! wq_head q" "q' = q\<lparr>wq_ids := (wq_ids q)[wq_head q := 0], wq_head := (wq_head q + 1) mod 8, wq_count := wq_count q - 1\<rparr>"
      using r False by (auto simp: scheduler_wait_queue_pop_locked_def SCHED_MAX_THREADS_def)
    have l: "length (wq_ids q) = 8" using ok by (simp add: wq_ok_def)
    have t: "wq_list q' = tl (wq_list q)" using ring_pop_clear [OF p, of 0] l by (simp add: wq_list_def q)
    have h: "hd (wq_list q) = tid" "wq_list q \<noteq> []" using ring_pop [OF p(1,3)] by (simp_all add: wq_list_def q)
    then have w: "wq_list q = tid # wq_list q'" using t by (metis list.collapse)
    then have "tid \<noteq> 0" using d by auto
    moreover have "wq_ok q'" using ok by (auto simp: wq_ok_def q)
    ultimately show ?thesis using w d by (auto simp: wq_inv_def)
  qed
  then show "wq_inv q'" "wq_list q = (if tid = 0 then [] else tid # wq_list q')" "tid = 0 \<Longrightarrow> wq_list q' = []" by auto
qed

section \<open>Mutual exclusion\<close>

definition mutex_inv :: "nexus_mutex \<Rightarrow> bool" where
  "mutex_inv m \<longleftrightarrow> wq_inv (mx_waiters m) \<and> (mx_locked m \<longrightarrow> mx_owner m \<notin> set (wq_list (mx_waiters m))) \<and>
     (\<not> mx_locked m \<longrightarrow> mx_owner m = 0 \<and> wq_list (mx_waiters m) = [])"

lemma thread_block_queue:
  assumes "thread_block_on_wait_queue rsp q s = (b, q', r, s')"
  shows "q' = (if b then scheduler_wait_queue_push_locked (scheduler_current_thread_id s) q else q)"
  using assms
  by (auto simp: thread_block_on_wait_queue_def Let_def scheduler_current_thread_id_def scheduler_wait_queue_push_locked_def
    split: option.splits if_splits)

lemma mutex_lock_enter_spec:
  assumes inv: "mutex_inv m" and own: "mx_locked m \<Longrightarrow> mx_owner m \<noteq> scheduler_current_thread_id s"
    and rdy: "s_ready s" and c: "mutex_lock_enter rsp m s = (r, m', s')"
  shows "mutex_inv m'"
    "\<not> mx_locked m \<Longrightarrow> r = Lock_done \<and> mx_locked m' \<and> mx_owner m' = scheduler_current_thread_id s \<and> mx_waiters m' = mx_waiters m \<and> s' = s"
    "mx_locked m \<Longrightarrow> mx_locked m' \<and> mx_owner m' = mx_owner m \<and>
       wq_list (mx_waiters m') = (if scheduler_current_thread_id s = 0 \<or> length (wq_list (mx_waiters m)) \<ge> 8 \<or>
         scheduler_current_thread_id s \<in> set (wq_list (mx_waiters m)) then wq_list (mx_waiters m)
         else wq_list (mx_waiters m) @ [scheduler_current_thread_id s])"
proof -
  let ?t = "scheduler_current_thread_id s"
  have "mutex_inv m' \<and> (\<not> mx_locked m \<longrightarrow> r = Lock_done \<and> mx_locked m' \<and> mx_owner m' = ?t \<and> mx_waiters m' = mx_waiters m \<and> s' = s) \<and>
    (mx_locked m \<longrightarrow> mx_locked m' \<and> mx_owner m' = mx_owner m \<and>
       wq_list (mx_waiters m') = (if ?t = 0 \<or> length (wq_list (mx_waiters m)) \<ge> 8 \<or> ?t \<in> set (wq_list (mx_waiters m))
         then wq_list (mx_waiters m) else wq_list (mx_waiters m) @ [?t]))"
  proof (cases "mx_locked m")
    case False
    then have "m' = m\<lparr>mx_locked := True, mx_owner := ?t\<rparr>" "r = Lock_done" "s' = s"
      using c rdy by (auto simp: mutex_lock_enter_def mutex_try_lock_def)
    then show ?thesis using inv False by (simp add: mutex_inv_def)
  next
    case True
    show ?thesis
    proof (cases "?t = 0")
      case t0: True
      then have "m' = m" using c rdy True by (simp add: mutex_lock_enter_def mutex_try_lock_def)
      then show ?thesis using inv True t0 by simp
    next
      case False
      let ?q = "mx_waiters m"
      define q0 where "q0 = scheduler_wait_queue_push_locked ?t ?q"
      have wi: "wq_inv ?q" using inv by (simp add: mutex_inv_def)
      then have q0: "wq_inv q0" "wq_list q0 = (if length (wq_list ?q) \<ge> 8 \<or> ?t \<in> set (wq_list ?q) then wq_list ?q else wq_list ?q @ [?t])"
        using wq_push [OF wi, of ?t] False by (simp_all add: q0_def)
      have e: "(if \<not> scheduler_wait_queue_contains ?q ?t then scheduler_wait_queue_push_locked ?t ?q else ?q) =
          scheduler_wait_queue_push_locked ?t ?q"
        by (simp add: scheduler_wait_queue_push_locked_def)
      obtain b q1 r1 s1 where bl: "thread_block_on_wait_queue rsp q0 s = (b, q1, r1, s1)" by (metis prod_cases4)
      have m': "m' = m\<lparr>mx_waiters := q1\<rparr>"
        using c rdy True False bl by (simp add: mutex_lock_enter_def mutex_try_lock_def Let_def q0_def e)
      have q1: "wq_inv q1" "wq_list q1 = wq_list q0"
        using thread_block_queue [OF bl] wq_push [OF q0(1), of ?t] q0 by (auto split: if_splits)
      show ?thesis
        using inv q1 q0 True False own by (auto simp: m' mutex_inv_def)
    qed
  qed
  then show "mutex_inv m'"
    "\<not> mx_locked m \<Longrightarrow> r = Lock_done \<and> mx_locked m' \<and> mx_owner m' = ?t \<and> mx_waiters m' = mx_waiters m \<and> s' = s"
    "mx_locked m \<Longrightarrow> mx_locked m' \<and> mx_owner m' = mx_owner m \<and>
       wq_list (mx_waiters m') = (if ?t = 0 \<or> length (wq_list (mx_waiters m)) \<ge> 8 \<or> ?t \<in> set (wq_list (mx_waiters m))
         then wq_list (mx_waiters m) else wq_list (mx_waiters m) @ [?t])"
    by blast+
qed

lemma mutex_unlock_spec:
  assumes inv: "mutex_inv m" and own: "mx_locked m" "mx_owner m = scheduler_current_thread_id s" "s_ready s"
    and u: "mutex_unlock m s = (m', s')"
  shows "mutex_inv m'"
    "wq_list (mx_waiters m) = [] \<Longrightarrow> \<not> mx_locked m' \<and> s' = s"
    "wq_list (mx_waiters m) = w # ws \<Longrightarrow> mx_locked m' \<and> mx_owner m' = w \<and> wq_list (mx_waiters m') = ws \<and> s' = scheduler_wake_thread_locked w s"
proof -
  obtain nx q where p: "scheduler_wait_queue_pop_locked (mx_waiters m) = (nx, q)" by fastforce
  have wi: "wq_inv (mx_waiters m)" using inv by (simp add: mutex_inv_def)
  note P = wq_pop [OF wi p]
  have d: "distinct (wq_list (mx_waiters m))" using wi by (simp add: wq_inv_def)
  have r: "m' = (if nx \<noteq> 0 then m\<lparr>mx_waiters := q, mx_owner := nx, mx_locked := True\<rparr> else m\<lparr>mx_waiters := q, mx_owner := 0, mx_locked := False\<rparr>)"
    "s' = (if nx \<noteq> 0 then scheduler_wake_thread_locked nx s else s)"
    using u own p by (auto simp: mutex_unlock_def split: if_splits)
  show "mutex_inv m'" using P d by (auto simp: r mutex_inv_def split: if_splits)
  show "wq_list (mx_waiters m) = [] \<Longrightarrow> \<not> mx_locked m' \<and> s' = s" using P by (auto simp: r split: if_splits)
  show "wq_list (mx_waiters m) = w # ws \<Longrightarrow> mx_locked m' \<and> mx_owner m' = w \<and> wq_list (mx_waiters m') = ws \<and> s' = scheduler_wake_thread_locked w s"
    using P by (auto simp: r split: if_splits)
qed

text \<open>The history of a held mutex: threads enter it and its owners unlock it; the index counts the unlocks.\<close>

inductive mutex_run :: "nat \<Rightarrow> nexus_mutex \<Rightarrow> nexus_mutex \<Rightarrow> bool" where
  start: "mutex_run 0 m m"
| enter: "mutex_run n m m1 \<Longrightarrow> s_ready s \<Longrightarrow> (mx_locked m1 \<longrightarrow> mx_owner m1 \<noteq> scheduler_current_thread_id s) \<Longrightarrow>
    mutex_lock_enter rsp m1 s = (r, m2, s') \<Longrightarrow> mutex_run n m m2"
| unlock: "mutex_run n m m1 \<Longrightarrow> s_ready s \<Longrightarrow> mx_locked m1 \<Longrightarrow> mx_owner m1 = scheduler_current_thread_id s \<Longrightarrow>
    mutex_unlock m1 s = (m2, s') \<Longrightarrow> mutex_run (Suc n) m m2"

lemma mutex_run_spec:
  assumes "mutex_run n m m'" "mutex_inv m" "mx_locked m" "n \<le> length (wq_list (mx_waiters m))"
  shows "mutex_inv m' \<and> mx_locked m' \<and> mx_owner m' = (mx_owner m # wq_list (mx_waiters m)) ! n \<and>
    (\<exists>zs. wq_list (mx_waiters m') = drop n (wq_list (mx_waiters m)) @ zs)"
  using assms
proof (induction rule: mutex_run.induct)
  case (enter n m m1 s rsp r m2 s')
  then have IH: "mutex_inv m1" "mx_locked m1" "mx_owner m1 = (mx_owner m # wq_list (mx_waiters m)) ! n"
    "\<exists>zs. wq_list (mx_waiters m1) = drop n (wq_list (mx_waiters m)) @ zs" by auto
  note E = mutex_lock_enter_spec [OF IH(1) _ enter.hyps(2,4)]
  show ?case using E(1,3) IH enter.hyps(3) by auto
next
  case (unlock n m m1 s m2 s')
  then have IH: "mutex_inv m1" "mx_locked m1" "mx_owner m1 = (mx_owner m # wq_list (mx_waiters m)) ! n"
    and "\<exists>zs. wq_list (mx_waiters m1) = drop n (wq_list (mx_waiters m)) @ zs" by auto
  then obtain zs where zs: "wq_list (mx_waiters m1) = drop n (wq_list (mx_waiters m)) @ zs" by blast
  have n: "n < length (wq_list (mx_waiters m))" using unlock.prems(3) by simp
  then have d: "drop n (wq_list (mx_waiters m)) = wq_list (mx_waiters m) ! n # drop (Suc n) (wq_list (mx_waiters m))"
    by (rule Cons_nth_drop_Suc [symmetric])
  note U = mutex_unlock_spec [OF IH(1,2) unlock.hyps(4,2,5)]
  have "wq_list (mx_waiters m1) = wq_list (mx_waiters m) ! n # (drop (Suc n) (wq_list (mx_waiters m)) @ zs)" using zs d by simp
  from U(3) [OF this] show ?case using U(1) by auto
qed auto

text \<open>
  C33. Mutual exclusion with fair hand-over: from the moment a mutex is held, whatever threads enter it,
  it stays held and its owners are, unlock by unlock, exactly the waiting threads in the order in which
  they queued; so a thread with \<open>n\<close> threads before it owns the mutex after \<open>n + 1\<close> unlocks.
\<close>

theorem mutex_fair:
  assumes "mutex_inv m" and "mx_locked m" and "n < length (wq_list (mx_waiters m))" and "mutex_run (Suc n) m m'"
  shows "mutex_lock_resume (wq_list (mx_waiters m) ! n) m' \<and> mutex_inv m' \<and>
    (\<forall>t. s_ready t \<longrightarrow> mutex_try_lock t m' = (False, m'))"
  using mutex_run_spec [OF assms(4,1,2)] assms(3) by (auto simp: mutex_lock_resume_def mutex_try_lock_def)

definition ex_tcb :: "nat \<Rightarrow> nexus_tcb" where
  "ex_tcb i = \<lparr>t_rsp = 0, t_stack_base = 0, t_stack_size = 0, t_id = of_nat i, t_process_pid = 0, t_switches = 0,
     t_runtime_ticks = 0, t_wake_tick = 0, t_magic = (if i < 4 then THREAD_MAGIC else 0),
     t_state = (if i = 0 then THREAD_RUNNING else if i < 3 then THREAD_READY else if i = 3 then THREAD_BLOCKED else THREAD_NONE),
     t_entry = 0, t_arg = 0, t_next = (if i = 1 then Some 2 else None)\<rparr>"

definition ex_sched :: sched where
  "ex_sched = \<lparr>s_kern = ex_kern, s_watchdog = ex_watchdog, s_usermode = True, s_words = (\<lambda>_. 0), s_bootstrap = 0x200000,
     s_user_bootstrap = 0x200100, s_ticks = 0, s_quantum_expirations = 0, s_context_switches = 0, s_quantum_ticks = 10,
     s_quantum_remaining = 10, s_timer_hz = 100, s_reschedule = False, s_wakeup = False, s_ready = True,
     s_tcbs = map ex_tcb [0..<8], s_current = Some 0, s_ready_head = Some 1, s_ready_tail = Some 2, s_sleep_head = None,
     s_thread_count = 4, s_ready_count = 2, s_sleeping_count = 0, s_next_tid = 4\<rparr>"

definition ex_mutex :: nexus_mutex where
  "ex_mutex = \<lparr>mx_owner = 1, mx_locked = True, mx_waiters = \<lparr>wq_ids = [2, 3, 0, 0, 0, 0, 0, 0], wq_head = 0, wq_count = 2\<rparr>\<rparr>"

theorem mutex_fair_witness:
  "\<exists>m'. mutex_run 2 ex_mutex m' \<and> mutex_lock_resume 3 m'"
proof -
  have w: "wq_list (mx_waiters ex_mutex) = [2, 3]" by code_simp
  then have i: "mutex_inv ex_mutex" "mx_locked ex_mutex" "wq_list (mx_waiters ex_mutex) = [2, 3]"
    by (simp_all add: mutex_inv_def wq_inv_def) (simp_all add: wq_ok_def ex_mutex_def)
  let ?s = "\<lambda>i. ex_sched\<lparr>s_current := Some i\<rparr>"
  have s: "s_ready (?s i)" "i < 8 \<Longrightarrow> scheduler_current_thread_id (?s i) = of_nat i" for i
    by (simp_all add: ex_sched_def scheduler_current_thread_id_def ex_tcb_def)
  obtain m1 s1 where u1: "mutex_unlock ex_mutex (?s 1) = (m1, s1)" by fastforce
  have o: "mx_owner ex_mutex = scheduler_current_thread_id (?s 1)" using s(2) [of 1] by (simp add: ex_mutex_def)
  have r1: "mutex_run (Suc 0) ex_mutex m1" using mutex_run.unlock [OF mutex_run.start s(1) i(2) o u1] .
  have m1: "mx_locked m1" "mx_owner m1 = 2" using mutex_run_spec [OF r1 i(1,2)] i(3) by auto
  obtain m2 s2 where u2: "mutex_unlock m1 (?s 2) = (m2, s2)" by fastforce
  have o2: "mx_owner m1 = scheduler_current_thread_id (?s 2)" using s(2) [of 2] m1 by simp
  have r2: "mutex_run (Suc (Suc 0)) ex_mutex m2" using mutex_run.unlock [OF r1 s(1) m1(1) o2 u2] .
  have "mutex_lock_resume 3 m2" using mutex_fair [OF i(1,2) _ r2] i(3) by simp
  then show ?thesis using r2 by (auto simp: numeral_2_eq_2)
qed

end
