(* ===== verification/Scheduler_Facts.thy ===== *)
theory Scheduler_Facts
  imports Scheduler_Queues Sync
begin

text \<open>
  Properties of the scheduler: the invariant of the thread table over all its operations, the order in which
  threads run, and what the wake-up of sleepers does.
\<close>

section \<open>Reaping\<close>

text \<open>Reaping clears some zombie blocks and changes nothing else of the thread table.\<close>

definition reaped :: "sched \<Rightarrow> sched \<Rightarrow> bool" where
  "reaped s s' \<longleftrightarrow> s_ticks s' = s_ticks s \<and> s_current s' = s_current s \<and> s_ready s' = s_ready s \<and>
     s_reschedule s' = s_reschedule s \<and> s_wakeup s' = s_wakeup s \<and> s_ready_head s' = s_ready_head s \<and>
     s_ready_tail s' = s_ready_tail s \<and> s_ready_count s' = s_ready_count s \<and> s_sleep_head s' = s_sleep_head s \<and>
     s_sleeping_count s' = s_sleeping_count s \<and> length (s_tcbs s') = length (s_tcbs s) \<and>
     (\<forall>j. tcb s' j = tcb s j \<or> t_state (tcb s j) = THREAD_ZOMBIE \<and> s_current s \<noteq> Some j \<and> tcb s' j = clear_tcb (tcb s j))"

lemma reaped_refl: "reaped s s"
  by (simp add: reaped_def)

lemma clear_tcb_state [simp]: "t_state (clear_tcb t) = THREAD_NONE"
  by (simp add: clear_tcb_def)

lemma reaped_trans:
  assumes "reaped s s'" "reaped s' s''" shows "reaped s s''"
proof -
  have "tcb s'' j = tcb s j \<or> t_state (tcb s j) = THREAD_ZOMBIE \<and> s_current s \<noteq> Some j \<and> tcb s'' j = clear_tcb (tcb s j)" for j
    using assms unfolding reaped_def by (metis clear_tcb_state thread_state.distinct(9))
  then show ?thesis using assms by (simp add: reaped_def)
qed

lemma reaped_zombie: "reaped s (reap_zombie i s)"
  by (auto simp: reap_zombie_def reaped_def Let_def nth_update_if split: prod.splits)

lemma reaped_zombies: "reaped s (reap_zombies s)"
proof -
  have "reaped s (fold reap_zombie is s)" for "is"
    by (induction "is" arbitrary: s) (auto intro: reaped_refl reaped_trans [OF reaped_zombie])
  then show ?thesis by (simp add: reap_zombies_def)
qed

lemma reaped_queues:
  assumes Q: "queues s rs ss" and r: "reaped s s'" shows "queues s' rs ss"
proof -
  have st: "t_state (tcb s x) \<noteq> THREAD_ZOMBIE" if "x \<in> set rs \<union> set ss" for x
    using Q queues_bound [OF Q] that by (force simp: queues_def)
  have same: "tcb s' x = tcb s x" if "x \<in> set rs \<union> set ss" for x
    using r st [OF that] unfolding reaped_def by blast
  have "(t_state (tcb s' x) = THREAD_READY \<longleftrightarrow> t_state (tcb s x) = THREAD_READY) \<and>
      (t_state (tcb s' x) = THREAD_SLEEPING \<longleftrightarrow> t_state (tcb s x) = THREAD_SLEEPING)" for x
  proof -
    have "tcb s' x = tcb s x \<or> t_state (tcb s x) = THREAD_ZOMBIE \<and> tcb s' x = clear_tcb (tcb s x)" using r unfolding reaped_def by blast
    then show ?thesis by (auto simp: clear_tcb_def)
  qed
  then show ?thesis using r same by (intro queues_cong [OF Q]) (simp_all add: reaped_def)
qed

section \<open>The invariant\<close>

text \<open>A block is unused, or carries the magic number and a state.\<close>

definition block_ok :: "nexus_tcb \<Rightarrow> bool" where
  "block_ok t \<longleftrightarrow> (if t_state t = THREAD_NONE then t_magic t = 0 else t_magic t = THREAD_MAGIC)"

text \<open>\<open>c\<close> is the current thread, and no other thread is running.\<close>

definition current_only :: "sched \<Rightarrow> nat \<Rightarrow> bool" where
  "current_only s c \<longleftrightarrow> s_ready s \<and> s_current s = Some c \<and> c < 8 \<and> (\<forall>i<8. block_ok (tcb s i)) \<and>
     (\<forall>i<8. i \<noteq> c \<longrightarrow> t_state (tcb s i) \<noteq> THREAD_RUNNING)"

definition sched_ok :: "sched \<Rightarrow> nat list \<Rightarrow> nat list \<Rightarrow> nat \<Rightarrow> bool" where
  "sched_ok s rs ss c \<longleftrightarrow> queues s rs ss \<and> current_only s c \<and> t_state (tcb s c) = THREAD_RUNNING"

definition sched_inv :: "sched \<Rightarrow> bool" where
  "sched_inv s \<longleftrightarrow> (\<exists>rs ss c. sched_ok s rs ss c)"

text \<open>The process of a thread still exists when the switch looks for its address space.\<close>

definition alive :: "kern \<Rightarrow> u64 \<Rightarrow> bool" where
  "alive k pid \<longleftrightarrow> pid = 0 \<or> (\<exists>i. process_get pid k = Some i \<and> p_state (proc_at k i) \<noteq> PROCESS_ZOMBIE \<and> p_cr3 (proc_at k i) \<noteq> 0)"

lemma select_space_alive: "select_space nx s \<noteq> None \<longleftrightarrow> alive (s_kern s) (t_process_pid (tcb s nx))"
  by (auto simp: select_space_def enter_process_def alive_def split: option.split)

text \<open>Reaping a zombie process keeps the others alive: it changes only the slot of the zombie.\<close>

definition touches :: "nat \<Rightarrow> kern \<Rightarrow> kern \<Rightarrow> bool" where
  "touches i k k' \<longleftrightarrow> proc_ready k' = proc_ready k \<and> (\<forall>j. j \<noteq> i \<longrightarrow> proc_at k' j = proc_at k j)"

definition keeps :: "nat \<Rightarrow> kern \<Rightarrow> kern \<Rightarrow> bool" where
  "keeps i k k' \<longleftrightarrow> touches i k k' \<and> p_pid (proc_at k' i) = p_pid (proc_at k i) \<and> p_state (proc_at k' i) = p_state (proc_at k i)"

lemma slot_keeps_refl: "keeps i k k"
  by (simp add: keeps_def touches_def)

lemma slot_keeps_trans: "keeps i k k' \<Longrightarrow> keeps i k' k'' \<Longrightarrow> keeps i k k''"
  by (simp add: keeps_def touches_def)

lemma keeps_upd: "keeps i k k' \<Longrightarrow> (\<And>p. p_pid (f p) = p_pid p \<and> p_state (f p) = p_state p) \<Longrightarrow> keeps i k (upd_proc i f k')"
  by (simp add: keeps_def touches_def upd_proc_def nth_update_if)

lemma keeps_mm: "keeps i k k' \<Longrightarrow> keeps i k (set_mm m k')"
  by (simp add: keeps_def touches_def set_mm_def)

lemma keeps_if: "keeps i k a \<Longrightarrow> keeps i k b \<Longrightarrow> keeps i k (if c then a else b)"
  by simp

lemma keeps_get: "keeps i k k' \<Longrightarrow> process_get pid k' = process_get pid k"
proof -
  assume "keeps i k k'"
  then have "p_state (proc_at k' j) = p_state (proc_at k j) \<and> p_pid (proc_at k' j) = p_pid (proc_at k j)" "proc_ready k' = proc_ready k" for j
    unfolding keeps_def touches_def by metis+
  then show ?thesis by (simp add: process_get_def)
qed

lemma keeps_unmap_slot: "keeps i k (unmap_slot i j k)"
  unfolding unmap_slot_def Let_def by (intro keeps_upd keeps_if keeps_mm slot_keeps_refl) simp

lemma keeps_unmap_memory:
  assumes "process_get pid k = Some i" shows "keeps i k (snd (process_unmap_user_memory pid k))"
proof -
  have "keeps i k (fold (unmap_slot i) js k)" for js
    by (induction js arbitrary: k) (auto intro: slot_keeps_refl slot_keeps_trans [OF keeps_unmap_slot])
  then show ?thesis unfolding process_unmap_user_memory_def assms option.case snd_conv by (intro keeps_upd) simp_all
qed

lemma process_reap_cases:
  obtains (kept) "snd (process_reap pid tid k) = k"
  | (gone) i where "process_get pid k = Some i" "p_state (proc_at k i) = PROCESS_ZOMBIE"
      "touches i k (snd (process_reap pid tid k))" "p_pid (proc_at (snd (process_reap pid tid k)) i) \<in> {0, p_pid (proc_at k i)}"
proof (cases "fst (process_reap pid tid k)")
  case False
  then have "snd (process_reap pid tid k) = k" by (auto simp: process_reap_def Let_def split: option.splits if_splits)
  then show thesis by (rule kept)
next
  case True
  then have pid: "pid \<noteq> 0" by (simp add: process_reap_def split: if_splits)
  then obtain i where g: "process_get pid k = Some i"
    and ok: "\<not> (p_state (proc_at k i) \<noteq> PROCESS_ZOMBIE \<or> tid \<noteq> 0 \<and> p_thread_id (proc_at k i) \<noteq> tid \<or> tid = 0 \<and> p_thread_id (proc_at k i) \<noteq> 0)"
    using True by (auto simp: process_reap_def split: option.splits if_splits)
  define k1 where "k1 = snd (process_unmap_user_memory pid k)"
  define k2 where "k2 = upd_proc i (\<lambda>p. p\<lparr>p_cr3 := 0\<rparr>) k1"
  define k3 where "k3 = (if p_cr3 (proc_at k1 i) \<noteq> 0 then set_mm (paging_destroy_address_space (p_cr3 (proc_at k1 i)) (kmm k2)) k2 else k2)"
  define k4 where "k4 = process_ipc_reset_handles pid k3"
  have K3: "keeps i k k3"
    unfolding k3_def k2_def k1_def by (intro keeps_if keeps_mm keeps_upd keeps_unmap_memory [OF g]) simp_all
  have "process_get pid k3 = Some i" using keeps_get [OF K3] g by simp
  then have K4: "keeps i k k4" unfolding k4_def process_ipc_reset_handles_def by (simp add: keeps_upd [OF K3])
  define k5 where "k5 = upd_proc i process_reset k4"
  have r: "snd (process_reap pid tid k) = (if g_zombie_count k5 \<noteq> 0 then k5\<lparr>g_zombie_count := g_zombie_count k5 - 1\<rparr> else k5)"
    unfolding process_reap_def Let_def if_not_P [OF pid] g option.case(2) if_not_P [OF ok] k5_def k4_def k3_def k2_def k1_def snd_conv ..
  show thesis
  proof (rule gone [OF g])
    show "touches i k (snd (process_reap pid tid k))"
      unfolding r k5_def using K4 by (simp add: keeps_def touches_def upd_proc_def nth_update_if)
    show "p_pid (proc_at (snd (process_reap pid tid k)) i) \<in> {0, p_pid (proc_at k i)}"
      unfolding r k5_def using K4 by (simp add: keeps_def upd_proc_def nth_update_if process_reset_def)
  qed (use ok in simp)
qed

lemma alive_reap:
  assumes "alive k q" shows "alive (snd (process_reap pid tid k)) q"
proof (cases "q = 0")
  case False
  let ?k = "snd (process_reap pid tid k)"
  obtain j where j: "process_get q k = Some j" "p_state (proc_at k j) \<noteq> PROCESS_ZOMBIE" "p_cr3 (proc_at k j) \<noteq> 0"
    using assms False by (auto simp: alive_def)
  show ?thesis
  proof (cases rule: process_reap_cases [of pid tid k])
    case kept
    then show ?thesis using assms by simp
  next
    case (gone i)
    have pi: "p_pid (proc_at k i) = pid" using gone(1) by (auto simp: process_get_def find_Some_iff split: if_splits)
    have "q \<noteq> pid" using gone(1,2) j by auto
    then have "p_pid (proc_at ?k i) \<noteq> q" "p_pid (proc_at k i) \<noteq> q" using gone(4) pi False by auto
    then have "(p_state (proc_at ?k m) \<noteq> PROCESS_UNUSED \<and> p_pid (proc_at ?k m) = q) = (p_state (proc_at k m) \<noteq> PROCESS_UNUSED \<and> p_pid (proc_at k m) = q)" for m
      using gone(3) unfolding touches_def by (cases "m = i") auto
    moreover have "proc_ready ?k = proc_ready k" using gone(3) by (simp add: touches_def)
    ultimately have "process_get q ?k = Some j" using j(1) by (simp add: process_get_def split: if_splits)
    moreover have "j \<noteq> i" using gone(2) j(2) by auto
    ultimately show ?thesis using j gone(3) False by (auto simp: alive_def touches_def)
  qed
qed (simp add: alive_def)

lemma alive_reap_zombie: "alive (s_kern s) q \<Longrightarrow> alive (s_kern (reap_zombie i s)) q"
proof -
  assume al: "alive (s_kern s) q"
  obtain ok k where e: "(if t_process_pid (tcb s i) \<noteq> 0 then process_reap (t_process_pid (tcb s i)) (t_id (tcb s i)) (s_kern s) else (True, s_kern s)) = (ok, k)"
    by (metis surj_pair)
  have k: "alive k q" using al alive_reap [OF al, of "t_process_pid (tcb s i)" "t_id (tcb s i)"] e by (auto split: if_splits)
  have "alive (k\<lparr>kheap := h\<rparr>) q" for h using k by (simp add: alive_def process_get_cong [of "k\<lparr>kheap := h\<rparr>" k])
  then show ?thesis using al k unfolding reap_zombie_def Let_def e by simp
qed

lemma alive_reap_zombies: "alive (s_kern s) q \<Longrightarrow> alive (s_kern (reap_zombies s)) q"
proof -
  have "alive (s_kern s) q \<Longrightarrow> alive (s_kern (fold reap_zombie js s)) q" for js
    by (induction js arbitrary: s) (simp_all add: alive_reap_zombie)
  then show "alive (s_kern s) q \<Longrightarrow> alive (s_kern (reap_zombies s)) q" by (simp add: reap_zombies_def)
qed

text \<open>The process of every thread that waits for the processor, ready or asleep, is alive.  Nothing is required of
  the current thread: a user process that ends is a zombie before its own thread leaves the processor.\<close>

definition runnable :: "sched \<Rightarrow> bool" where
  "runnable s \<longleftrightarrow>
     (\<forall>i<8. t_state (tcb s i) \<in> {THREAD_READY, THREAD_SLEEPING} \<longrightarrow> alive (s_kern s) (t_process_pid (tcb s i)))"

text \<open>The ready queue from which \<open>scheduler_process\<close> picks: sleepers that are due and a running current thread
  are appended first.\<close>

definition candidates :: "sched \<Rightarrow> nat list \<Rightarrow> nat list \<Rightarrow> nat \<Rightarrow> nat list" where
  "candidates s rs ss c = rs @ takeWhile (due s) ss @ (if t_state (tcb s c) = THREAD_RUNNING then [c] else [])"

lemma switch_to_spec:
  assumes Q: "queues s (nx # rs) ss" and c: "c < 8" "c \<noteq> nx" "t_state (tcb s c) \<noteq> THREAD_RUNNING" and cur: "s_ready s"
    "\<forall>i<8. block_ok (tcb s i)" "\<forall>i<8. i \<noteq> c \<longrightarrow> t_state (tcb s i) \<noteq> THREAD_RUNNING"
    and al: "alive (s_kern s) (t_process_pid (tcb s nx))"
  shows "\<exists>s'. switch_to rsp c nx (popped nx s) = (Switched c nx, s') \<and> sched_ok s' rs ss nx"
proof -
  let ?f = "\<lambda>t. t\<lparr>t_state := THREAD_RUNNING\<rparr>"
  let ?s1 = "(upd_tcb nx ?f (popped nx s))\<lparr>s_current := Some nx\<rparr>"
  have nx: "nx < 8" "nx \<notin> set rs" "nx \<notin> set ss" and L: "length (s_tcbs s) = 8"
    using queues_bound [OF Q] Q by (auto simp: queues_def rq_def table_def SCHED_MAX_THREADS_def)
  have Q1: "queues (upd_tcb nx ?f (popped nx s)) rs ss" by (rule queues_dequeue [OF Q]) simp
  have "alive (s_kern ?s1) (t_process_pid (tcb ?s1 nx))" using al by (simp add: nth_update_if)
  then obtain rt k where sel: "select_space nx ?s1 = Some (rt, k)" using select_space_alive [of nx ?s1] by auto
  let ?k = "set_mm (snd (paging_switch_cr3 rt (kmm k))) k"
  let ?g = "\<lambda>t. t\<lparr>t_switches := t_switches t + 1\<rparr>"
  define s' where "s' = upd_tcb c (\<lambda>t. t\<lparr>t_rsp := rsp\<rparr>)
     ((upd_tcb nx ?g (upd_tcb c ?g (?s1\<lparr>s_kern := ?k\<rparr>)))\<lparr>s_context_switches := s_context_switches s + 1\<rparr>)"
  have sw: "switch_to rsp c nx (popped nx s) = (Switched c nx, s')"
    using sel by (simp add: switch_to_def s'_def Let_def popped_def)
  have Qs: "queues s' rs ss"
    by (rule queues_cong [OF Q1]) (simp_all add: s'_def nth_update_if)
  have st: "t_state (tcb s' i) = (if i = nx then THREAD_RUNNING else t_state (tcb s i))"
    and mg: "t_magic (tcb s' i) = t_magic (tcb s i)" for i
    using nx(1) L by (simp_all add: s'_def nth_update_if)
  have rdy: "t_state (tcb s nx) = THREAD_READY" using Q nx(1) by (auto simp: queues_def)
  have "current_only s' nx"
    unfolding current_only_def
  proof (intro conjI)
    show "\<forall>i<8. block_ok (tcb s' i)" using cur(2) rdy nx(1) by (auto simp: block_ok_def st mg)
    show "\<forall>i<8. i \<noteq> nx \<longrightarrow> t_state (tcb s' i) \<noteq> THREAD_RUNNING" using cur(3) c(3) by (auto simp: st)
  qed (simp_all add: s'_def cur(1) nx(1))
  then have "sched_ok s' rs ss nx" using Qs by (simp add: sched_ok_def st)
  then show ?thesis using sw by blast
qed

text \<open>The thread table when the switch is decided.\<close>

definition settled :: "sched \<Rightarrow> sched" where
  "settled s = reap_zombies (wake_due_threads s)"

lemma queuesD:
  assumes "queues s rs ss" "i < 8"
  shows "i \<in> set rs \<longleftrightarrow> t_state (tcb s i) = THREAD_READY" "i \<in> set ss \<longleftrightarrow> t_state (tcb s i) = THREAD_SLEEPING"
  using assms by (auto simp: queues_def)

lemma wake_due_state:
  assumes Q: "queues s rs ss" and i: "i < 8"
  shows "t_state (tcb (wake_due_threads s) i) = t_state (tcb s i) \<or>
    t_state (tcb s i) = THREAD_SLEEPING \<and> t_state (tcb (wake_due_threads s) i) = THREAD_READY"
proof (cases "i \<in> set ss")
  case True
  note W = wake_due_threads_spec [OF Q]
  have "i \<in> set (takeWhile (due s) ss) \<union> set (dropWhile (due s) ss)" using True by (metis set_append takeWhile_dropWhile_id)
  then have "t_state (tcb (wake_due_threads s) i) \<in> {THREAD_READY, THREAD_SLEEPING}" using queuesD [OF W(1) i] by auto
  then show ?thesis using queuesD(2) [OF Q i] True by auto
qed (use wake_due_threads_spec(3) [OF Q] in simp)

lemma settled_spec:
  assumes Q: "queues s rs ss" and CO: "current_only s c"
  shows "queues (settled s) (rs @ takeWhile (due s) ss) (dropWhile (due s) ss)" and "current_only (settled s) c"
    and "s_reschedule (settled s) = s_reschedule s" and "\<not> s_wakeup (settled s)"
    and "t_state (tcb (settled s) c) = THREAD_RUNNING \<longleftrightarrow> t_state (tcb s c) = THREAD_RUNNING"
    and "\<And>i. i < 8 \<Longrightarrow> t_state (tcb (settled s) i) \<in> {THREAD_READY, THREAD_SLEEPING} \<Longrightarrow>
      t_state (tcb s i) \<in> {THREAD_READY, THREAD_SLEEPING} \<and> t_process_pid (tcb (settled s) i) = t_process_pid (tcb s i)"
    and "\<And>q. alive (s_kern s) q \<Longrightarrow> alive (s_kern (settled s)) q"
proof -
  let ?w = "wake_due_threads s"
  note W = wake_due_threads_spec [OF Q]
  have r: "reaped ?w (settled s)" unfolding settled_def by (rule reaped_zombies)
  show "queues (settled s) (rs @ takeWhile (due s) ss) (dropWhile (due s) ss)" by (rule reaped_queues [OF W(1) r])
  have blk: "tcb (settled s) i = tcb ?w i \<or> t_state (tcb ?w i) = THREAD_ZOMBIE \<and> i \<noteq> c \<and> tcb (settled s) i = clear_tcb (tcb ?w i)" for i
    using r CO unfolding reaped_def current_only_def by auto
  note wst = wake_due_state [OF Q]
  show "current_only (settled s) c"
    unfolding current_only_def
  proof (intro conjI allI impI)
    fix i :: nat assume i: "i < 8"
    have b: "block_ok (tcb s i)" using CO i by (simp add: current_only_def)
    then have "block_ok (tcb ?w i)" using wst [OF i] by (auto simp: block_ok_def)
    then show "block_ok (tcb (settled s) i)" using blk [of i] by (auto simp: block_ok_def clear_tcb_def)
    assume "i \<noteq> c"
    then have "t_state (tcb s i) \<noteq> THREAD_RUNNING" using CO i by (simp add: current_only_def)
    then show "t_state (tcb (settled s) i) \<noteq> THREAD_RUNNING" using wst [OF i] blk [of i] by auto
  qed (use CO r in \<open>simp_all add: current_only_def reaped_def\<close>)
  show "s_reschedule (settled s) = s_reschedule s" "\<not> s_wakeup (settled s)" using r W(2) by (simp_all add: reaped_def)
  have c: "c < 8" using CO by (simp add: current_only_def)
  show "t_state (tcb (settled s) c) = THREAD_RUNNING \<longleftrightarrow> t_state (tcb s c) = THREAD_RUNNING"
    using wst [OF c] blk [of c] by auto
  show "i < 8 \<Longrightarrow> t_state (tcb (settled s) i) \<in> {THREAD_READY, THREAD_SLEEPING} \<Longrightarrow>
      t_state (tcb s i) \<in> {THREAD_READY, THREAD_SLEEPING} \<and> t_process_pid (tcb (settled s) i) = t_process_pid (tcb s i)" for i
    using wst [of i] blk [of i] by auto
  show "alive (s_kern s) q \<Longrightarrow> alive (s_kern (settled s)) q" for q
    using alive_reap_zombies [of ?w q] by (simp add: settled_def)
qed

text \<open>\<open>scheduler_process\<close> hands the processor to the first candidate, or stops it when there is none.\<close>

lemma scheduler_process_spec:
  assumes Q: "queues s rs ss" and CO: "current_only s c" and st: "t_state (tcb s c) \<notin> {THREAD_READY, THREAD_NONE}"
    and resch: "s_reschedule s"
    and run: "\<forall>i<8. t_state (tcb s i) \<in> {THREAD_READY, THREAD_SLEEPING} \<longrightarrow> alive (s_kern s) (t_process_pid (tcb s i))"
  shows "case candidates s rs ss c of
      [] \<Rightarrow> fst (scheduler_process rsp s) = Halted
    | nx # rest \<Rightarrow> \<exists>s'. scheduler_process rsp s = (if nx = c then Returned else Switched c nx, s') \<and>
        sched_ok s' rest (dropWhile (due s) ss) nx"
proof -
  let ?rs = "rs @ takeWhile (due s) ss" and ?ss = "dropWhile (due s) ss"
  note S = settled_spec [OF Q CO]
  define s2 where "s2 = (settled s)\<lparr>s_reschedule := False, s_wakeup := False\<rparr>"
  have Q2: "queues s2 ?rs ?ss" by (rule queues_cong [OF S(1)]) (simp_all add: s2_def)
  have CO2: "current_only s2 c" using S(2) by (simp add: s2_def current_only_def)
  have c: "c < 8" and rdy: "s_ready s" using CO by (simp_all add: current_only_def)
  have L: "length (s_tcbs s2) = 8" using Q2 by (simp add: queues_def table_def SCHED_MAX_THREADS_def)
  define s3 where "s3 = (if t_state (tcb s2 c) = THREAD_RUNNING
     then ready_append c (upd_tcb c (\<lambda>t. t\<lparr>t_state := THREAD_READY\<rparr>) s2) else s2)"
  have cand: "candidates s rs ss c = ?rs @ (if t_state (tcb s2 c) = THREAD_RUNNING then [c] else [])"
    using S(5) by (simp add: candidates_def s2_def)
  have Q3: "queues s3 (candidates s rs ss c) ?ss"
  proof (cases "t_state (tcb s2 c) = THREAD_RUNNING")
    case True
    then have "c \<notin> set ?rs" "c \<notin> set ?ss" using queuesD [OF Q2 c] by auto
    from queues_enqueue [OF Q2 c this, of "\<lambda>t. t\<lparr>t_state := THREAD_READY\<rparr>"] show ?thesis
      unfolding s3_def cand using True by simp
  qed (use Q2 in \<open>simp add: s3_def cand\<close>)
  have st3: "t_state (tcb s3 i) = (if i = c \<and> t_state (tcb s2 c) = THREAD_RUNNING then THREAD_READY else t_state (tcb s2 i))" for i
    using c L by (simp add: s3_def nth_update_if)
  have f3: "t_magic (tcb s3 i) = t_magic (tcb s2 i)" "t_process_pid (tcb s3 i) = t_process_pid (tcb s2 i)"
    "s_kern s3 = s_kern s2" "s_ready s3" "s_current s3 = Some c" for i
    using CO2 by (simp_all add: s3_def nth_update_if current_only_def)
  have nrun: "\<forall>i<8. t_state (tcb s3 i) \<noteq> THREAD_RUNNING" using CO2 by (auto simp: st3 current_only_def)
  have blk: "\<forall>i<8. block_ok (tcb s3 i)" using CO2 by (auto simp: block_ok_def st3 f3 current_only_def split: if_splits)
  have proc: "scheduler_process rsp s = (case pick_next s3 of
        (None, s4) \<Rightarrow> if t_state (tcb s4 c) = THREAD_READY then (Returned, upd_tcb c (\<lambda>t. t\<lparr>t_state := THREAD_RUNNING\<rparr>) s4) else (Halted, s4)
      | (Some nx, s4) \<Rightarrow> if nx = c then (Returned, upd_tcb c (\<lambda>t. t\<lparr>t_state := THREAD_RUNNING\<rparr>) s4) else switch_to rsp c nx s4)"
  proof -
    have "s_current s2 = Some c" using CO2 by (simp add: current_only_def)
    then show ?thesis using rdy S(3) resch
      unfolding scheduler_process_def settled_def [symmetric] Let_def s3_def s2_def by (simp del: split_paired_All)
  qed
  show ?thesis
  proof (cases "candidates s rs ss c")
    case Nil
    then have "rq s3 []" "t_state (tcb s3 c) \<noteq> THREAD_READY" using Q3 queuesD(1) [OF Q3 c] by (auto simp: queues_def)
    then show ?thesis unfolding proc Nil using ready_pop_Nil by (simp add: pick_next_def)
  next
    case (Cons nx rest)
    note Q4 = Q3 [unfolded Cons]
    have "table s3" "rq s3 (nx # rest)" using Q4 by (simp_all add: queues_def)
    from ready_pop_Cons(1) [OF this] have pop: "pick_next s3 = (Some nx, popped nx s3)" by (simp add: pick_next_def)
    have nx: "nx < 8" "t_state (tcb s3 nx) = THREAD_READY" using queues_bound(1) [OF Q4] queuesD(1) [OF Q4, of nx] by auto
    show ?thesis
    proof (cases "nx = c")
      case True
      let ?s = "upd_tcb c (\<lambda>t. t\<lparr>t_state := THREAD_RUNNING\<rparr>) (popped c s3)"
      have L3: "length (s_tcbs s3) = 8" using L by (simp add: s3_def)
      have "queues ?s rest ?ss" using queues_dequeue [OF Q4, of "\<lambda>t. t\<lparr>t_state := THREAD_RUNNING\<rparr>"] True by simp
      moreover have "current_only ?s c"
        unfolding current_only_def using c f3(4,5) blk nrun nx(2) True L3 by (auto simp: nth_update_if block_ok_def)
      ultimately have "sched_ok ?s rest ?ss nx" using True c L3 by (simp add: sched_ok_def nth_update_if)
      then show ?thesis unfolding proc pop Cons using True by simp
    next
      case False
      have "t_state (tcb (settled s) nx) \<in> {THREAD_READY, THREAD_SLEEPING}"
        using nx(2) False by (simp add: st3 s2_def)
      note n = S(6) [OF nx(1) this]
      then have "alive (s_kern s) (t_process_pid (tcb s nx))" using run nx(1) by blast
      then have "alive (s_kern s3) (t_process_pid (tcb s3 nx))" using S(7) n by (simp add: f3 s2_def)
      then have "\<exists>s'. switch_to rsp c nx (popped nx s3) = (Switched c nx, s') \<and> sched_ok s' rest ?ss nx"
        using False nrun c by (intro switch_to_spec [OF Q4 c _ _ f3(4) blk]) auto
      then show ?thesis unfolding proc pop Cons using False by simp
    qed
  qed
qed

section \<open>Steps that do not switch\<close>

lemma sched_ok_cong:
  assumes ok: "sched_ok s rs ss c" and Q: "queues s' rs' ss'" and f: "s_ready s' = s_ready s" "s_current s' = s_current s"
    "\<And>i. i < 8 \<Longrightarrow> block_ok (tcb s' i)"
    "\<And>i. i < 8 \<Longrightarrow> t_state (tcb s' i) = THREAD_RUNNING \<longleftrightarrow> t_state (tcb s i) = THREAD_RUNNING"
  shows "sched_ok s' rs' ss' c"
  using assms by (auto simp: sched_ok_def current_only_def)

lemma sched_okD:
  assumes "sched_ok s rs ss c"
  shows "queues s rs ss" "current_only s c" "t_state (tcb s c) = THREAD_RUNNING" "s_current s = Some c" "c < 8" "s_ready s"
    "\<And>i. i < 8 \<Longrightarrow> block_ok (tcb s i)" "length (s_tcbs s) = 8" "c \<notin> set rs" "c \<notin> set ss"
  using assms by (auto simp: sched_ok_def current_only_def queues_def table_def SCHED_MAX_THREADS_def)

lemma tick_ok:
  assumes ok: "sched_ok s rs ss c" shows "sched_ok (scheduler_tick_irq s) rs ss c"
proof -
  note D = sched_okD [OF ok]
  let ?s = "scheduler_tick_irq s"
  have t: "s_tcbs ?s = (s_tcbs s)[c := (tcb s c)\<lparr>t_runtime_ticks := t_runtime_ticks (tcb s c) + 1\<rparr>]"
    and f: "s_ready ?s = s_ready s" "s_current ?s = s_current s" "s_ready_head ?s = s_ready_head s" "s_ready_tail ?s = s_ready_tail s"
      "s_ready_count ?s = s_ready_count s" "s_sleep_head ?s = s_sleep_head s" "s_sleeping_count ?s = s_sleeping_count s"
    using D(4,6) by (simp_all add: scheduler_tick_irq_def Let_def)
  have "queues ?s rs ss" by (rule queues_cong [OF D(1)]) (simp_all add: t f nth_update_if)
  then show ?thesis using D(7) by (intro sched_ok_cong [OF ok]) (simp_all add: t f nth_update_if block_ok_def)
qed

text \<open>Appending a thread that was in no queue.\<close>

lemma append_ok:
  assumes ok: "sched_ok s rs ss c" and th: "th < 8" "th \<notin> set rs" "th \<notin> set ss" "th \<noteq> c"
    and t: "length (s_tcbs s') = length (s_tcbs s)" "\<And>j. j \<noteq> th \<Longrightarrow> tcb s' j = tcb s j"
    and st: "t_state (tcb s' th) = THREAD_READY" "t_magic (tcb s' th) = THREAD_MAGIC"
    and f: "s_ready s' = s_ready s" "s_current s' = s_current s" "s_ready_head s' = s_ready_head s" "s_ready_tail s' = s_ready_tail s"
      "s_ready_count s' = s_ready_count s" "s_sleep_head s' = s_sleep_head s" "s_sleeping_count s' = s_sleeping_count s"
  shows "sched_ok (ready_append th s') (rs @ [th]) ss c"
proof -
  note D = sched_okD [OF ok]
  let ?b = "s'\<lparr>s_tcbs := s_tcbs s\<rparr>"
  have Qb: "queues ?b rs ss" by (rule queues_cong [OF D(1)]) (simp_all add: f)
  have "s_tcbs s' = (s_tcbs s)[th := tcb s' th]"
  proof (rule nth_equalityI)
    fix i assume "i < length (s_tcbs s')"
    then show "tcb s' i = (s_tcbs s)[th := tcb s' th] ! i" using t by (cases "i = th") simp_all
  qed (simp add: t)
  then have e: "s' = upd_tcb th (\<lambda>_. tcb s' th) ?b" by (simp add: upd_tcb_def)
  have "queues (ready_append th s') (rs @ [th]) ss"
    by (subst e) (rule queues_enqueue [OF Qb th(1-3)], simp add: st)
  then show ?thesis
  proof (rule sched_ok_cong [OF ok])
    fix i :: nat assume i: "i < 8"
    show "block_ok (tcb (ready_append th s') i)"
      using D(7) [OF i] t(2) [of i] st by (cases "i = th") (simp_all add: block_ok_def)
    show "t_state (tcb (ready_append th s') i) = THREAD_RUNNING \<longleftrightarrow> t_state (tcb s i) = THREAD_RUNNING"
      using t(2) [of i] st th D(2) by (cases "i = th") (auto simp: current_only_def)
  qed (simp_all add: f)
qed

text \<open>The state in which \<open>thread_create\<close> appends the new thread.\<close>

definition spawned :: "nat \<Rightarrow> u64 \<Rightarrow> u64 \<Rightarrow> u64 \<Rightarrow> heap \<Rightarrow> sched \<Rightarrow> sched" where
  "spawned slot entry arg stack h s = init_thread_stack slot (upd_tcb slot (\<lambda>t. t\<lparr>t_magic := THREAD_MAGIC, t_id := s_next_tid s,
     t_process_pid := 0, t_stack_base := stack, t_stack_size := SCHED_STACK_SIZE, t_switches := 0, t_runtime_ticks := 0,
     t_wake_tick := 0, t_state := THREAD_READY, t_entry := entry, t_arg := arg, t_next := None\<rparr>)
     (s\<lparr>s_kern := (s_kern s)\<lparr>kheap := h\<rparr>, s_next_tid := s_next_tid s + 1\<rparr>))"

lemma thread_create_cases:
  assumes r: "thread_create entry arg s = Some (tid, s')"
  obtains (same) k where "s' = s\<lparr>s_kern := k\<rparr>" "tid = 0"
  | (made) slot stack h where "find (\<lambda>i. t_magic (tcb s i) = 0) [1..<SCHED_MAX_THREADS] = Some slot" "tid = s_next_tid s"
      "s' = (ready_append slot (spawned slot entry arg stack h s))\<lparr>s_thread_count := s_thread_count s + 1\<rparr>"
proof (cases "\<not> s_ready s \<or> entry = 0 \<or> \<not> heap_ready (kheap (s_kern s))")
  case True
  then have "s' = s\<lparr>s_kern := s_kern s\<rparr>" "tid = 0" using r by (simp_all add: thread_create_def)
  then show thesis by (rule same)
next
  case g: False
  show thesis
  proof (cases "find (\<lambda>i. t_magic (tcb s i) = 0) [1..<SCHED_MAX_THREADS]")
    case None
    then have "s' = s\<lparr>s_kern := s_kern s\<rparr>" "tid = 0" using r g unfolding thread_create_def by simp_all
    then show thesis by (rule same)
  next
    case sl: (Some slot)
    show thesis
    proof (cases "kmalloc SCHED_STACK_SIZE (kheap (s_kern s))")
      case None
      then show thesis using r g unfolding thread_create_def sl by simp
    next
      case (Some p)
      obtain stack h where p: "p = (stack, h)" by (cases p)
      show thesis
      proof (cases "stack = 0")
        case True
        then have "s' = s\<lparr>s_kern := (s_kern s)\<lparr>kheap := h\<rparr>\<rparr>" "tid = 0"
          using r g unfolding thread_create_def sl Some p by simp_all
        then show thesis by (rule same)
      next
        case False
        then have "s' = (ready_append slot (spawned slot entry arg stack h s))\<lparr>s_thread_count := s_thread_count s + 1\<rparr>" "tid = s_next_tid s"
          using r g unfolding thread_create_def sl Some p by (auto simp: Let_def spawned_def init_thread_stack_def)
        then show thesis by (intro made [OF sl])
      qed
    qed
  qed
qed

lemma kern_ok:
  assumes ok: "sched_ok s rs ss c" shows "sched_ok (s\<lparr>s_kern := k\<rparr>) rs ss c"
proof -
  note D = sched_okD [OF ok]
  have "queues (s\<lparr>s_kern := k\<rparr>) rs ss" by (rule queues_cong [OF D(1)]) simp_all
  then show ?thesis using D(7) by (intro sched_ok_cong [OF ok]) simp_all
qed

lemma create_ok:
  assumes ok: "sched_ok s rs ss c" and r: "thread_create entry arg s = Some (tid, s')"
  shows "\<exists>zs. sched_ok s' (rs @ zs) ss c"
  using r
proof (cases rule: thread_create_cases)
  case (same k)
  then show ?thesis using kern_ok [OF ok] by (metis append_Nil2)
next
  case (made slot stack h)
  note D = sched_okD [OF ok]
  have sl: "slot < 8" "t_magic (tcb s slot) = 0" using made(1) by (auto simp: find_Some_iff SCHED_MAX_THREADS_def)
  then have "t_state (tcb s slot) = THREAD_NONE" using D(7) [OF sl(1)] by (auto simp: block_ok_def THREAD_MAGIC_def split: if_splits)
  then have n: "slot \<notin> set rs" "slot \<notin> set ss" "slot \<noteq> c" using queuesD [OF D(1) sl(1)] D(3) by auto
  have A: "sched_ok (ready_append slot (spawned slot entry arg stack h s)) (rs @ [slot]) ss c"
    by (rule append_ok [OF ok sl(1) n]) (use sl D(8) in \<open>simp_all add: spawned_def init_thread_stack_def Let_def nth_update_if\<close>)
  have "queues s' (rs @ [slot]) ss" unfolding made(3) by (rule queues_cong [OF sched_okD(1) [OF A]]) simp_all
  then have "sched_ok s' (rs @ [slot]) ss c"
    using sched_okD(7) [OF A] unfolding made(3) by (intro sched_ok_cong [OF A]) simp_all
  then show ?thesis by blast
qed

lemma create_user_ok:
  assumes ok: "sched_ok s rs ss c" and r: "thread_create_user_process pid s = Some (tid, s')"
  shows "\<exists>zs. sched_ok s' (rs @ zs) ss c"
proof (cases "s' = s")
  case True
  then show ?thesis using ok by (metis append_Nil2)
next
  case False
  obtain t s1 where c: "thread_create (s_user_bootstrap s) pid s = Some (t, s1)"
    and s1: "s' = s1 \<or> (\<exists>j k. s' = (upd_tcb j (\<lambda>b. b\<lparr>t_process_pid := pid\<rparr>) s1)\<lparr>s_kern := k\<rparr>)"
    using r False unfolding thread_create_user_process_def Let_def by (auto split: if_splits option.splits prod.splits)
  obtain zs where A: "sched_ok s1 (rs @ zs) ss c" using create_ok [OF ok c] by blast
  show ?thesis
  proof (cases "s' = s1")
    case True
    then show ?thesis using A by blast
  next
    case False
    then obtain j k where e: "s' = (upd_tcb j (\<lambda>b. b\<lparr>t_process_pid := pid\<rparr>) s1)\<lparr>s_kern := k\<rparr>" using s1 by blast
    have "queues s' (rs @ zs) ss" unfolding e by (rule queues_cong [OF sched_okD(1) [OF A]]) (simp_all add: nth_update_if)
    then have "sched_ok s' (rs @ zs) ss c"
      using sched_okD(7) [OF A] unfolding e by (intro sched_ok_cong [OF A]) (simp_all add: nth_update_if block_ok_def)
    then show ?thesis by blast
  qed
qed

text \<open>Changing the two hints.\<close>

lemma flags_ok:
  assumes ok: "sched_ok s rs ss c" shows "sched_ok (s\<lparr>s_wakeup := w, s_reschedule := r\<rparr>) rs ss c"
proof -
  note D = sched_okD [OF ok]
  have "queues (s\<lparr>s_wakeup := w, s_reschedule := r\<rparr>) rs ss" by (rule queues_cong [OF D(1)]) simp_all
  then show ?thesis using D(7) by (intro sched_ok_cong [OF ok]) simp_all
qed

lemma find_thread_bound: "find_thread_by_id tid s = Some th \<Longrightarrow> th < 8 \<and> t_magic (tcb s th) = THREAD_MAGIC"
  by (auto simp: find_thread_by_id_def find_Some_iff SCHED_MAX_THREADS_def)

lemma wake_ok:
  assumes ok: "sched_ok s rs ss c" and r: "scheduler_wake_thread tid s = (b, s')"
  shows "\<exists>zs. sched_ok s' (rs @ zs) ss c"
proof (cases "s' = s")
  case True
  then show ?thesis using ok by (metis append_Nil2)
next
  case False
  note D = sched_okD [OF ok]
  obtain th where th: "find_thread_by_id tid s = Some th" "t_state (tcb s th) = THREAD_BLOCKED"
    and s': "s' = (ready_append th (upd_tcb th (\<lambda>t. t\<lparr>t_state := THREAD_READY\<rparr>) s))\<lparr>s_wakeup := True, s_reschedule := True\<rparr>"
    using r False by (auto simp: scheduler_wake_thread_def scheduler_wake_thread_locked_def split: if_splits option.splits)
  note b = find_thread_bound [OF th(1)]
  then have n: "th \<notin> set rs" "th \<notin> set ss" "th \<noteq> c" using queuesD [OF D(1)] D(3) th(2) by auto
  have "sched_ok (ready_append th (upd_tcb th (\<lambda>t. t\<lparr>t_state := THREAD_READY\<rparr>) s)) (rs @ [th]) ss c"
    by (rule append_ok [OF ok _ n]) (use b D(8) in \<open>simp_all add: nth_update_if\<close>)
  then show ?thesis unfolding s' by (intro exI flags_ok)
qed

lemma wakeup_ok:
  assumes ok: "sched_ok s rs ss c" and r: "thread_wakeup tid s = (b, s')"
  shows "\<exists>zs ss'. sched_ok s' (rs @ zs) ss' c"
proof (cases "s' = s")
  case True
  then show ?thesis using ok by (metis append_Nil2)
next
  case False
  note D = sched_okD [OF ok]
  obtain th where th: "find_thread_by_id tid s = Some th" "t_state (tcb s th) = THREAD_SLEEPING"
    and s': "s' = (wake_thread_locked th s)\<lparr>s_wakeup := True, s_reschedule := True\<rparr>"
    using r False by (auto simp: thread_wakeup_def split: if_splits option.splits)
  note b = find_thread_bound [OF th(1)]
  then have "th \<in> set ss" using queuesD(2) [OF D(1)] th(2) by auto
  then obtain xs ys where ss: "ss = xs @ th # ys" by (meson split_list)
  have Q: "queues (wake_thread_locked th s) (rs @ [th]) (xs @ ys)" using queues_wake_thread D(1) ss by blast
  have "sched_ok (wake_thread_locked th s) (rs @ [th]) (xs @ ys) c"
  proof (rule sched_ok_cong [OF ok Q])
    have "s_ready (wake_thread_locked th s) = s_ready s \<and> s_current (wake_thread_locked th s) = s_current s"
      by (simp add: wake_thread_locked_def Let_def split: prod.split option.split)
    then show "s_ready (wake_thread_locked th s) = s_ready s" "s_current (wake_thread_locked th s) = s_current s" by simp_all
    fix i :: nat assume i: "i < 8"
    have m: "t_magic (tcb (wake_thread_locked th s) i) = t_magic (tcb s i)"
      by (simp add: wake_thread_locked_def Let_def nth_update_if split: prod.split option.split)
    have st: "i \<noteq> th \<Longrightarrow> t_state (tcb (wake_thread_locked th s) i) = t_state (tcb s i)"
      by (simp add: wake_thread_locked_def Let_def nth_update_if split: prod.split option.split)
    have rd: "t_state (tcb (wake_thread_locked th s) th) = THREAD_READY" using queuesD(1) [OF Q] b by auto
    show "block_ok (tcb (wake_thread_locked th s) i)"
      using D(7) [OF i] m st rd b by (cases "i = th") (auto simp: block_ok_def)
    show "t_state (tcb (wake_thread_locked th s) i) = THREAD_RUNNING \<longleftrightarrow> t_state (tcb s i) = THREAD_RUNNING"
      using st rd th(2) by (cases "i = th") auto
  qed
  then show ?thesis unfolding s' by (intro exI flags_ok)
qed

lemma poll_ok:
  assumes ok: "sched_ok s rs ss c" and n: "\<not> s_reschedule s" and r: "scheduler_process rsp s = (o1, s')"
  shows "\<exists>zs ss'. sched_ok s' (rs @ zs) ss' c"
proof -
  note D = sched_okD [OF ok]
  note S = settled_spec [OF D(1,2)]
  have "s' = settled s"
    using r D(6) n S(3,4) unfolding scheduler_process_def settled_def [symmetric] Let_def by simp
  moreover have "sched_ok (settled s) (rs @ takeWhile (due s) ss) (dropWhile (due s) ss) c"
    using S(1,2,5) D(3) by (simp add: sched_ok_def)
  ultimately show ?thesis by blast
qed

section \<open>Steps that pick a thread\<close>

text \<open>The first ready thread, if there is one, becomes the current thread, and the others move up.\<close>

definition advanced :: "nat list \<Rightarrow> sched \<Rightarrow> bool" where
  "advanced rs s' \<longleftrightarrow> (\<exists>nx rest ss'. sched_ok s' rest ss' nx \<and> (rs \<noteq> [] \<longrightarrow> nx = hd rs \<and> (\<exists>zs. rest = List.tl rs @ zs)))"

lemma pick_advances:
  assumes "queues s rs ss" "current_only s c" "t_state (tcb s c) \<notin> {THREAD_READY, THREAD_NONE}" "s_reschedule s"
    "\<forall>i<8. t_state (tcb s i) \<in> {THREAD_READY, THREAD_SLEEPING} \<longrightarrow> alive (s_kern s) (t_process_pid (tcb s i))"
    and r: "scheduler_process rsp s = (o1, s')" "o1 \<noteq> Halted"
  shows "advanced rs s'"
proof -
  note P = scheduler_process_spec [OF assms(1-5), of rsp]
  show ?thesis
  proof (cases "candidates s rs ss c")
    case Nil
    then show ?thesis using P r by simp
  next
    case (Cons nx rest)
    then have A: "sched_ok s' rest (dropWhile (due s) ss) nx" using P r by auto
    moreover have "nx = hd rs \<and> (\<exists>zs. rest = List.tl rs @ zs)" if "rs \<noteq> []"
      using Cons that by (cases rs) (auto simp: candidates_def)
    ultimately show ?thesis unfolding advanced_def by blast
  qed
qed

lemma runnable_alive:
  assumes "runnable s" "s_kern s' = s_kern s"
    "\<And>i. i < 8 \<Longrightarrow> t_process_pid (tcb s' i) = t_process_pid (tcb s i) \<and>
       (t_state (tcb s' i) \<in> {THREAD_READY, THREAD_SLEEPING} \<longrightarrow>
          t_state (tcb s i) \<in> {THREAD_READY, THREAD_SLEEPING} \<or> alive (s_kern s) (t_process_pid (tcb s i)))"
  shows "\<forall>i<8. t_state (tcb s' i) \<in> {THREAD_READY, THREAD_SLEEPING} \<longrightarrow> alive (s_kern s') (t_process_pid (tcb s' i))"
  using assms unfolding runnable_def by metis

text \<open>The current thread changes to a state other than ready, and another thread is picked.\<close>

lemma leave_advances:
  assumes ok: "sched_ok s rs ss c" and run: "runnable s"
    and f: "t_state (f (tcb s c)) \<in> {THREAD_RUNNING, THREAD_BLOCKED, THREAD_ZOMBIE}" "t_magic (f (tcb s c)) = t_magic (tcb s c)"
      "t_process_pid (f (tcb s c)) = t_process_pid (tcb s c)"
    and r: "scheduler_process rsp ((upd_tcb c f s)\<lparr>s_reschedule := True, s_thread_count := n\<rparr>) = (o1, s')" "o1 \<noteq> Halted"
  shows "advanced rs s'"
proof -
  note D = sched_okD [OF ok]
  let ?s = "(upd_tcb c f s)\<lparr>s_reschedule := True, s_thread_count := n\<rparr>"
  have st: "t_state (tcb ?s i) = (if i = c then t_state (f (tcb s c)) else t_state (tcb s i))"
    "t_magic (tcb ?s i) = t_magic (tcb s i)" "t_process_pid (tcb ?s i) = t_process_pid (tcb s i)" for i
    using D(5,8) f(2,3) by (simp_all add: nth_update_if)
  have fr: "t_state (f (tcb s c)) \<noteq> THREAD_READY" "t_state (f (tcb s c)) \<noteq> THREAD_SLEEPING" "t_state (f (tcb s c)) \<noteq> THREAD_NONE" using f(1) by auto
  have Q: "queues ?s rs ss"
  proof (rule queues_cong [OF D(1)])
    fix x assume "x \<in> set rs \<union> set ss"
    then have "x \<noteq> c" using D(9,10) by auto
    then show "t_next (tcb ?s x) = t_next (tcb s x)" by simp
  next
    fix x assume "x \<in> set ss"
    then have "x \<noteq> c" using D(10) by auto
    then show "t_wake_tick (tcb ?s x) = t_wake_tick (tcb s x)" by simp
  next
    fix x :: nat assume "x < 8"
    show "(t_state (tcb ?s x) = THREAD_READY \<longleftrightarrow> t_state (tcb s x) = THREAD_READY) \<and>
        (t_state (tcb ?s x) = THREAD_SLEEPING \<longleftrightarrow> t_state (tcb s x) = THREAD_SLEEPING)"
      using fr D(3) unfolding st by simp
  qed simp_all
  have bl: "block_ok (tcb ?s i)" if "i < 8" for i
    using D(7) [OF that] D(3) fr(3) unfolding block_ok_def st by (auto split: if_splits)
  have "current_only ?s c"
    unfolding current_only_def st using D(2) bl by (simp add: current_only_def)
  moreover have "\<forall>i<8. t_state (tcb ?s i) \<in> {THREAD_READY, THREAD_SLEEPING} \<longrightarrow> alive (s_kern ?s) (t_process_pid (tcb ?s i))"
  proof (rule runnable_alive [OF run])
    fix i :: nat
    show "t_process_pid (tcb ?s i) = t_process_pid (tcb s i) \<and> (t_state (tcb ?s i) \<in> {THREAD_READY, THREAD_SLEEPING} \<longrightarrow>
        t_state (tcb s i) \<in> {THREAD_READY, THREAD_SLEEPING} \<or> alive (s_kern s) (t_process_pid (tcb s i)))"
      using fr unfolding st by auto
  qed simp
  moreover have "t_state (tcb ?s c) \<notin> {THREAD_READY, THREAD_NONE}" unfolding st using fr by simp
  ultimately show ?thesis by (intro pick_advances [OF Q _ _ _ _ r]) simp_all
qed

lemma sleep_advances:
  assumes ok: "sched_ok s rs ss c" and run: "runnable s" and al: "alive (s_kern s) (t_process_pid (tcb s c))"
    and f: "t_state (f (tcb s c)) = THREAD_SLEEPING" "t_magic (f (tcb s c)) = t_magic (tcb s c)"
      "t_process_pid (f (tcb s c)) = t_process_pid (tcb s c)"
    and r: "scheduler_process rsp ((sleep_insert c (upd_tcb c f s))\<lparr>s_reschedule := True\<rparr>) = (o1, s')" "o1 \<noteq> Halted"
  shows "advanced rs s'"
proof -
  note D = sched_okD [OF ok]
  let ?s = "(sleep_insert c (upd_tcb c f s))\<lparr>s_reschedule := True\<rparr>"
  obtain ss' where Q': "queues (sleep_insert c (upd_tcb c f s)) rs ss'"
    using queues_sleep [OF D(1,5,9,10), of f] f(1) by blast
  have Q: "queues ?s rs ss'" by (rule queues_cong [OF Q']) simp_all
  have st: "t_state (tcb ?s i) = (if i = c then THREAD_SLEEPING else t_state (tcb s i))"
    "t_magic (tcb ?s i) = t_magic (tcb s i)" "t_process_pid (tcb ?s i) = t_process_pid (tcb s i)" for i
    using D(5,8) f by (simp_all add: nth_update_if)
  have bl: "block_ok (tcb ?s i)" if "i < 8" for i
    using D(7) [OF that] D(3) unfolding block_ok_def st by (auto split: if_splits)
  have "current_only ?s c" unfolding current_only_def st using D(2) bl by (simp add: current_only_def)
  moreover have "\<forall>i<8. t_state (tcb ?s i) \<in> {THREAD_READY, THREAD_SLEEPING} \<longrightarrow> alive (s_kern ?s) (t_process_pid (tcb ?s i))"
  proof (rule runnable_alive [OF run])
    fix i :: nat
    show "t_process_pid (tcb ?s i) = t_process_pid (tcb s i) \<and> (t_state (tcb ?s i) \<in> {THREAD_READY, THREAD_SLEEPING} \<longrightarrow>
        t_state (tcb s i) \<in> {THREAD_READY, THREAD_SLEEPING} \<or> alive (s_kern s) (t_process_pid (tcb s i)))"
      using al unfolding st by auto
  qed simp
  moreover have "t_state (tcb ?s c) \<notin> {THREAD_READY, THREAD_NONE}" unfolding st by simp
  ultimately show ?thesis by (intro pick_advances [OF Q _ _ _ _ r]) simp_all
qed

section \<open>Histories\<close>

text \<open>One operation of the scheduler; the flag tells whether it picks a thread.  The thread that calls an
  operation is the current one.  A thread that goes to sleep belongs to a process that is alive.\<close>

inductive sched_step :: "bool \<Rightarrow> sched \<Rightarrow> sched \<Rightarrow> bool" where
  tick: "sched_step False s (scheduler_tick_irq s)"
| request: "sched_step False s (scheduler_request_reschedule s)"
| create: "thread_create entry arg s = Some (tid, s') \<Longrightarrow> sched_step False s s'"
| create_user: "thread_create_user_process pid s = Some (tid, s') \<Longrightarrow> sched_step False s s'"
| wake: "scheduler_wake_thread tid s = (b, s') \<Longrightarrow> sched_step False s s'"
| wakeup: "thread_wakeup tid s = (b, s') \<Longrightarrow> sched_step False s s'"
| poll: "\<not> s_reschedule s \<Longrightarrow> scheduler_process rsp s = (o1, s') \<Longrightarrow> sched_step False s s'"
| preempt: "s_reschedule s \<Longrightarrow> scheduler_process rsp s = (o1, s') \<Longrightarrow> o1 \<noteq> Halted \<Longrightarrow> sched_step True s s'"
| yield: "thread_yield rsp s = (o1, s') \<Longrightarrow> o1 \<noteq> Halted \<Longrightarrow> sched_step True s s'"
| sleep: "scheduler_current_thread_id s \<noteq> 0 \<Longrightarrow> alive (s_kern s) (t_process_pid (tcb s (the (s_current s)))) \<Longrightarrow> thread_sleep_ms rsp ms s = (o1, s') \<Longrightarrow> o1 \<noteq> Halted \<Longrightarrow> sched_step True s s'"
| block: "scheduler_current_thread_id s \<noteq> 0 \<Longrightarrow> thread_block_on_wait_queue rsp q s = (b, q', o1, s') \<Longrightarrow>
    o1 \<noteq> Halted \<Longrightarrow> sched_step True s s'"
| exit: "scheduler_current_thread_id s \<noteq> 0 \<Longrightarrow> thread_exit rsp s = (o1, s') \<Longrightarrow> o1 \<noteq> Halted \<Longrightarrow> sched_step True s s'"

lemma step_quiet:
  assumes ok: "sched_ok s rs ss c" and r: "sched_step False s s'"
  shows "\<exists>zs ss'. sched_ok s' (rs @ zs) ss' c"
  using r
proof cases
  case tick
  then show ?thesis using tick_ok [OF ok] by (metis append_Nil2)
next
  case request
  have "sched_ok (s\<lparr>s_reschedule := True\<rparr>) rs ss c"
    using flags_ok [OF ok, of True "s_wakeup s"] by simp
  then have "sched_ok s' (rs @ []) ss c"
    using request sched_okD(6) [OF ok] by (simp add: scheduler_request_reschedule_def)
  then show ?thesis by blast
qed (use create_ok [OF ok] create_user_ok [OF ok] wake_ok [OF ok] wakeup_ok [OF ok] poll_ok [OF ok] in blast)+

lemma step_pick:
  assumes ok: "sched_ok s rs ss c" and run: "runnable s" and r: "sched_step True s s'"
  shows "advanced rs s'"
  using r
proof cases
  note D = sched_okD [OF ok]
  note L = leave_advances [OF ok run]
  have id: "(upd_tcb c id s)\<lparr>s_reschedule := True, s_thread_count := s_thread_count s\<rparr> = s\<lparr>s_reschedule := True\<rparr>" by (simp add: upd_tcb_def)
  {
    case (preempt rsp o1)
    have "scheduler_process rsp (s\<lparr>s_reschedule := True\<rparr>) = (o1, s')" using preempt by (cases s) simp
    then show ?thesis using L [of id rsp "s_thread_count s" o1 s'] preempt D(3) unfolding id by simp
  next
    case (yield rsp o1)
    then show ?thesis using L [of id rsp "s_thread_count s" o1 s'] D(3,6) unfolding id
      by (simp add: thread_yield_def scheduler_request_reschedule_def)
  next
    case (sleep rsp ms o1)
    define w where "w = s_ticks s + (if (ms * ucast (s_timer_hz s) + 999) div 1000 = 0 then 1 else (ms * ucast (s_timer_hz s) + 999) div 1000)"
    have "scheduler_process rsp ((sleep_insert c (upd_tcb c (\<lambda>t. t\<lparr>t_wake_tick := w, t_state := THREAD_SLEEPING\<rparr>) s))\<lparr>s_reschedule := True\<rparr>) = (o1, s')"
      using sleep D(4,6) by (simp add: thread_sleep_ms_def scheduler_current_thread_id_def Let_def w_def)
    then show ?thesis using sleep D(4) by (intro sleep_advances [OF ok run]) simp_all
  next
    case (block rsp q b q' o1)
    let ?f = "\<lambda>t. t\<lparr>t_state := THREAD_BLOCKED\<rparr>"
    have e: "(upd_tcb c ?f s)\<lparr>s_reschedule := True, s_thread_count := s_thread_count s\<rparr> = (upd_tcb c ?f s)\<lparr>s_reschedule := True\<rparr>"
      by (simp add: upd_tcb_def)
    show ?thesis using L [of ?f rsp "s_thread_count s" o1 s', unfolded e] block D(4,6)
      by (auto simp: thread_block_on_wait_queue_def scheduler_current_thread_id_def Let_def)
  next
    case (exit rsp o1)
    let ?f = "\<lambda>t. t\<lparr>t_state := THREAD_ZOMBIE\<rparr>"
    let ?n = "if s_thread_count s > 0 then s_thread_count s - 1 else s_thread_count s"
    have e: "(if s_thread_count (upd_tcb c ?f s) > 0 then (upd_tcb c ?f s)\<lparr>s_thread_count := s_thread_count (upd_tcb c ?f s) - 1\<rparr>
        else upd_tcb c ?f s)\<lparr>s_reschedule := True\<rparr> = (upd_tcb c ?f s)\<lparr>s_reschedule := True, s_thread_count := ?n\<rparr>"
      by (simp add: upd_tcb_def)
    have "t_id (tcb s c) \<noteq> 0" using exit D(4,6) by (simp add: scheduler_current_thread_id_def)
    then have "(case scheduler_process rsp ((upd_tcb c ?f s)\<lparr>s_reschedule := True, s_thread_count := ?n\<rparr>) of
        (Returned, s3) \<Rightarrow> (Halted, s3) | r \<Rightarrow> r) = (o1, s')"
      using exit(2) D(6) unfolding thread_exit_def Let_def D(4) option.case e by (simp only: simp_thms if_False)
    then have "scheduler_process rsp ((upd_tcb c ?f s)\<lparr>s_reschedule := True, s_thread_count := ?n\<rparr>) = (o1, s')"
      using exit(3) by (auto split: prod.splits sched_outcome.splits)
    then show ?thesis using L [of ?f rsp ?n o1 s'] exit by simp
  }
qed simp_all

text \<open>A history with \<open>n\<close> picks.  Whenever a thread is picked, the processes of the threads that wait are alive.\<close>

inductive sched_run :: "nat \<Rightarrow> sched \<Rightarrow> sched \<Rightarrow> bool" where
  start: "sched_run 0 s s"
| quiet: "sched_run n s s1 \<Longrightarrow> sched_step False s1 s2 \<Longrightarrow> sched_run n s s2"
| pick: "sched_run n s s1 \<Longrightarrow> runnable s1 \<Longrightarrow> sched_step True s1 s2 \<Longrightarrow> sched_run (Suc n) s s2"

lemma sched_run_inv:
  assumes "sched_run n s s'" "sched_inv s" shows "sched_inv s'"
  using assms
proof (induction rule: sched_run.induct)
  case (quiet n s s1 s2)
  then show ?case using step_quiet unfolding sched_inv_def by blast
next
  case (pick n s s1 s2)
  then obtain rs ss c where "sched_ok s1 rs ss c" unfolding sched_inv_def by blast
  then have "advanced rs s2" by (rule step_pick [OF _ pick.hyps(2,3)])
  then show ?case unfolding sched_inv_def advanced_def by blast
qed

lemma sched_run_order:
  assumes "sched_run n s s'" "sched_ok s rs ss c" "n \<le> length rs"
  shows "\<exists>zs ss' c'. sched_ok s' (drop n rs @ zs) ss' c' \<and> (n > 0 \<longrightarrow> c' = rs ! (n - 1))"
  using assms
proof (induction arbitrary: rs ss c rule: sched_run.induct)
  case (start s)
  then show ?case by (metis append_Nil2 drop0 less_irrefl)
next
  case (quiet n s s1 s2)
  then obtain zs ss' c' where "sched_ok s1 (drop n rs @ zs) ss' c'" "n > 0 \<longrightarrow> c' = rs ! (n - 1)" by blast
  then show ?case using step_quiet [OF _ quiet.hyps(2)] by (metis append_assoc)
next
  case (pick n s s1 s2)
  then obtain zs ss' c' where A: "sched_ok s1 (drop n rs @ zs) ss' c'" by (metis Suc_leD)
  have d: "drop n rs = rs ! n # drop (Suc n) rs" using pick.prems(2) by (simp add: Cons_nth_drop_Suc)
  have "advanced (rs ! n # drop (Suc n) rs @ zs) s2" using step_pick [OF A pick.hyps(2,3)] d by simp
  then show ?case unfolding advanced_def by fastforce
qed

lemma scheduler_init_ok:
  assumes "length (s_tcbs s) = SCHED_MAX_THREADS" shows "sched_ok (scheduler_init rsp hz s) [] [] 0"
  using assms by (auto simp: sched_ok_def queues_def table_def rq_def sq_def current_only_def block_ok_def scheduler_init_def
    SCHED_MAX_THREADS_def nth_update_if Let_def)

section \<open>Properties\<close>

text \<open>
  Without the condition of \<open>sched_run\<close> the queues break: the first ready thread belongs to a process that is gone, a yield
  leaves the old thread running, and this thread is now also on the ready list.
\<close>

definition dead_sched :: sched where
  "dead_sched = ex_sched\<lparr>s_tcbs := (s_tcbs ex_sched)[1 := (ex_tcb 1)\<lparr>t_process_pid := 77\<rparr>]\<rparr>"

lemma dead_process_pick:
  "\<not> runnable dead_sched \<and>
   (case thread_yield 0 dead_sched of (o1, s') \<Rightarrow> o1 = Returned \<and> s_current s' = Some 0 \<and>
      t_state (tcb s' 0) = THREAD_RUNNING \<and> s_ready_tail s' = Some 0 \<and> t_next (tcb s' 2) = Some 0)"
proof
  have "process_get 77 ex_kern = None" by code_simp
  then have "\<not> alive ex_kern 77" by (simp add: alive_def)
  then show "\<not> runnable dead_sched" by (auto simp: runnable_def dead_sched_def ex_sched_def ex_tcb_def intro!: exI [of _ 1])
  show "case thread_yield 0 dead_sched of (o1, s') \<Rightarrow> o1 = Returned \<and> s_current s' = Some 0 \<and>
      t_state (tcb s' 0) = THREAD_RUNNING \<and> s_ready_tail s' = Some 0 \<and> t_next (tcb s' 2) = Some 0" by code_simp
qed

text \<open>
  C11. After \<open>scheduler_init\<close> and any sequence of timer ticks, creations of kernel and user threads, wake-ups, yields,
  sleeps, blocks, ends and reapings - provided that, whenever a thread is picked, the process of every ready or sleeping
  thread still exists, is no zombie and has an address space, that a thread that goes to sleep belongs to such a process,
  and that no pick stopped the processor for want of a thread - exactly one thread is running and it is the current one,
  the ready list links exactly the ready threads, once each, with the right tail and count, the sleep list links exactly
  the sleeping threads in the order of their wake ticks, and a block of the table is free exactly when its magic is 0.
  The current thread may belong to a process that has ended.  The proviso on waiting threads is needed: see
  \<open>dead_process_pick\<close>.
\<close>

theorem sched_invariant:
  assumes "length (s_tcbs s) = SCHED_MAX_THREADS" "sched_run n (scheduler_init rsp hz s) s'"
  shows "\<exists>rs ss c. sched_ok s' rs ss c"
proof -
  have "sched_inv (scheduler_init rsp hz s)" unfolding sched_inv_def using scheduler_init_ok [OF assms(1)] by blast
  then show ?thesis using sched_run_inv [OF assms(2)] by (simp add: sched_inv_def)
qed

text \<open>With kernel threads only, a yield always comes back or switches.\<close>

definition kernel_threads :: "sched \<Rightarrow> bool" where
  "kernel_threads s \<longleftrightarrow> (\<forall>i<8. t_process_pid (tcb s i) = 0)"

lemma process_pids: "t_process_pid (tcb (snd (scheduler_process rsp s)) i) = t_process_pid (tcb s i)"
proof -
  let ?s = "settled s"
  have "tcb ?s i = tcb (wake_due_threads s) i \<or> tcb ?s i = clear_tcb (tcb (wake_due_threads s) i)"
    using reaped_zombies [of "wake_due_threads s"] unfolding settled_def reaped_def by blast
  then have p: "t_process_pid (tcb ?s i) = t_process_pid (tcb s i)" by (auto simp: clear_tcb_def)
  have sw: "t_process_pid (tcb (snd (switch_to rsp c nx s1)) i) = t_process_pid (tcb s1 i)" for c nx s1
    by (auto simp: switch_to_def Let_def nth_update_if split: option.split)
  have pk: "pick_next s1 = (x, s4) \<Longrightarrow> t_process_pid (tcb s4 i) = t_process_pid (tcb s1 i)" for s1 x s4
    by (auto simp: pick_next_def ready_pop_def Let_def nth_update_if split: option.splits if_splits)
  show ?thesis
    unfolding scheduler_process_def settled_def [symmetric] Let_def
    by (auto simp: p sw nth_update_if split: option.split prod.split dest!: pk)
qed

lemma yield_runs:
  assumes ok: "sched_ok s rs ss c" and k: "kernel_threads s"
  shows "\<exists>s'. runnable s \<and> sched_step True s s' \<and> kernel_threads s' \<and> advanced rs s'"
proof -
  have run: "runnable s" using k by (simp add: runnable_def kernel_threads_def alive_def)
  note D = sched_okD [OF ok]
  let ?s = "scheduler_request_reschedule s"
  have e: "?s = s\<lparr>s_reschedule := True\<rparr>" using D(6) by (simp add: scheduler_request_reschedule_def)
  have Q: "queues ?s rs ss" unfolding e by (rule queues_cong [OF D(1)]) simp_all
  have "current_only ?s c" using D(2) by (simp add: e current_only_def)
  note P = scheduler_process_spec [OF Q this, of 0]
  have "candidates ?s rs ss c \<noteq> []" using D(3) by (simp add: candidates_def e)
  then have "fst (thread_yield 0 s) \<noteq> Halted"
    using P D(3,6) k by (cases "candidates ?s rs ss c") (auto simp: e thread_yield_def alive_def kernel_threads_def split: if_splits)
  then have st: "sched_step True s (snd (thread_yield 0 s))" by (intro sched_step.yield [of 0]) simp_all
  moreover have "kernel_threads (snd (thread_yield 0 s))"
    using k process_pids [of 0 ?s] D(6) by (simp add: kernel_threads_def thread_yield_def e)
  ultimately show ?thesis using step_pick [OF ok run st] run by blast
qed

theorem sched_invariant_witness:
  "length (s_tcbs ex_sched) = SCHED_MAX_THREADS \<and>
   (\<exists>s'. sched_run 1 (scheduler_init 0x9000 250 ex_sched) s' \<and> (\<exists>rs ss c. sched_ok s' rs ss c))"
proof -
  have L: "length (s_tcbs ex_sched) = SCHED_MAX_THREADS" by (simp add: ex_sched_def SCHED_MAX_THREADS_def)
  let ?s = "scheduler_tick_irq (scheduler_init 0x9000 250 ex_sched)"
  have ok: "sched_ok ?s [] [] 0" by (rule tick_ok [OF scheduler_init_ok [OF L]])
  have "kernel_threads ?s"
    by (simp add: kernel_threads_def scheduler_tick_irq_def scheduler_init_def ex_sched_def ex_tcb_def Let_def nth_update_if)
  then obtain s' where "runnable ?s" "sched_step True ?s s'" using yield_runs [OF ok] by blast
  then have r: "sched_run 1 (scheduler_init 0x9000 250 ex_sched) s'"
    using sched_run.pick [OF sched_run.quiet [OF sched_run.start sched_step.tick]] by simp
  then show ?thesis using L sched_invariant [OF L r] by blast
qed

text \<open>
  C4. Round robin: the thread at position \<open>k\<close> of the ready queue is the current, running thread after exactly
  \<open>k + 1\<close> picks, whatever ticks, creations and wake-ups happen in between and whether the threads before it yield, sleep,
  block, end or are preempted.  As in \<open>sched_run\<close>, the process of every ready or sleeping thread is alive at each pick (and that
  of a thread when it goes to sleep), and no pick stops the processor; when the process of the first ready thread is gone,
  the old thread keeps the processor instead.
\<close>

theorem sched_fair:
  assumes "sched_ok s rs ss c" "k < length rs" "sched_run (Suc k) s s'"
  shows "s_current s' = Some (rs ! k) \<and> t_state (tcb s' (rs ! k)) = THREAD_RUNNING"
proof -
  obtain zs ss' c' where "sched_ok s' (drop (Suc k) rs @ zs) ss' c'" "c' = rs ! k"
    using sched_run_order [OF assms(3,1)] assms(2) by auto
  then show ?thesis using sched_okD(3,4) by blast
qed

theorem sched_fair_witness:
  "\<exists>s'. sched_run 2 ex_sched s' \<and> s_current s' = Some 2"
proof -
  have ok: "sched_ok ex_sched [1, 2] [] 0"
    by (auto simp: sched_ok_def queues_def table_def rq_def sq_def current_only_def block_ok_def ex_sched_def ex_tcb_def
      SCHED_MAX_THREADS_def less_Suc_eq numeral_eq_Suc)
  have "kernel_threads ex_sched" by (simp add: kernel_threads_def ex_sched_def ex_tcb_def)
  then obtain s1 where s1: "runnable ex_sched" "sched_step True ex_sched s1" "kernel_threads s1" "advanced [1, 2] s1" using yield_runs [OF ok] by blast
  then obtain nx rest ss where "sched_ok s1 rest ss nx" unfolding advanced_def by blast
  then obtain s2 where "runnable s1" "sched_step True s1 s2" using yield_runs s1(3) by blast
  then have r: "sched_run (Suc 1) ex_sched s2" using sched_run.pick [OF sched_run.pick [OF sched_run.start s1(1,2)]] by simp
  have "s_current s2 = Some 2" using sched_fair [OF ok _ r] by simp
  then show ?thesis using r by (auto simp: numeral_2_eq_2)
qed

text \<open>
  C34. The wake-up of sleepers moves exactly the sleeping threads whose wake tick has come to the back of the ready
  queue, in the order of their wake ticks, and leaves the others asleep.  The scan of the list always ends within its
  bound of \<open>SCHED_MAX_THREADS\<close> rounds.
\<close>

theorem wake_due_exact:
  assumes "queues s rs ss"
  shows "queues (wake_due_threads s) (rs @ filter (\<lambda>i. t_wake_tick (tcb s i) \<le> s_ticks s) ss) (filter (\<lambda>i. t_wake_tick (tcb s i) > s_ticks s) ss)"
proof -
  have so: "sorted (map (\<lambda>i. t_wake_tick (tcb s i)) ss)" using assms by (simp add: queues_def sq_def)
  have "takeWhile (due s) ss = filter (\<lambda>i. t_wake_tick (tcb s i) \<le> s_ticks s) ss \<and>
      dropWhile (due s) ss = filter (\<lambda>i. t_wake_tick (tcb s i) > s_ticks s) ss"
  proof (use so in \<open>induction ss\<close>)
    case (Cons a ss)
    show ?case
    proof (cases "due s a")
      case False
      then have "\<forall>x\<in>set ss. t_wake_tick (tcb s x) > s_ticks s" using Cons.prems by (force simp: due_def)
      then have "filter (\<lambda>i. t_wake_tick (tcb s i) \<le> s_ticks s) ss = []" "filter (\<lambda>i. t_wake_tick (tcb s i) > s_ticks s) ss = ss"
        by (simp_all add: filter_empty_conv not_le)
      moreover have "\<not> t_wake_tick (tcb s a) \<le> s_ticks s" using False by (simp add: due_def)
      ultimately show ?thesis using False by simp
    qed (use Cons in \<open>simp add: due_def not_less\<close>)
  qed simp
  then show ?thesis using wake_due_threads_spec(1) [OF assms] by simp
qed

theorem wake_due_exact_witness:
  "queues (wake_due_threads (ex_sched\<lparr>s_tcbs := (s_tcbs ex_sched)[3 := (ex_tcb 3)\<lparr>t_state := THREAD_SLEEPING, t_wake_tick := 5\<rparr>],
     s_sleep_head := Some 3, s_sleeping_count := 1, s_ticks := 7\<rparr>)) [1, 2, 3] []"
proof -
  let ?s = "ex_sched\<lparr>s_tcbs := (s_tcbs ex_sched)[3 := (ex_tcb 3)\<lparr>t_state := THREAD_SLEEPING, t_wake_tick := 5\<rparr>],
     s_sleep_head := Some 3, s_sleeping_count := 1, s_ticks := 7\<rparr>"
  have "queues ?s [1, 2] [3]"
    by (auto simp: queues_def table_def rq_def sq_def ex_sched_def ex_tcb_def SCHED_MAX_THREADS_def less_Suc_eq numeral_eq_Suc)
  from wake_due_exact [OF this] show ?thesis by (simp add: ex_sched_def ex_tcb_def)
qed

end
