(* ===== verification/Ahci.thy ===== *)
theory Ahci
  imports Nexus_Prelude
begin

text \<open>
  The disk driver (\<open>drivers/storage/ahci.c\<close>).  The controller and the drive are hardware and enter as a record
  of functions over an arbitrary state \<open>'d\<close> of the drive: what the task file, interrupt status and command issue
  registers show at each poll, the bytes that a read command brings, and the state after a write command.  A read
  command leaves the drive as it is.  The command header, the frame (FIS) and the polling loops are those of the
  driver.
\<close>

unbundle bit_operations_syntax

section \<open>Bytes of a sector\<close>

definition le16 :: "u8 list \<Rightarrow> nat \<Rightarrow> u16" where
  "le16 bs o1 = ucast (bs ! o1) OR push_bit 8 (ucast (bs ! (o1 + 1)))"

definition le32 :: "u8 list \<Rightarrow> nat \<Rightarrow> u32" where
  "le32 bs o1 = ucast (bs ! o1) OR push_bit 8 (ucast (bs ! (o1 + 1))) OR push_bit 16 (ucast (bs ! (o1 + 2)))
     OR push_bit 24 (ucast (bs ! (o1 + 3)))"

definition put16 :: "u16 \<Rightarrow> u8 list" where
  "put16 v = [ucast v, ucast (drop_bit 8 v)]"

definition put32 :: "u32 \<Rightarrow> u8 list" where
  "put32 v = [ucast v, ucast (drop_bit 8 v), ucast (drop_bit 16 v), ucast (drop_bit 24 v)]"

text \<open>The bytes of \<open>xs\<close> written over \<open>bs\<close> from position \<open>i\<close>.\<close>

definition patch :: "'a list \<Rightarrow> nat \<Rightarrow> 'a list \<Rightarrow> 'a list" where
  "patch bs i xs = take i bs @ xs @ drop (i + length xs) bs"

section \<open>Commands\<close>

definition SPIN_LIMIT :: nat where "SPIN_LIMIT = 10000000"
abbreviation PXIS_TFES :: u32 where "PXIS_TFES \<equiv> 0x40000000"
abbreviation PXTFD_ERR :: u32 where "PXTFD_ERR \<equiv> 0x01"
abbreviation PXTFD_BSY :: u32 where "PXTFD_BSY \<equiv> 0x80"
abbreviation PXTFD_DRQ :: u32 where "PXTFD_DRQ \<equiv> 0x08"
abbreviation SATA_SIG_ATA :: u32 where "SATA_SIG_ATA \<equiv> 0x00000101"

record ata_command =
  cmd_dw0 :: u32
  cmd_dbc :: u32
  cmd_fis :: "u8 list"

record 'd hba =
  hba_tfd :: "'d \<Rightarrow> nat \<Rightarrow> u32"
  hba_is :: "ata_command \<Rightarrow> 'd \<Rightarrow> nat \<Rightarrow> u32"
  hba_ci :: "ata_command \<Rightarrow> 'd \<Rightarrow> nat \<Rightarrow> u32"
  hba_status :: "ata_command \<Rightarrow> 'd \<Rightarrow> u32"
  hba_data :: "ata_command \<Rightarrow> 'd \<Rightarrow> nat \<Rightarrow> u8"
  hba_store :: "ata_command \<Rightarrow> u8 list \<Rightarrow> 'd \<Rightarrow> 'd"

record 'd ahci =
  a_hba :: "'d hba"
  a_drive :: 'd
  a_ready :: bool

function wait_while :: "(nat \<Rightarrow> u32) \<Rightarrow> u32 \<Rightarrow> nat \<Rightarrow> bool" where
  "wait_while reg m i =
     (if i < SPIN_LIMIT then (if reg i AND m = 0 then True else wait_while reg m (i + 1)) else False)"
  by auto
termination by (relation "measure (\<lambda>(reg, m, i). SPIN_LIMIT - i)") auto

declare wait_while.simps [simp del]

definition build_fis :: "u8 \<Rightarrow> u64 \<Rightarrow> u32 \<Rightarrow> u8 list" where
  "build_fis opcode lba count =
     [0x27, 0x80, opcode, 0, ucast (lba AND 0xFF), ucast (drop_bit 8 lba AND 0xFF), ucast (drop_bit 16 lba AND 0xFF), 0x40,
      ucast (drop_bit 24 lba AND 0xFF), ucast (drop_bit 32 lba AND 0xFF), ucast (drop_bit 40 lba AND 0xFF), 0,
      ucast (count AND 0xFF), ucast (drop_bit 8 count AND 0xFF), 0, 0]"

definition build_command :: "u8 \<Rightarrow> u64 \<Rightarrow> u32 \<Rightarrow> ata_command" where
  "build_command opcode lba count =
     \<lparr>cmd_dw0 = 5 OR push_bit 16 1, cmd_dbc = (count * 512 - 1) AND 0x3FFFFF, cmd_fis = build_fis opcode lba count\<rparr>"

text \<open>The wait for completion after the doorbell: an error bit ends it, a cleared issue bit completes it.\<close>

function poll_completion :: "(nat \<Rightarrow> u32) \<Rightarrow> (nat \<Rightarrow> u32) \<Rightarrow> nat \<Rightarrow> bool" where
  "poll_completion is ci i =
     (if i < SPIN_LIMIT
      then (if is i AND PXIS_TFES \<noteq> 0 then False
            else if ci i AND 1 = 0 then True
            else if i = SPIN_LIMIT - 1 then False
            else poll_completion is ci (i + 1))
      else True)"
  by auto
termination by (relation "measure (\<lambda>(is, ci, i). SPIN_LIMIT - i)") auto

declare poll_completion.simps [simp del]

definition run_command :: "ata_command \<Rightarrow> 'd ahci \<Rightarrow> bool" where
  "run_command c a =
     (poll_completion (hba_is (a_hba a) c (a_drive a)) (hba_ci (a_hba a) c (a_drive a)) 0 \<and>
      hba_status (a_hba a) c (a_drive a) AND PXTFD_ERR = 0)"

section \<open>Operations\<close>

text \<open>The register window of the controller from its sixth base address register.\<close>

definition ahci_abar :: "u32 \<Rightarrow> u64 option" where
  "ahci_abar raw =
     (if raw AND 1 \<noteq> 0 then None
      else if drop_bit 1 raw AND 3 = 2 then None
      else let abar = ucast (raw AND 0xFFFFFFF0) :: u64 in if abar = 0 then None else Some abar)"

definition ahci_choose_port :: "u32 \<Rightarrow> (nat \<Rightarrow> u32) \<Rightarrow> (nat \<Rightarrow> u32) \<Rightarrow> nat option" where
  "ahci_choose_port ports ssts sig =
     find (\<lambda>i. ports AND push_bit i 1 \<noteq> 0 \<and> ssts i AND 0xF = 3 \<and> sig i = SATA_SIG_ATA) [0..<32]"

definition ahci_init :: "u32 option \<Rightarrow> u32 \<Rightarrow> (nat \<Rightarrow> u32) \<Rightarrow> (nat \<Rightarrow> u32) \<Rightarrow> 'd ahci \<Rightarrow> bool \<times> 'd ahci" where
  "ahci_init bar5 ports ssts sig a =
     (let a0 = a\<lparr>a_ready := False\<rparr>
      in case bar5 of
           None \<Rightarrow> (False, a0)
         | Some raw \<Rightarrow>
             (case ahci_abar raw of
                None \<Rightarrow> (False, a0)
              | Some abar \<Rightarrow>
                  (case ahci_choose_port ports ssts sig of
                     None \<Rightarrow> (False, a0)
                   | Some chosen \<Rightarrow> (True, a0\<lparr>a_ready := True\<rparr>))))"

definition ahci_is_ready :: "'d ahci \<Rightarrow> bool" where
  "ahci_is_ready a = a_ready a"

definition ahci_read_sectors :: "u64 \<Rightarrow> u32 \<Rightarrow> 'd ahci \<Rightarrow> u8 list option" where
  "ahci_read_sectors lba count a =
     (if \<not> a_ready a \<or> count = 0 \<or> count > 128 then None
      else if \<not> wait_while (hba_tfd (a_hba a) (a_drive a)) (PXTFD_BSY OR PXTFD_DRQ) 0 then None
      else
        let c = build_command 0x25 lba count
        in if \<not> run_command c a then None
           else Some (map (hba_data (a_hba a) c (a_drive a)) [0..<unat count * 512]))"

definition ahci_write_sectors :: "u64 \<Rightarrow> u32 \<Rightarrow> u8 list \<Rightarrow> 'd ahci \<Rightarrow> bool \<times> 'd ahci" where
  "ahci_write_sectors lba count buf a =
     (if \<not> a_ready a \<or> count = 0 \<or> count > 128 then (False, a)
      else if \<not> wait_while (hba_tfd (a_hba a) (a_drive a)) (PXTFD_BSY OR PXTFD_DRQ) 0 then (False, a)
      else
        let c = build_command 0x35 lba count
        in (run_command c a, a\<lparr>a_drive := hba_store (a_hba a) c (take (unat count * 512) buf) (a_drive a)\<rparr>))"

end
