(* ===== verification/Gpt.thy ===== *)
theory Gpt
  imports Ahci
begin

text \<open>
  The partition table (\<open>fs/gpt/gpt.c\<close>): the scan of the GPT header and entries through the disk driver.  The table
  \<open>g_parts\<close> with its count is the list of the partitions found.
\<close>

unbundle bit_operations_syntax

abbreviation GPT_HEADER_LBA :: u64 where "GPT_HEADER_LBA \<equiv> 1"
abbreviation GPT_SIGNATURE :: u64 where "GPT_SIGNATURE \<equiv> 0x5452415020494645"
abbreviation GPT_ENTRY_SIZE :: u32 where "GPT_ENTRY_SIZE \<equiv> 128"
abbreviation GPT_HEADER_SIZE :: u32 where "GPT_HEADER_SIZE \<equiv> 92"
abbreviation NEXUS_GPT_MAX_PARTITIONS :: nat where "NEXUS_GPT_MAX_PARTITIONS \<equiv> 16"
abbreviation NEXUS_GPT_NAME_LEN :: nat where "NEXUS_GPT_NAME_LEN \<equiv> 40"

record nexus_gpt_partition =
  gp_index :: u32
  gp_first_lba :: u64
  gp_last_lba :: u64
  gp_attributes :: u64
  gp_type_guid :: string
  gp_name :: string

definition gpt_hex :: "u8 \<Rightarrow> char" where
  "gpt_hex v = char_of (if v < 10 then 48 + unat v else 65 + unat v - 10)"

definition guid_order :: "nat list" where
  "guid_order = [3, 2, 1, 0, 5, 4, 7, 6, 8, 9, 10, 11, 12, 13, 14, 15]"

definition guid_to_text :: "u8 list \<Rightarrow> string" where
  "guid_to_text g = concat (map (\<lambda>i. [gpt_hex (drop_bit 4 (g ! i)), gpt_hex (g ! i AND 15)]) guid_order)"

definition guid_zero :: "u8 list \<Rightarrow> bool" where
  "guid_zero g = (\<forall>i \<in> set [0..<16]. g ! i = 0)"

definition le64 :: "u8 list \<Rightarrow> nat \<Rightarrow> u64" where
  "le64 bs p = fold (\<lambda>i v. v OR push_bit (i * 8) (ucast (bs ! (p + i)))) [0..<8] 0"

text \<open>At most \<open>mx - 1\<close> characters from the first 36 bytes, up to a zero; a non-ASCII character becomes a question mark.\<close>

function decode_chars :: "u8 list \<Rightarrow> nat \<Rightarrow> nat \<Rightarrow> nat \<Rightarrow> string" where
  "decode_chars bs p i room =
     (if i < 36 \<and> room > 0
      then (let c = le16 bs (p + i)
            in if c = 0 then []
               else (if c < 128 then char_of (unat c) else CHR ''?'') # decode_chars bs p (i + 2) (room - 1))
      else [])"
  by auto
termination by (relation "measure (\<lambda>(bs, p, i, room). room)") auto

declare decode_chars.simps [simp del]

definition decode_name :: "u8 list \<Rightarrow> nat \<Rightarrow> nat \<Rightarrow> string" where
  "decode_name bs p mx = decode_chars bs p 0 (mx - 1)"

definition gpt_entry :: "u32 \<Rightarrow> u8 list \<Rightarrow> nexus_gpt_partition" where
  "gpt_entry i e =
     \<lparr>gp_index = i + 1, gp_first_lba = le64 e 32, gp_last_lba = le64 e 40, gp_attributes = le64 e 48,
      gp_type_guid = guid_to_text e, gp_name = decode_name e 56 NEXUS_GPT_NAME_LEN\<rparr>"

text \<open>The sectors that hold entry \<open>i\<close>: two when it crosses a sector boundary.\<close>

definition read_gpt_entry :: "u64 \<Rightarrow> u32 \<Rightarrow> u32 \<Rightarrow> 'd ahci \<Rightarrow> u8 list option" where
  "read_gpt_entry entries_lba entry_size i a =
     (let byte_off = ucast i * ucast entry_size :: u64;
          lba = entries_lba + byte_off div 512;
          off = ucast (byte_off mod 512) :: u32
      in map_option (drop (unat off)) (ahci_read_sectors lba (if off + GPT_ENTRY_SIZE > 512 then 2 else 1) a))"

lemma u32_step_less: "i < n \<Longrightarrow> unat (n - (i + 1)) < unat (n - i)" for i n :: u32
proof -
  assume "i < n"
  then have n0: "n - i \<noteq> 0" by auto
  have "n - (i + 1) = (n - i) - 1" by simp
  then have "unat (n - (i + 1)) = unat (n - i) - 1" using unat_minus_one [OF n0] by metis
  moreover have "unat (n - i) > 0" using n0 by (simp add: unat_gt_0)
  ultimately show ?thesis by linarith
qed

function gpt_entries :: "u64 \<Rightarrow> u32 \<Rightarrow> u32 \<Rightarrow> u32 \<Rightarrow> nexus_gpt_partition list \<Rightarrow> 'd ahci \<Rightarrow> nexus_gpt_partition list" where
  "gpt_entries entries_lba entry_size entry_count i parts a =
     (if i < entry_count \<and> length parts < NEXUS_GPT_MAX_PARTITIONS
      then (case read_gpt_entry entries_lba entry_size i a of
              None \<Rightarrow> parts
            | Some e \<Rightarrow>
                gpt_entries entries_lba entry_size entry_count (i + 1)
                  (if guid_zero e then parts else parts @ [gpt_entry i e]) a)
      else parts)"
  by pat_completeness auto
termination
  apply (relation "measure (\<lambda>(entries_lba, entry_size, entry_count, i, parts, a). unat (entry_count - i))")
   apply simp
  subgoal premises prems for l s n i
    using u32_step_less [of i n] prems(1) by simp
  done

declare gpt_entries.simps [simp del]

definition gpt_scan :: "'d ahci \<Rightarrow> nexus_gpt_partition list" where
  "gpt_scan a =
     (if \<not> ahci_is_ready a then []
      else case ahci_read_sectors GPT_HEADER_LBA 1 a of
             None \<Rightarrow> []
           | Some sec \<Rightarrow>
               if le64 sec 0 \<noteq> GPT_SIGNATURE then []
               else
                 let header_size = le32 sec 12; entries_lba = le64 sec 72; entry_count = le32 sec 80; entry_size = le32 sec 84
                 in if header_size < GPT_HEADER_SIZE \<or> header_size > 512 then []
                    else if entry_count = 0 \<or> entry_size < GPT_ENTRY_SIZE \<or> entry_size > 512 then []
                    else gpt_entries entries_lba entry_size entry_count 0 [] a)"

definition gpt_partition :: "nexus_gpt_partition list \<Rightarrow> int \<Rightarrow> nexus_gpt_partition option" where
  "gpt_partition parts i = (if i < 0 \<or> i \<ge> int (length parts) then None else Some (parts ! nat i))"

definition gpt_find_type :: "nexus_gpt_partition list \<Rightarrow> string \<Rightarrow> nexus_gpt_partition option" where
  "gpt_find_type parts type_guid = find (\<lambda>p. gp_type_guid p = type_guid) parts"

definition gpt_find_name :: "nexus_gpt_partition list \<Rightarrow> string \<Rightarrow> nexus_gpt_partition option" where
  "gpt_find_name parts name = find (\<lambda>p. gp_name p = name) parts"

end
