(* ===== verification/Fat32.thy ===== *)
theory Fat32
  imports Ahci
begin

text \<open>
  The FAT32 driver (\<open>fs/fat32.c\<close>) over the disk driver.  Sectors and clusters are byte lists; a directory entry is
  read from and written to its 32 bytes.  The two static sector buffers are not part of the state: every operation
  fills them before it reads them.  Loops along cluster chains that have no guard against a cycle are
  \<open>partial_function\<close>s, and \<open>None\<close> means that they do not return; so the operations that resolve a path return an
  option as well.
\<close>

unbundle bit_operations_syntax

section \<open>Volume\<close>

abbreviation ATTR_DIRECTORY :: u8 where "ATTR_DIRECTORY \<equiv> 0x10"
abbreviation ATTR_LFN :: u8 where "ATTR_LFN \<equiv> 0x0F"
abbreviation ATTR_VOLUME_ID :: u8 where "ATTR_VOLUME_ID \<equiv> 0x08"
abbreviation MAX_SECTORS_PER_READ :: nat where "MAX_SECTORS_PER_READ \<equiv> 128"

record fat32_dirent =
  de_name :: "u8 list"
  de_attr :: u8
  de_nt_reserved :: u8
  de_create_tenth :: u8
  de_create_time :: u16
  de_create_date :: u16
  de_access_date :: u16
  de_cluster_hi :: u16
  de_write_time :: u16
  de_write_date :: u16
  de_cluster_lo :: u16
  de_file_size :: u32

record 'd fat =
  f_ahci :: "'d ahci"
  f_partition_lba :: u64
  f_bytes_per_sector :: u32
  f_sectors_per_cluster :: u32
  f_root_cluster :: u32
  f_max_cluster :: u32
  f_fat_count :: u32
  f_fat_size_sectors :: u32
  f_fat_start_lba :: u64
  f_cluster_heap_start_lba :: u64
  f_mounted :: bool

definition entry_at :: "u8 list \<Rightarrow> nat \<Rightarrow> fat32_dirent" where
  "entry_at bs i =
     (let e = drop (32 * i) bs
      in \<lparr>de_name = take 11 e, de_attr = e ! 11, de_nt_reserved = e ! 12, de_create_tenth = e ! 13, de_create_time = le16 e 14,
          de_create_date = le16 e 16, de_access_date = le16 e 18, de_cluster_hi = le16 e 20, de_write_time = le16 e 22,
          de_write_date = le16 e 24, de_cluster_lo = le16 e 26, de_file_size = le32 e 28\<rparr>)"

definition dirent_bytes :: "fat32_dirent \<Rightarrow> u8 list" where
  "dirent_bytes e =
     de_name e @ [de_attr e, de_nt_reserved e, de_create_tenth e] @ put16 (de_create_time e) @ put16 (de_create_date e) @
     put16 (de_access_date e) @ put16 (de_cluster_hi e) @ put16 (de_write_time e) @ put16 (de_write_date e) @
     put16 (de_cluster_lo e) @ put32 (de_file_size e)"

definition zero_dirent :: fat32_dirent where
  "zero_dirent = \<lparr>de_name = replicate 11 0, de_attr = 0, de_nt_reserved = 0, de_create_tenth = 0, de_create_time = 0,
     de_create_date = 0, de_access_date = 0, de_cluster_hi = 0, de_write_time = 0, de_write_date = 0, de_cluster_lo = 0,
     de_file_size = 0\<rparr>"

definition put_entry :: "u8 list \<Rightarrow> nat \<Rightarrow> fat32_dirent \<Rightarrow> u8 list" where
  "put_entry bs i e = patch bs (32 * i) (dirent_bytes e)"

definition cluster_to_lba :: "u32 \<Rightarrow> 'd fat \<Rightarrow> u64" where
  "cluster_to_lba c f = f_cluster_heap_start_lba f + ucast (c - 2) * ucast (f_sectors_per_cluster f)"

definition read_cluster :: "u32 \<Rightarrow> 'd fat \<Rightarrow> u8 list option" where
  "read_cluster c f = ahci_read_sectors (cluster_to_lba c f) (f_sectors_per_cluster f) (f_ahci f)"

definition write_cluster :: "u32 \<Rightarrow> u8 list \<Rightarrow> 'd fat \<Rightarrow> bool \<times> 'd fat" where
  "write_cluster c bs f =
     (case ahci_write_sectors (cluster_to_lba c f) (f_sectors_per_cluster f) bs (f_ahci f) of
        (ok, a) \<Rightarrow> (ok, f\<lparr>f_ahci := a\<rparr>))"

definition cluster_bytes :: "'d fat \<Rightarrow> u32" where
  "cluster_bytes f = f_sectors_per_cluster f * f_bytes_per_sector f"

definition entries_per_cluster :: "'d fat \<Rightarrow> nat" where
  "entries_per_cluster f = unat (cluster_bytes f div 32)"

definition get_next_cluster :: "u32 \<Rightarrow> 'd fat \<Rightarrow> u32" where
  "get_next_cluster c f =
     (let fat_offset = c * 4;
          fat_sector = f_fat_start_lba f + ucast (fat_offset div f_bytes_per_sector f);
          ent_offset = unat (fat_offset mod f_bytes_per_sector f)
      in case ahci_read_sectors fat_sector 1 (f_ahci f) of
           None \<Rightarrow> 0x0FFFFFFF
         | Some bs \<Rightarrow> le32 bs ent_offset AND 0x0FFFFFFF)"

definition is_end_of_chain :: "u32 \<Rightarrow> bool" where
  "is_end_of_chain c = (c \<ge> 0x0FFFFFF8)"

section \<open>Short names\<close>

definition upper_byte :: "char \<Rightarrow> u8" where
  "upper_byte c = (let b = of_char c :: u8 in if 0x61 \<le> b \<and> b \<le> 0x7A then b - 0x61 + 0x41 else b)"

definition pad_name :: "nat \<Rightarrow> u8 list \<Rightarrow> u8 list" where
  "pad_name n bs = bs @ replicate (n - length bs) 0x20"

definition to_short_name :: "string \<Rightarrow> u8 list" where
  "to_short_name input =
     (let base = take 8 (takeWhile (\<lambda>c. c \<noteq> CHR ''.'') input);
          ext = (case dropWhile (\<lambda>c. c \<noteq> CHR ''.'') input of [] \<Rightarrow> [] | d # e \<Rightarrow> take 3 e)
      in pad_name 8 (map upper_byte base) @ pad_name 3 (map upper_byte ext))"

text \<open>The strict variant for names to be created: it refuses what does not fit into 8.3.\<close>

definition make_component_name :: "string \<Rightarrow> u8 list option" where
  "make_component_name component =
     (if component = [] \<or> hd component = CHR ''.'' \<or> hd component = CHR '' '' then None
      else if CHR ''/'' \<in> set component \<or> length (filter (\<lambda>c. c = CHR ''.'') component) > 1 \<or> length component > 12 then None
      else
        let base = takeWhile (\<lambda>c. c \<noteq> CHR ''.'') component;
            ext = (case dropWhile (\<lambda>c. c \<noteq> CHR ''.'') component of [] \<Rightarrow> [] | d # e \<Rightarrow> e)
        in if length base < 1 \<or> length base > 8 \<or> length ext > 3 then None
           else Some (pad_name 8 (map upper_byte base) @ pad_name 3 (map upper_byte ext)))"

text \<open>The name as it is listed.\<close>

definition byte_char :: "u8 \<Rightarrow> char" where
  "byte_char b = char_of (unat b)"

definition short_name_text :: "u8 list \<Rightarrow> string" where
  "short_name_text nm =
     map byte_char (takeWhile (\<lambda>b. b \<noteq> 0x20) (take 8 nm)) @
     (if nm ! 8 \<noteq> 0x20 then CHR ''.'' # map byte_char (takeWhile (\<lambda>b. b \<noteq> 0x20) (take 3 (drop 8 nm))) else [])"

fun memcmp_local :: "u8 list \<Rightarrow> u8 list \<Rightarrow> nat \<Rightarrow> int" where
  "memcmp_local (a # as) (b # bs) (Suc n) = (if a \<noteq> b then uint a - uint b else memcmp_local as bs n)"
| "memcmp_local as bs n = 0"

section \<open>Mounting\<close>

definition fat32_mount :: "u64 \<Rightarrow> 'd fat \<Rightarrow> bool \<times> 'd fat" where
  "fat32_mount partition_lba f =
     (let f0 = f\<lparr>f_mounted := False\<rparr>
      in case ahci_read_sectors partition_lba 1 (f_ahci f) of
           None \<Rightarrow> (False, f0)
         | Some vbr \<Rightarrow>
             let bytes_per_sector = le16 vbr 11; sectors_per_cluster = vbr ! 13; reserved_sectors = le16 vbr 14;
                 num_fats = vbr ! 16; fat_size16 = le16 vbr 22; total_sectors32 = le32 vbr 32; fat_size32 = le32 vbr 36;
                 root_cluster = le32 vbr 44
             in if vbr ! 510 \<noteq> 0x55 \<or> vbr ! 511 \<noteq> 0xAA then (False, f0)
                else if fat_size16 \<noteq> 0 \<or> fat_size32 = 0 then (False, f0)
                else if bytes_per_sector \<noteq> 512 then (False, f0)
                else if sectors_per_cluster = 0 \<or> unat sectors_per_cluster > MAX_SECTORS_PER_READ then (False, f0)
                else
                  let fat_start = partition_lba + ucast reserved_sectors;
                      f1 = f0\<lparr>f_partition_lba := partition_lba, f_bytes_per_sector := ucast bytes_per_sector,
                             f_sectors_per_cluster := ucast sectors_per_cluster, f_root_cluster := root_cluster,
                             f_fat_count := ucast num_fats, f_fat_size_sectors := fat_size32, f_fat_start_lba := fat_start,
                             f_cluster_heap_start_lba := fat_start + ucast num_fats * ucast fat_size32\<rparr>;
                      overhead = ucast reserved_sectors + ucast num_fats * fat_size32 :: u32;
                      data_sectors = ucast total_sectors32 :: u64
                  in if data_sectors < ucast overhead then (False, f1)
                     else
                       let cluster_count = (data_sectors - ucast overhead) div ucast sectors_per_cluster
                       in if cluster_count < 1 \<or> cluster_count > 0x0FFFFFF5 then (False, f1)
                          else (True, f1\<lparr>f_max_cluster := ucast cluster_count + 1, f_mounted := True\<rparr>))"

definition fat32_is_mounted :: "'d fat \<Rightarrow> bool" where
  "fat32_is_mounted f = f_mounted f"

section \<open>Directories\<close>

definition skipped :: "fat32_dirent \<Rightarrow> bool" where
  "skipped e = (de_name e ! 0 = 0xE5 \<or> de_attr e = ATTR_LFN \<or> de_attr e AND ATTR_VOLUME_ID \<noteq> 0)"

datatype scan = Scan_end | Scan_hit nat fat32_dirent | Scan_more

primrec scan_entries :: "u8 list \<Rightarrow> u8 list \<Rightarrow> nat list \<Rightarrow> scan" where
  "scan_entries bs nm [] = Scan_more"
| "scan_entries bs nm (i # is) =
     (let e = entry_at bs i
      in if de_name e ! 0 = 0 then Scan_end
         else if skipped e then scan_entries bs nm is
         else if memcmp_local (de_name e) nm 11 = 0 then Scan_hit i e
         else scan_entries bs nm is)"

partial_function (option) find_entry :: "u32 \<Rightarrow> u8 list \<Rightarrow> 'd fat \<Rightarrow> fat32_dirent option option" where
  "find_entry c nm f =
     (if is_end_of_chain c \<or> c < 2 then Some None
      else case read_cluster c f of
             None \<Rightarrow> Some None
           | Some bs \<Rightarrow>
               (case scan_entries bs nm [0..<entries_per_cluster f] of
                  Scan_end \<Rightarrow> Some None
                | Scan_hit i e \<Rightarrow> Some (Some e)
                | Scan_more \<Rightarrow> find_entry (get_next_cluster c f) nm f))"

definition dirent_cluster :: "fat32_dirent \<Rightarrow> u32" where
  "dirent_cluster e = push_bit 16 (ucast (de_cluster_hi e)) OR ucast (de_cluster_lo e)"

definition set_dirent_cluster :: "u32 \<Rightarrow> fat32_dirent \<Rightarrow> fat32_dirent" where
  "set_dirent_cluster c e = e\<lparr>de_cluster_hi := ucast (drop_bit 16 c), de_cluster_lo := ucast (c AND 0xFFFF)\<rparr>"

text \<open>One component of a path: at most twelve characters up to a slash, then the slashes.\<close>

definition next_component :: "string \<Rightarrow> string \<times> string" where
  "next_component p =
     (let part = take 12 (takeWhile (\<lambda>c. c \<noteq> CHR ''/'') p)
      in (part, dropWhile (\<lambda>c. c = CHR ''/'') (drop (length part) p)))"

lemma next_component_less: "p \<noteq> [] \<Longrightarrow> length (snd (next_component p)) < length p"
proof (cases p)
  case (Cons c cs)
  show ?thesis
  proof (cases "c = CHR ''/''")
    case True
    then show ?thesis using Cons length_dropWhile_le [of "\<lambda>c. c = CHR ''/''" cs]
      by (simp add: next_component_def)
  next
    case False
    let ?c = "take 12 (takeWhile (\<lambda>c. c \<noteq> CHR ''/'') p)"
    have "length ?c \<ge> 1" using Cons False by simp
    moreover have "length (dropWhile (\<lambda>c. c = CHR ''/'') (drop (length ?c) p)) \<le> length (drop (length ?c) p)"
      by (rule length_dropWhile_le)
    moreover have "length p \<ge> 1" using Cons by simp
    ultimately show ?thesis unfolding next_component_def Let_def snd_conv length_drop by linarith
  qed
qed simp

function resolve_from :: "u32 \<Rightarrow> string \<Rightarrow> fat32_dirent \<Rightarrow> 'd fat \<Rightarrow> fat32_dirent option option" where
  "resolve_from c p e f =
     (if p = [] then Some (Some e)
      else
        case next_component p of
          (part, rest) \<Rightarrow>
            (case find_entry c (to_short_name part) f of
               None \<Rightarrow> None
             | Some None \<Rightarrow> Some None
             | Some (Some e1) \<Rightarrow>
                 if rest = [] then Some (Some e1)
                 else if de_attr e1 AND ATTR_DIRECTORY = 0 then Some None
                 else resolve_from (dirent_cluster e1) rest e1 f))"
  by auto
termination
  apply (relation "measure (\<lambda>(c, p, e, f). length p)")
   apply simp
  subgoal premises prems for c p
    using next_component_less [OF prems(1)] prems(2,3) by (auto dest: arg_cong [of _ _ snd])
  done

declare resolve_from.simps [simp del]

definition resolve_path :: "string \<Rightarrow> 'd fat \<Rightarrow> fat32_dirent option option" where
  "resolve_path path f =
     (if path = [] \<or> path = ''/''
      then Some (Some (set_dirent_cluster (f_root_cluster f) (zero_dirent\<lparr>de_attr := ATTR_DIRECTORY\<rparr>)))
      else resolve_from (f_root_cluster f) (if hd path = CHR ''/'' then List.tl path else path) zero_dirent f)"

definition fat32_is_directory :: "string \<Rightarrow> 'd fat \<Rightarrow> bool option" where
  "fat32_is_directory path f =
     (if \<not> f_mounted f then Some False
      else map_option (\<lambda>r. case r of None \<Rightarrow> False | Some e \<Rightarrow> de_attr e AND ATTR_DIRECTORY \<noteq> 0) (resolve_path path f))"

section \<open>Listing and reading\<close>

text \<open>The text that \<open>console_print_dec\<close> prints.\<close>

function dec_digits :: "nat \<Rightarrow> string" where
  "dec_digits n = (if n > 0 then dec_digits (n div 10) @ [char_of (48 + n mod 10)] else [])"
  by auto
termination by (relation "measure id") auto

declare dec_digits.simps [simp del]

definition console_print_dec :: "u64 \<Rightarrow> string" where
  "console_print_dec v = (if v = 0 then ''0'' else dec_digits (unat v))"

primrec list_scan :: "u8 list \<Rightarrow> nat list \<Rightarrow> fat32_dirent list \<Rightarrow> bool \<times> fat32_dirent list" where
  "list_scan bs [] acc = (False, acc)"
| "list_scan bs (i # is) acc =
     (let e = entry_at bs i
      in if de_name e ! 0 = 0 then (True, acc)
         else if skipped e then list_scan bs is acc
         else list_scan bs is (acc @ [e]))"

partial_function (option) list_chain :: "u32 \<Rightarrow> fat32_dirent list \<Rightarrow> 'd fat \<Rightarrow> fat32_dirent list option" where
  "list_chain c acc f =
     (if is_end_of_chain c \<or> c < 2 then Some acc
      else case read_cluster c f of
             None \<Rightarrow> Some acc
           | Some bs \<Rightarrow>
               (case list_scan bs [0..<entries_per_cluster f] acc of
                  (fin, acc1) \<Rightarrow> if fin then Some acc1 else list_chain (get_next_cluster c f) acc1 f))"

definition list_line :: "fat32_dirent \<Rightarrow> string" where
  "list_line e =
     short_name_text (de_name e) @
     (if de_attr e AND ATTR_DIRECTORY \<noteq> 0 then ''/'' @ [CHR 0x0A]
      else ''  ('' @ console_print_dec (ucast (de_file_size e)) @ '' bytes)'' @ [CHR 0x0A])"

definition dir_start :: "fat32_dirent \<Rightarrow> 'd fat \<Rightarrow> u32" where
  "dir_start e f = (if dirent_cluster e = 0 then f_root_cluster f else dirent_cluster e)"

text \<open>The result and the printed text.\<close>

definition fat32_list :: "string \<Rightarrow> 'd fat \<Rightarrow> (bool \<times> string) option" where
  "fat32_list path f =
     (if \<not> f_mounted f then Some (False, ''fat32: not mounted'' @ [CHR 0x0A])
      else case resolve_path path f of
             None \<Rightarrow> None
           | Some None \<Rightarrow> Some (False, ''fat32: path not found'' @ [CHR 0x0A])
           | Some (Some e) \<Rightarrow>
               if de_attr e AND ATTR_DIRECTORY = 0 then Some (False, ''fat32: not a directory'' @ [CHR 0x0A])
               else map_option (\<lambda>es. (True, if es = [] then ''(empty)'' @ [CHR 0x0A] else concat (map list_line es)))
                      (list_chain (dir_start e f) [] f))"

primrec entries_scan :: "nat \<Rightarrow> u8 list \<Rightarrow> nat list \<Rightarrow> (string \<times> bool) list \<Rightarrow> bool \<times> (string \<times> bool) list" where
  "entries_scan mx bs [] acc = (False, acc)"
| "entries_scan mx bs (i # is) acc =
     (if length acc \<ge> mx then (False, acc)
      else
        let e = entry_at bs i
        in if de_name e ! 0 = 0 then (True, acc)
           else if skipped e then entries_scan mx bs is acc
           else entries_scan mx bs is (acc @ [(short_name_text (de_name e), de_attr e AND ATTR_DIRECTORY \<noteq> 0)]))"

partial_function (option) entries_chain :: "nat \<Rightarrow> u32 \<Rightarrow> (string \<times> bool) list \<Rightarrow> 'd fat \<Rightarrow> (string \<times> bool) list option" where
  "entries_chain mx c acc f =
     (if is_end_of_chain c \<or> c < 2 \<or> length acc \<ge> mx then Some acc
      else case read_cluster c f of
             None \<Rightarrow> Some acc
           | Some bs \<Rightarrow>
               (case entries_scan mx bs [0..<entries_per_cluster f] acc of
                  (fin, acc1) \<Rightarrow> if fin then Some acc1 else entries_chain mx (get_next_cluster c f) acc1 f))"

text \<open>The inner \<open>None\<close> is the error return.\<close>

definition fat32_list_entries :: "string \<Rightarrow> nat \<Rightarrow> 'd fat \<Rightarrow> (string \<times> bool) list option option" where
  "fat32_list_entries path mx f =
     (if \<not> f_mounted f \<or> mx = 0 then Some None
      else case resolve_path path f of
             None \<Rightarrow> None
           | Some None \<Rightarrow> Some None
           | Some (Some e) \<Rightarrow>
               if de_attr e AND ATTR_DIRECTORY = 0 then Some None
               else map_option Some (entries_chain mx (dir_start e f) [] f))"

partial_function (option) read_chain :: "u32 \<Rightarrow> u32 \<Rightarrow> u32 \<Rightarrow> u32 \<Rightarrow> u8 list \<Rightarrow> 'd fat \<Rightarrow> u8 list option" where
  "read_chain c remaining written buf_size dst f =
     (if is_end_of_chain c \<or> c < 2 \<or> remaining = 0 \<or> written \<ge> buf_size then Some dst
      else case read_cluster c f of
             None \<Rightarrow> Some dst
           | Some bs \<Rightarrow>
               let chunk1 = (if cluster_bytes f > remaining then remaining else cluster_bytes f);
                   chunk = (if written + chunk1 > buf_size then buf_size - written else chunk1)
               in read_chain (get_next_cluster c f) (remaining - chunk) (written + chunk) buf_size
                    (dst @ take (unat chunk) bs) f)"

text \<open>The bytes stored in the buffer; their number is \<open>*out_size\<close>.\<close>

definition fat32_read_file :: "string \<Rightarrow> u32 \<Rightarrow> 'd fat \<Rightarrow> u8 list option option" where
  "fat32_read_file path buf_size f =
     (if \<not> f_mounted f then Some None
      else case resolve_path path f of
             None \<Rightarrow> None
           | Some None \<Rightarrow> Some None
           | Some (Some e) \<Rightarrow>
               if de_attr e AND ATTR_DIRECTORY \<noteq> 0 then Some None
               else map_option Some (read_chain (dirent_cluster e) (de_file_size e) 0 buf_size [] f))"

section \<open>The allocation table\<close>

definition fat32_read_entry :: "u32 \<Rightarrow> 'd fat \<Rightarrow> u32 option" where
  "fat32_read_entry c f =
     (if c < 2 \<or> c > f_max_cluster f then None
      else
        let fat_offset = c * 4;
            sector = f_fat_start_lba f + ucast (fat_offset div f_bytes_per_sector f);
            off = fat_offset mod f_bytes_per_sector f
        in if off > 508 then None
           else case ahci_read_sectors sector 1 (f_ahci f) of
                  None \<Rightarrow> None
                | Some bs \<Rightarrow> Some (le32 bs (unat off) AND 0x0FFFFFFF))"

definition fat32_write_entry_one :: "u64 \<Rightarrow> u32 \<Rightarrow> u32 \<Rightarrow> 'd fat \<Rightarrow> bool \<times> 'd fat" where
  "fat32_write_entry_one fat_lba c v f =
     (let fat_offset = c * 4;
          sector = fat_lba + ucast (fat_offset div f_bytes_per_sector f);
          off = fat_offset mod f_bytes_per_sector f
      in if off > 508 then (False, f)
         else case ahci_read_sectors sector 1 (f_ahci f) of
                None \<Rightarrow> (False, f)
              | Some bs \<Rightarrow>
                  let merged = (le32 bs (unat off) AND 0xF0000000) OR (v AND 0x0FFFFFFF)
                  in case ahci_write_sectors sector 1 (patch bs (unat off) (put32 merged)) (f_ahci f) of
                       (ok, a) \<Rightarrow> (ok, f\<lparr>f_ahci := a\<rparr>))"

primrec set_copies :: "nat list \<Rightarrow> u32 \<Rightarrow> u32 \<Rightarrow> 'd fat \<Rightarrow> bool \<times> 'd fat" where
  "set_copies [] c v f = (True, f)"
| "set_copies (i # is) c v f =
     (case fat32_write_entry_one (f_fat_start_lba f + of_nat i * ucast (f_fat_size_sectors f)) c v f of
        (ok, f1) \<Rightarrow> if ok then set_copies is c v f1 else (False, f1))"

definition fat32_set_entry :: "u32 \<Rightarrow> u32 \<Rightarrow> 'd fat \<Rightarrow> bool \<times> 'd fat" where
  "fat32_set_entry c v f =
     (case fat32_write_entry_one (f_fat_start_lba f) c v f of
        (ok, f1) \<Rightarrow> if ok then set_copies [1..<unat (f_fat_count f)] c v f1 else (False, f1))"

definition fat32_zero_cluster :: "u32 \<Rightarrow> 'd fat \<Rightarrow> bool \<times> 'd fat" where
  "fat32_zero_cluster c f = write_cluster c (replicate (unat (cluster_bytes f)) 0) f"

primrec alloc_scan :: "u32 list \<Rightarrow> 'd fat \<Rightarrow> u32 option \<times> 'd fat" where
  "alloc_scan [] f = (None, f)"
| "alloc_scan (c # cs) f =
     (case fat32_read_entry c f of
        None \<Rightarrow> (None, f)
      | Some v \<Rightarrow>
          if v \<noteq> 0 then alloc_scan cs f
          else case fat32_set_entry c 0x0FFFFFFF f of
                 (ok, f1) \<Rightarrow>
                   if \<not> ok then (None, f1)
                   else (case fat32_zero_cluster c f1 of
                           (ok2, f2) \<Rightarrow> if \<not> ok2 then (None, snd (fat32_set_entry c 0 f2)) else (Some c, f2)))"

definition fat32_alloc_cluster :: "'d fat \<Rightarrow> u32 option \<times> 'd fat" where
  "fat32_alloc_cluster f = alloc_scan (map of_nat [2..<Suc (unat (f_max_cluster f))]) f"

text \<open>The rounds left under the guard \<open>guard++ <= g_max_cluster\<close>.\<close>

primrec free_rounds :: "nat \<Rightarrow> u32 \<Rightarrow> 'd fat \<Rightarrow> bool \<times> 'd fat" where
  "free_rounds 0 c f = (False, f)"
| "free_rounds (Suc n) c f =
     (if c < 2 \<or> c > f_max_cluster f then (False, f)
      else case fat32_read_entry c f of
             None \<Rightarrow> (False, f)
           | Some nx \<Rightarrow>
               (case fat32_set_entry c 0 f of
                  (ok, f1) \<Rightarrow>
                    if \<not> ok then (False, f1)
                    else if is_end_of_chain nx \<or> nx < 2 then (True, f1)
                    else free_rounds n nx f1))"

definition fat32_free_chain :: "u32 \<Rightarrow> 'd fat \<Rightarrow> bool \<times> 'd fat" where
  "fat32_free_chain c f = free_rounds (unat (f_max_cluster f) + 1) c f"

section \<open>Changing directories\<close>

partial_function (option) find_entry_location :: "u32 \<Rightarrow> u8 list \<Rightarrow> 'd fat \<Rightarrow> (u32 \<times> nat \<times> fat32_dirent) option option" where
  "find_entry_location c nm f =
     (if is_end_of_chain c \<or> c < 2 \<or> c > f_max_cluster f then Some None
      else case read_cluster c f of
             None \<Rightarrow> Some None
           | Some bs \<Rightarrow>
               (case scan_entries bs nm [0..<entries_per_cluster f] of
                  Scan_end \<Rightarrow> Some None
                | Scan_hit i e \<Rightarrow> Some (Some (c, i, e))
                | Scan_more \<Rightarrow>
                    if get_next_cluster c f < 2 then Some None else find_entry_location (get_next_cluster c f) nm f))"

text \<open>The parent directory and the last component of a path.\<close>

definition split_parent :: "string \<Rightarrow> (string \<times> string) option" where
  "split_parent path =
     (if path = [] \<or> hd path \<noteq> CHR ''/'' then None
      else
        let q = rev (dropWhile (\<lambda>c. c = CHR ''/'') (rev path));
            part = rev (takeWhile (\<lambda>c. c \<noteq> CHR ''/'') (rev q));
            slash = length q - length part - 1
        in if q = [] then None
           else if slash \<noteq> 0 \<and> slash \<ge> 256 then None
           else if length part = 0 \<or> length part \<ge> 13 then None
           else Some (if slash = 0 then ''/'' else take slash q, part))"

definition resolve_parent :: "string \<Rightarrow> 'd fat \<Rightarrow> (u32 \<times> u8 list) option option" where
  "resolve_parent path f =
     (case split_parent path of
        None \<Rightarrow> Some None
      | Some (parent, part) \<Rightarrow>
          (case resolve_path parent f of
             None \<Rightarrow> None
           | Some None \<Rightarrow> Some None
           | Some (Some e) \<Rightarrow>
               if de_attr e AND ATTR_DIRECTORY = 0 then Some None
               else Some (map_option (\<lambda>nm. (dir_start e f, nm)) (make_component_name part))))"

definition write_dirent :: "u32 \<Rightarrow> nat \<Rightarrow> fat32_dirent \<Rightarrow> 'd fat \<Rightarrow> bool \<times> 'd fat" where
  "write_dirent c i e f =
     (case read_cluster c f of
        None \<Rightarrow> (False, f)
      | Some bs \<Rightarrow> if i \<ge> entries_per_cluster f then (False, f) else write_cluster c (put_entry bs i e) f)"

primrec free_slot_rounds :: "nat \<Rightarrow> u32 \<Rightarrow> 'd fat \<Rightarrow> (u32 \<times> nat) option \<times> 'd fat" where
  "free_slot_rounds 0 c f = (None, f)"
| "free_slot_rounds (Suc n) c f =
     (if c < 2 \<or> c > f_max_cluster f then (None, f)
      else case read_cluster c f of
             None \<Rightarrow> (None, f)
           | Some bs \<Rightarrow>
               (case find (\<lambda>i. de_name (entry_at bs i) ! 0 = 0 \<or> de_name (entry_at bs i) ! 0 = 0xE5) [0..<entries_per_cluster f] of
                  Some i \<Rightarrow> (Some (c, i), f)
                | None \<Rightarrow>
                    (case fat32_read_entry c f of
                       None \<Rightarrow> (None, f)
                     | Some nx \<Rightarrow>
                         if is_end_of_chain nx
                         then (case fat32_alloc_cluster f of
                                 (None, f1) \<Rightarrow> (None, f1)
                               | (Some fresh, f1) \<Rightarrow>
                                   (case fat32_set_entry c fresh f1 of
                                      (ok, f2) \<Rightarrow> if ok then (Some (fresh, 0), f2) else (None, snd (fat32_free_chain fresh f2))))
                         else free_slot_rounds n nx f)))"

definition find_free_dir_slot :: "u32 \<Rightarrow> 'd fat \<Rightarrow> (u32 \<times> nat) option \<times> 'd fat" where
  "find_free_dir_slot start f = free_slot_rounds (unat (f_max_cluster f) + 1) start f"

definition dot_entries :: "u32 \<Rightarrow> u32 \<Rightarrow> 'd fat \<Rightarrow> u8 list" where
  "dot_entries dir_cluster parent f =
     (let zero = replicate (unat (cluster_bytes f)) 0;
          dot = set_dirent_cluster dir_cluster (zero_dirent\<lparr>de_name := pad_name 11 [0x2E], de_attr := ATTR_DIRECTORY\<rparr>);
          dotdot = set_dirent_cluster parent (zero_dirent\<lparr>de_name := pad_name 11 [0x2E, 0x2E], de_attr := ATTR_DIRECTORY\<rparr>)
      in put_entry (put_entry zero 0 dot) 1 dotdot)"

definition publish_dir :: "u32 \<Rightarrow> u8 list \<Rightarrow> u32 \<Rightarrow> 'd fat \<Rightarrow> bool \<times> 'd fat" where
  "publish_dir parent nm dir_cluster f =
     (case find_free_dir_slot parent f of
        (None, f1) \<Rightarrow> (False, snd (fat32_free_chain dir_cluster f1))
      | (Some (slot_cluster, slot), f1) \<Rightarrow>
          (case write_dirent slot_cluster slot
                  (set_dirent_cluster dir_cluster (zero_dirent\<lparr>de_name := nm, de_attr := ATTR_DIRECTORY\<rparr>)) f1 of
             (ok, f2) \<Rightarrow> if ok then (True, f2) else (False, snd (fat32_free_chain dir_cluster f2))))"

definition fat32_mkdir :: "string \<Rightarrow> 'd fat \<Rightarrow> (bool \<times> 'd fat) option" where
  "fat32_mkdir path f =
     (if \<not> f_mounted f then Some (False, f)
      else case resolve_parent path f of
             None \<Rightarrow> None
           | Some None \<Rightarrow> Some (False, f)
           | Some (Some (parent, nm)) \<Rightarrow>
               (case find_entry parent nm f of
                  None \<Rightarrow> None
                | Some (Some e) \<Rightarrow> Some (False, f)
                | Some None \<Rightarrow>
                    Some (case fat32_alloc_cluster f of
                            (None, f1) \<Rightarrow> (False, f1)
                          | (Some dir_cluster, f1) \<Rightarrow>
                              (case read_cluster dir_cluster f1 of
                                 None \<Rightarrow> (False, snd (fat32_free_chain dir_cluster f1))
                               | Some old \<Rightarrow>
                                   (case write_cluster dir_cluster (dot_entries dir_cluster parent f1) f1 of
                                      (ok, f2) \<Rightarrow>
                                        if ok then publish_dir parent nm dir_cluster f2
                                        else (False, snd (fat32_free_chain dir_cluster f2)))))))"

section \<open>Writing and removing files\<close>

definition free_if :: "u32 \<Rightarrow> 'd fat \<Rightarrow> 'd fat" where
  "free_if first f = (if first \<noteq> 0 then snd (fat32_free_chain first f) else f)"

primrec alloc_chain :: "nat \<Rightarrow> u32 \<Rightarrow> u32 \<Rightarrow> 'd fat \<Rightarrow> u32 option \<times> 'd fat" where
  "alloc_chain 0 first prev f = (Some first, f)"
| "alloc_chain (Suc n) first prev f =
     (case fat32_alloc_cluster f of
        (None, f1) \<Rightarrow> (None, free_if first f1)
      | (Some fresh, f1) \<Rightarrow>
          let first1 = (if first = 0 then fresh else first)
          in if prev = 0 then alloc_chain n first1 fresh f1
             else (case fat32_set_entry prev fresh f1 of
                     (ok, f2) \<Rightarrow>
                       if ok then alloc_chain n first1 fresh f2
                       else (None, free_if first1 (snd (fat32_free_chain fresh f2)))))"

partial_function (option) write_chain :: "u32 \<Rightarrow> u32 \<Rightarrow> u8 list \<Rightarrow> 'd fat \<Rightarrow> (bool \<times> 'd fat) option" where
  "write_chain first c src f =
     (if src = [] then Some (True, f)
      else
        let cb = unat (cluster_bytes f);
            chunk = (if length src > cb then cb else length src);
            r = write_cluster c (patch (replicate cb 0) 0 (take chunk src)) f;
            f1 = snd r; rest = drop chunk src
        in if \<not> fst r then Some (False, free_if first f1)
           else if rest = [] then Some (True, f1)
           else case fat32_read_entry c f1 of
                  None \<Rightarrow> Some (False, snd (fat32_free_chain first f1))
                | Some nx \<Rightarrow>
                    if is_end_of_chain nx then Some (False, snd (fat32_free_chain first f1))
                    else write_chain first nx rest f1)"

text \<open>The entry of the file: at the place of the old one, or in a free slot.\<close>

definition file_slot :: "fat32_dirent option \<Rightarrow> u32 \<Rightarrow> u8 list \<Rightarrow> 'd fat \<Rightarrow> ((u32 \<times> nat) option \<times> 'd fat) option" where
  "file_slot old parent nm f =
     (case old of
        Some e \<Rightarrow> map_option (\<lambda>r. (map_option (\<lambda>(c, i, e). (c, i)) r, f)) (find_entry_location parent nm f)
      | None \<Rightarrow> Some (find_free_dir_slot parent f))"

definition publish_file :: "fat32_dirent option \<Rightarrow> u32 \<Rightarrow> u8 list \<Rightarrow> u32 \<Rightarrow> u32 \<Rightarrow> 'd fat \<Rightarrow> (bool \<times> 'd fat) option" where
  "publish_file old parent nm first sz f =
     (case file_slot old parent nm f of
        None \<Rightarrow> None
      | Some (None, f1) \<Rightarrow> Some (False, free_if first f1)
      | Some (Some (slot_cluster, slot), f1) \<Rightarrow>
          Some (case write_dirent slot_cluster slot
                       (set_dirent_cluster first (zero_dirent\<lparr>de_name := nm, de_attr := 0x20, de_file_size := sz\<rparr>)) f1 of
                  (ok, f2) \<Rightarrow>
                    if \<not> ok then (False, free_if first f2)
                    else (True, case old of
                                  Some e \<Rightarrow> if dirent_cluster e \<ge> 2 then snd (fat32_free_chain (dirent_cluster e) f2) else f2
                                | None \<Rightarrow> f2)))"

definition clusters_needed :: "u32 \<Rightarrow> 'd fat \<Rightarrow> u32" where
  "clusters_needed sz f = (if sz \<noteq> 0 then (sz + cluster_bytes f - 1) div cluster_bytes f else 0)"

definition fat32_write_file :: "string \<Rightarrow> u8 list \<Rightarrow> 'd fat \<Rightarrow> (bool \<times> 'd fat) option" where
  "fat32_write_file path src f =
     (if \<not> f_mounted f then Some (False, f)
      else if length src > 16 * 1024 * 1024 then Some (False, f)
      else case resolve_parent path f of
             None \<Rightarrow> None
           | Some None \<Rightarrow> Some (False, f)
           | Some (Some (parent, nm)) \<Rightarrow>
               (case find_entry parent nm f of
                  None \<Rightarrow> None
                | Some old \<Rightarrow>
                    if (case old of None \<Rightarrow> False | Some e \<Rightarrow> de_attr e AND ATTR_DIRECTORY \<noteq> 0) then Some (False, f)
                    else (case alloc_chain (unat (clusters_needed (of_nat (length src)) f)) 0 0 f of
                            (None, f1) \<Rightarrow> Some (False, f1)
                          | (Some first, f1) \<Rightarrow>
                              (case write_chain first first src f1 of
                                 None \<Rightarrow> None
                               | Some (ok, f2) \<Rightarrow>
                                   if \<not> ok then Some (False, f2)
                                   else publish_file old parent nm first (of_nat (length src)) f2))))"

text \<open>The entry is marked as deleted before its chain is released.\<close>

definition tombstone :: "u32 \<Rightarrow> nat \<Rightarrow> 'd fat \<Rightarrow> bool \<times> 'd fat" where
  "tombstone c i f =
     (case read_cluster c f of
        None \<Rightarrow> (False, f)
      | Some bs \<Rightarrow> write_cluster c (patch bs (32 * i) [0xE5]) f)"

definition fat32_remove_file :: "string \<Rightarrow> 'd fat \<Rightarrow> (bool \<times> 'd fat) option" where
  "fat32_remove_file path f =
     (if \<not> f_mounted f then Some (False, f)
      else case resolve_parent path f of
             None \<Rightarrow> None
           | Some None \<Rightarrow> Some (False, f)
           | Some (Some (parent, nm)) \<Rightarrow>
               (case find_entry_location parent nm f of
                  None \<Rightarrow> None
                | Some None \<Rightarrow> Some (False, f)
                | Some (Some (c, i, e)) \<Rightarrow>
                    if de_attr e AND ATTR_DIRECTORY \<noteq> 0 then Some (False, f)
                    else Some (case tombstone c i f of
                                 (ok, f1) \<Rightarrow>
                                   if \<not> ok then (False, f1)
                                   else if dirent_cluster e \<ge> 2 then fat32_free_chain (dirent_cluster e) f1
                                   else (True, f1))))"

definition dot_entry :: "fat32_dirent \<Rightarrow> bool" where
  "dot_entry e =
     (de_name e ! 0 = 0x2E \<and> (de_name e ! 1 = 0x20 \<or> (de_name e ! 1 = 0x2E \<and> de_name e ! 2 = 0x20)))"

primrec no_live_entry :: "u8 list \<Rightarrow> nat list \<Rightarrow> bool" where
  "no_live_entry bs [] = True"
| "no_live_entry bs (i # is) =
     (let e = entry_at bs i
      in if de_name e ! 0 = 0 then True
         else if skipped e then no_live_entry bs is
         else if dot_entry e then no_live_entry bs is
         else False)"

primrec empty_rounds :: "nat \<Rightarrow> u32 \<Rightarrow> 'd fat \<Rightarrow> bool" where
  "empty_rounds 0 c f = True"
| "empty_rounds (Suc n) c f =
     (if c < 2 \<or> c > f_max_cluster f then True
      else case read_cluster c f of
             None \<Rightarrow> False
           | Some bs \<Rightarrow>
               if \<not> no_live_entry bs [0..<entries_per_cluster f] then False
               else (case fat32_read_entry c f of
                       None \<Rightarrow> False
                     | Some nx \<Rightarrow> if is_end_of_chain nx then True else empty_rounds n nx f))"

definition fat32_remove_empty_dir :: "string \<Rightarrow> 'd fat \<Rightarrow> (bool \<times> 'd fat) option" where
  "fat32_remove_empty_dir path f =
     (if \<not> f_mounted f \<or> path = ''/'' then Some (False, f)
      else case resolve_parent path f of
             None \<Rightarrow> None
           | Some None \<Rightarrow> Some (False, f)
           | Some (Some (parent, nm)) \<Rightarrow>
               (case find_entry_location parent nm f of
                  None \<Rightarrow> None
                | Some None \<Rightarrow> Some (False, f)
                | Some (Some (c, i, e)) \<Rightarrow>
                    if de_attr e AND ATTR_DIRECTORY = 0 then Some (False, f)
                    else if \<not> empty_rounds (unat (f_max_cluster f) + 1) (dirent_cluster e) f then Some (False, f)
                    else Some (case tombstone c i f of
                                 (ok, f1) \<Rightarrow> if \<not> ok then (False, f1) else fat32_free_chain (dirent_cluster e) f1)))"

end
