(* ===== verification/Mount.thy ===== *)
theory Mount
  imports Nexus_Prelude "HOL-Library.Sublist"
begin

text \<open>
  The mount table (\<open>fs/vfs/mount/mount.c\<close>) and the registry of file systems (\<open>fs/vfs/registry/fs.c\<close>).  A C string
  is its characters before the terminating zero; reading position \<open>n\<close> of a string of length \<open>n\<close> gives the zero.
\<close>

section \<open>The mount table\<close>

definition VFS_PATH_MAX :: nat where "VFS_PATH_MAX = 256"
definition VFS_FSTYPE_MAX :: nat where "VFS_FSTYPE_MAX = 16"
definition VFS_MOUNT_MAX :: nat where "VFS_MOUNT_MAX = 32"
definition VFS_MOUNT_RDONLY :: u32 where "VFS_MOUNT_RDONLY = 1"
definition VFS_MOUNT_NODEV :: u32 where "VFS_MOUNT_NODEV = 2"

record vfs_mount_t =
  m_used :: bool
  m_source :: string
  m_target :: string
  m_fstype :: string
  m_flags :: u32

type_synonym mounts = "vfs_mount_t list"

fun str_eq :: "string \<Rightarrow> string \<Rightarrow> bool" where
  "str_eq (a # as) (b # bs) = (if a = b then str_eq as bs else False)"
| "str_eq as bs = (as = [] \<and> bs = [])"

definition str_copy :: "string \<Rightarrow> nat \<Rightarrow> string" where
  "str_copy src mx = take (mx - 1) src"

definition mounted_at :: "mounts \<Rightarrow> string \<Rightarrow> nat option" where
  "mounted_at ms target = find (\<lambda>i. m_used (ms ! i) \<and> str_eq (m_target (ms ! i)) target) [0..<VFS_MOUNT_MAX]"

definition vfs_mount :: "string option \<Rightarrow> string option \<Rightarrow> string option \<Rightarrow> u32 \<Rightarrow> mounts \<Rightarrow> int \<times> mounts" where
  "vfs_mount source target fstype flags ms =
     (case (source, target, fstype) of
        (Some src, Some tgt, Some fty) \<Rightarrow>
          if tgt = [] then (- 1, ms)
          else (case mounted_at ms tgt of
                  Some i \<Rightarrow>
                    (int i, ms[i := (ms ! i)\<lparr>m_source := str_copy src VFS_PATH_MAX, m_fstype := str_copy fty VFS_FSTYPE_MAX,
                                    m_flags := flags\<rparr>])
                | None \<Rightarrow>
                    (case find (\<lambda>i. \<not> m_used (ms ! i)) [0..<VFS_MOUNT_MAX] of
                       Some i \<Rightarrow>
                         (int i, ms[i := (ms ! i)\<lparr>m_used := True, m_source := str_copy src VFS_PATH_MAX,
                                         m_target := str_copy tgt VFS_PATH_MAX, m_fstype := str_copy fty VFS_FSTYPE_MAX,
                                         m_flags := flags\<rparr>])
                     | None \<Rightarrow> (- 2, ms)))
      | _ \<Rightarrow> (- 1, ms))"

definition vfs_mount_init :: "mounts \<Rightarrow> mounts" where
  "vfs_mount_init ms =
     (let m0 = map (\<lambda>m. m\<lparr>m_used := False, m_source := [], m_target := [], m_fstype := [], m_flags := 0\<rparr>) ms;
          m1 = snd (vfs_mount (Some ''rootfs'') (Some ''/'') (Some ''nexusfs'') 0 m0);
          m2 = snd (vfs_mount (Some ''devfs'') (Some ''/dev'') (Some ''devfs'') 0 m1);
          m3 = snd (vfs_mount (Some ''procfs'') (Some ''/proc'') (Some ''procfs'') VFS_MOUNT_NODEV m2);
          m4 = snd (vfs_mount (Some ''sysfs'') (Some ''/sys'') (Some ''sysfs'') VFS_MOUNT_NODEV m3)
      in snd (vfs_mount (Some ''tmpfs'') (Some ''/tmp'') (Some ''tmpfs'') 0 m4))"

definition vfs_umount :: "string option \<Rightarrow> mounts \<Rightarrow> int \<times> mounts" where
  "vfs_umount target ms =
     (case target of
        None \<Rightarrow> (- 1, ms)
      | Some tgt \<Rightarrow>
          if str_eq tgt ''/'' then (- 2, ms)
          else (case mounted_at ms tgt of
                  Some i \<Rightarrow> (0, ms[i := (ms ! i)\<lparr>m_used := False\<rparr>])
                | None \<Rightarrow> (- 1, ms)))"

definition vfs_mount_get :: "int \<Rightarrow> mounts \<Rightarrow> vfs_mount_t option" where
  "vfs_mount_get i ms =
     (if i < 0 \<or> i \<ge> int VFS_MOUNT_MAX then None
      else if \<not> m_used (ms ! nat i) then None
      else Some (ms ! nat i))"

definition vfs_mount_count :: "mounts \<Rightarrow> nat" where
  "vfs_mount_count ms = fold (\<lambda>i n. if m_used (ms ! i) then n + 1 else n) [0..<VFS_MOUNT_MAX] 0"

text \<open>The comparison of the first \<open>length target\<close> characters, and the test of the character behind them.\<close>

fun target_matches :: "string \<Rightarrow> string \<Rightarrow> bool" where
  "target_matches path [] = (path = [] \<or> hd path = CHR ''/'')"
| "target_matches [] (t # ts) = False"
| "target_matches (p # ps) (t # ts) = (if p \<noteq> t then False else target_matches ps ts)"

definition resolve_step :: "mounts \<Rightarrow> string \<Rightarrow> nat \<Rightarrow> (nat \<times> nat) option \<Rightarrow> (nat \<times> nat) option" where
  "resolve_step ms path i best =
     (if \<not> m_used (ms ! i) then best
      else
        let len = length (m_target (ms ! i))
        in if target_matches path (m_target (ms ! i)) \<and> (case best of None \<Rightarrow> True | Some (b, best_len) \<Rightarrow> len > best_len)
           then Some (i, len) else best)"

definition vfs_mount_resolve :: "string \<Rightarrow> nat \<Rightarrow> mounts \<Rightarrow> (nat \<times> string) option" where
  "vfs_mount_resolve path out_size ms =
     (if out_size = 0 then None
      else map_option (\<lambda>(b, best_len). (b, str_copy (m_target (ms ! b)) out_size))
             (fold (resolve_step ms path) [0..<VFS_MOUNT_MAX] None))"

definition vfs_mount_list :: "mounts \<Rightarrow> string" where
  "vfs_mount_list ms =
     [CHR 0x0A] @ ''Mount points:'' @ [CHR 0x0A] @
     concat (map (\<lambda>i. let m = ms ! i in if \<not> m_used m then [] else
       ''  '' @ m_source m @ '' -> '' @ m_target m @ '' ['' @ m_fstype m @ '']'' @ [CHR 0x0A]) [0..<VFS_MOUNT_MAX])"

section \<open>The registry of file systems\<close>

definition NEXUS_FS_MAX :: nat where "NEXUS_FS_MAX = 16"

record nexus_fs =
  fs_name :: "string option"
  fs_mount :: u64
  fs_unmount :: u64

definition nexus_fs_init :: "nexus_fs option list \<Rightarrow> nexus_fs option list" where
  "nexus_fs_init reg = map (\<lambda>_. None) reg"

definition nexus_fs_register :: "nexus_fs option \<Rightarrow> nexus_fs option list \<Rightarrow> int \<times> nexus_fs option list" where
  "nexus_fs_register fs reg =
     (case fs of
        None \<Rightarrow> (- 1, reg)
      | Some f \<Rightarrow>
          if fs_name f = None then (- 1, reg)
          else (case find (\<lambda>i. reg ! i = None) [0..<NEXUS_FS_MAX] of
                  Some i \<Rightarrow> (int i, reg[i := Some f])
                | None \<Rightarrow> (- 2, reg)))"

definition nexus_fs_find :: "string option \<Rightarrow> nexus_fs option list \<Rightarrow> nexus_fs option" where
  "nexus_fs_find name reg =
     (case name of
        None \<Rightarrow> None
      | Some n \<Rightarrow>
          (case find (\<lambda>i. case reg ! i of None \<Rightarrow> False | Some f \<Rightarrow> str_eq (the (fs_name f)) n) [0..<NEXUS_FS_MAX] of
             Some i \<Rightarrow> reg ! i
           | None \<Rightarrow> None))"

section \<open>Laws of the mount table\<close>

lemma str_eq_iff [simp]: "str_eq a b \<longleftrightarrow> a = b"
  by (induction a b rule: str_eq.induct) auto

text \<open>A path lies under a target when it continues it at a component boundary.\<close>

definition under :: "string \<Rightarrow> string \<Rightarrow> bool" where
  "under path t \<longleftrightarrow> (\<exists>r. path = t @ r \<and> (r = [] \<or> hd r = CHR ''/''))"

lemma target_matches_under: "target_matches path t \<longleftrightarrow> under path t"
  by (induction path t rule: target_matches.induct) (auto simp: under_def)

definition serves :: "mounts \<Rightarrow> string \<Rightarrow> nat \<Rightarrow> bool" where
  "serves ms path i \<longleftrightarrow> m_used (ms ! i) \<and> under path (m_target (ms ! i))"

lemma resolve_fold:
  "case fold (resolve_step ms path) [0..<n] None of
     None \<Rightarrow> \<forall>i<n. \<not> serves ms path i
   | Some (b, len) \<Rightarrow> b < n \<and> serves ms path b \<and> len = length (m_target (ms ! b)) \<and>
       (\<forall>i<n. serves ms path i \<longrightarrow> length (m_target (ms ! i)) \<le> len)"
proof (induction n)
  case (Suc n)
  then show ?case
    by (cases "fold (resolve_step ms path) [0..<n] None")
      (auto simp: resolve_step_def target_matches_under Let_def less_Suc_eq serves_def split: option.splits)
qed simp

definition mount_ok :: "mounts \<Rightarrow> bool" where
  "mount_ok ms \<longleftrightarrow> length ms = VFS_MOUNT_MAX \<and> (\<forall>i < VFS_MOUNT_MAX. length (m_target (ms ! i)) < VFS_PATH_MAX) \<and>
     (\<forall>i < VFS_MOUNT_MAX. \<forall>j < VFS_MOUNT_MAX. m_used (ms ! i) \<longrightarrow> m_used (ms ! j) \<longrightarrow> m_target (ms ! i) = m_target (ms ! j) \<longrightarrow> i = j)"

lemma mounted_at_Some:
  "mounted_at ms t = Some i \<Longrightarrow> i < VFS_MOUNT_MAX \<and> m_used (ms ! i) \<and> m_target (ms ! i) = t"
  unfolding mounted_at_def by (auto simp: find_Some_iff)

lemma mounted_at_None:
  "mounted_at ms t = None \<longleftrightarrow> (\<forall>i < VFS_MOUNT_MAX. \<not> (m_used (ms ! i) \<and> m_target (ms ! i) = t))"
  unfolding mounted_at_def by (auto simp: find_None_iff)

lemma mounted_at_iff:
  assumes "mount_ok ms" shows "mounted_at ms t = Some i \<longleftrightarrow> i < VFS_MOUNT_MAX \<and> m_used (ms ! i) \<and> m_target (ms ! i) = t"
proof
  assume R: "i < VFS_MOUNT_MAX \<and> m_used (ms ! i) \<and> m_target (ms ! i) = t"
  then obtain j where j: "mounted_at ms t = Some j" using mounted_at_None [of ms t] by fastforce
  then have "i = j" using assms R mounted_at_Some [OF j] by (auto simp: mount_ok_def)
  then show "mounted_at ms t = Some i" using j by simp
qed (rule mounted_at_Some)

lemma mount_ok_update:
  assumes ok: "mount_ok ms" and i: "i < VFS_MOUNT_MAX" and len: "length (m_target m) < VFS_PATH_MAX"
    and fresh: "m_used m \<Longrightarrow> \<forall>j < VFS_MOUNT_MAX. j \<noteq> i \<longrightarrow> m_used (ms ! j) \<longrightarrow> m_target (ms ! j) \<noteq> m_target m"
  shows "mount_ok (ms[i := m])"
  using assms unfolding mount_ok_def by (auto simp: nth_list_update)

lemma vfs_mount_cases:
  assumes ok: "mount_ok ms" and r: "vfs_mount source target fstype flags ms = (r, ms')"
  obtains (refused) "r < 0" "ms' = ms"
  | (stored) i m where "r = int i" "i < VFS_MOUNT_MAX" "ms' = ms[i := m]" "m_used m" "m_flags m = flags"
      "\<exists>t. target = Some t \<and> t \<noteq> [] \<and> m_target m = str_copy t VFS_PATH_MAX \<and>
        (mounted_at ms t = Some i \<or> mounted_at ms t = None \<and> \<not> m_used (ms ! i))"
      "\<exists>f. fstype = Some f \<and> m_fstype m = str_copy f VFS_FSTYPE_MAX"
proof -
  have short: "mounted_at ms t = Some i \<Longrightarrow> m_used (ms ! i) \<and> i < VFS_MOUNT_MAX \<and> m_target (ms ! i) = str_copy t VFS_PATH_MAX" for t i
    using mounted_at_Some [of ms t i] ok by (fastforce simp: mount_ok_def str_copy_def VFS_PATH_MAX_def)
  show thesis
    using r refused stored short
    by (fastforce simp: vfs_mount_def find_Some_iff split: option.splits if_splits)
qed

text \<open>A history of the table: mounts and unmounts, with targets that fit into the field of the entry.\<close>

inductive mount_history :: "mounts \<Rightarrow> mounts \<Rightarrow> bool" for ms0 where
  start: "mount_history ms0 (vfs_mount_init ms0)"
| mount: "mount_history ms0 ms \<Longrightarrow> (\<forall>t. target = Some t \<longrightarrow> length t < VFS_PATH_MAX) \<Longrightarrow>
    vfs_mount source target fstype flags ms = (r, ms') \<Longrightarrow> mount_history ms0 ms'"
| umount: "mount_history ms0 ms \<Longrightarrow> vfs_umount target ms = (r, ms') \<Longrightarrow> mount_history ms0 ms'"

lemma vfs_mount_ok:
  assumes ok: "mount_ok ms" and len: "\<forall>t. target = Some t \<longrightarrow> length t < VFS_PATH_MAX"
    and r: "vfs_mount source target fstype flags ms = (r, ms')"
  shows "mount_ok ms'"
  using ok r
proof (cases rule: vfs_mount_cases)
  case (stored i m)
  from stored(6) len obtain t where t: "m_target m = t" "length t < VFS_PATH_MAX"
    and o: "mounted_at ms t = Some i \<or> mounted_at ms t = None \<and> \<not> m_used (ms ! i)"
    by (auto simp: str_copy_def)
  have "\<forall>j < VFS_MOUNT_MAX. j \<noteq> i \<longrightarrow> m_used (ms ! j) \<longrightarrow> m_target (ms ! j) \<noteq> m_target m"
    using o mounted_at_iff [OF ok, of t] t(1) by (metis option.distinct(1) option.inject)
  then show ?thesis using mount_ok_update [OF ok stored(2)] t stored(3) by blast
qed (use ok in simp)

lemma vfs_umount_cases:
  assumes "vfs_umount target ms = (r, ms')"
  obtains (refused) "r < 0" "ms' = ms"
  | (removed) t i where "r = 0" "target = Some t" "t \<noteq> ''/''" "mounted_at ms t = Some i" "ms' = ms[i := (ms ! i)\<lparr>m_used := False\<rparr>]"
proof (cases "\<exists>t i. target = Some t \<and> t \<noteq> ''/'' \<and> mounted_at ms t = Some i")
  case True
  then obtain t i where t: "target = Some t" "t \<noteq> ''/''" "mounted_at ms t = Some i" by blast
  then show thesis using assms by (intro removed [of t i]) (simp_all add: vfs_umount_def)
next
  case False
  then have "r < 0 \<and> ms' = ms" using assms
    by (cases target) (simp_all add: vfs_umount_def not_Some_eq split: if_splits)
  then show thesis using refused by blast
qed

lemma vfs_umount_ok:
  assumes ok: "mount_ok ms" and r: "vfs_umount target ms = (r, ms')" shows "mount_ok ms'"
  using r
proof (cases rule: vfs_umount_cases)
  case (removed t i)
  have i: "i < VFS_MOUNT_MAX" using mounted_at_Some [OF removed(4)] by simp
  then have "length (m_target (ms ! i)) < VFS_PATH_MAX" using ok by (simp add: mount_ok_def)
  then show ?thesis unfolding removed(5) by (intro mount_ok_update [OF ok i]) simp_all
qed (use ok in simp)

lemma mount_cleared_ok:
  "length ms0 = VFS_MOUNT_MAX \<Longrightarrow>
   mount_ok (map (\<lambda>m. m\<lparr>m_used := False, m_source := [], m_target := [], m_fstype := [], m_flags := 0\<rparr>) ms0)"
  by (auto simp: mount_ok_def VFS_PATH_MAX_def)

text \<open>The entry of a target survives every mount, and every unmount of another target.\<close>

lemma vfs_mount_keeps:
  assumes ok: "mount_ok ms" and len: "\<forall>t. target = Some t \<longrightarrow> length t < VFS_PATH_MAX"
    and r: "vfs_mount source target fstype flags ms = (r, ms')" and at: "mounted_at ms u = Some k"
  shows "mounted_at ms' u = Some k"
proof -
  have ok': "mount_ok ms'" by (rule vfs_mount_ok [OF ok len r])
  have k: "k < VFS_MOUNT_MAX" "m_used (ms ! k)" "m_target (ms ! k) = u" using mounted_at_Some [OF at] by auto
  show ?thesis using ok r
  proof (cases rule: vfs_mount_cases)
    case (stored i m)
    from stored(6) len obtain t where t: "m_target m = t"
      and o: "mounted_at ms t = Some i \<or> mounted_at ms t = None \<and> \<not> m_used (ms ! i)" by (auto simp: str_copy_def)
    have len': "length ms = VFS_MOUNT_MAX" using ok by (simp add: mount_ok_def)
    have "m_used (ms' ! k) \<and> m_target (ms' ! k) = u"
    proof (cases "k = i")
      case True
      then have "mounted_at ms t = Some i" using o k(2) by auto
      then show ?thesis using True k t stored(2,3,4) len' mounted_at_Some [of ms t i] by auto
    qed (use k stored(2,3) len' in auto)
    then show ?thesis using mounted_at_iff [OF ok'] k(1) by blast
  qed (use at in simp)
qed

lemma vfs_umount_keeps:
  assumes ok: "mount_ok ms" and r: "vfs_umount target ms = (r, ms')" and at: "mounted_at ms u = Some k" and ne: "target \<noteq> Some u \<or> u = ''/''"
  shows "mounted_at ms' u = Some k"
  using r
proof (cases rule: vfs_umount_cases)
  case (removed t i)
  have ok': "mount_ok ms'" by (rule vfs_umount_ok [OF ok r])
  have "i \<noteq> k" using removed(2,3) ne mounted_at_Some [OF removed(4)] mounted_at_Some [OF at] by auto
  then have "m_used (ms' ! k) \<and> m_target (ms' ! k) = u" using mounted_at_Some [OF at] removed(5) by simp
  then show ?thesis using mounted_at_iff [OF ok'] mounted_at_Some [OF at] by blast
qed (use at in simp)

lemma vfs_mount_at:
  assumes ok: "mount_ok ms" and len: "length t < VFS_PATH_MAX" and r: "vfs_mount source (Some t) fstype flags ms = (int i, ms')"
  shows "mounted_at ms' t = Some i"
proof -
  have ok': "mount_ok ms'" by (rule vfs_mount_ok [OF ok _ r]) (use len in simp)
  show ?thesis using ok r
  proof (cases rule: vfs_mount_cases)
    case (stored j m)
    then show ?thesis using len ok unfolding mounted_at_iff [OF ok'] by (auto simp: mount_ok_def str_copy_def)
  qed simp
qed

definition rooted :: "mounts \<Rightarrow> bool" where
  "rooted ms \<longleftrightarrow> mount_ok ms \<and> mounted_at ms ''/'' \<noteq> None"

lemma rooted_mount:
  assumes R: "rooted ms" and len: "length t < VFS_PATH_MAX"
  shows "rooted (snd (vfs_mount source (Some t) fstype flags ms))"
proof (cases "vfs_mount source (Some t) fstype flags ms")
  case (Pair r ms')
  then show ?thesis
    using R len vfs_mount_ok [OF _ _ Pair] vfs_mount_keeps [OF _ _ Pair] by (auto simp: rooted_def)
qed

lemma rooted_first:
  assumes ok: "mount_ok ms" and free: "\<forall>i < VFS_MOUNT_MAX. \<not> m_used (ms ! i)"
  shows "rooted (snd (vfs_mount (Some s) (Some ''/'') (Some f) flags ms))"
proof -
  let ?r = "vfs_mount (Some s) (Some ''/'') (Some f) flags ms"
  have len: "length ''/'' < VFS_PATH_MAX" by (simp add: VFS_PATH_MAX_def)
  have "mounted_at ms ''/'' = None" using free by (simp add: mounted_at_None)
  moreover have "find (\<lambda>i. \<not> m_used (ms ! i)) [0..<VFS_MOUNT_MAX] = Some 0"
    using free by (simp add: VFS_MOUNT_MAX_def upt_rec)
  ultimately have r: "?r = (int 0, snd ?r)" by (simp add: vfs_mount_def)
  show ?thesis using vfs_mount_at [OF ok len r] vfs_mount_ok [OF ok _ r] len by (auto simp: rooted_def)
qed

lemma mount_init_ok:
  assumes "length ms0 = VFS_MOUNT_MAX" shows "rooted (vfs_mount_init ms0)"
  unfolding vfs_mount_init_def Let_def
  by (intro rooted_mount rooted_first mount_cleared_ok [OF assms]) (simp_all add: VFS_PATH_MAX_def assms)

lemma mount_history_ok:
  assumes "mount_history ms0 ms" "length ms0 = VFS_MOUNT_MAX"
  shows "mount_ok ms \<and> mounted_at ms ''/'' \<noteq> None"
  using assms
proof (induction rule: mount_history.induct)
  case start
  then show ?case using mount_init_ok by (simp add: rooted_def)
next
  case (mount ms target source fstype flags r ms')
  then show ?case using vfs_mount_ok [of ms target source fstype flags r ms'] vfs_mount_keeps [of ms target source fstype flags r ms' "''/''"] by blast
next
  case (umount ms target r ms')
  then show ?case using vfs_umount_ok [of ms target r ms'] vfs_umount_keeps [of ms target r ms' "''/''"] by blast
qed

lemma mount_resolve_ok:
  assumes "mount_ok ms"
  shows "case vfs_mount_resolve path VFS_PATH_MAX ms of
      None \<Rightarrow> \<forall>i < VFS_MOUNT_MAX. \<not> serves ms path i
    | Some (i, mountpoint) \<Rightarrow> i < VFS_MOUNT_MAX \<and> serves ms path i \<and> mountpoint = m_target (ms ! i) \<and>
        (\<forall>j < VFS_MOUNT_MAX. serves ms path j \<longrightarrow> j \<noteq> i \<longrightarrow> length (m_target (ms ! j)) < length mountpoint)"
proof -
  have uniq: "serves ms path i \<Longrightarrow> serves ms path j \<Longrightarrow> length (m_target (ms ! i)) = length (m_target (ms ! j)) \<Longrightarrow>
      i < VFS_MOUNT_MAX \<Longrightarrow> j < VFS_MOUNT_MAX \<Longrightarrow> i = j" for i j
    unfolding serves_def under_def using assms unfolding mount_ok_def by (metis append_eq_append_conv)
  have sh: "i < VFS_MOUNT_MAX \<Longrightarrow> str_copy (m_target (ms ! i)) VFS_PATH_MAX = m_target (ms ! i)" for i
    using assms by (fastforce simp: mount_ok_def str_copy_def VFS_PATH_MAX_def)
  have nz: "VFS_PATH_MAX \<noteq> 0" by (simp add: VFS_PATH_MAX_def)
  note F = resolve_fold [where ms = ms and path = path and n = VFS_MOUNT_MAX]
  show ?thesis
  proof (cases "fold (resolve_step ms path) [0..<VFS_MOUNT_MAX] None")
    case None
    then show ?thesis using F nz by (simp add: vfs_mount_resolve_def)
  next
    case (Some q)
    obtain b len where q: "q = (b, len)" by (cases q)
    have B: "b < VFS_MOUNT_MAX" "serves ms path b" "len = length (m_target (ms ! b))"
      "\<forall>i < VFS_MOUNT_MAX. serves ms path i \<longrightarrow> length (m_target (ms ! i)) \<le> len"
      using F unfolding Some q by auto
    have "\<forall>j < VFS_MOUNT_MAX. serves ms path j \<longrightarrow> j \<noteq> b \<longrightarrow> length (m_target (ms ! j)) < length (m_target (ms ! b))"
      using B uniq by (metis order_le_imp_less_or_eq)
    then show ?thesis using B sh nz by (simp add: vfs_mount_resolve_def Some q)
  qed
qed

text \<open>The mounted targets of a history are not empty.\<close>

lemma mount_history_named:
  assumes "mount_history ms0 ms" "length ms0 = VFS_MOUNT_MAX"
  shows "\<forall>i < VFS_MOUNT_MAX. m_used (ms ! i) \<longrightarrow> m_target (ms ! i) \<noteq> []"
proof -
  let ?N = "\<lambda>ms. mount_ok ms \<and> (\<forall>i < VFS_MOUNT_MAX. m_used (ms ! i) \<longrightarrow> m_target (ms ! i) \<noteq> [])"
  have step: "?N ms'" if N: "?N ms" and r: "vfs_mount source target fstype flags ms = (r, ms')"
    and len: "\<forall>t. target = Some t \<longrightarrow> length t < VFS_PATH_MAX" for ms ms' source target fstype flags r
  proof -
    have ok: "mount_ok ms" and ok': "mount_ok ms'" using N vfs_mount_ok [OF _ len r] by auto
    show ?thesis using ok r
    proof (cases rule: vfs_mount_cases)
      case (stored i m)
      then have "m_target m \<noteq> []" using len by (auto simp: str_copy_def)
      then show ?thesis using N ok' stored(2,3) by (auto simp: nth_list_update mount_ok_def)
    qed (use N in simp)
  qed
  have mnt: "?N (snd (vfs_mount source (Some t) fstype flags ms))" if "?N ms" "length t < VFS_PATH_MAX" for ms source t fstype flags
    by (rule step [OF that(1) surjective_pairing]) (use that in simp)
  have "?N ms" using assms
  proof (induction rule: mount_history.induct)
    case start
    then show ?case unfolding vfs_mount_init_def Let_def
      by (intro mnt) (simp_all add: mount_cleared_ok VFS_PATH_MAX_def)
  next
    case (mount ms target source fstype flags r ms')
    then show ?case using step [of ms source target fstype flags r ms'] by blast
  next
    case (umount ms target r ms')
    then have N: "?N ms" and ok': "mount_ok ms'" using vfs_umount_ok by blast+
    show ?case using umount.hyps(2)
    proof (cases rule: vfs_umount_cases)
      case (removed t i)
      then show ?thesis using N ok' mounted_at_Some [OF removed(4)] by (auto simp: nth_list_update mount_ok_def)
    qed (use N in simp)
  qed
  then show ?thesis by blast
qed

text \<open>
  The reference: a path is a list of components, and its target is the first mounted one among the path itself, its parent,
  and so on.  The root is a candidate only for itself.
\<close>

definition mount_path :: "string list \<Rightarrow> string" where
  "mount_path cs = (if cs = [] then ''/'' else concat (map (\<lambda>c. CHR ''/'' # c) cs))"

definition mount_candidates :: "string list \<Rightarrow> string list" where
  "mount_candidates cs = (if cs = [] then [''/''] else map mount_path (butlast (rev (prefixes cs))))"

definition first_mounted :: "mounts \<Rightarrow> string list \<Rightarrow> (nat \<times> string) option" where
  "first_mounted ms ts = map_option (\<lambda>t. (the (mounted_at ms t), t)) (find (\<lambda>t. mounted_at ms t \<noteq> None) ts)"

lemma under_snoc:
  assumes "CHR ''/'' \<notin> set c"
  shows "under (p @ CHR ''/'' # c) t \<longleftrightarrow> t = p @ CHR ''/'' # c \<or> under p t"
proof
  assume "under (p @ CHR ''/'' # c) t"
  then obtain r where r: "p @ CHR ''/'' # c = t @ r" "r = [] \<or> hd r = CHR ''/''" by (auto simp: under_def)
  then show "t = p @ CHR ''/'' # c \<or> under p t"
    using assms by (cases r) (auto simp: under_def append_eq_append_conv2 Cons_eq_append_conv neq_Nil_conv)
next
  assume "t = p @ CHR ''/'' # c \<or> under p t"
  then show "under (p @ CHR ''/'' # c) t"
  proof
    assume "under p t"
    then obtain r where "p = t @ r" "r = [] \<or> hd r = CHR ''/''" by (auto simp: under_def)
    then show ?thesis unfolding under_def by (intro exI [of _ "r @ CHR ''/'' # c"]) (cases r; simp)
  qed (simp add: under_def)
qed

lemma resolve_cong:
  assumes "\<And>i. i < VFS_MOUNT_MAX \<Longrightarrow> serves ms path i = serves ms path' i"
  shows "vfs_mount_resolve path n ms = vfs_mount_resolve path' n ms"
proof -
  have "fold (resolve_step ms path) [0..<VFS_MOUNT_MAX] None = fold (resolve_step ms path') [0..<VFS_MOUNT_MAX] None"
    using assms by (intro fold_cong refl) (auto simp: resolve_step_def target_matches_under serves_def Let_def fun_eq_iff)
  then show ?thesis by (simp add: vfs_mount_resolve_def)
qed

lemma resolve_exact:
  assumes ok: "mount_ok ms" and at: "mounted_at ms path = Some i"
  shows "vfs_mount_resolve path VFS_PATH_MAX ms = Some (i, path)"
proof -
  have i: "i < VFS_MOUNT_MAX" "m_target (ms ! i) = path" "serves ms path i"
    using mounted_at_Some [OF at] by (auto simp: serves_def under_def)
  have short: "length (m_target (ms ! j)) \<le> length path" if "serves ms path j" for j
    using that by (auto simp: serves_def under_def)
  note R = mount_resolve_ok [OF ok, of path]
  show ?thesis
  proof (cases "vfs_mount_resolve path VFS_PATH_MAX ms")
    case None
    then show ?thesis using R i by simp
  next
    case (Some r)
    then obtain j t where r: "vfs_mount_resolve path VFS_PATH_MAX ms = Some (j, t)" by (cases r) simp
    then have j: "serves ms path j" "t = m_target (ms ! j)" "i \<noteq> j \<longrightarrow> length path < length t" using R i by auto
    then have "i = j" using short [OF j(1)] by fastforce
    then show ?thesis using r j(2) i(2) by simp
  qed
qed

lemma mount_resolve_candidates:
  assumes ok: "mount_ok ms" and named: "\<forall>i < VFS_MOUNT_MAX. m_used (ms ! i) \<longrightarrow> m_target (ms ! i) \<noteq> []"
    and cs: "\<forall>c\<in>set cs. CHR ''/'' \<notin> set c"
  shows "vfs_mount_resolve (concat (map (\<lambda>c. CHR ''/'' # c) cs)) VFS_PATH_MAX ms =
    first_mounted ms (map mount_path (butlast (rev (prefixes cs))))"
  using cs
proof (induction cs rule: rev_induct)
  case Nil
  have "\<not> serves ms [] i" if "i < VFS_MOUNT_MAX" for i using named that by (auto simp: serves_def under_def)
  then show ?case using mount_resolve_ok [OF ok, of "[]"] by (auto simp: first_mounted_def split: option.splits)
next
  case (snoc c cs)
  let ?q = "concat (map (\<lambda>c. CHR ''/'' # c) cs)"
  have p: "mount_path (cs @ [c]) = ?q @ CHR ''/'' # c" by (simp add: mount_path_def)
  have t: "butlast (rev (prefixes (cs @ [c]))) = (cs @ [c]) # butlast (rev (prefixes cs))" by (simp add: prefixes_snoc)
  show ?case
  proof (cases "mounted_at ms (?q @ CHR ''/'' # c)")
    case None
    then have "serves ms (?q @ CHR ''/'' # c) i = serves ms ?q i" if "i < VFS_MOUNT_MAX" for i
      using that under_snoc [of c ?q] snoc.prems by (auto simp: serves_def mounted_at_None)
    from resolve_cong [OF this] show ?thesis using snoc None by (simp add: t p first_mounted_def)
  next
    case (Some i)
    then show ?thesis using resolve_exact [OF ok Some] by (simp add: t p first_mounted_def)
  qed
qed

text \<open>
  C35. Path resolution over the mount table: after every history of mounts and unmounts whose targets have fewer than 256
  characters the root is mounted and no target is mounted twice, and \<open>vfs_mount_resolve\<close> finds for a path, given by its
  components, the entry of the first mounted target among the path, its parent and so on up to its first component.  The
  root serves no path but itself: a path none of whose non-empty prefixes is mounted resolves to nothing.
\<close>

theorem mount_resolution:
  assumes "length ms0 = VFS_MOUNT_MAX" and "mount_history ms0 ms" and "\<forall>c\<in>set cs. CHR ''/'' \<notin> set c"
  shows "mounted_at ms ''/'' \<noteq> None \<and> mount_ok ms \<and>
    vfs_mount_resolve (mount_path cs) VFS_PATH_MAX ms = first_mounted ms (mount_candidates cs)"
proof -
  have ok: "mount_ok ms" "mounted_at ms ''/'' \<noteq> None" using mount_history_ok [OF assms(2,1)] by auto
  have "vfs_mount_resolve (mount_path cs) VFS_PATH_MAX ms = first_mounted ms (mount_candidates cs)"
  proof (cases "cs = []")
    case True
    obtain i where "mounted_at ms ''/'' = Some i" using ok(2) by blast
    then show ?thesis using resolve_exact [OF ok(1)] True by (simp add: mount_path_def mount_candidates_def first_mounted_def)
  next
    case False
    then show ?thesis using mount_resolve_candidates [OF ok(1) mount_history_named [OF assms(2,1)] assms(3)]
      by (simp add: mount_path_def mount_candidates_def)
  qed
  then show ?thesis using ok by simp
qed

definition ex_mounts :: mounts where
  "ex_mounts = replicate VFS_MOUNT_MAX \<lparr>m_used = False, m_source = [], m_target = [], m_fstype = [], m_flags = 0\<rparr>"

text \<open>With a disk at \<open>/mnt/disk0\<close>: a file below it, a path below \<open>/dev\<close>, and a path only the root contains.\<close>

theorem mount_resolution_witness:
  "\<exists>ms. mount_history ex_mounts ms \<and>
     vfs_mount_resolve (mount_path [''mnt'', ''disk0'', ''a'', ''b'']) VFS_PATH_MAX ms = Some (5, ''/mnt/disk0'') \<and>
     vfs_mount_resolve (mount_path [''dev'', ''usb'']) VFS_PATH_MAX ms = Some (1, ''/dev'') \<and>
     vfs_mount_resolve (mount_path [''home'']) VFS_PATH_MAX ms = None"
proof -
  let ?m = "snd (vfs_mount (Some ''sda1'') (Some ''/mnt/disk0'') (Some ''fat32'') 0 (vfs_mount_init ex_mounts))"
  have h: "mount_history ex_mounts ?m"
    by (rule mount_history.mount [OF mount_history.start _ surjective_pairing]) (simp add: VFS_PATH_MAX_def)
  have L: "length ex_mounts = VFS_MOUNT_MAX" by (simp add: ex_mounts_def)
  have "first_mounted ?m (mount_candidates [''mnt'', ''disk0'', ''a'', ''b'']) = Some (5, ''/mnt/disk0'')"
    "first_mounted ?m (mount_candidates [''dev'', ''usb'']) = Some (1, ''/dev'')"
    "first_mounted ?m (mount_candidates [''home'']) = None" by code_simp+
  then show ?thesis
    using h mount_resolution [OF L h, of "[''mnt'', ''disk0'', ''a'', ''b'']"] mount_resolution [OF L h, of "[''dev'', ''usb'']"]
      mount_resolution [OF L h, of "[''home'']"] by (intro exI [of _ ?m]) simp
qed

end
