(* ===== verification/Vfs.thy ===== *)
theory Vfs
  imports Fat32 Mount
begin

text \<open>
  The virtual file system (\<open>fs/vfs/core/vfs.c\<close>): a tree of nodes in memory, with mounted paths forwarded to the FAT32
  driver.  String arguments are never null here.  \<open>v_junk\<close> stands for what a buffer on the stack holds before it
  is written: some callers of \<open>path_is_mount\<close> read the mount point although none was found.  \<open>v_temp\<close> is the static
  buffer of \<open>vfs_write_path\<close>, which keeps its bytes from call to call.  Functions that print return the printed text.
  An outer \<open>None\<close> means that the call does not return.
\<close>

unbundle bit_operations_syntax

section \<open>State\<close>

definition VFS_MAX_NODES :: nat where "VFS_MAX_NODES = 48"
definition VFS_NAME_LEN :: nat where "VFS_NAME_LEN = 24"
definition VFS_CONTENT_LEN :: nat where "VFS_CONTENT_LEN = 200"

datatype vfs_node_type = VFS_NODE_FREE | VFS_NODE_FILE | VFS_NODE_DIR

record vfs_node =
  n_type :: vfs_node_type
  n_name :: string
  n_parent :: int
  n_content :: "u8 list"
  n_content_len :: nat

record 'd vfs =
  v_fat :: "'d fat"
  v_mounts :: mounts
  v_nodes :: "vfs_node list"
  v_cwd :: int
  v_cwd_path :: string
  v_junk :: string
  v_temp :: "nat \<Rightarrow> u8"

abbreviation node :: "'d vfs \<Rightarrow> nat \<Rightarrow> vfs_node" where
  "node v i \<equiv> v_nodes v ! i"

definition upd_node :: "nat \<Rightarrow> (vfs_node \<Rightarrow> vfs_node) \<Rightarrow> 'd vfs \<Rightarrow> 'd vfs" where
  "upd_node i g v = v\<lparr>v_nodes := (v_nodes v)[i := g (v_nodes v ! i)]\<rparr>"

section \<open>Paths\<close>

definition path_copy :: "string \<Rightarrow> string" where
  "path_copy src = take 255 src"

definition path_is_mount :: "string \<Rightarrow> 'd vfs \<Rightarrow> int \<times> string" where
  "path_is_mount path v =
     (if vfs_mount_count (v_mounts v) = 0 then (0, v_junk v)
      else case vfs_mount_resolve path 256 (v_mounts v) of
             None \<Rightarrow> (- 1, v_junk v)
           | Some (i, mountpoint) \<Rightarrow> (int i, mountpoint))"

definition path_join :: "string \<Rightarrow> string \<Rightarrow> string" where
  "path_join base name =
     (if name \<noteq> [] \<and> hd name = CHR ''/'' then path_copy name
      else
        let o1 = take 255 base;
            o2 = (if o1 = [] then ''/'' else o1);
            o3 = (if length o2 > 1 \<and> last o2 \<noteq> CHR ''/'' then o2 @ ''/'' else o2)
        in o3 @ take (255 - length o3) name)"

definition fat_relative :: "string \<Rightarrow> string \<Rightarrow> string option" where
  "fat_relative full mountpoint =
     (let ml = length mountpoint
      in if full = mountpoint then Some ''/''
         else if ml > 1 \<and> ml < length full \<and> full ! ml = CHR ''/'' then Some (path_copy (drop ml full))
         else None)"

definition copy_truncate :: "string \<Rightarrow> nat \<Rightarrow> string" where
  "copy_truncate src max_len = take (max_len - 1) src"

section \<open>Nodes\<close>

definition find_child :: "int \<Rightarrow> string \<Rightarrow> 'd vfs \<Rightarrow> nat option" where
  "find_child parent name v =
     find (\<lambda>i. n_type (node v i) \<noteq> VFS_NODE_FREE \<and> n_parent (node v i) = parent \<and> n_name (node v i) = name) [0..<VFS_MAX_NODES]"

definition find_free_node :: "'d vfs \<Rightarrow> nat option" where
  "find_free_node v = find (\<lambda>i. n_type (node v i) = VFS_NODE_FREE) [1..<VFS_MAX_NODES]"

definition has_children :: "int \<Rightarrow> 'd vfs \<Rightarrow> bool" where
  "has_children parent v = (\<exists>i \<in> set [0..<VFS_MAX_NODES]. n_type (node v i) \<noteq> VFS_NODE_FREE \<and> n_parent (node v i) = parent)"

definition set_dir :: "int \<Rightarrow> string \<Rightarrow> vfs_node \<Rightarrow> vfs_node" where
  "set_dir parent name n = n\<lparr>n_type := VFS_NODE_DIR, n_parent := parent, n_name := copy_truncate name VFS_NAME_LEN\<rparr>"

definition set_file :: "int \<Rightarrow> string \<Rightarrow> vfs_node \<Rightarrow> vfs_node" where
  "set_file parent name n = n\<lparr>n_type := VFS_NODE_FILE, n_parent := parent, n_name := copy_truncate name VFS_NAME_LEN\<rparr>"

definition clear_content :: "vfs_node \<Rightarrow> vfs_node" where
  "clear_content n = n\<lparr>n_content := patch (n_content n) 0 [0], n_content_len := 0\<rparr>"

text \<open>The content of a file as a C string, and storing a C string.\<close>

definition content_text :: "vfs_node \<Rightarrow> string" where
  "content_text n = map byte_char (takeWhile (\<lambda>b. b \<noteq> 0) (n_content n))"

definition text_bytes :: "string \<Rightarrow> u8 list" where
  "text_bytes s = map of_char s"

definition store_text :: "string \<Rightarrow> vfs_node \<Rightarrow> vfs_node" where
  "store_text s n = n\<lparr>n_content := patch (n_content n) 0 (text_bytes (copy_truncate s VFS_CONTENT_LEN) @ [0])\<rparr>"

definition vfs_init :: "'d vfs \<Rightarrow> 'd vfs" where
  "vfs_init v =
     (let v0 = v\<lparr>v_nodes := map (\<lambda>n. n\<lparr>n_type := VFS_NODE_FREE\<rparr>) (v_nodes v)\<rparr>;
          v1 = upd_node 0 (set_dir (- 1) ''/'') v0;
          v2 = v1\<lparr>v_cwd := 0, v_cwd_path := path_copy ''/''\<rparr>;
          v3 = upd_node 1 (set_dir 0 ''mnt'') v2
      in upd_node 2 (set_dir 1 ''disk0'') v3)"

text \<open>The path inside the FAT volume, when the candidate lies on a writable FAT32 mount.\<close>

definition fat_target :: "string \<Rightarrow> 'd vfs \<Rightarrow> string option" where
  "fat_target candidate v =
     (case path_is_mount candidate v of
        (mi, mountpoint) \<Rightarrow>
          (case (if mi \<ge> 0 then vfs_mount_get mi (v_mounts v) else None) of
             None \<Rightarrow> None
           | Some m \<Rightarrow>
               if m_fstype m = ''fat32'' \<and> fat32_is_mounted (v_fat v) \<and> m_flags m AND VFS_MOUNT_RDONLY = 0
               then fat_relative candidate mountpoint else None))"

text \<open>The weaker test of the reading operations: any non-zero result of \<open>path_is_mount\<close> counts.\<close>

definition fat_reachable :: "string \<Rightarrow> 'd vfs \<Rightarrow> string option" where
  "fat_reachable path v =
     (case path_is_mount path v of
        (mi, mountpoint) \<Rightarrow> if mi \<noteq> 0 \<and> fat32_is_mounted (v_fat v) then fat_relative path mountpoint else None)"

definition fat_result :: "(bool \<times> 'd fat) option \<Rightarrow> 'd vfs \<Rightarrow> (int \<times> 'd vfs) option" where
  "fat_result r v = map_option (\<lambda>(ok, f). (if ok then 0 else - 1, v\<lparr>v_fat := f\<rparr>)) r"

section \<open>Operations on the current directory\<close>

definition vfs_mkdir :: "string \<Rightarrow> 'd vfs \<Rightarrow> (int \<times> 'd vfs) option" where
  "vfs_mkdir name v =
     (case fat_target (path_join (v_cwd_path v) name) v of
        Some rel \<Rightarrow> fat_result (fat32_mkdir rel (v_fat v)) v
      | None \<Rightarrow>
          if v_cwd v < 0 \<or> name = [] \<or> find_child (v_cwd v) name v \<noteq> None then Some (- 1, v)
          else (case find_free_node v of
                  None \<Rightarrow> Some (- 1, v)
                | Some i \<Rightarrow> Some (0, upd_node i (set_dir (v_cwd v) name) v)))"

definition vfs_touch :: "string \<Rightarrow> 'd vfs \<Rightarrow> (int \<times> 'd vfs) option" where
  "vfs_touch name v =
     (case fat_target (path_join (v_cwd_path v) name) v of
        Some rel \<Rightarrow> fat_result (fat32_write_file rel [] (v_fat v)) v
      | None \<Rightarrow>
          if v_cwd v < 0 \<or> name = [] \<or> find_child (v_cwd v) name v \<noteq> None then Some (- 1, v)
          else (case find_free_node v of
                  None \<Rightarrow> Some (- 1, v)
                | Some i \<Rightarrow> Some (0, upd_node i (clear_content \<circ> set_file (v_cwd v) name) v)))"

definition protected :: "string \<Rightarrow> 'd vfs \<Rightarrow> bool" where
  "protected name v = ((v_cwd v = 0 \<and> name = ''mnt'') \<or> (v_cwd v = 1 \<and> name = ''disk0''))"

definition free_node :: "vfs_node \<Rightarrow> vfs_node" where
  "free_node n = n\<lparr>n_type := VFS_NODE_FREE\<rparr>"

definition vfs_rm :: "string \<Rightarrow> 'd vfs \<Rightarrow> int \<times> 'd vfs" where
  "vfs_rm name v =
     (if v_cwd v < 0 \<or> protected name v then (- 1, v)
      else case find_child (v_cwd v) name v of
             None \<Rightarrow> (- 1, v)
           | Some i \<Rightarrow>
               if n_type (node v i) = VFS_NODE_DIR \<and> has_children (int i) v then (- 1, v)
               else (0, upd_node i free_node v))"

definition vfs_rmdir :: "string \<Rightarrow> 'd vfs \<Rightarrow> int \<times> 'd vfs" where
  "vfs_rmdir name v =
     (if v_cwd v < 0 \<or> protected name v then (- 1, v)
      else case find_child (v_cwd v) name v of
             None \<Rightarrow> (- 1, v)
           | Some i \<Rightarrow>
               if n_type (node v i) \<noteq> VFS_NODE_DIR then (- 1, v)
               else if has_children (int i) v then (- 1, v)
               else (0, upd_node i free_node v))"

text \<open>The walk along the components of a path; \<open>dirs\<close> tells whether each must be a directory.\<close>

function walk :: "bool \<Rightarrow> nat \<Rightarrow> string \<Rightarrow> 'd vfs \<Rightarrow> nat option" where
  "walk dirs parent p v =
     (if p = [] then Some parent
      else
        case find_child (int parent) (takeWhile (\<lambda>c. c \<noteq> CHR ''/'') p) v of
          None \<Rightarrow> None
        | Some nx \<Rightarrow>
            if dirs \<and> n_type (node v nx) \<noteq> VFS_NODE_DIR then None
            else walk dirs nx (drop 1 (dropWhile (\<lambda>c. c \<noteq> CHR ''/'') p)) v)"
  by pat_completeness auto
termination
  apply (relation "measure (\<lambda>(dirs, parent, p, v). length p)")
   apply simp
  subgoal premises prems for dirs parent p
    using prems(1) length_dropWhile_le [of "\<lambda>c. c \<noteq> CHR ''/''" p] by (cases p) auto
  done

declare walk.simps [simp del]

text \<open>The path without its last component, as \<open>cd ..\<close> shortens it.\<close>

definition parent_path :: "string \<Rightarrow> string" where
  "parent_path p =
     (let r = rev (dropWhile (\<lambda>c. c \<noteq> CHR ''/'') (rev p));
          n = (if r = [] then 1 else length r)
      in take (if n > 1 then n - 1 else n) p)"

definition cd_up :: "'d vfs \<Rightarrow> int \<times> 'd vfs" where
  "cd_up v =
     (if v_cwd v = 0 then (0, v)
      else if v_cwd_path v = [] \<or> hd (v_cwd_path v) \<noteq> CHR ''/'' then (- 1, v)
      else
        let p = parent_path (v_cwd_path v);
            v1 = v\<lparr>v_cwd_path := p\<rparr>
        in if p = ''/'' then (0, v1\<lparr>v_cwd := 0\<rparr>)
           else (case walk False 0 (drop 1 p) v1 of
                   None \<Rightarrow> (0, v1)
                 | Some i \<Rightarrow> (0, v1\<lparr>v_cwd := int i\<rparr>)))"

definition cd_down :: "string \<Rightarrow> string \<Rightarrow> 'd vfs \<Rightarrow> int \<times> 'd vfs" where
  "cd_down candidate name v =
     (case (if name \<noteq> [] \<and> hd name = CHR ''/'' then walk True 0 (drop 1 (path_copy candidate)) v
            else case find_child (if v_cwd v < 0 then 0 else v_cwd v) name v of
                   None \<Rightarrow> None
                 | Some i \<Rightarrow> if n_type (node v i) \<noteq> VFS_NODE_DIR then None else Some i) of
        None \<Rightarrow> (- 1, v)
      | Some i \<Rightarrow> (0, v\<lparr>v_cwd := int i, v_cwd_path := path_copy candidate\<rparr>))"

definition vfs_cd :: "string \<Rightarrow> 'd vfs \<Rightarrow> (int \<times> 'd vfs) option" where
  "vfs_cd name v =
     (if name = ''.'' then Some (0, v)
      else if name = ''..'' then Some (cd_up v)
      else
        let candidate = path_join (v_cwd_path v) name
        in case path_is_mount candidate v of
             (mi, mountpoint) \<Rightarrow>
               if mi \<noteq> 0 \<and> fat32_is_mounted (v_fat v)
               then (case fat_relative candidate mountpoint of
                       None \<Rightarrow> Some (- 1, v)
                     | Some rel \<Rightarrow>
                         map_option (\<lambda>d. if d then (0, v\<lparr>v_cwd_path := path_copy candidate, v_cwd := - 1\<rparr>) else (- 1, v))
                           (fat32_is_directory rel (v_fat v)))
               else Some (cd_down candidate name v))"

definition newline :: string where "newline = [CHR 0x0A]"

definition vfs_ls :: "'d vfs \<Rightarrow> string option" where
  "vfs_ls v =
     (case (if v_cwd v < 0 then fat_reachable (v_cwd_path v) v else None) of
        Some rel \<Rightarrow> map_option snd (fat32_list rel (v_fat v))
      | None \<Rightarrow>
          let is = filter (\<lambda>i. n_type (node v i) \<noteq> VFS_NODE_FREE \<and> n_parent (node v i) = v_cwd v) [0..<VFS_MAX_NODES]
          in Some (if is = [] then ''(empty)'' @ newline
                   else concat (map (\<lambda>i. n_name (node v i) @ (if n_type (node v i) = VFS_NODE_DIR then ''/'' else []) @ newline) is)))"

primrec path_stack :: "nat \<Rightarrow> int \<Rightarrow> 'd vfs \<Rightarrow> nat list" where
  "path_stack 0 cur v = []"
| "path_stack (Suc n) cur v = (if cur = 0 then [] else nat cur # path_stack n (n_parent (node v (nat cur))) v)"

fun join_names :: "string list \<Rightarrow> string" where
  "join_names [] = []"
| "join_names [x] = x"
| "join_names (x # xs) = x @ ''/'' @ join_names xs"

definition print_path_of :: "nat \<Rightarrow> 'd vfs \<Rightarrow> string" where
  "print_path_of idx v = ''/'' @ join_names (map (\<lambda>i. n_name (node v i)) (rev (path_stack VFS_MAX_NODES (int idx) v)))"

definition vfs_pwd :: "'d vfs \<Rightarrow> string" where
  "vfs_pwd v = v_cwd_path v @ newline"

definition cat_ram :: "string \<Rightarrow> 'd vfs \<Rightarrow> string" where
  "cat_ram name v =
     (case find_child (v_cwd v) name v of
        None \<Rightarrow> ''cat: no such file: '' @ name @ newline
      | Some i \<Rightarrow>
          if n_type (node v i) \<noteq> VFS_NODE_FILE then ''cat: no such file: '' @ name @ newline
          else content_text (node v i) @ newline)"

definition vfs_cat :: "string \<Rightarrow> 'd vfs \<Rightarrow> string option" where
  "vfs_cat name v =
     (case (if v_cwd v < 0 \<or> (name \<noteq> [] \<and> hd name = CHR ''/'') then fat_reachable (path_join (v_cwd_path v) name) v else None) of
        None \<Rightarrow> Some (cat_ram name v)
      | Some rel \<Rightarrow>
          (case fat32_read_file rel 65535 (v_fat v) of
             None \<Rightarrow> None
           | Some None \<Rightarrow> Some (cat_ram name v)
           | Some (Some bs) \<Rightarrow> Some (map byte_char (takeWhile (\<lambda>b. b \<noteq> 0) bs) @ newline)))"

section \<open>Files of the current directory\<close>

text \<open>The file \<open>name\<close> of the current directory, created with \<open>ini\<close> when it is missing.\<close>

definition open_or_create :: "(vfs_node \<Rightarrow> vfs_node) \<Rightarrow> string \<Rightarrow> 'd vfs \<Rightarrow> (nat \<times> 'd vfs) option" where
  "open_or_create ini name v =
     (case find_child (v_cwd v) name v of
        Some i \<Rightarrow> if n_type (node v i) \<noteq> VFS_NODE_FILE then None else Some (i, v)
      | None \<Rightarrow> map_option (\<lambda>i. (i, upd_node i (ini \<circ> set_file (v_cwd v) name) v)) (find_free_node v))"

definition set_text_len :: "vfs_node \<Rightarrow> vfs_node" where
  "set_text_len n = n\<lparr>n_content_len := length (content_text n)\<rparr>"

definition vfs_write :: "string \<Rightarrow> string \<Rightarrow> 'd vfs \<Rightarrow> (int \<times> 'd vfs) option" where
  "vfs_write name content v =
     (case fat_target (path_join (v_cwd_path v) name) v of
        Some rel \<Rightarrow> fat_result (fat32_write_file rel (text_bytes content) (v_fat v)) v
      | None \<Rightarrow>
          if v_cwd v < 0 then Some (- 1, v)
          else (case open_or_create id name v of
                  None \<Rightarrow> Some (- 1, v)
                | Some (i, v1) \<Rightarrow> Some (0, upd_node i (set_text_len \<circ> store_text content) v1)))"

definition append_text :: "string \<Rightarrow> vfs_node \<Rightarrow> vfs_node" where
  "append_text s n =
     (let cur = n_content_len n; t = take (VFS_CONTENT_LEN - 1 - cur) s
      in n\<lparr>n_content := patch (n_content n) cur (text_bytes t @ [0]), n_content_len := cur + length t\<rparr>)"

definition vfs_append :: "string \<Rightarrow> string \<Rightarrow> 'd vfs \<Rightarrow> int \<times> 'd vfs" where
  "vfs_append name content v =
     (if v_cwd v < 0 then (- 1, v)
      else case open_or_create clear_content name v of
             None \<Rightarrow> (- 1, v)
           | Some (i, v1) \<Rightarrow> (0, upd_node i (append_text content) v1))"

definition vfs_get_content :: "string \<Rightarrow> 'd vfs \<Rightarrow> string option" where
  "vfs_get_content name v =
     (case find_child (v_cwd v) name v of
        None \<Rightarrow> None
      | Some i \<Rightarrow> if n_type (node v i) \<noteq> VFS_NODE_FILE then None else Some (content_text (node v i)))"

text \<open>The result and the string left in the buffer.\<close>

definition vfs_read :: "string \<Rightarrow> int \<Rightarrow> 'd vfs \<Rightarrow> int \<times> string" where
  "vfs_read name capacity v =
     (if capacity \<le> 0 then (- 1, [])
      else case vfs_get_content name v of
             None \<Rightarrow> (- 1, [])
           | Some content \<Rightarrow> let t = take (nat (capacity - 1)) content in (int (length t), t))"

definition vfs_split_word :: "string \<Rightarrow> string \<times> string" where
  "vfs_split_word s =
     (takeWhile (\<lambda>c. c \<noteq> CHR '' '') s, dropWhile (\<lambda>c. c = CHR '' '') (dropWhile (\<lambda>c. c \<noteq> CHR '' '') s))"

definition copy_content :: "vfs_node \<Rightarrow> vfs_node \<Rightarrow> vfs_node" where
  "copy_content src n = (store_text (content_text src) n)\<lparr>n_content_len := n_content_len src\<rparr>"

definition vfs_cp :: "string \<Rightarrow> string \<Rightarrow> 'd vfs \<Rightarrow> int \<times> 'd vfs" where
  "vfs_cp src dst v =
     (if v_cwd v < 0 then (- 1, v)
      else case find_child (v_cwd v) src v of
             None \<Rightarrow> (- 1, v)
           | Some sidx \<Rightarrow>
               if n_type (node v sidx) \<noteq> VFS_NODE_FILE then (- 1, v)
               else if find_child (v_cwd v) dst v \<noteq> None then (- 1, v)
               else (case find_free_node v of
                       None \<Rightarrow> (- 1, v)
                     | Some didx \<Rightarrow> (0, upd_node didx (copy_content (node v sidx) \<circ> set_file (v_cwd v) dst) v)))"

definition rename_node :: "string \<Rightarrow> vfs_node \<Rightarrow> vfs_node" where
  "rename_node name n = n\<lparr>n_name := copy_truncate name VFS_NAME_LEN\<rparr>"

definition vfs_mv :: "string \<Rightarrow> string \<Rightarrow> 'd vfs \<Rightarrow> int \<times> 'd vfs" where
  "vfs_mv src dst v =
     (if v_cwd v < 0 then (- 1, v)
      else case find_child (v_cwd v) src v of
             None \<Rightarrow> (- 1, v)
           | Some idx \<Rightarrow>
               if find_child (v_cwd v) dst v \<noteq> None then (- 1, v) else (0, upd_node idx (rename_node dst) v))"

definition vfs_find :: "string \<Rightarrow> 'd vfs \<Rightarrow> string" where
  "vfs_find name v =
     (let is = filter (\<lambda>i. n_type (node v i) \<noteq> VFS_NODE_FREE \<and> n_name (node v i) = name) [0..<VFS_MAX_NODES]
      in if is = [] then ''find: nothing found'' @ newline else concat (map (\<lambda>i. print_path_of i v @ newline) is))"

partial_function (option) under_loop :: "int \<Rightarrow> int \<Rightarrow> 'd vfs \<Rightarrow> bool option" where
  "under_loop cur rt v =
     (if cur = - 1 then Some False
      else if cur = rt then Some True
      else under_loop (n_parent (node v (nat cur))) rt v)"

definition is_under :: "nat \<Rightarrow> int \<Rightarrow> 'd vfs \<Rightarrow> bool option" where
  "is_under idx rt v = under_loop (n_parent (node v idx)) rt v"

primrec du_loop :: "nat list \<Rightarrow> u32 \<times> u32 \<Rightarrow> 'd vfs \<Rightarrow> (u32 \<times> u32) option" where
  "du_loop [] acc v = Some acc"
| "du_loop (i # is) acc v =
     (if n_type (node v i) = VFS_NODE_FILE
      then (case is_under i (v_cwd v) v of
              None \<Rightarrow> None
            | Some u \<Rightarrow> du_loop is (if u then (fst acc + of_nat (n_content_len (node v i)), snd acc + 1) else acc) v)
      else du_loop is acc v)"

definition vfs_du :: "'d vfs \<Rightarrow> (u32 \<times> u32) option" where
  "vfs_du v = du_loop [0..<VFS_MAX_NODES] (0, 0) v"

definition vfs_df :: "'d vfs \<Rightarrow> nat \<times> nat" where
  "vfs_df v = (length (filter (\<lambda>i. n_type (node v i) \<noteq> VFS_NODE_FREE) [0..<VFS_MAX_NODES]), VFS_MAX_NODES)"

primrec gui_scan :: "nat list \<Rightarrow> nat \<Rightarrow> 'd vfs \<Rightarrow> (string \<times> bool) list" where
  "gui_scan [] room v = []"
| "gui_scan (i # is) room v =
     (if room = 0 then []
      else if n_type (node v i) \<noteq> VFS_NODE_FREE \<and> n_parent (node v i) = v_cwd v
      then (copy_truncate (n_name (node v i)) VFS_NAME_LEN, n_type (node v i) = VFS_NODE_DIR) # gui_scan is (room - 1) v
      else gui_scan is room v)"

definition vfs_gui_list :: "int \<Rightarrow> 'd vfs \<Rightarrow> (string \<times> bool) list" where
  "vfs_gui_list max_entries v =
     (if max_entries \<le> 0 \<or> v_cwd v < 0 then [] else gui_scan [0..<VFS_MAX_NODES] (nat max_entries) v)"

definition vfs_gui_getcwd :: "int \<Rightarrow> 'd vfs \<Rightarrow> string option" where
  "vfs_gui_getcwd out_size v = (if out_size \<le> 0 then None else Some (take (nat (out_size - 1)) (v_cwd_path v)))"

section \<open>Operations on paths\<close>

definition drop_slashes :: "string \<Rightarrow> string" where
  "drop_slashes p = dropWhile (\<lambda>c. c = CHR ''/'') p"

definition first_part :: "string \<Rightarrow> string" where
  "first_part p = take (VFS_NAME_LEN - 1) (takeWhile (\<lambda>c. c \<noteq> CHR ''/'') p)"

definition after_part :: "string \<Rightarrow> string" where
  "after_part p = dropWhile (\<lambda>c. c \<noteq> CHR ''/'') p"

lemma after_part_less: "p \<noteq> [] \<Longrightarrow> length (after_part (drop_slashes p)) < length p"
proof (cases p)
  case (Cons c cs)
  then show ?thesis
    using length_dropWhile_le [of "\<lambda>c. c = CHR ''/''" cs] length_dropWhile_le [of "\<lambda>c. c \<noteq> CHR ''/''" cs]
      length_dropWhile_le [of "\<lambda>c. c \<noteq> CHR ''/''" "dropWhile (\<lambda>c. c = CHR ''/'') cs"]
    by (auto simp: after_part_def drop_slashes_def)
qed simp

text \<open>The components of a path, with \<open>.\<close> dropped and \<open>..\<close> resolved; at most 32.\<close>

function components :: "string \<Rightarrow> string list \<Rightarrow> string list option" where
  "components p cs =
     (if p = [] then Some cs
      else
        let q = drop_slashes p; c = first_part q; rest = after_part q
        in if c = [] \<or> c = ''.'' then components rest cs
           else if c = ''..'' then components rest (butlast cs)
           else if length cs \<ge> 32 then None
           else components rest (cs @ [copy_truncate c VFS_NAME_LEN]))"
  by pat_completeness auto

termination
  by (relation "measure (\<lambda>(p, cs). length p)") (auto simp: after_part_less)

declare components.simps [simp del]

definition add_component :: "string \<Rightarrow> string \<Rightarrow> string" where
  "add_component c out =
     (let o1 = (if length out > 1 \<and> length out < 255 then out @ ''/'' else out)
      in o1 @ take (255 - length o1) c)"

definition normalize_absolute :: "string \<Rightarrow> 'd vfs \<Rightarrow> string option" where
  "normalize_absolute path v =
     (let combined = (if path \<noteq> [] \<and> hd path = CHR ''/'' then copy_truncate path 256 else path_join (v_cwd_path v) path)
      in map_option (\<lambda>cs. fold add_component cs ''/'') (components combined []))"

lemma next_part_less: "p \<noteq> [] \<Longrightarrow> length (drop_slashes (after_part p)) < length p"
proof (cases p)
  case (Cons c cs)
  then show ?thesis
    using length_dropWhile_le [of "\<lambda>c. c = CHR ''/''" cs] length_dropWhile_le [of "\<lambda>c. c \<noteq> CHR ''/''" cs]
      length_dropWhile_le [of "\<lambda>c. c = CHR ''/''" "dropWhile (\<lambda>c. c \<noteq> CHR ''/'') cs"]
    by (auto simp: after_part_def drop_slashes_def)
qed simp

function resolve_parts :: "nat \<Rightarrow> string \<Rightarrow> 'd vfs \<Rightarrow> nat option" where
  "resolve_parts parent p v =
     (if p = [] then Some parent
      else case find_child (int parent) (first_part p) v of
             None \<Rightarrow> None
           | Some i \<Rightarrow> resolve_parts i (drop_slashes (after_part p)) v)"
  by pat_completeness auto

termination
  by (relation "measure (\<lambda>(parent, p, v). length p)") (auto simp: next_part_less)

declare resolve_parts.simps [simp del]

definition resolve_ram_path :: "string \<Rightarrow> 'd vfs \<Rightarrow> nat option" where
  "resolve_ram_path ap v =
     (if ap = [] \<or> hd ap \<noteq> CHR ''/'' then None
      else if ap = ''/'' then Some 0
      else resolve_parts 0 (drop 1 ap) v)"

text \<open>The part of \<open>bs\<close> that a read of \<open>capacity\<close> bytes at \<open>offset\<close> returns.\<close>

definition window :: "u64 \<Rightarrow> u64 \<Rightarrow> nat \<Rightarrow> u8 list \<Rightarrow> u8 list" where
  "window capacity offset len bs =
     (if offset \<ge> of_nat len then []
      else
        let n = (if capacity > of_nat len - offset then of_nat len - offset else capacity)
        in take (unat n) (drop (unat offset) bs))"

text \<open>\<open>None\<close> inside is the result \<open>-1\<close>; otherwise the bytes read.\<close>

definition vfs_read_path :: "string \<Rightarrow> u64 \<Rightarrow> u64 \<Rightarrow> 'd vfs \<Rightarrow> u8 list option option" where
  "vfs_read_path path capacity offset v =
     (if capacity = 0 then Some None
      else case normalize_absolute path v of
             None \<Rightarrow> Some None
           | Some ap \<Rightarrow>
               (case fat_reachable ap v of
                  Some rel \<Rightarrow>
                    map_option (map_option (\<lambda>bs. window capacity offset (length bs) bs)) (fat32_read_file rel 65536 (v_fat v))
                | None \<Rightarrow>
                    (case resolve_ram_path ap v of
                       None \<Rightarrow> Some None
                     | Some i \<Rightarrow>
                         if n_type (node v i) \<noteq> VFS_NODE_FILE then Some None
                         else Some (Some (window capacity offset (n_content_len (node v i)) (n_content (node v i)))))))"

definition vfs_file_size_path :: "string \<Rightarrow> 'd vfs \<Rightarrow> u64 option option" where
  "vfs_file_size_path path v =
     (case normalize_absolute path v of
        None \<Rightarrow> Some None
      | Some ap \<Rightarrow>
          (case fat_reachable ap v of
             Some rel \<Rightarrow> map_option (map_option (\<lambda>bs. of_nat (length bs))) (fat32_read_file rel 65536 (v_fat v))
           | None \<Rightarrow>
               (case resolve_ram_path ap v of
                  None \<Rightarrow> Some None
                | Some i \<Rightarrow>
                    if n_type (node v i) \<noteq> VFS_NODE_FILE then Some None
                    else Some (Some (of_nat (n_content_len (node v i)))))))"

definition vfs_is_dir_path :: "string \<Rightarrow> 'd vfs \<Rightarrow> bool option" where
  "vfs_is_dir_path path v =
     (case normalize_absolute path v of
        None \<Rightarrow> Some False
      | Some ap \<Rightarrow>
          if ap = ''/'' then Some True
          else (case fat_reachable ap v of
                  Some rel \<Rightarrow> fat32_is_directory rel (v_fat v)
                | None \<Rightarrow>
                    (case resolve_ram_path ap v of
                       None \<Rightarrow> Some False
                     | Some i \<Rightarrow> Some (n_type (node v i) = VFS_NODE_DIR))))"

text \<open>The path before and the name behind the last slash after the first character.\<close>

definition split_last :: "string \<Rightarrow> (string \<times> string) option" where
  "split_last p =
     (case find (\<lambda>i. p ! i = CHR ''/'') (rev [1..<length p]) of
        None \<Rightarrow> None
      | Some i \<Rightarrow> Some (take i p, drop (i + 1) p))"

text \<open>The directory node in which a name is created.\<close>

definition parent_dir :: "string \<Rightarrow> 'd vfs \<Rightarrow> nat option" where
  "parent_dir p v =
     (case resolve_ram_path p v of
        None \<Rightarrow> None
      | Some i \<Rightarrow> if n_type (node v i) \<noteq> VFS_NODE_DIR then None else Some i)"

definition vfs_mkdir_path :: "string \<Rightarrow> 'd vfs \<Rightarrow> (int \<times> 'd vfs) option" where
  "vfs_mkdir_path path v =
     (case normalize_absolute path v of
        None \<Rightarrow> Some (- 1, v)
      | Some ap \<Rightarrow>
          if ap = ''/'' then Some (- 1, v)
          else (case split_last (copy_truncate ap 256) of
                  None \<Rightarrow> vfs_mkdir (drop 1 ap) v
                | Some (parent, name) \<Rightarrow>
                    (case parent_dir parent v of
                       None \<Rightarrow> Some (- 1, v)
                     | Some parent_idx \<Rightarrow>
                         if find_child (int parent_idx) name v \<noteq> None then Some (- 1, v)
                         else (case find_free_node v of
                                 None \<Rightarrow> Some (- 1, v)
                               | Some i \<Rightarrow> Some (0, upd_node i (set_dir (int parent_idx) name) v)))))"

definition vfs_unlink_path :: "string \<Rightarrow> 'd vfs \<Rightarrow> int \<times> 'd vfs" where
  "vfs_unlink_path path v =
     (case normalize_absolute path v of
        None \<Rightarrow> (- 1, v)
      | Some ap \<Rightarrow>
          (case resolve_ram_path ap v of
             None \<Rightarrow> (- 1, v)
           | Some i \<Rightarrow>
               if i \<le> 2 \<or> n_type (node v i) = VFS_NODE_FREE then (- 1, v)
               else if n_type (node v i) = VFS_NODE_DIR \<and> has_children (int i) v then (- 1, v)
               else (0, upd_node i free_node v)))"

text \<open>Storing the terminating zero at \<open>content[content_len]\<close>: at position 200 it hits the low byte of
  \<open>content_len\<close>, the next field of the node.\<close>

definition terminate_content :: "vfs_node \<Rightarrow> vfs_node" where
  "terminate_content n =
     (if n_content_len n < VFS_CONTENT_LEN then n\<lparr>n_content := (n_content n)[n_content_len n := 0]\<rparr>
      else n\<lparr>n_content_len := n_content_len n - n_content_len n mod 256\<rparr>)"

definition store_bytes :: "u64 \<Rightarrow> u8 list \<Rightarrow> vfs_node \<Rightarrow> vfs_node" where
  "store_bytes offset bs n =
     (let end_pos = unat offset + length bs
      in terminate_content (n\<lparr>n_content := patch (n_content n) (unat offset) bs,
           n_content_len := (if end_pos > n_content_len n then end_pos else n_content_len n)\<rparr>))"

text \<open>The node of a path, created in its directory when it is missing.\<close>

definition resolve_or_create :: "string \<Rightarrow> 'd vfs \<Rightarrow> (nat \<times> 'd vfs) option" where
  "resolve_or_create ap v =
     (case resolve_ram_path ap v of
        Some i \<Rightarrow> Some (i, v)
      | None \<Rightarrow>
          (case split_last (copy_truncate ap 256) of
             None \<Rightarrow> None
           | Some (parent, name) \<Rightarrow>
               (case parent_dir parent v of
                  None \<Rightarrow> None
                | Some parent_idx \<Rightarrow>
                    (case find_child (int parent_idx) name v of
                       Some i \<Rightarrow> Some (i, v)
                     | None \<Rightarrow>
                         map_option (\<lambda>i. (i, upd_node i (clear_content \<circ> set_file (int parent_idx) name) v)) (find_free_node v)))))"

definition write_fat_path :: "string \<Rightarrow> u8 list \<Rightarrow> u64 \<Rightarrow> 'd vfs \<Rightarrow> (u64 option \<times> 'd vfs) option" where
  "write_fat_path rel bs offset v =
     (case fat32_read_file rel 65536 (v_fat v) of
        None \<Rightarrow> None
      | Some r \<Rightarrow>
          let old_bytes = (case r of None \<Rightarrow> [] | Some xs \<Rightarrow> xs);
              sz = of_nat (length bs) :: u64;
              t1 = (\<lambda>i. if i < length old_bytes then old_bytes ! i else v_temp v i)
          in if offset > 65536 \<or> sz > 65536 - offset then Some (None, v\<lparr>v_temp := t1\<rparr>)
             else
               let end_pos = unat offset + length bs;
                   n = (if end_pos > length old_bytes then end_pos else length old_bytes);
                   t2 = (\<lambda>i. if unat offset \<le> i \<and> i < end_pos then bs ! (i - unat offset) else t1 i)
               in map_option (\<lambda>(ok, f). (if ok then Some sz else None, v\<lparr>v_fat := f, v_temp := t2\<rparr>))
                    (fat32_write_file rel (map t2 [0..<n]) (v_fat v)))"

text \<open>The number of bytes written; \<open>None\<close> inside is the result \<open>-1\<close>.\<close>

definition vfs_write_path :: "string \<Rightarrow> u8 list \<Rightarrow> u64 \<Rightarrow> 'd vfs \<Rightarrow> (u64 option \<times> 'd vfs) option" where
  "vfs_write_path path bs offset v =
     (case normalize_absolute path v of
        None \<Rightarrow> Some (None, v)
      | Some ap \<Rightarrow>
          (case fat_reachable ap v of
             Some rel \<Rightarrow> write_fat_path rel bs offset v
           | None \<Rightarrow>
               (case resolve_or_create ap v of
                  None \<Rightarrow> Some (None, v)
                | Some (i, v1) \<Rightarrow>
                    if n_type (node v1 i) \<noteq> VFS_NODE_FILE \<or> offset \<ge> of_nat VFS_CONTENT_LEN then Some (None, v1)
                    else
                      let data = take (VFS_CONTENT_LEN - unat offset) bs
                      in Some (Some (of_nat (length data)), upd_node i (store_bytes offset data) v1))))"

definition vfs_rename_path :: "string \<Rightarrow> string \<Rightarrow> 'd vfs \<Rightarrow> int \<times> 'd vfs" where
  "vfs_rename_path src dst v =
     (case (normalize_absolute src v, normalize_absolute dst v) of
        (Some a, Some b) \<Rightarrow>
          (case resolve_ram_path a v of
             None \<Rightarrow> (- 1, v)
           | Some i \<Rightarrow>
               if i \<le> 2 then (- 1, v)
               else (case split_last (copy_truncate b 256) of
                       None \<Rightarrow> (- 1, v)
                     | Some (parent, name) \<Rightarrow>
                         (case parent_dir parent v of
                            None \<Rightarrow> (- 1, v)
                          | Some parent_idx \<Rightarrow>
                              if find_child (int parent_idx) name v \<noteq> None then (- 1, v)
                              else (0, upd_node i (\<lambda>n. rename_node name (n\<lparr>n_parent := int parent_idx\<rparr>)) v))))
      | _ \<Rightarrow> (- 1, v))"

end
