(* ===== verification/Vfs_Paths.thy ===== *)
theory Vfs_Paths
  imports Vfs
begin

text \<open>
  Paths of the virtual file system: what \<open>normalize_absolute\<close> computes, and how the walk along a path meets the
  nodes of the tree.
\<close>

section \<open>Canonical paths\<close>

definition part_ok :: "string \<Rightarrow> bool" where
  "part_ok c \<longleftrightarrow> c \<noteq> [] \<and> CHR ''/'' \<notin> set c \<and> length c < VFS_NAME_LEN"

definition canonical :: "string list \<Rightarrow> bool" where
  "canonical cs \<longleftrightarrow> (\<forall>c\<in>set cs. part_ok c \<and> c \<noteq> ''.'' \<and> c \<noteq> ''..'') \<and> length cs \<le> 32"

definition path_of :: "string list \<Rightarrow> string" where
  "path_of cs = ''/'' @ join_names cs"

text \<open>The length of a path, counting one slash per component.\<close>

definition plen :: "string list \<Rightarrow> nat" where
  "plen cs = (\<Sum>c\<leftarrow>cs. Suc (length c))"

lemma plen_simps [simp]: "plen [] = 0" "plen (c # cs) = Suc (length c) + plen cs" "plen (cs @ ds) = plen cs + plen ds"
  by (simp_all add: plen_def)

lemma plen_butlast: "plen (butlast cs) \<le> plen cs"
  by (induction cs) auto

lemma join_names_Cons: "join_names (c # cs) = c @ (if cs = [] then [] else ''/'' @ join_names cs)"
  by (cases cs) simp_all

lemma join_names_append: "ds \<noteq> [] \<Longrightarrow> join_names (cs @ ds) = (if cs = [] then [] else join_names cs @ ''/'') @ join_names ds"
  by (induction cs) (simp_all add: join_names_Cons)

lemma length_join_names: "Suc (length (join_names cs)) = (if cs = [] then 1 else plen cs)"
  by (induction cs) (simp_all add: join_names_Cons split: if_splits)

lemma slashed_drop: "q = dropWhile (\<lambda>c. c \<noteq> CHR ''/'') r \<Longrightarrow> q = [] \<or> hd q = CHR ''/''"
  using hd_dropWhile [of "\<lambda>c. c \<noteq> CHR ''/''" r] by blast

lemma after_part_slash: "after_part q = [] \<or> hd (after_part q) = CHR ''/''"
  unfolding after_part_def using slashed_drop by blast

lemma first_part_ok: "first_part q \<noteq> [] \<Longrightarrow> part_ok (first_part q)"
  using set_takeWhileD [of _ "\<lambda>c. c \<noteq> CHR ''/''" q] set_take_subset [of 23 "takeWhile (\<lambda>c. c \<noteq> CHR ''/'') q"]
  by (fastforce simp: part_ok_def first_part_def VFS_NAME_LEN_def)

lemma part_lengths:
  assumes "q = drop_slashes p" "first_part q \<noteq> []" "hd p = CHR ''/''"
  shows "Suc (length (first_part q)) + length (after_part q) \<le> length p"
proof -
  have "length (first_part q) + length (after_part q) \<le> length q"
    using takeWhile_dropWhile_id [of "\<lambda>c. c \<noteq> CHR ''/''" q] unfolding first_part_def after_part_def
    by (metis (no_types, lifting) add_le_mono1 length_append length_take min.cobounded1)
  moreover have "length q < length p"
    using assms length_dropWhile_le [of "\<lambda>c. c = CHR ''/''" "List.tl p"] by (cases p) (auto simp: drop_slashes_def first_part_def)
  ultimately show ?thesis by simp
qed

lemma copy_part: "copy_truncate (first_part q) VFS_NAME_LEN = first_part q"
  by (simp add: copy_truncate_def first_part_def)

lemma after_part_le: "length (after_part (drop_slashes p)) \<le> length p"
  using after_part_less [of p] by (cases "p = []") (auto simp: after_part_def drop_slashes_def)

lemma components_spec:
  assumes "components p cs0 = Some cs" "canonical cs0" "p = [] \<or> hd p = CHR ''/''"
  shows "canonical cs \<and> plen cs \<le> plen cs0 + length p"
  using assms
proof (induction p cs0 arbitrary: cs rule: components.induct)
  case (1 p cs0)
  show ?case
  proof (cases "p = []")
    case False
    define q where "q = drop_slashes p"
    let ?c = "first_part q" and ?r = "after_part q"
    note step = 1(4) [unfolded components.simps [of p cs0] Let_def q_def [symmetric] if_not_P [OF False]]
    note sl = after_part_slash [of q]
    have r: "length ?r \<le> length p" using after_part_le by (simp add: q_def)
    consider (skip) "?c = [] \<or> ?c = ''.''" | (up) "?c = ''..''" | (add) "?c \<noteq> []" "?c \<noteq> ''.''" "?c \<noteq> ''..''" by blast
    then show ?thesis
    proof cases
      case skip
      then have "components ?r cs0 = Some cs" using step by simp
      from 1(1) [OF False q_def refl refl skip this 1(5) sl] r show ?thesis by simp
    next
      case up
      then have "components ?r (butlast cs0) = Some cs" using step by simp
      moreover have "canonical (butlast cs0)" using 1(5) unfolding canonical_def by (metis in_set_butlastD length_butlast le_diff_conv trans_le_add1)
      moreover have "\<not> (?c = [] \<or> ?c = ''.'')" using up by simp
      ultimately have "canonical cs \<and> plen cs \<le> plen (butlast cs0) + length ?r"
        using 1(2) [OF False q_def refl refl _ up _ _ sl] by blast
      then show ?thesis using r plen_butlast [of cs0] by linarith
    next
      case add
      then have l: "\<not> length cs0 \<ge> 32" and c: "components ?r (cs0 @ [?c]) = Some cs" using step by (auto simp: copy_part split: if_splits)
      have "canonical (cs0 @ [?c])" using 1(5) l add first_part_ok [OF add(1)] by (auto simp: canonical_def)
      then have "canonical cs \<and> plen cs \<le> plen (cs0 @ [?c]) + length ?r"
        using 1(3) [OF False q_def refl refl _ add(3) l] add sl c by (simp add: copy_part)
      moreover have "Suc (length ?c) + length ?r \<le> length p" using part_lengths [OF q_def add(1)] 1(6) False by blast
      ultimately show ?thesis by simp
    qed
  qed (use 1 in \<open>simp add: components.simps\<close>)
qed

lemma components_path:
  assumes "canonical (ds @ cs)" shows "components (if cs = [] then [] else ''/'' @ join_names cs) ds = Some (ds @ cs)"
  using assms
proof (induction cs arbitrary: ds)
  case (Cons c cs)
  have c: "c \<noteq> []" "CHR ''/'' \<notin> set c" "length c < VFS_NAME_LEN" "c \<noteq> ''.''" "c \<noteq> ''..''" "length ds < 32"
    using Cons.prems by (auto simp: canonical_def part_ok_def)
  let ?r = "if cs = [] then [] else ''/'' @ join_names cs"
  have q: "drop_slashes (''/'' @ c @ ?r) = c @ ?r" using c by (cases c) (auto simp: drop_slashes_def)
  have tw: "takeWhile (\<lambda>x. x \<noteq> CHR ''/'') (c @ ?r) = c" "dropWhile (\<lambda>x. x \<noteq> CHR ''/'') (c @ ?r) = ?r"
    using c(2) by (auto simp: takeWhile_append dropWhile_append)
  have f: "first_part (c @ ?r) = c" "after_part (c @ ?r) = ?r" unfolding first_part_def after_part_def tw using c(3) by auto
  have "components (''/'' @ join_names (c # cs)) ds = components ?r (ds @ [c])"
    using c f q copy_part [of "c @ ?r"] by (subst components.simps) (simp add: join_names_Cons Let_def)
  then show ?case using Cons.IH [of "ds @ [c]"] Cons.prems by simp
qed (simp add: components.simps)

lemma add_components:
  assumes "1 < length out \<or> out = ''/''" "length out + plen cs \<le> 256" "out = ''/'' \<Longrightarrow> plen cs \<le> 255"
    "\<forall>c\<in>set cs. c \<noteq> []" "1 < length out \<Longrightarrow> length out + plen cs \<le> 255"
  shows "fold add_component cs out = out @ (if cs = [] then [] else (if out = ''/'' then [] else ''/'') @ join_names cs)"
  using assms
proof (induction cs arbitrary: out)
  case (Cons c cs)
  let ?o = "out @ (if out = ''/'' then [] else ''/'') @ c"
  have a: "add_component c out = ?o" using Cons.prems by (auto simp: add_component_def Let_def)
  have l: "1 < length ?o" using Cons.prems(1,4) by (auto simp: Suc_lessI)
  then have "?o \<noteq> ''/''" by (metis One_nat_def length_Cons list.size(3) less_irrefl)
  note l this
  moreover have "length ?o + plen cs \<le> 255" using Cons.prems by auto
  ultimately have "fold add_component cs ?o = ?o @ (if cs = [] then [] else ''/'' @ join_names cs)"
    using Cons.IH [of ?o] Cons.prems(4) by auto
  then show ?case using a by (simp add: join_names_Cons)
qed simp

lemma components_trailing: "components (p @ ''/'') cs = components p cs"
proof (induction p cs rule: components.induct)
  case (1 p cs)
  show ?case
  proof (cases "drop_slashes p = []")
    case True
    have "drop_slashes ''/'' = []" "after_part [] = []" "first_part [] = []" by (simp_all add: drop_slashes_def after_part_def first_part_def)
    moreover have "drop_slashes (p @ ''/'') = []" using True unfolding drop_slashes_def by (simp add: dropWhile_append)
    ultimately have "components (p @ ''/'') cs = Some cs" "components p cs = Some cs"
      using True by (auto simp: components.simps [of "[]"] components.simps [of "p @ ''/''"] components.simps [of p])
    then show ?thesis by simp
  next
    case False
    then have p: "p \<noteq> []" by (auto simp: drop_slashes_def)
    define q where "q = drop_slashes p"
    have q: "drop_slashes (p @ ''/'') = q @ ''/''" using False unfolding drop_slashes_def q_def by (simp add: dropWhile_append)
    have tw: "takeWhile (\<lambda>x. x \<noteq> CHR ''/'') (q @ ''/'') = takeWhile (\<lambda>x. x \<noteq> CHR ''/'') q"
      "dropWhile (\<lambda>x. x \<noteq> CHR ''/'') (q @ ''/'') = dropWhile (\<lambda>x. x \<noteq> CHR ''/'') q @ ''/''"
      by (induction q) auto
    have f: "first_part (q @ ''/'') = first_part q" "after_part (q @ ''/'') = after_part q @ ''/''"
      unfolding first_part_def after_part_def tw by simp_all
    note IH = 1 [OF p q_def refl refl]
    show ?thesis
      unfolding components.simps [of "p @ ''/''"] components.simps [of p] q q_def [symmetric] Let_def f
      using p IH by simp
  qed
qed

text \<open>The working path, as \<open>vfs_cd\<close> keeps it.\<close>

definition cwd_path_ok :: "'d vfs \<Rightarrow> bool" where
  "cwd_path_ok v \<longleftrightarrow> v_cwd_path v \<noteq> [] \<and> hd (v_cwd_path v) = CHR ''/'' \<and> length (v_cwd_path v) \<le> 255"

lemma path_join_slash:
  assumes "base \<noteq> []" "hd base = CHR ''/''"
  shows "path_join base name \<noteq> [] \<and> hd (path_join base name) = CHR ''/''"
  using assms by (auto simp: path_join_def path_copy_def Let_def hd_append take_eq_Nil)

text \<open>The buffer of \<open>path_join\<close> has 256 bytes: the longest result is 256 characters, and then it ends with a slash.\<close>

lemma path_join_length:
  "length (path_join base name) \<le> 255 \<or> (\<exists>p. length p = 255 \<and> path_join base name = p @ ''/'')"
proof (cases "name \<noteq> [] \<and> hd name = CHR ''/''")
  case False
  define o2 where "o2 = (if take 255 base = [] then ''/'' else take 255 base)"
  define o3 where "o3 = (if length o2 > 1 \<and> last o2 \<noteq> CHR ''/'' then o2 @ ''/'' else o2)"
  have e: "path_join base name = o3 @ take (255 - length o3) name"
    using False by (auto simp: path_join_def Let_def o3_def o2_def)
  have o2: "length o2 \<le> 255" by (simp add: o2_def)
  show ?thesis
  proof (cases "length o3 \<le> 255")
    case False
    then have "o3 = o2 @ ''/'' \<and> length o2 = 255" using o2 by (auto simp: o3_def split: if_splits)
    then show ?thesis using e by auto
  qed (auto simp: e min_def)
qed (simp add: path_join_def path_copy_def)

lemma normalize_join:
  assumes ok: "cwd_path_ok v"
    and c: "components (if path \<noteq> [] \<and> hd path = CHR ''/'' then copy_truncate path 256 else path_join (v_cwd_path v) path) [] = Some cs"
  shows "canonical cs" "plen cs \<le> 255" "fold add_component cs ''/'' = path_of cs"
proof -
  let ?p = "if path \<noteq> [] \<and> hd path = CHR ''/'' then copy_truncate path 256 else path_join (v_cwd_path v) path"
  have sl: "?p \<noteq> [] \<and> hd ?p = CHR ''/''"
    using path_join_slash [of "v_cwd_path v" path] ok by (auto simp: cwd_path_ok_def copy_truncate_def)
  have "\<exists>p. length p \<le> 255 \<and> (p = [] \<or> hd p = CHR ''/'') \<and> components p [] = Some cs"
  proof (cases "length ?p \<le> 255")
    case False
    then obtain p where p: "length p = 255" "?p = p @ ''/''"
      using path_join_length [of "v_cwd_path v" path] by (auto simp: copy_truncate_def split: if_splits)
    then have "hd p = CHR ''/''" using sl by (cases p) auto
    then show ?thesis using p c components_trailing [of p "[]"] by (intro exI [of _ p]) auto
  qed (use sl c in blast)
  then obtain p where p: "length p \<le> 255" "p = [] \<or> hd p = CHR ''/''" "components p [] = Some cs" by blast
  show C: "canonical cs" "plen cs \<le> 255" using components_spec [OF p(3) _ p(2)] p(1) by (auto simp: canonical_def)
  then show "fold add_component cs ''/'' = path_of cs"
    by (subst add_components) (auto simp: path_of_def canonical_def part_ok_def)
qed

lemma normalize_spec:
  assumes n: "normalize_absolute path v = Some ap" and ok: "cwd_path_ok v"
  shows "\<exists>cs. canonical cs \<and> plen cs \<le> 255 \<and> ap = path_of cs"
  using n normalize_join [OF ok, of path] by (auto simp: normalize_absolute_def Let_def)

lemma normalize_path_of:
  assumes "canonical cs" "plen cs \<le> 255" shows "normalize_absolute (path_of cs) v = Some (path_of cs)"
proof -
  have "length (path_of cs) \<le> 255" using length_join_names [of cs] assms(2) by (simp add: path_of_def split: if_splits)
  then have t: "copy_truncate (path_of cs) 256 = path_of cs" by (simp add: copy_truncate_def)
  have "components (path_of cs) [] = Some cs"
    using components_path [of "[]" cs] assms(1) components_trailing [of "[]" "[]"]
    by (cases "cs = []") (simp_all add: path_of_def components.simps [of "[]"])
  then show ?thesis
    using assms t add_components [of "''/''" cs] unfolding normalize_absolute_def
    by (auto simp: path_of_def canonical_def part_ok_def)
qed

section \<open>Walking along a path\<close>

primrec lookup :: "nat \<Rightarrow> string list \<Rightarrow> 'd vfs \<Rightarrow> nat option" where
  "lookup i [] v = Some i"
| "lookup i (c # cs) v = (case find_child (int i) c v of None \<Rightarrow> None | Some j \<Rightarrow> lookup j cs v)"

lemma lookup_append: "lookup i (cs @ ds) v = (case lookup i cs v of None \<Rightarrow> None | Some j \<Rightarrow> lookup j ds v)"
  by (induction cs arbitrary: i) (auto split: option.split)

lemma resolve_parts_lookup:
  assumes "\<forall>c\<in>set cs. part_ok c" shows "resolve_parts i (join_names cs) v = lookup i cs v"
  using assms
proof (induction cs arbitrary: i)
  case (Cons c cs)
  let ?r = "if cs = [] then [] else ''/'' @ join_names cs"
  have c: "c \<noteq> []" "CHR ''/'' \<notin> set c" "length c < VFS_NAME_LEN" using Cons.prems by (auto simp: part_ok_def)
  have tw: "takeWhile (\<lambda>x. x \<noteq> CHR ''/'') (c @ ?r) = c" "dropWhile (\<lambda>x. x \<noteq> CHR ''/'') (c @ ?r) = ?r"
    using c(2) by (auto simp: takeWhile_append dropWhile_append)
  have f: "first_part (c @ ?r) = c" "after_part (c @ ?r) = ?r" unfolding first_part_def after_part_def tw using c(3) by auto
  have "drop_slashes ?r = join_names cs"
  proof (cases cs)
    case (Cons d ds)
    then have "d \<noteq> []" "CHR ''/'' \<notin> set d" using Cons.prems by (auto simp: part_ok_def)
    then show ?thesis using Cons by (cases d) (auto simp: drop_slashes_def join_names_Cons)
  qed (simp add: drop_slashes_def)
  then have "resolve_parts i (join_names (c # cs)) v = (case find_child (int i) c v of None \<Rightarrow> None | Some j \<Rightarrow> resolve_parts j (join_names cs) v)"
    using c(1) f by (subst resolve_parts.simps) (simp only: join_names_Cons append_is_Nil_conv if_False simp_thms)
  then show ?case using Cons by (simp split: option.split)
qed (simp add: resolve_parts.simps)

lemma resolve_path_of:
  assumes "\<forall>c\<in>set cs. part_ok c" shows "resolve_ram_path (path_of cs) v = lookup 0 cs v"
proof (cases "cs = []")
  case False
  then have "join_names cs \<noteq> []" using assms by (cases cs) (auto simp: join_names_Cons part_ok_def)
  then show ?thesis using resolve_parts_lookup [OF assms] by (simp add: resolve_ram_path_def path_of_def)
qed (simp add: resolve_ram_path_def path_of_def)

lemma find_append: "find P (xs @ ys) = (case find P xs of None \<Rightarrow> find P ys | Some x \<Rightarrow> Some x)"
  by (induction xs) auto

lemma split_last_path_of:
  assumes "part_ok c" "CHR ''/'' \<notin> set c"
  shows "split_last (path_of (cs @ [c])) = (if cs = [] then None else Some (path_of cs, c))"
proof -
  have none: "find (\<lambda>i. (p @ d) ! i = CHR ''/'') (rev [length p..<length (p @ d)]) = None" if "CHR ''/'' \<notin> set d" for p d :: string
    using that by (auto simp: find_None_iff nth_append in_set_conv_nth)
  show ?thesis
  proof (cases "cs = []")
    case True
    then show ?thesis using none [of c "''/''"] assms(2) by (simp add: split_last_def path_of_def)
  next
    case False
    let ?p = "path_of cs @ ''/''"
    have e: "path_of (cs @ [c]) = ?p @ c" using False by (simp add: path_of_def join_names_append)
    have "[1..<length (?p @ c)] = [1..<length (path_of cs)] @ [length (path_of cs)] @ [length ?p..<length (?p @ c)]"
      using upt_add_eq_append [of 1 "length ?p" "length c"] by (simp add: path_of_def)
    then have "find (\<lambda>i. (?p @ c) ! i = CHR ''/'') (rev [1..<length (?p @ c)]) = Some (length (path_of cs))"
      using none [OF assms(2), of ?p] by (simp add: find_append)
    then show ?thesis using False unfolding split_last_def e by simp
  qed
qed

section \<open>What normalising a path means\<close>

text \<open>The reference: cut the path at its slashes and process the pieces from left to right.\<close>

fun slash_split :: "string \<Rightarrow> string list" where
  "slash_split [] = [[]]"
| "slash_split (c # p) =
     (if c = CHR ''/'' then [] # slash_split p
      else case slash_split p of [] \<Rightarrow> [[c]] | w # ws \<Rightarrow> (c # w) # ws)"

definition normal_step :: "string \<Rightarrow> string list option \<Rightarrow> string list option" where
  "normal_step w r =
     (case r of
        None \<Rightarrow> None
      | Some cs \<Rightarrow>
          if w = [] \<or> w = ''.'' then Some cs
          else if w = ''..'' then Some (butlast cs)
          else if length cs \<ge> 32 then None
          else Some (cs @ [take 23 w]))"

lemma slash_split_Cons: "slash_split p = hd (slash_split p) # List.tl (slash_split p)"
  by (induction p) (auto split: list.split)

lemma fold_normal_None [simp]: "fold normal_step ws None = None"
  by (induction ws) (simp_all add: normal_step_def)

lemma take_dots: "take 23 w = ''.'' \<longleftrightarrow> w = ''.''" "take 23 w = ''..'' \<longleftrightarrow> w = ''..''" "take 23 w = [] \<longleftrightarrow> w = []"
proof -
  have "take 23 w = x \<longleftrightarrow> w = x" if "length x < 23" for x :: string
  proof
    assume t: "take 23 w = x"
    then have "min (length w) 23 < 23" using that by auto
    then show "w = x" using t by simp
  qed (use that in simp)
  then show "take 23 w = ''.'' \<longleftrightarrow> w = ''.''" "take 23 w = ''..'' \<longleftrightarrow> w = ''..''" "take 23 w = [] \<longleftrightarrow> w = []" by simp_all
qed

lemma components_word:
  assumes w: "CHR ''/'' \<notin> set w" and r: "r = [] \<or> hd r = CHR ''/''"
  shows "components (w @ r) cs = (case normal_step w (Some cs) of None \<Rightarrow> None | Some ds \<Rightarrow> components r ds)"
proof (cases "w = []")
  case False
  have q: "drop_slashes (w @ r) = w @ r" using False w by (cases w) (auto simp: drop_slashes_def)
  have tw: "takeWhile (\<lambda>x. x \<noteq> CHR ''/'') (w @ r) = w" "dropWhile (\<lambda>x. x \<noteq> CHR ''/'') (w @ r) = r"
    using w r by (cases r; auto simp: takeWhile_append dropWhile_append)+
  have f: "first_part (w @ r) = take 23 w" "after_part (w @ r) = r" unfolding first_part_def after_part_def tw by (simp_all add: VFS_NAME_LEN_def)
  have t: "copy_truncate (take 23 w) VFS_NAME_LEN = take 23 w" by (simp add: copy_truncate_def VFS_NAME_LEN_def)
  show ?thesis
    unfolding components.simps [of "w @ r"] q Let_def f t take_dots normal_step_def using False by simp
qed (simp add: normal_step_def)

lemma components_slash: "components (CHR ''/'' # p) cs = components p cs"
proof (cases "p = []")
  case False
  then show ?thesis by (simp add: components.simps [of "CHR ''/'' # p"] components.simps [of p] drop_slashes_def)
qed (simp add: components.simps drop_slashes_def first_part_def after_part_def)

lemma components_split_gen:
  assumes "CHR ''/'' \<notin> set w"
  shows "components (w @ p) cs = fold normal_step ((w @ hd (slash_split p)) # List.tl (slash_split p)) (Some cs)"
  using assms
proof (induction p arbitrary: w cs)
  case Nil
  then show ?case using components_word [of w "[]" cs] by (simp add: components.simps [of "[]"] split: option.split)
next
  case (Cons c p)
  show ?case
  proof (cases "c = CHR ''/''")
    case True
    have "components (w @ c # p) cs = (case normal_step w (Some cs) of None \<Rightarrow> None | Some ds \<Rightarrow> components p ds)"
      using components_word [OF Cons.prems, of "c # p" cs] unfolding True by (simp add: components_slash split: option.splits)
    moreover have "components p ds = fold normal_step (slash_split p) (Some ds)" for ds
      using Cons.IH [of "[]" ds] slash_split_Cons [of p] by simp
    ultimately show ?thesis using True by (simp split: option.split)
  next
    case False
    then show ?thesis using Cons.IH [of "w @ [c]" cs] Cons.prems slash_split_Cons [of p] by (auto split: list.split)
  qed
qed

lemma components_split: "components p cs = fold normal_step (slash_split p) (Some cs)"
  using components_split_gen [of "[]" p cs] slash_split_Cons [of p] by simp

text \<open>
  C12. \<open>normalize_absolute\<close> computes the reference: the path, relative ones behind the working directory, is cut at its
  slashes, empty pieces and \<open>.\<close> are dropped, \<open>..\<close> removes the piece before it and does nothing at the root, pieces are cut
  to 23 characters, and more than 32 pieces are an error.  The result is never cut at the end of the buffer, and it
  is a fixed point: normalising it again, in any directory, gives the same path.
\<close>

theorem normalize_absolute_spec:
  assumes "cwd_path_ok v"
  shows "normalize_absolute path v =
      map_option path_of (fold normal_step
        (slash_split (if path \<noteq> [] \<and> hd path = CHR ''/'' then take 255 path else path_join (v_cwd_path v) path)) (Some []))
    \<and> (\<forall>ap. normalize_absolute path v = Some ap \<longrightarrow>
        length ap \<le> 255 \<and> (\<exists>cs. canonical cs \<and> ap = path_of cs) \<and> (\<forall>v' :: 'e vfs. normalize_absolute ap v' = Some ap))"
proof (intro conjI allI impI)
  let ?p = "if path \<noteq> [] \<and> hd path = CHR ''/'' then take 255 path else path_join (v_cwd_path v) path"
  have copy: "copy_truncate path 256 = take 255 path" by (simp add: copy_truncate_def)
  have e: "normalize_absolute path v = map_option (\<lambda>cs. fold add_component cs ''/'') (fold normal_step (slash_split ?p) (Some []))"
    unfolding normalize_absolute_def Let_def copy components_split ..
  show "normalize_absolute path v = map_option path_of (fold normal_step (slash_split ?p) (Some []))"
  proof (cases "fold normal_step (slash_split ?p) (Some [])")
    case (Some cs)
    then have "normalize_absolute path v = Some (fold add_component cs ''/'')" using e by simp
    moreover have "components ?p [] = Some cs" using Some by (simp only: components_split)
    ultimately show ?thesis using normalize_join(3) [OF assms, of path cs, unfolded copy] Some by simp
  qed (simp add: e)
  fix ap assume "normalize_absolute path v = Some ap"
  then obtain cs where cs: "canonical cs" "plen cs \<le> 255" "ap = path_of cs" using normalize_spec [OF _ assms] by blast
  show "length ap \<le> 255" using cs length_join_names [of cs] by (simp add: path_of_def split: if_splits)
  show "\<exists>cs. canonical cs \<and> ap = path_of cs" using cs by blast
  show "normalize_absolute ap v' = Some ap" for v' :: "'e vfs" using normalize_path_of cs by blast
qed

text \<open>A file system without a disk, just after \<open>vfs_init\<close>.\<close>

definition zero_node :: vfs_node where
  "zero_node = \<lparr>n_type = VFS_NODE_FREE, n_name = [], n_parent = 0, n_content = replicate 200 0, n_content_len = 0\<rparr>"

definition ex_fat :: "unit fat" where
  "ex_fat = \<lparr>f_ahci = \<lparr>a_hba = \<lparr>hba_tfd = (\<lambda>_ _. 0), hba_is = (\<lambda>_ _ _. 0), hba_ci = (\<lambda>_ _ _. 0), hba_status = (\<lambda>_ _. 0),
       hba_data = (\<lambda>_ _ _. 0), hba_store = (\<lambda>_ _ _. ())\<rparr>, a_drive = (), a_ready = False\<rparr>,
     f_partition_lba = 0, f_bytes_per_sector = 0, f_sectors_per_cluster = 0, f_root_cluster = 0, f_max_cluster = 0, f_fat_count = 0,
     f_fat_size_sectors = 0, f_fat_start_lba = 0, f_cluster_heap_start_lba = 0, f_mounted = False\<rparr>"

definition ex_boot :: "unit vfs" where
  "ex_boot = \<lparr>v_fat = ex_fat, v_mounts = replicate VFS_MOUNT_MAX \<lparr>m_used = False, m_source = [], m_target = [], m_fstype = [], m_flags = 0\<rparr>,
     v_nodes = replicate VFS_MAX_NODES zero_node, v_cwd = 0, v_cwd_path = [], v_junk = [],
     v_temp = (\<lambda>_. 0)\<rparr>"

definition ex_vfs :: "unit vfs" where
  "ex_vfs = vfs_init ex_boot"

theorem normalize_absolute_spec_witness:
  "normalize_absolute ''/mnt/./disk0//../a'' ex_vfs = Some ''/mnt/a'' \<and> normalize_absolute ''/mnt/a'' ex_vfs = Some ''/mnt/a''"
proof -
  have ok: "cwd_path_ok ex_vfs" by (simp add: cwd_path_ok_def ex_vfs_def vfs_init_def upd_node_def path_copy_def Let_def)
  note S = normalize_absolute_spec [OF ok, of "''/mnt/./disk0//../a''"]
  have "normalize_absolute ''/mnt/./disk0//../a'' ex_vfs = Some ''/mnt/a''"
    using S [THEN conjunct1] by (simp add: normal_step_def path_of_def)
  then show ?thesis using S [THEN conjunct2] by blast
qed

end
