(* ===== verification/Vfs_Facts.thy ===== *)
theory Vfs_Facts
  imports Vfs_Paths
begin

text \<open>
  Properties of the virtual file system: the invariant of the node table, the operations on paths as operations on
  a map from paths to file contents, and the walk towards the root.
\<close>

section \<open>The invariant of the node table\<close>

definition node_ok :: "vfs_node \<Rightarrow> bool" where
  "node_ok n \<longleftrightarrow> length (n_name n) < VFS_NAME_LEN \<and> length (n_content n) = VFS_CONTENT_LEN \<and> n_content_len n < VFS_CONTENT_LEN"

definition parent_ok :: "int \<Rightarrow> bool" where
  "parent_ok p \<longleftrightarrow> 0 \<le> p \<and> p < int VFS_MAX_NODES"

definition vfs_ok :: "'d vfs \<Rightarrow> bool" where
  "vfs_ok v \<longleftrightarrow> length (v_nodes v) = VFS_MAX_NODES \<and> (\<forall>i<VFS_MAX_NODES. node_ok (node v i)) \<and>
     n_type (node v 0) = VFS_NODE_DIR \<and> n_parent (node v 0) = - 1 \<and> (\<forall>i. 0 < i \<and> i < VFS_MAX_NODES \<longrightarrow> parent_ok (n_parent (node v i))) \<and>
     (v_cwd v = - 1 \<or> parent_ok (v_cwd v)) \<and> cwd_path_ok v"

lemmas vfs_limits = VFS_MAX_NODES_def VFS_NAME_LEN_def VFS_CONTENT_LEN_def

lemma node_upd: "node (upd_node i f v) j = (if j = i \<and> i < length (v_nodes v) then f (node v i) else node v j)"
  by (cases "i < length (v_nodes v)") (auto simp: upd_node_def nth_list_update not_less list_update_beyond)

lemma upd_node_fields [simp]: "length (v_nodes (upd_node i f v)) = length (v_nodes v)" "v_cwd (upd_node i f v) = v_cwd v"
  "v_cwd_path (upd_node i f v) = v_cwd_path v" "v_fat (upd_node i f v) = v_fat v" "v_mounts (upd_node i f v) = v_mounts v"
  "v_junk (upd_node i f v) = v_junk v"
  by (simp_all add: upd_node_def)

lemma cwd_path_ok_upd [simp]: "cwd_path_ok (upd_node i f v) = cwd_path_ok v"
  by (simp add: cwd_path_ok_def)

lemma vfs_okD:
  assumes "vfs_ok v"
  shows "length (v_nodes v) = VFS_MAX_NODES" "i < VFS_MAX_NODES \<Longrightarrow> node_ok (node v i)" "n_type (node v 0) = VFS_NODE_DIR"
    "n_parent (node v 0) = - 1" "0 < i \<Longrightarrow> i < VFS_MAX_NODES \<Longrightarrow> parent_ok (n_parent (node v i))"
    "v_cwd v = - 1 \<or> parent_ok (v_cwd v)" "cwd_path_ok v"
  using assms by (simp_all add: vfs_ok_def)

lemma vfs_ok_upd:
  assumes "vfs_ok v" "0 < i" "i < VFS_MAX_NODES" "node_ok (f (node v i))" "parent_ok (n_parent (f (node v i)))"
  shows "vfs_ok (upd_node i f v)"
  using assms by (auto simp: vfs_ok_def node_upd)

lemma find_childD:
  assumes "find_child p name v = Some i"
  shows "i < VFS_MAX_NODES" "n_type (node v i) \<noteq> VFS_NODE_FREE" "n_parent (node v i) = p" "n_name (node v i) = name"
  using assms by (auto simp: find_child_def find_Some_iff)

lemma find_child_pos:
  assumes "vfs_ok v" "find_child p name v = Some i" "p \<noteq> - 1" shows "0 < i"
  using vfs_okD(4) [OF assms(1)] find_childD(3) [OF assms(2)] assms(3) by (cases i) auto

lemma find_free_nodeD:
  assumes "find_free_node v = Some i" shows "0 < i" "i < VFS_MAX_NODES" "n_type (node v i) = VFS_NODE_FREE"
proof -
  have "\<exists>k<length [1..<VFS_MAX_NODES]. n_type (node v ([1..<VFS_MAX_NODES] ! k)) = VFS_NODE_FREE \<and> i = [1..<VFS_MAX_NODES] ! k"
    using assms by (auto simp: find_free_node_def find_Some_iff)
  then have "i \<in> set [1..<VFS_MAX_NODES] \<and> n_type (node v i) = VFS_NODE_FREE" using nth_mem by blast
  then show "0 < i" "i < VFS_MAX_NODES" "n_type (node v i) = VFS_NODE_FREE" by auto
qed

lemma length_patch: "i + length xs \<le> length bs \<Longrightarrow> length (patch bs i xs) = length bs"
  by (simp add: patch_def)

lemma copy_truncate_length: "0 < n \<Longrightarrow> length (copy_truncate s n) < n"
  by (auto simp: copy_truncate_def)

text \<open>What each change of a node keeps.\<close>

lemma node_changes:
  assumes "node_ok n"
  shows "node_ok (set_dir p name n)" "node_ok (set_file p name n)" "node_ok (clear_content n)" "node_ok (free_node n)"
    "node_ok (rename_node name n)" "node_ok (store_text s n)" "node_ok (set_text_len (store_text s n))" "node_ok (append_text s n)"
    "node_ok (n\<lparr>n_parent := p\<rparr>)" "node_ok m \<Longrightarrow> node_ok (copy_content m n)"
proof -
  have c: "length (copy_truncate name VFS_NAME_LEN) < VFS_NAME_LEN" "length (copy_truncate s VFS_CONTENT_LEN) < VFS_CONTENT_LEN" for s
    by (simp_all add: copy_truncate_length vfs_limits)
  note n = assms [unfolded node_ok_def]
  show "node_ok (set_dir p name n)" "node_ok (set_file p name n)" "node_ok (free_node n)" "node_ok (rename_node name n)"
    "node_ok (n\<lparr>n_parent := p\<rparr>)" "node_ok (clear_content n)"
    using n c(1) by (simp_all add: node_ok_def set_dir_def set_file_def free_node_def rename_node_def clear_content_def patch_def vfs_limits)
  have p: "length (patch (n_content n) 0 (text_bytes (copy_truncate s VFS_CONTENT_LEN) @ [0])) = VFS_CONTENT_LEN" for s
    using n c(2) [of s] by (subst length_patch) (auto simp: text_bytes_def)
  show st: "node_ok (store_text s n)" using n p by (simp add: node_ok_def store_text_def)
  then show "node_ok m \<Longrightarrow> node_ok (copy_content m n)"
    using n p by (simp add: node_ok_def copy_content_def store_text_def)
  have "0 \<in> set (n_content (store_text s n))" by (simp add: store_text_def patch_def)
  then have "length (takeWhile (\<lambda>b. b \<noteq> 0) (n_content (store_text s n))) < length (n_content (store_text s n))"
    by (metis (mono_tags, lifting) length_takeWhile_le le_neq_implies_less set_takeWhileD takeWhile_eq_take take_all order_refl)
  then show "node_ok (set_text_len (store_text s n))" using st by (simp add: node_ok_def set_text_len_def content_text_def)
  show "node_ok (append_text s n)"
    using n by (auto simp: node_ok_def append_text_def Let_def length_patch text_bytes_def min_def)
qed

lemma node_change_parents [simp]:
  "n_parent (set_dir p name n) = p" "n_parent (set_file p name n) = p" "n_parent (clear_content n) = n_parent n"
  "n_parent (free_node n) = n_parent n" "n_parent (rename_node name n) = n_parent n" "n_parent (store_text s n) = n_parent n"
  "n_parent (set_text_len n) = n_parent n" "n_parent (append_text s n) = n_parent n" "n_parent (copy_content m n) = n_parent n"
  by (simp_all add: set_dir_def set_file_def clear_content_def free_node_def rename_node_def store_text_def set_text_len_def
    append_text_def copy_content_def Let_def)

lemma store_bytes_fields [simp]:
  "n_parent (store_bytes off bs n) = n_parent n" "n_name (store_bytes off bs n) = n_name n" "n_type (store_bytes off bs n) = n_type n"
  by (simp_all add: store_bytes_def terminate_content_def Let_def)

lemma store_bytes_ok:
  assumes "node_ok n" "unat off + length bs \<le> VFS_CONTENT_LEN" shows "node_ok (store_bytes off bs n)"
  using assms by (auto simp: node_ok_def store_bytes_def terminate_content_def Let_def length_patch vfs_limits)

lemma vfs_ok_set_dir:
  assumes "vfs_ok v" "0 < i" "i < VFS_MAX_NODES" "parent_ok p" shows "vfs_ok (upd_node i (set_dir p name) v)"
  using vfs_ok_upd [OF assms(1-3), of "set_dir p name"] node_changes(1) [OF vfs_okD(2) [OF assms(1,3)]] assms(4) by simp

lemma vfs_ok_init:
  assumes "v_nodes v = replicate VFS_MAX_NODES zero_node" shows "vfs_ok (vfs_init v)"
proof -
  have z: "node_ok zero_node" "parent_ok 0" "parent_ok 1"
    by (simp_all add: node_ok_def zero_node_def parent_ok_def vfs_limits)
  let ?v = "(upd_node 0 (set_dir (- 1) ''/'') (v\<lparr>v_nodes := map (\<lambda>n. n\<lparr>n_type := VFS_NODE_FREE\<rparr>) (v_nodes v)\<rparr>))\<lparr>v_cwd := 0, v_cwd_path := ''/''\<rparr>"
  have f: "zero_node\<lparr>n_type := VFS_NODE_FREE\<rparr> = zero_node" by (simp add: zero_node_def)
  have "node ?v i = (if i = 0 then set_dir (- 1) ''/'' zero_node else zero_node)" if "i < VFS_MAX_NODES" for i
    using that by (simp add: upd_node_def assms f nth_list_update)
  moreover have "n_parent zero_node = 0" by (simp add: zero_node_def)
  ultimately have "vfs_ok ?v" using z node_changes(1) [OF z(1)] assms
    by (simp add: vfs_ok_def cwd_path_ok_def VFS_MAX_NODES_def) (simp add: set_dir_def)
  then have "vfs_ok (upd_node 2 (set_dir 1 ''disk0'') (upd_node 1 (set_dir 0 ''mnt'') ?v))"
    using z by (intro vfs_ok_set_dir) (simp_all add: VFS_MAX_NODES_def)
  then show ?thesis by (simp add: vfs_init_def Let_def path_copy_def)
qed

section \<open>Every operation keeps it\<close>

lemma vfs_ok_fat [simp]: "vfs_ok (v\<lparr>v_fat := f\<rparr>) = vfs_ok v" "vfs_ok (v\<lparr>v_temp := t\<rparr>) = vfs_ok v" "vfs_ok (v\<lparr>v_mounts := m\<rparr>) = vfs_ok v"
  by (simp_all add: vfs_ok_def cwd_path_ok_def)

lemma fat_result_ok: "fat_result r v = Some (x, v') \<Longrightarrow> vfs_ok v \<Longrightarrow> vfs_ok v'"
  by (auto simp: fat_result_def)

text \<open>Changing a child found in the current directory, and filling a free node.\<close>

lemma child_upd:
  assumes "vfs_ok v" "find_child p name v = Some i" "p \<noteq> - 1" "\<And>n. node_ok n \<Longrightarrow> node_ok (f n)" "\<And>n. n_parent (f n) = n_parent n"
  shows "vfs_ok (upd_node i f v)"
  using vfs_ok_upd [OF assms(1) find_child_pos [OF assms(1-3)] find_childD(1) [OF assms(2)], of f] assms(4,5)
    vfs_okD(2,5) [OF assms(1)] find_child_pos [OF assms(1-3)] find_childD(1) [OF assms(2)] by simp

lemma free_upd:
  assumes "vfs_ok v" "find_free_node v = Some i" "\<And>n. node_ok n \<Longrightarrow> node_ok (f n)" "\<And>n. parent_ok (n_parent (f n))"
  shows "vfs_ok (upd_node i f v)"
  using vfs_ok_upd [OF assms(1) find_free_nodeD(1,2) [OF assms(2)], of f] assms(3,4) vfs_okD(2) [OF assms(1)]
    find_free_nodeD(2) [OF assms(2)] by simp

lemma cwd_ok: "vfs_ok v \<Longrightarrow> \<not> v_cwd v < 0 \<Longrightarrow> parent_ok (v_cwd v) \<and> v_cwd v \<noteq> - 1"
  using vfs_okD(6) [of v] by auto

lemma walk_bound: "walk dirs i p v = Some j \<Longrightarrow> i < VFS_MAX_NODES \<Longrightarrow> j < VFS_MAX_NODES"
proof (induction dirs i p v rule: walk.induct)
  case (1 dirs i p v)
  show ?case
  proof (cases "p = []")
    case True
    then show ?thesis using 1(2,3) by (simp add: walk.simps)
  next
    case False
    then obtain k where k: "find_child (int i) (takeWhile (\<lambda>c. c \<noteq> CHR ''/'') p) v = Some k"
        "\<not> (dirs \<and> n_type (node v k) \<noteq> VFS_NODE_DIR)" "walk dirs k (drop 1 (dropWhile (\<lambda>c. c \<noteq> CHR ''/'') p)) v = Some j"
      using 1(2) by (subst (asm) walk.simps) (auto split: option.splits if_splits)
    then show ?thesis using 1(1) [OF False k] find_childD(1) [OF k(1)] by simp
  qed
qed

lemma resolve_parts_bound: "resolve_parts i p v = Some j \<Longrightarrow> i < VFS_MAX_NODES \<Longrightarrow> j < VFS_MAX_NODES"
proof (induction i p v rule: resolve_parts.induct)
  case (1 i p v)
  show ?case
  proof (cases "p = []")
    case True
    then show ?thesis using 1(2,3) by (simp add: resolve_parts.simps)
  next
    case False
    then obtain k where k: "find_child (int i) (first_part p) v = Some k" "resolve_parts k (drop_slashes (after_part p)) v = Some j"
      using 1(2) by (subst (asm) resolve_parts.simps) (auto split: option.splits)
    then show ?thesis using 1(1) [OF False k] find_childD(1) [OF k(1)] by simp
  qed
qed

lemma resolve_bound: "resolve_ram_path p v = Some i \<Longrightarrow> i < VFS_MAX_NODES"
  using resolve_parts_bound [of 0 "drop 1 p" v i] by (auto simp: resolve_ram_path_def VFS_MAX_NODES_def split: if_splits)

lemma parent_dir_ok: "parent_dir p v = Some i \<Longrightarrow> parent_ok (int i)"
  by (auto simp: parent_dir_def parent_ok_def split: option.splits if_splits dest: resolve_bound)

text \<open>One call of an operation that changes the file system.  Mounting and the disk are free to change.\<close>

inductive vfs_step :: "'d vfs \<Rightarrow> 'd vfs \<Rightarrow> bool" where
  mkdir: "vfs_mkdir name v = Some (r, v') \<Longrightarrow> vfs_step v v'"
| touch: "vfs_touch name v = Some (r, v') \<Longrightarrow> vfs_step v v'"
| rm: "vfs_rm name v = (r, v') \<Longrightarrow> vfs_step v v'"
| rmdir: "vfs_rmdir name v = (r, v') \<Longrightarrow> vfs_step v v'"
| chdir: "vfs_cd name v = Some (r, v') \<Longrightarrow> vfs_step v v'"
| write_text: "vfs_write name content v = Some (r, v') \<Longrightarrow> vfs_step v v'"
| append: "vfs_append name content v = (r, v') \<Longrightarrow> vfs_step v v'"
| cp: "vfs_cp src dst v = (r, v') \<Longrightarrow> vfs_step v v'"
| mv: "vfs_mv src dst v = (r, v') \<Longrightarrow> vfs_step v v'"
| mkdir_path: "vfs_mkdir_path path v = Some (r, v') \<Longrightarrow> vfs_step v v'"
| unlink_path: "vfs_unlink_path path v = (r, v') \<Longrightarrow> vfs_step v v'"
| write_path: "vfs_write_path path bs off v = Some (n, v') \<Longrightarrow> vfs_step v v'"
| rename_path: "vfs_rename_path src dst v = (r, v') \<Longrightarrow> vfs_step v v'"
| mounts: "vfs_step v (v\<lparr>v_mounts := m\<rparr>)"
| disk: "vfs_step v (v\<lparr>v_fat := f\<rparr>)"

lemmas step_split = option.splits if_splits prod.splits

lemma mkdir_ok: "vfs_mkdir name v = Some (r, v') \<Longrightarrow> vfs_ok v \<Longrightarrow> vfs_ok v'"
  using cwd_ok [of v] by (auto simp: vfs_mkdir_def split: step_split intro: fat_result_ok free_upd node_changes)

lemma touch_ok: "vfs_touch name v = Some (r, v') \<Longrightarrow> vfs_ok v \<Longrightarrow> vfs_ok v'"
  using cwd_ok [of v] by (auto simp: vfs_touch_def split: step_split intro: fat_result_ok intro!: free_upd node_changes(2,3))

lemma rm_ok: "vfs_rm name v = (r, v') \<Longrightarrow> vfs_ok v \<Longrightarrow> vfs_ok v'"
  using cwd_ok [of v] by (auto simp: vfs_rm_def split: step_split intro!: child_upd node_changes)

lemma rmdir_ok: "vfs_rmdir name v = (r, v') \<Longrightarrow> vfs_ok v \<Longrightarrow> vfs_ok v'"
  using cwd_ok [of v] by (auto simp: vfs_rmdir_def split: step_split intro!: child_upd node_changes)

lemma open_or_create_ok:
  assumes "open_or_create ini name v = Some (i, v1)" "vfs_ok v" "\<not> v_cwd v < 0"
    "\<And>n. node_ok n \<Longrightarrow> node_ok (ini n)" "\<And>n. n_parent (ini n) = n_parent n"
  shows "vfs_ok v1" "0 < i" "i < VFS_MAX_NODES"
proof -
  note c = cwd_ok [OF assms(2,3)]
  show "vfs_ok v1" "0 < i" "i < VFS_MAX_NODES"
    using assms c find_childD(1) find_child_pos [OF assms(2)] find_free_nodeD
    by (auto simp: open_or_create_def split: step_split intro!: free_upd assms(4) node_changes(2))
qed

lemma upd_ok:
  assumes "vfs_ok v" "0 < i" "i < VFS_MAX_NODES" "\<And>n. node_ok n \<Longrightarrow> node_ok (f n)" "\<And>n. n_parent (f n) = n_parent n"
  shows "vfs_ok (upd_node i f v)"
  using assms vfs_okD(2,5) [OF assms(1)] by (intro vfs_ok_upd) auto

lemma write_ok: "vfs_write name content v = Some (r, v') \<Longrightarrow> vfs_ok v \<Longrightarrow> vfs_ok v'"
  by (auto simp: vfs_write_def split: step_split intro: fat_result_ok intro!: upd_ok node_changes(7) dest: open_or_create_ok)

lemma vfs_append_ok: "vfs_append name content v = (r, v') \<Longrightarrow> vfs_ok v \<Longrightarrow> vfs_ok v'"
  using node_changes(3) by (auto simp: vfs_append_def split: step_split intro!: upd_ok node_changes(8) dest: open_or_create_ok)

lemma cp_ok: "vfs_cp src dst v = (r, v') \<Longrightarrow> vfs_ok v \<Longrightarrow> vfs_ok v'"
  using cwd_ok [of v] vfs_okD(2) [of v] find_childD(1) [of "v_cwd v" src v]
  by (auto simp: vfs_cp_def split: step_split intro!: free_upd node_changes(10) node_changes(2))

lemma mv_ok: "vfs_mv src dst v = (r, v') \<Longrightarrow> vfs_ok v \<Longrightarrow> vfs_ok v'"
  using cwd_ok [of v] by (auto simp: vfs_mv_def split: step_split intro!: child_upd node_changes)

lemma vfs_ok_cwd:
  assumes "vfs_ok v" "p \<noteq> []" "hd p = CHR ''/''" "length p \<le> 255" "c = - 1 \<or> parent_ok c"
  shows "vfs_ok (v\<lparr>v_cwd := c, v_cwd_path := p\<rparr>)"
  using assms by (simp add: vfs_ok_def cwd_path_ok_def)

lemma vfs_ok_cwd_path:
  assumes "vfs_ok v" "p \<noteq> []" "hd p = CHR ''/''" "length p \<le> 255" shows "vfs_ok (v\<lparr>v_cwd_path := p\<rparr>)"
  using assms by (simp add: vfs_ok_def cwd_path_ok_def)

lemma parent_path_ok:
  assumes "p \<noteq> []" shows "parent_path p \<noteq> []" "hd (parent_path p) = hd p" "length (parent_path p) \<le> length p"
  using assms by (auto simp: parent_path_def Let_def take_eq_Nil split: if_splits)

lemma path_copy_ok:
  assumes "p \<noteq> []" shows "path_copy p \<noteq> []" "hd (path_copy p) = hd p" "length (path_copy p) \<le> 255"
  using assms by (auto simp: path_copy_def)

lemma node_parent_ok: "i < VFS_MAX_NODES \<Longrightarrow> parent_ok (int i)"
  by (simp add: parent_ok_def)

lemma cd_up_ok:
  assumes ok: "vfs_ok v" shows "vfs_ok (snd (cd_up v))"
proof -
  note p = vfs_okD(7) [OF ok, unfolded cwd_path_ok_def]
  let ?p = "parent_path (v_cwd_path v)"
  have pp: "?p \<noteq> []" "hd ?p = CHR ''/''" "length ?p \<le> 255" using parent_path_ok [of "v_cwd_path v"] p by auto
  have w: "walk False 0 (drop 1 ?p) (v\<lparr>v_cwd_path := ?p\<rparr>) = Some i \<Longrightarrow> parent_ok (int i)" for i
    using walk_bound node_parent_ok by (fastforce simp: VFS_MAX_NODES_def)
  have c: "(v\<lparr>v_cwd_path := ?p\<rparr>)\<lparr>v_cwd := x\<rparr> = v\<lparr>v_cwd := x, v_cwd_path := ?p\<rparr>" for x by simp
  show ?thesis
    using ok vfs_ok_cwd_path [OF ok pp] vfs_ok_cwd [OF ok pp] w node_parent_ok [of 0]
    unfolding cd_up_def Let_def c by (auto simp: VFS_MAX_NODES_def split: option.split)
qed

lemma cd_down_ok:
  assumes ok: "vfs_ok v" and c: "candidate \<noteq> []" "hd candidate = CHR ''/''" shows "vfs_ok (snd (cd_down candidate name v))"
proof -
  have w: "walk True 0 p v = Some i \<Longrightarrow> parent_ok (int i)" for p i
    using walk_bound node_parent_ok by (fastforce simp: VFS_MAX_NODES_def)
  have f: "find_child p n v = Some i \<Longrightarrow> parent_ok (int i)" for p n i using find_childD(1) node_parent_ok by blast
  show ?thesis
    using ok vfs_ok_cwd [OF ok path_copy_ok(1) [OF c(1)] _ path_copy_ok(3) [OF c(1)]] path_copy_ok(2) [OF c(1)] c(2) w f
    by (auto simp: cd_down_def split: step_split)
qed

lemma cd_ok:
  assumes r: "vfs_cd name v = Some (r, v')" and ok: "vfs_ok v" shows "vfs_ok v'"
proof -
  let ?c = "path_join (v_cwd_path v) name"
  have c: "?c \<noteq> []" "hd ?c = CHR ''/''" using path_join_slash vfs_okD(7) [OF ok] by (auto simp: cwd_path_ok_def)
  have m: "vfs_ok (v\<lparr>v_cwd_path := path_copy ?c, v_cwd := - 1\<rparr>)"
    using vfs_ok_cwd [OF ok, of "path_copy ?c" "- 1"] path_copy_ok [OF c(1)] c(2) by (simp add: vfs_ok_def cwd_path_ok_def)
  have u: "cd_up v = (r, v') \<Longrightarrow> vfs_ok v'" "cd_down ?c name v = (r, v') \<Longrightarrow> vfs_ok v'"
    using cd_up_ok [OF ok] cd_down_ok [OF ok c, of name] by simp_all
  obtain mi mountpoint where pm: "path_is_mount ?c v = (mi, mountpoint)" by fastforce
  show ?thesis
    using r ok m u unfolding vfs_cd_def Let_def pm by (auto split: if_splits option.splits)
qed

lemma mkdir_path_ok: "vfs_mkdir_path path v = Some (r, v') \<Longrightarrow> vfs_ok v \<Longrightarrow> vfs_ok v'"
  by (auto simp: vfs_mkdir_path_def split: step_split intro: mkdir_ok intro!: free_upd node_changes(1) dest: parent_dir_ok)

lemma unlink_path_ok: "vfs_unlink_path path v = (r, v') \<Longrightarrow> vfs_ok v \<Longrightarrow> vfs_ok v'"
  by (auto simp: vfs_unlink_path_def split: step_split intro!: upd_ok node_changes dest: resolve_bound)

lemma resolve_or_create_ok:
  assumes "resolve_or_create ap v = Some (i, v1)" "vfs_ok v" shows "vfs_ok v1 \<and> i < VFS_MAX_NODES"
  using assms by (auto simp: resolve_or_create_def split: step_split intro!: free_upd node_changes
    dest: resolve_bound find_childD(1) find_free_nodeD(2) parent_dir_ok)

lemma write_fat_path_ok: "write_fat_path rel bs off v = Some (n, v') \<Longrightarrow> vfs_ok v \<Longrightarrow> vfs_ok v'"
  by (auto simp: write_fat_path_def Let_def split: step_split)

lemma write_path_ok:
  assumes r: "vfs_write_path path bs off v = Some (n, v')" and ok: "vfs_ok v" shows "vfs_ok v'"
proof -
  have "vfs_ok (upd_node i (store_bytes off (take (VFS_CONTENT_LEN - unat off) bs)) v1)"
    if rc: "resolve_or_create ap v = Some (i, v1)" and f: "n_type (node v1 i) = VFS_NODE_FILE" and o: "\<not> off \<ge> of_nat VFS_CONTENT_LEN" for ap i v1
  proof (rule vfs_ok_upd)
    show v1: "vfs_ok v1" and i: "i < VFS_MAX_NODES" using resolve_or_create_ok [OF rc ok] by simp_all
    show "0 < i" using f vfs_okD(3) [OF v1] by (cases i) auto
    then show "parent_ok (n_parent (store_bytes off (take (VFS_CONTENT_LEN - unat off) bs) (node v1 i)))" using vfs_okD(5) [OF v1 _ i] by simp
    have "unat off < 200" using o by (simp add: VFS_CONTENT_LEN_def not_le word_less_nat_alt)
    then show "node_ok (store_bytes off (take (VFS_CONTENT_LEN - unat off) bs) (node v1 i))"
      by (intro store_bytes_ok vfs_okD(2) [OF v1 i]) (simp add: VFS_CONTENT_LEN_def)
  qed
  then show ?thesis using r ok resolve_or_create_ok [OF _ ok] write_fat_path_ok [OF _ ok]
    by (auto simp: vfs_write_path_def Let_def split: step_split)
qed

lemma rename_path_ok:
  assumes r: "vfs_rename_path src dst v = (r, v')" and ok: "vfs_ok v" shows "vfs_ok v'"
proof -
  have "vfs_ok (upd_node i (\<lambda>n. rename_node name (n\<lparr>n_parent := int p\<rparr>)) v)"
    if "resolve_ram_path a v = Some i" "\<not> i \<le> 2" "parent_dir b v = Some p" for a i b p name
    using that resolve_bound [OF that(1)] parent_dir_ok [OF that(3)] vfs_okD(2) [OF ok]
    by (intro vfs_ok_upd [OF ok] node_changes) auto
  then show ?thesis using r ok by (auto simp: vfs_rename_path_def split: step_split)
qed

lemma vfs_step_ok: "vfs_step v v' \<Longrightarrow> vfs_ok v \<Longrightarrow> vfs_ok v'"
  by (induction rule: vfs_step.induct) (simp_all add: mkdir_ok touch_ok rm_ok rmdir_ok cd_ok write_ok vfs_append_ok cp_ok mv_ok
    mkdir_path_ok unlink_path_ok write_path_ok rename_path_ok)

interpretation vfs_calls: preserved vfs_step vfs_ok
  by unfold_locales (rule vfs_step_ok)

text \<open>
  C36. The node table stays well formed under every sequence of operations on the file system, whatever is mounted and
  whatever the disk does: names fit their field, every file content is a buffer of 200 bytes with a length below 200,
  node 0 is the root directory without a parent, and every other parent and the current directory are indices of the
  table, so that no operation leaves it.
\<close>

theorem vfs_well_formed:
  assumes "v_nodes v = replicate VFS_MAX_NODES zero_node" "vfs_step\<^sup>*\<^sup>* (vfs_init v) v'"
  shows "vfs_ok v'"
  using assms(2) vfs_ok_init [OF assms(1)] by (rule vfs_calls.history)

section \<open>Files as a map from paths\<close>

definition file_at :: "string list \<Rightarrow> 'd vfs \<Rightarrow> u8 list option" where
  "file_at cs v =
     (case lookup 0 cs v of
        None \<Rightarrow> None
      | Some i \<Rightarrow> if n_type (node v i) = VFS_NODE_FILE then Some (take (n_content_len (node v i)) (n_content (node v i))) else None)"

lemma lookup_bound: "lookup i cs v = Some j \<Longrightarrow> i < VFS_MAX_NODES \<Longrightarrow> j < VFS_MAX_NODES"
  by (induction cs arbitrary: i) (auto split: option.splits dest: find_childD(1))

lemma lookup_last: "lookup i (cs @ [c]) v = (case lookup i cs v of None \<Rightarrow> None | Some k \<Rightarrow> find_child (int k) c v)"
  by (auto simp: lookup_append split: option.split)

lemma lookup_snoc: "lookup i (cs @ [c]) v = Some j \<longleftrightarrow> (\<exists>k. lookup i cs v = Some k \<and> find_child (int k) c v = Some j)"
  by (auto simp: lookup_append split: option.splits)

lemma lookup_inj:
  assumes ok: "vfs_ok v" and "lookup 0 cs v = Some i" "lookup 0 ds v = Some i" shows "cs = ds"
  using assms(2,3)
proof (induction cs arbitrary: ds i rule: rev_induct)
  case Nil
  show ?case
  proof (cases ds rule: rev_cases)
    case (snoc es e)
    then obtain k where "find_child (int k) e v = Some 0" using Nil by (auto simp: lookup_snoc)
    then show ?thesis using find_child_pos [OF ok] by fastforce
  qed simp
next
  case (snoc c cs)
  obtain k where k: "lookup 0 cs v = Some k" "find_child (int k) c v = Some i" using snoc.prems(1) by (auto simp: lookup_snoc)
  show ?case
  proof (cases ds rule: rev_cases)
    case Nil
    then show ?thesis using snoc.prems(2) k(2) find_child_pos [OF ok k(2)] by auto
  next
    case (snoc es e)
    then obtain l where l: "lookup 0 es v = Some l" "find_child (int l) e v = Some i" using snoc.prems(2) by (auto simp: lookup_snoc)
    have "k = l" "c = e" using find_childD(3,4) [OF k(2)] find_childD(3,4) [OF l(2)] by auto
    then show ?thesis using snoc.IH k(1) l(1) snoc by simp
  qed
qed

text \<open>A change of a node that keeps its place in the tree changes no path.\<close>

lemma find_child_upd:
  assumes "\<And>n. n_type (f n) = n_type n" "\<And>n. n_parent (f n) = n_parent n" "\<And>n. n_name (f n) = n_name n"
  shows "find_child p c (upd_node i f v) = find_child p c v"
proof -
  have "(n_type (node (upd_node i f v) j), n_parent (node (upd_node i f v) j), n_name (node (upd_node i f v) j)) =
      (n_type (node v j), n_parent (node v j), n_name (node v j))" for j
    using assms by (simp add: node_upd)
  then show ?thesis by (simp add: find_child_def)
qed

lemma lookup_upd:
  assumes "\<And>n. n_type (f n) = n_type n" "\<And>n. n_parent (f n) = n_parent n" "\<And>n. n_name (f n) = n_name n"
  shows "lookup j cs (upd_node i f v) = lookup j cs v"
  by (induction cs arbitrary: j) (simp_all add: find_child_upd [OF assms] split: option.split)

text \<open>A new node is found under its name and hides no other.\<close>

lemma find_new:
  assumes "find_free_node v = Some i" "find_child p name v = None" "length name < VFS_NAME_LEN" "vfs_ok v"
    and f: "\<And>n. n_type (f n) \<noteq> VFS_NODE_FREE" "\<And>n. n_parent (f n) = p" "\<And>n. n_name (f n) = name"
  shows "find_child q c (upd_node i f v) = (if q = p \<and> c = name then Some i else find_child q c v)"
proof -
  note i = find_free_nodeD [OF assms(1)] and L = vfs_okD(1) [OF assms(4)]
  let ?P = "\<lambda>v q c j. n_type (node v j) \<noteq> VFS_NODE_FREE \<and> n_parent (node v j) = q \<and> n_name (node v j) = c"
  have P: "?P (upd_node i f v) q c j \<longleftrightarrow> (if j = i then q = p \<and> c = name else ?P v q c j)" for j
    using i(2) f L by (auto simp: node_upd)
  show ?thesis
  proof (cases "q = p \<and> c = name")
    case True
    have none: "\<not> ?P v p name j" if "j < VFS_MAX_NODES" for j using assms(2) that by (auto simp: find_child_def find_None_iff)
    have "find (\<lambda>j. ?P (upd_node i f v) q c j) [0..<VFS_MAX_NODES] = find (\<lambda>j. j = i) [0..<VFS_MAX_NODES]"
      by (rule find_cong) (use P none True in auto)
    also have "\<dots> = Some i" unfolding find_Some_iff using i(2) by (intro exI [of _ i]) simp
    finally show ?thesis unfolding find_child_def if_P [OF True] .
  next
    case False
    have "find (\<lambda>j. ?P (upd_node i f v) q c j) [0..<VFS_MAX_NODES] = find (\<lambda>j. ?P v q c j) [0..<VFS_MAX_NODES]"
      by (rule find_cong) (use P False i(3) in auto)
    then show ?thesis unfolding find_child_def if_not_P [OF False] .
  qed
qed

lemma lookup_new:
  assumes new: "find_free_node v = Some i" "find_child (int p) name v = None" "length name < VFS_NAME_LEN" and ok: "vfs_ok v"
    and f: "\<And>n. n_type (f n) \<noteq> VFS_NODE_FREE" "\<And>n. n_parent (f n) = int p" "\<And>n. n_name (f n) = name"
    and p: "lookup 0 cs v = Some p" and ds: "\<nexists>e es. ds = cs @ name # e # es"
  shows "lookup 0 ds (upd_node i f v) = (if ds = cs @ [name] then Some i else lookup 0 ds v)"
  using ds
proof (induction ds rule: rev_induct)
  case (snoc d ds)
  have ne: "ds \<noteq> cs @ [name]" using snoc.prems by auto
  have "\<nexists>e es. ds = cs @ name # e # es" using snoc.prems by auto
  then have IH: "lookup 0 ds (upd_node i f v) = lookup 0 ds v" using snoc.IH ne by simp
  note F = find_new [OF new ok f]
  show ?case
  proof (cases "lookup 0 ds v")
    case None
    then have "ds \<noteq> cs" using p by auto
    then show ?thesis using None IH by (simp add: lookup_last)
  next
    case (Some k)
    have "k = p \<longleftrightarrow> ds = cs" using lookup_inj [OF ok p, of ds] Some p by auto
    moreover have "lookup 0 (ds @ [d]) (upd_node i f v) = find_child (int k) d (upd_node i f v)" "lookup 0 (ds @ [d]) v = find_child (int k) d v"
      unfolding lookup_last IH Some by simp_all
    ultimately show ?thesis using F [of "int k" d] by simp
  qed
qed simp

lemma file_at_lookup: "lookup 0 cs v = Some i \<Longrightarrow> n_type (node v i) = VFS_NODE_FILE \<Longrightarrow> file_at cs v = Some (take (n_content_len (node v i)) (n_content (node v i)))"
  by (simp add: file_at_def)

text \<open>The directory of every node in use is in use.  A directory that is removed while it is the current one leaves orphans
  when files are created in it afterwards.\<close>

definition no_orphans :: "'d vfs \<Rightarrow> bool" where
  "no_orphans v \<longleftrightarrow> (\<forall>i. 0 < i \<and> i < VFS_MAX_NODES \<and> n_type (node v i) \<noteq> VFS_NODE_FREE \<longrightarrow>
     n_type (node v (nat (n_parent (node v i)))) \<noteq> VFS_NODE_FREE)"

lemma no_orphans_child:
  assumes "vfs_ok v" "no_orphans v" "n_type (node v i) = VFS_NODE_FREE"
  shows "find_child (int i) c v = None"
proof (rule ccontr)
  assume "find_child (int i) c v \<noteq> None"
  then obtain j where j: "find_child (int i) c v = Some j" by blast
  have "j < VFS_MAX_NODES" "n_type (node v j) \<noteq> VFS_NODE_FREE" "n_parent (node v j) = int i"
    using j by (auto simp: find_child_def find_Some_iff)
  moreover from this have "j \<noteq> 0" using vfs_okD(4) [OF assms(1)] by (metis of_nat_0_le_iff neg_0_le_iff_le not_one_le_zero)
  ultimately show False using assms(2,3) unfolding no_orphans_def by (metis nat_int neq0_conv)
qed

lemma create_spec:
  assumes ok: "vfs_ok v" and cs: "canonical cs" "length (path_of cs) \<le> 255" and rc: "resolve_or_create (path_of cs) v = Some (i, v1)"
  obtains (old) "v1 = v" "lookup 0 cs v = Some i"
  | (new) "vfs_ok v1" "lookup 0 cs v1 = Some i" "file_at cs v = None" "n_type (node v1 i) = VFS_NODE_FILE" "n_content_len (node v1 i) = 0"
      "\<And>ds. ds \<noteq> cs \<Longrightarrow> (\<nexists>e es. ds = cs @ e # es) \<or> no_orphans v \<Longrightarrow> file_at ds v1 = file_at ds v"
proof -
  have part: "\<forall>c\<in>set cs. part_ok c" using cs(1) by (simp add: canonical_def)
  have res: "resolve_ram_path (path_of cs) v = lookup 0 cs v" by (rule resolve_path_of [OF part])
  show thesis
  proof (cases "lookup 0 cs v")
    case (Some j)
    then show ?thesis using rc res old by (simp add: resolve_or_create_def)
  next
    case None
    then have "cs \<noteq> []" by auto
    then obtain ds c where c: "cs = ds @ [c]" by (metis rev_exhaust)
    have pc: "part_ok c" "CHR ''/'' \<notin> set c" "length c < VFS_NAME_LEN" "\<forall>d\<in>set ds. part_ok d" using part c by (auto simp: part_ok_def)
    have t: "copy_truncate (path_of cs) 256 = path_of cs" using cs(2) by (simp add: copy_truncate_def)
    have sp: "split_last (copy_truncate (path_of cs) 256) = (if ds = [] then None else Some (path_of ds, c))"
      unfolding t unfolding c by (rule split_last_path_of [OF pc(1,2)])
    have "ds \<noteq> []" using rc None res unfolding resolve_or_create_def sp by auto
    note sp = sp [unfolded if_not_P [OF this]]
    obtain p where p: "parent_dir (path_of ds) v = Some p"
      using rc None res unfolding resolve_or_create_def sp by (auto split: option.splits)
    then have lp: "lookup 0 ds v = Some p"
      unfolding parent_dir_def resolve_path_of [OF pc(4)] by (auto split: option.splits if_splits)
    have fc: "find_child (int p) c v = None" using None lp unfolding c lookup_last by simp
    let ?f = "clear_content \<circ> set_file (int p) c"
    have new: "find_free_node v = Some i" "v1 = upd_node i ?f v"
      using rc None res fc unfolding resolve_or_create_def sp by (auto simp: p)
    have f: "n_type (?f n) \<noteq> VFS_NODE_FREE" "n_parent (?f n) = int p" "n_name (?f n) = c" for n
      using pc(3) by (auto simp: clear_content_def set_file_def copy_truncate_def)
    note L = lookup_new [where f = ?f, OF new(1) fc pc(3) ok f lp, folded new(2)]
    note i = find_free_nodeD [OF new(1)]
    have ni: "node v1 j = (if j = i then ?f (node v i) else node v j)" for j
      using i(2) vfs_okD(1) [OF ok] by (simp add: new(2) node_upd)
    have other: "file_at es v1 = file_at es v" if "es \<noteq> cs" "\<nexists>e ds. es = cs @ e # ds" for es
    proof -
      have l: "lookup 0 es v1 = lookup 0 es v" using L [of es] that by (auto simp: c)
      have "j \<noteq> i" if "lookup 0 es v = Some j" for j
      proof (cases es rule: rev_cases)
        case (snoc ys y)
        then show ?thesis using that find_childD(2) i(3) by (auto simp: lookup_snoc)
      qed (use that i(1) in simp)
      then show ?thesis unfolding file_at_def l ni by (auto split: option.split)
    qed
    have below: "file_at (cs @ e # es) v1 = file_at (cs @ e # es) v" if o: "no_orphans v" for e es
    proof -
      have "p \<noteq> i" using p i(3) by (auto simp: parent_dir_def split: option.splits if_splits)
      then have "find_child (int i) e v1 = None"
        using find_new [where f = ?f, OF new(1) fc pc(3) ok f, folded new(2)] no_orphans_child [OF ok o i(3)] by simp
      moreover have "lookup 0 cs v1 = Some i" using L [of cs] by (simp add: c)
      ultimately show ?thesis using None by (simp add: file_at_def lookup_append)
    qed
    show ?thesis
    proof (rule that(2))
      show "vfs_ok v1" using resolve_or_create_ok [OF rc ok] by simp
      show "lookup 0 cs v1 = Some i" using L [of cs] by (simp add: c)
      show "file_at cs v = None" using None by (simp add: file_at_def)
      show "n_type (node v1 i) = VFS_NODE_FILE" "n_content_len (node v1 i) = 0" by (simp_all add: ni clear_content_def set_file_def)
      show "file_at es v1 = file_at es v" if "es \<noteq> cs" "(\<nexists>e ds. es = cs @ e # ds) \<or> no_orphans v" for es
        using other [OF that(1)] below that(2) by blast
    qed
  qed
qed

lemma write_spec:
  assumes ok: "vfs_ok v" and cs: "canonical cs" "normalize_absolute path v = Some (path_of cs)" and ram: "fat_reachable (path_of cs) v = None"
    and w: "vfs_write_path path bs off v = Some (Some k, v')"
  obtains i v1 where "vfs_ok v1" "lookup 0 cs v1 = Some i" "unat off < VFS_CONTENT_LEN" "n_type (node v1 i) = VFS_NODE_FILE"
    "k = of_nat (length (take (VFS_CONTENT_LEN - unat off) bs))"
    "v' = upd_node i (store_bytes off (take (VFS_CONTENT_LEN - unat off) bs)) v1"
    "take (n_content_len (node v1 i)) (n_content (node v1 i)) = (case file_at cs v of None \<Rightarrow> [] | Some old \<Rightarrow> old)"
    "\<And>ds. ds \<noteq> cs \<Longrightarrow> (\<nexists>e es. ds = cs @ e # es) \<or> file_at cs v \<noteq> None \<or> no_orphans v \<Longrightarrow> file_at ds v' = file_at ds v"
proof -
  obtain i v1 where rc: "resolve_or_create (path_of cs) v = Some (i, v1)" and f: "n_type (node v1 i) = VFS_NODE_FILE"
      and o: "\<not> off \<ge> of_nat VFS_CONTENT_LEN" and k: "k = of_nat (length (take (VFS_CONTENT_LEN - unat off) bs))"
      and v': "v' = upd_node i (store_bytes off (take (VFS_CONTENT_LEN - unat off) bs)) v1"
    using w ram by (auto simp: vfs_write_path_def cs(2) Let_def split: option.splits if_splits)
  have off: "unat off < VFS_CONTENT_LEN" using o by (simp add: VFS_CONTENT_LEN_def not_le word_less_nat_alt)
  have len: "length (path_of cs) \<le> 255"
  proof -
    obtain es where "plen es \<le> 255" "path_of cs = path_of es" using normalize_spec [OF cs(2) vfs_okD(7) [OF ok]] by blast
    then show ?thesis using length_join_names [of es] by (simp add: path_of_def split: if_splits)
  qed
  have lk: "lookup 0 ds v' = lookup 0 ds v1" for ds unfolding v' by (rule lookup_upd) simp_all
  have other: "file_at ds v' = file_at ds v1" if "lookup 0 cs v1 = Some i" "vfs_ok v1" "ds \<noteq> cs" for ds
  proof -
    have "node v' j = node v1 j" if "lookup 0 ds v1 = Some j" for j
      using lookup_inj [OF \<open>vfs_ok v1\<close> \<open>lookup 0 cs v1 = Some i\<close>, of ds] that \<open>ds \<noteq> cs\<close> by (auto simp: v' node_upd)
    then show ?thesis unfolding file_at_def lk by (simp split: option.split)
  qed
  show thesis
  proof (cases rule: create_spec [OF ok cs(1) len rc])
    case 1
    have fa: "file_at cs v = Some (take (n_content_len (node v1 i)) (n_content (node v1 i)))" using file_at_lookup [OF 1(2)] f 1(1) by simp
    show ?thesis
      by (rule that [of v1 i]) (use 1 ok off f k v' fa other in simp_all)
  next
    case 2
    show ?thesis
      by (rule that [of v1 i]) (use 2 off f k v' other in simp_all)
  qed
qed

lemma store_bytes_content:
  assumes "node_ok n" "unat off + length bs < VFS_CONTENT_LEN"
  shows "take (n_content_len (store_bytes off bs n)) (n_content (store_bytes off bs n)) =
    patch (take (n_content_len n) (n_content n) @ take (unat off - n_content_len n) (drop (n_content_len n) (n_content n))) (unat off) bs"
proof -
  let ?e = "unat off + length bs"
  define m where "m = (if ?e > n_content_len n then ?e else n_content_len n)"
  have z: "n_content_len n = unat off \<and> bs = []" if "\<not> n_content_len n < ?e" "n_content_len n \<le> unat off"
    using that by (cases bs) auto
  have m: "m < VFS_CONTENT_LEN" using assms by (simp add: m_def node_ok_def)
  then have "take (n_content_len (store_bytes off bs n)) (n_content (store_bytes off bs n)) = take m (patch (n_content n) (unat off) bs)"
    by (simp add: store_bytes_def terminate_content_def m_def [symmetric] Let_def)
  also have "\<dots> = patch (take (n_content_len n + (unat off - n_content_len n)) (n_content n)) (unat off) bs"
    using assms z by (auto simp: patch_def m_def node_ok_def min_def take_drop)
  finally show ?thesis by (simp only: take_add)
qed

text \<open>
  C5. Writing to a file of the RAM tree (no mounted disk serves the path) so that the written bytes end before byte 200 is an
  update of the map from paths to file contents.  The file at the path, created empty when it is missing, has the written
  bytes at the offset and its old bytes elsewhere; when the offset lies behind the old end, the bytes between are arbitrary
  (what the buffer of the node held).  The call reports the number of bytes.  Every other path reads the same file as before,
  with one exception: when the file is new and the tree has orphans - files created in a directory after it was removed -
  nothing is claimed of the paths below the written one, where such orphans can reappear.
\<close>

theorem vfs_write_refines:
  assumes "vfs_ok v" "canonical cs" "normalize_absolute path v = Some (path_of cs)" "fat_reachable (path_of cs) v = None"
    "vfs_write_path path bs off v = Some (Some k, v')" "old = (case file_at cs v of None \<Rightarrow> [] | Some b \<Rightarrow> b)"
    "unat off + length bs < VFS_CONTENT_LEN"
  shows "k = of_nat (length bs) \<and>
    (\<exists>gap. length gap = unat off - length old \<and> file_at cs v' = Some (patch (old @ gap) (unat off) bs)) \<and>
    (\<forall>ds. ds \<noteq> cs \<and> ((\<nexists>e es. ds = cs @ e # es) \<or> file_at cs v \<noteq> None \<or> no_orphans v) \<longrightarrow> file_at ds v' = file_at ds v)"
proof (cases rule: write_spec [OF assms(1-5)])
  case (1 i v1)
  have t: "take (VFS_CONTENT_LEN - unat off) bs = bs" using assms(7) by simp
  note n = vfs_okD(2) [OF 1(1) lookup_bound [OF 1(2)]]
  have i: "i < VFS_MAX_NODES" using lookup_bound [OF 1(2)] by (simp add: VFS_MAX_NODES_def)
  have nd: "node v' i = store_bytes off bs (node v1 i)" using i vfs_okD(1) [OF 1(1)] unfolding 1(6) t by (simp add: node_upd)
  have lk: "lookup 0 cs v' = Some i" unfolding 1(6) using 1(2) by (subst lookup_upd) simp_all
  have ok: "node_ok (node v1 i)" using n by (simp add: VFS_MAX_NODES_def)
  let ?l = "n_content_len (node v1 i)"
  define gap where "gap = take (unat off - ?l) (drop ?l (n_content (node v1 i)))"
  have old: "old = take ?l (n_content (node v1 i))" using 1(7) assms(6) by simp
  have "length gap = unat off - length old" using ok assms(7) by (auto simp: gap_def old node_ok_def)
  moreover have "file_at cs v' = Some (patch (old @ gap) (unat off) bs)"
    using file_at_lookup [OF lk] 1(4) nd store_bytes_content [OF ok assms(7)] by (simp add: old gap_def)
  ultimately show ?thesis using 1(5,8) t by auto
qed



section \<open>The walk towards the root\<close>

primrec ancestor :: "nat \<Rightarrow> int \<Rightarrow> 'd vfs \<Rightarrow> int" where
  "ancestor 0 cur v = cur"
| "ancestor (Suc k) cur v = (if cur = - 1 then - 1 else ancestor k (n_parent (node v (nat cur))) v)"

lemma ancestor_add: "ancestor (j + k) cur v = ancestor k (ancestor j cur v) v"
proof (induction j arbitrary: cur)
  case (Suc j)
  have "ancestor k (- 1) v = - 1" for k by (cases k) simp_all
  then show ?case using Suc by simp
qed simp

lemma under_loop_returns:
  assumes "ancestor k cur v \<in> {- 1, rt}" shows "under_loop cur rt v \<noteq> None"
  using assms
proof (induction k arbitrary: cur)
  case 0
  then show ?case by (subst under_loop.simps) auto
next
  case (Suc k)
  then show ?case by (subst under_loop.simps) (auto split: if_splits)
qed

definition stops :: "int \<Rightarrow> int \<Rightarrow> 'd vfs \<Rightarrow> bool \<Rightarrow> nat \<Rightarrow> bool" where
  "stops cur rt v b k \<longleftrightarrow> ancestor k cur v \<in> {- 1, rt} \<and> (b \<longleftrightarrow> ancestor k cur v \<noteq> - 1) \<and>
     (\<forall>j<k. ancestor j cur v \<noteq> - 1 \<and> ancestor j cur v \<noteq> rt)"

lemma under_loop_found: "under_loop cur rt v = Some b \<Longrightarrow> \<exists>k. stops cur rt v b k"
proof (erule under_loop.raw_induct [rotated])
  fix f cur rt and v :: "'a vfs" and b
  assume IH: "\<And>cur rt v b. f cur rt v = Some b \<Longrightarrow> \<exists>k. stops cur rt v b k"
    and r: "(if cur = - 1 then Some False else if cur = rt then Some True else f (n_parent (node v (nat cur))) rt v) = Some b"
  show "\<exists>k. stops cur rt v b k"
  proof (cases "cur = - 1 \<or> cur = rt")
    case True
    then show ?thesis using r by (intro exI [of _ 0]) (auto simp: stops_def split: if_splits)
  next
    case False
    then obtain k where "stops (n_parent (node v (nat cur))) rt v b k" using IH [of "n_parent (node v (nat cur))" rt v b] r by auto
    then show ?thesis using False by (intro exI [of _ "Suc k"]) (auto simp: stops_def less_Suc_eq_0_disj)
  qed
qed

lemma ancestor_range:
  assumes "vfs_ok v" "cur = - 1 \<or> parent_ok cur" shows "ancestor k cur v = - 1 \<or> parent_ok (ancestor k cur v)"
  using assms(2)
proof (induction k arbitrary: cur)
  case (Suc k)
  have "n_parent (node v (nat cur)) = - 1 \<or> parent_ok (n_parent (node v (nat cur)))" if "parent_ok cur"
    using that vfs_okD(4) [OF assms(1)] vfs_okD(5) [OF assms(1), of "nat cur"] by (cases "nat cur") (auto simp: parent_ok_def)
  then show ?case using Suc by auto
qed simp

text \<open>The walk meets no node twice before it stops, so it stops within as many rounds as there are nodes.\<close>

lemma first_stop_bound:
  assumes ok: "vfs_ok v" "cur = - 1 \<or> parent_ok cur" and st: "stops cur rt v b k"
  shows "k \<le> VFS_MAX_NODES"
proof -
  have hit: "ancestor k cur v \<in> {- 1, rt}" and first: "\<forall>j<k. ancestor j cur v \<noteq> - 1 \<and> ancestor j cur v \<noteq> rt"
    using st by (auto simp: stops_def)
  have "ancestor i cur v \<noteq> ancestor j cur v" if "i < j" "j < k" for i j
  proof
    assume e: "ancestor i cur v = ancestor j cur v"
    have "ancestor (i + (k - j)) cur v = ancestor (j + (k - j)) cur v" by (simp only: ancestor_add e)
    then have "ancestor (i + (k - j)) cur v \<in> {- 1, rt}" using hit that by simp
    moreover have "i + (k - j) < k" using that by simp
    ultimately show False using first by auto
  qed
  then have inj: "inj_on (\<lambda>j. ancestor j cur v) {..<k}" by (metis (mono_tags, lifting) inj_onI lessThan_iff linorder_neqE_nat)
  have sub: "(\<lambda>j. ancestor j cur v) ` {..<k} \<subseteq> {0..<int VFS_MAX_NODES}"
    using ancestor_range [OF ok] first by (fastforce simp: parent_ok_def)
  have "card ((\<lambda>j. ancestor j cur v) ` {..<k}) \<le> card {0..<int VFS_MAX_NODES}" by (rule card_mono [OF _ sub]) simp
  then show ?thesis using card_image [OF inj] by simp
qed

text \<open>
  C39. The walk towards the root that \<open>vfs_du\<close> makes for every file returns exactly when a chain of at most 48 parents
  leads to the end of the tree or to the directory in question, and then it answers whether the directory comes first.
\<close>

theorem is_under_terminates:
  assumes "vfs_ok v" "i < VFS_MAX_NODES"
  shows "(is_under i rt v \<noteq> None \<longleftrightarrow> (\<exists>k\<le>VFS_MAX_NODES. ancestor k (n_parent (node v i)) v \<in> {- 1, rt})) \<and>
    (is_under i rt v = Some True \<longleftrightarrow> (\<exists>k\<le>VFS_MAX_NODES. ancestor k (n_parent (node v i)) v = rt \<and> (\<forall>j\<le>k. ancestor j (n_parent (node v i)) v \<noteq> - 1)))"
proof -
  let ?c = "n_parent (node v i)"
  have c: "?c = - 1 \<or> parent_ok ?c" using vfs_okD(4) [OF assms(1)] vfs_okD(5) [OF assms(1) _ assms(2)] by (cases i) auto
  have found: "\<exists>k\<le>VFS_MAX_NODES. stops ?c rt v b k" if "is_under i rt v = Some b" for b
    using under_loop_found [of ?c rt v b] that first_stop_bound [OF assms(1) c] unfolding is_under_def by blast
  have "is_under i rt v = Some True" if "k \<le> VFS_MAX_NODES" "ancestor k ?c v = rt" "\<forall>j\<le>k. ancestor j ?c v \<noteq> - 1" for k
  proof -
    obtain b where b: "is_under i rt v = Some b"
      using under_loop_returns [of k ?c v rt] \<open>ancestor k ?c v = rt\<close> unfolding is_under_def by auto
    then obtain m where m: "stops ?c rt v b m" using found by blast
    then have "m \<le> k" using that(2) unfolding stops_def by (metis not_le)
    then show ?thesis using b m that(3) by (auto simp: stops_def)
  qed
  moreover have "\<exists>k\<le>VFS_MAX_NODES. ancestor k ?c v = rt \<and> (\<forall>j\<le>k. ancestor j ?c v \<noteq> - 1)" if t: "is_under i rt v = Some True"
    using found [OF t] unfolding stops_def by (metis empty_iff insert_iff le_neq_implies_less)
  moreover have "is_under i rt v \<noteq> None \<longleftrightarrow> (\<exists>k\<le>VFS_MAX_NODES. ancestor k ?c v \<in> {- 1, rt})"
    using found under_loop_returns [of _ ?c v rt] unfolding is_under_def stops_def by blast
  ultimately show ?thesis by blast
qed

lemma du_loop_stuck:
  assumes "i \<in> set is" "n_type (node v i) = VFS_NODE_FILE" "is_under i (v_cwd v) v = None" shows "du_loop is acc v = None"
  using assms(1) by (induction "is" arbitrary: acc) (auto simp: assms(2,3) split: option.split)

text \<open>Nodes from which the walk never leaves a set without the root.\<close>

lemma under_loop_trapped:
  assumes "x \<in> S" "\<And>y. y \<in> S \<Longrightarrow> \<exists>z\<in>S. n_parent (node v y) = int z" "\<And>y. y \<in> S \<Longrightarrow> int y \<noteq> rt"
  shows "under_loop (int x) rt v = None"
proof (rule ccontr)
  have "\<exists>y\<in>S. ancestor k (int x) v = int y" for k
    using assms(1)
  proof (induction k arbitrary: x)
    case (Suc k)
    obtain z where "z \<in> S" "n_parent (node v x) = int z" using assms(2) [OF Suc.prems] by blast
    then show ?case using Suc.IH by simp
  qed auto
  then have "ancestor k (int x) v \<noteq> - 1 \<and> ancestor k (int x) v \<noteq> rt" for k
    using assms(3) by (metis negative_eq_positive one_neq_zero of_nat_1 of_nat_eq_0_iff of_nat_0_eq_iff)
  moreover assume "under_loop (int x) rt v \<noteq> None"
  ultimately show False using under_loop_found by (fastforce simp: stops_def)
qed

lemma path_trap:
  assumes ok: "vfs_ok v" and i: "lookup 0 cs v = Some i" "0 < i" and p: "lookup i rest v = Some p"
    and v': "\<And>j. j \<noteq> i \<Longrightarrow> n_parent (node v' j) = n_parent (node v j)" "n_parent (node v' i) = int p"
  shows "\<exists>S. i \<in> S \<and> 0 \<notin> S \<and> (\<forall>y\<in>S. \<exists>z\<in>S. n_parent (node v' y) = int z)"
proof (intro exI conjI ballI)
  let ?S = "{j. \<exists>qs rs. rest = qs @ rs \<and> lookup i qs v = Some j}"
  show "i \<in> ?S" by (rule CollectI, rule exI [of _ "[]"], rule exI [of _ rest]) simp
  have path: "lookup 0 (cs @ qs) v = lookup i qs v" for qs by (simp add: lookup_append i(1))
  have cs: "cs \<noteq> []" using i by auto
  show "0 \<notin> ?S"
  proof
    assume "0 \<in> ?S"
    then obtain qs where "lookup 0 (cs @ qs) v = Some 0" unfolding path by blast
    then show False using lookup_inj [OF ok, of "[]" 0 "cs @ qs"] cs by simp
  qed
  fix y assume "y \<in> ?S"
  then obtain qs rs where q: "rest = qs @ rs" "lookup i qs v = Some y" by blast
  show "\<exists>z\<in>?S. n_parent (node v' y) = int z"
  proof (cases qs rule: rev_cases)
    case Nil
    then have "y = i" using q(2) by simp
    moreover have "p \<in> ?S" by (rule CollectI, rule exI [of _ rest], rule exI [of _ "[]"]) (simp add: p)
    ultimately show ?thesis using v'(2) by blast
  next
    case (snoc ws w)
    then obtain z where z: "lookup i ws v = Some z" "find_child (int z) w v = Some y" using q(2) by (auto simp: lookup_snoc)
    have "y \<noteq> i"
    proof
      assume "y = i"
      then have "lookup 0 (cs @ qs) v = Some i" using q(2) path by simp
      then show False using lookup_inj [OF ok i(1)] snoc by fastforce
    qed
    then have "n_parent (node v' y) = int z" using v'(1) find_childD(3) [OF z(2)] by simp
    moreover have "z \<in> ?S" using z(1) q(1) snoc by auto
    ultimately show ?thesis by blast
  qed
qed

text \<open>
  C40. Renaming a directory to a name inside itself is accepted and cuts the directory off as a cycle: the walk of
  \<open>vfs_du\<close> from the root, started afterwards with a file in that directory, never returns.
\<close>

theorem rename_into_itself_hangs:
  assumes "vfs_ok v" "canonical cs" "canonical (cs @ rest @ [name])" "normalize_absolute src v = Some (path_of cs)"
    "normalize_absolute dst v = Some (path_of (cs @ rest @ [name]))" "vfs_rename_path src dst v = (0, v')"
    "v_cwd v = 0" "lookup 0 (cs @ [x]) v = Some f" "n_type (node v f) = VFS_NODE_FILE"
  shows "vfs_du v' = None"
proof -
  let ?ds = "cs @ rest"
  have part: "\<forall>c\<in>set cs. part_ok c" "\<forall>c\<in>set ?ds. part_ok c" "part_ok name" "CHR ''/'' \<notin> set name"
    using assms(2,3) by (auto simp: canonical_def part_ok_def)
  note res = resolve_path_of [OF part(1), of v] and resd = resolve_path_of [OF part(2), of v]
  have len: "length (path_of (?ds @ [name])) \<le> 255"
  proof -
    obtain es where "plen es \<le> 255" "path_of (?ds @ [name]) = path_of es" using normalize_spec [OF assms(5) vfs_okD(7) [OF assms(1)]] by auto
    then show ?thesis using length_join_names [of es] by (simp add: path_of_def split: if_splits)
  qed
  have sp: "split_last (copy_truncate (path_of (?ds @ [name])) 256) = (if ?ds = [] then None else Some (path_of ?ds, name))"
    using split_last_path_of [OF part(3,4), of ?ds] len by (simp add: copy_truncate_def)
  obtain i p where i: "lookup 0 cs v = Some i" "\<not> i \<le> 2" and p: "parent_dir (path_of ?ds) v = Some p"
      and v': "v' = upd_node i (\<lambda>n. rename_node name (n\<lparr>n_parent := int p\<rparr>)) v"
    using assms(6) res sp unfolding vfs_rename_path_def assms(4,5) by (auto split: option.splits if_splits)
  have lp: "lookup i rest v = Some p"
    using p i(1) unfolding parent_dir_def resd lookup_append by (auto split: option.splits if_splits)
  obtain k where f: "find_child (int k) x v = Some f" "k = i" using assms(8) i(1) by (auto simp: lookup_snoc)
  have fi: "f < VFS_MAX_NODES" "n_parent (node v f) = int i" using find_childD [OF f(1)] f(2) by auto
  have ib: "i < VFS_MAX_NODES" using lookup_bound [OF i(1)] by (simp add: VFS_MAX_NODES_def)
  have nd: "node v' j = (if j = i then rename_node name ((node v i)\<lparr>n_parent := int p\<rparr>) else node v j)" for j
    using ib vfs_okD(1) [OF assms(1)] by (simp add: v' node_upd)
  have np: "n_parent (node v' i) = int p" "j \<noteq> i \<Longrightarrow> n_parent (node v' j) = n_parent (node v j)" for j
    by (simp_all add: nd)
  obtain S where S: "i \<in> S" "0 \<notin> S" "\<And>y. y \<in> S \<Longrightarrow> \<exists>z\<in>S. n_parent (node v' y) = int z"
    using path_trap [OF assms(1) i(1) _ lp np(2,1)] i(2) by auto
  have "int y \<noteq> 0" if "y \<in> S" for y using that S(2) by (metis of_nat_eq_0_iff)
  then have "under_loop (int y) (v_cwd v') v' = None" if "y \<in> S" for y
    using under_loop_trapped [OF that S(3), of 0] assms(7) by (simp add: v')
  moreover have "f \<noteq> i" using lookup_inj [OF assms(1) i(1), of "cs @ [x]"] assms(8) by auto
  ultimately have "is_under f (v_cwd v') v' = None" using np(2) [of f] fi(2) S(1) by (simp add: is_under_def)
  moreover have "n_type (node v' f) = VFS_NODE_FILE" using \<open>f \<noteq> i\<close> assms(9) by (simp add: nd)
  ultimately show ?thesis unfolding vfs_du_def using fi(1) by (intro du_loop_stuck) auto
qed

section \<open>Instances\<close>

lemma ex_vfs_ok: "vfs_ok ex_vfs"
  unfolding ex_vfs_def by (rule vfs_ok_init) (simp add: ex_boot_def)

lemma ex_vfs_fields [simp]: "v_fat ex_vfs = ex_fat" "v_cwd ex_vfs = 0" "v_cwd_path ex_vfs = ''/''"
  by (simp_all add: ex_vfs_def vfs_init_def ex_boot_def Let_def path_copy_def)


text \<open>A directory \<open>/mnt/a\<close> with a file \<open>f\<close>.\<close>

definition ex_tree :: "unit vfs" where
  "ex_tree = upd_node 4 (append_text ''hi'' \<circ> set_file 3 ''f'') (upd_node 3 (set_dir 1 ''a'') ex_vfs)"

lemma ex_tree_lookup: "lookup 0 [''mnt'', ''a'', ''f''] ex_tree = Some 4"
  by code_simp

lemma ex_tree_file: "n_type (node ex_tree 4) = VFS_NODE_FILE" "take (n_content_len (node ex_tree 4)) (n_content (node ex_tree 4)) = [104, 105]"
  by code_simp+

lemma ex_tree_rename: "fst (vfs_rename_path ''/mnt/a'' ''/mnt/a/b'' ex_tree) = 0"
  by code_simp

lemma ex_tree_ok: "vfs_ok ex_tree"
proof -
  let ?v = "upd_node 3 (set_dir 1 ''a'') ex_vfs"
  have v: "vfs_ok ?v" by (rule vfs_ok_set_dir [OF ex_vfs_ok]) (simp_all add: parent_ok_def VFS_MAX_NODES_def)
  have n: "node_ok (node ?v 4)" by (rule vfs_okD(2) [OF v]) (simp add: VFS_MAX_NODES_def)
  show ?thesis unfolding ex_tree_def
    by (rule vfs_ok_upd [OF v]) (simp_all add: VFS_MAX_NODES_def parent_ok_def node_changes n)
qed

lemma canonical_examples:
  "canonical [''mnt'', ''a'']" "canonical [''mnt'', ''a'', ''b'']" "canonical [''mnt'', ''a'', ''f'']" "canonical [''mnt'', ''n'']"
  by (simp_all add: canonical_def part_ok_def VFS_NAME_LEN_def)

lemma normalize_examples:
  "normalize_absolute ''/mnt/a'' v = Some (path_of [''mnt'', ''a''])" "normalize_absolute ''/mnt/a/b'' v = Some (path_of [''mnt'', ''a'', ''b''])"
  "normalize_absolute ''/mnt/a/f'' v = Some (path_of [''mnt'', ''a'', ''f''])" "normalize_absolute ''/mnt/n'' v = Some (path_of [''mnt'', ''n''])"
  using canonical_examples [THEN normalize_path_of, of v] by (simp_all add: path_of_def)

lemma no_disk: "\<not> fat32_is_mounted (v_fat v) \<Longrightarrow> fat_reachable p v = None"
  by (simp add: fat_reachable_def split: prod.split)

lemma ex_disks: "fat_reachable p ex_vfs = None" "fat_reachable p ex_tree = None"
  by (simp_all add: no_disk fat32_is_mounted_def ex_fat_def ex_tree_def)

lemma ex_vfs_create: "\<exists>v1. resolve_or_create ''/mnt/n'' ex_vfs = Some (3, v1) \<and> n_type (node v1 3) = VFS_NODE_FILE"
proof -
  have "map_option (\<lambda>(i, v). (i, n_type (node v i))) (resolve_or_create ''/mnt/n'' ex_vfs) = Some (3, VFS_NODE_FILE)" by code_simp
  then show ?thesis by auto
qed

lemma ex_write: "\<exists>k v'. vfs_write_path ''/mnt/n'' bs 0 ex_vfs = Some (Some k, v')"
  using ex_vfs_create ex_disks(1) normalize_examples(4) [of ex_vfs] by (auto simp: vfs_write_path_def path_of_def VFS_CONTENT_LEN_def Let_def)

theorem vfs_well_formed_witness:
  "v_nodes ex_boot = replicate VFS_MAX_NODES zero_node \<and> vfs_ok (snd (vfs_append ''notes'' ''hello'' (vfs_init ex_boot)))"
proof -
  have b: "v_nodes ex_boot = replicate VFS_MAX_NODES zero_node" by (simp add: ex_boot_def)
  have "vfs_step (vfs_init ex_boot) (snd (vfs_append ''notes'' ''hello'' (vfs_init ex_boot)))"
    by (rule vfs_step.append [OF prod.collapse [symmetric]])
  then show ?thesis using vfs_well_formed [OF b r_into_rtranclp] b by blast
qed

theorem vfs_write_refines_witness:
  "\<exists>k v'. vfs_write_path ''/mnt/n'' [104, 105] 0 ex_vfs = Some (Some k, v') \<and> file_at [''mnt'', ''n''] v' = Some [104, 105]"
proof -
  obtain k v' where w: "vfs_write_path ''/mnt/n'' [104, 105] 0 ex_vfs = Some (Some k, v')" using ex_write by blast
  have "lookup 0 [''mnt'', ''n''] ex_vfs = None" by code_simp
  then have f: "[] = (case file_at [''mnt'', ''n''] ex_vfs of None \<Rightarrow> [] | Some b \<Rightarrow> b)" by (simp add: file_at_def)
  from vfs_write_refines [OF ex_vfs_ok canonical_examples(4) normalize_examples(4) ex_disks(1) w f]
  have "file_at [''mnt'', ''n''] v' = Some [104, 105]" by (auto simp: VFS_CONTENT_LEN_def patch_def)
  then show ?thesis using w by blast
qed



theorem is_under_terminates_witness: "is_under 2 0 ex_vfs = Some True \<and> vfs_ok ex_vfs"
proof -
  have "n_parent (node ex_vfs 2) = 1 \<and> n_parent (node ex_vfs 1) = 0" by code_simp
  then have "\<exists>k\<le>VFS_MAX_NODES. ancestor k (n_parent (node ex_vfs 2)) ex_vfs = 0 \<and> (\<forall>j\<le>k. ancestor j (n_parent (node ex_vfs 2)) ex_vfs \<noteq> - 1)"
    by (intro exI [of _ 1]) (simp add: VFS_MAX_NODES_def le_Suc_eq)
  then show ?thesis using is_under_terminates [OF ex_vfs_ok, of 2 0] ex_vfs_ok by (simp add: VFS_MAX_NODES_def)
qed

theorem rename_into_itself_hangs_witness:
  "fst (vfs_rename_path ''/mnt/a'' ''/mnt/a/b'' ex_tree) = 0 \<and> vfs_du (snd (vfs_rename_path ''/mnt/a'' ''/mnt/a/b'' ex_tree)) = None"
proof -
  have r: "vfs_rename_path ''/mnt/a'' ''/mnt/a/b'' ex_tree = (0, snd (vfs_rename_path ''/mnt/a'' ''/mnt/a/b'' ex_tree))"
    using ex_tree_rename by (metis prod.collapse)
  have n: "normalize_absolute ''/mnt/a/b'' ex_tree = Some (path_of ([''mnt'', ''a''] @ [] @ [''b'']))" "canonical ([''mnt'', ''a''] @ [] @ [''b''])"
    "lookup 0 ([''mnt'', ''a''] @ [''f'']) ex_tree = Some 4"
    using normalize_examples(2) canonical_examples(2) ex_tree_lookup by simp_all
  show ?thesis
    using rename_into_itself_hangs [OF ex_tree_ok canonical_examples(1) n(2) normalize_examples(1) n(1) r _ n(3) ex_tree_file(1)] ex_tree_rename
    by (simp add: ex_tree_def)
qed

end
