(* ===== verification/Elf_Loader.thy ===== *)
theory Elf_Loader
  imports Ipc Fat32 Gpt
begin

text \<open>
  The loader of user programs (\<open>kernel/core/elf_loader.c\<close>): the checks on the file, the placement of the image, and
  the mapping and filling of the pages.  The file is the list of the bytes that \<open>fat32_read_file\<close> put into the
  buffer; structures laid over it are decoded field by field.  \<open>elf_image\<close> is the part of
  \<open>nexus_elf_load_process\<close> before the first change of state.
\<close>

unbundle bit_operations_syntax

section \<open>The file format\<close>

abbreviation PROCESS_USER_STACK_TOP :: u64 where "PROCESS_USER_STACK_TOP \<equiv> 0x80000000"
abbreviation IMAGE_BASE :: u64 where "IMAGE_BASE \<equiv> 0x400000"
abbreviation ELF_STACK_PAGES :: nat where "ELF_STACK_PAGES \<equiv> 4"
abbreviation elf_stack_base :: u64 where "elf_stack_base \<equiv> PROCESS_USER_STACK_TOP - of_nat ELF_STACK_PAGES * PAGE_SIZE"

record elf64_ehdr =
  eh_ident :: "u8 list"
  eh_type :: u16
  eh_machine :: u16
  eh_entry :: u64
  eh_phoff :: u64
  eh_phentsize :: u16
  eh_phnum :: u16

record elf64_phdr =
  ph_type :: u32
  ph_flags :: u32
  ph_offset :: u64
  ph_vaddr :: u64
  ph_filesz :: u64
  ph_memsz :: u64

text \<open>Fields that the loader never reads are left out of the two records.\<close>

definition ehdr_at :: "u8 list \<Rightarrow> elf64_ehdr" where
  "ehdr_at bs = \<lparr>eh_ident = take 16 bs, eh_type = le16 bs 16, eh_machine = le16 bs 18, eh_entry = le64 bs 24, eh_phoff = le64 bs 32,
     eh_phentsize = le16 bs 54, eh_phnum = le16 bs 56\<rparr>"

definition phdr_at :: "u8 list \<Rightarrow> nat \<Rightarrow> elf64_phdr" where
  "phdr_at bs a = \<lparr>ph_type = le32 bs a, ph_flags = le32 bs (a + 4), ph_offset = le64 bs (a + 8), ph_vaddr = le64 bs (a + 16),
     ph_filesz = le64 bs (a + 32), ph_memsz = le64 bs (a + 40)\<rparr>"

definition elf_align_up :: "u64 \<Rightarrow> u64" where
  "elf_align_up x = (if x > UINT64_MAX - (PAGE_SIZE - 1) then 0 else (x + PAGE_SIZE - 1) AND NOT (PAGE_SIZE - 1))"

definition range_ok :: "u64 \<Rightarrow> u64 \<Rightarrow> u64 \<Rightarrow> bool" where
  "range_ok start n limit = (n \<le> limit - start)"

definition phdr_bounds :: "elf64_ehdr \<Rightarrow> u32 \<Rightarrow> bool" where
  "phdr_bounds eh file_size =
     (if eh_phentsize eh \<noteq> 56 \<or> eh_phnum eh = 0 \<or> eh_phnum eh > 32 then False
      else
        let bytes = ucast (eh_phnum eh) * ucast (eh_phentsize eh) :: u64
        in eh_phoff eh \<le> ucast file_size \<and> bytes \<le> ucast file_size - eh_phoff eh)"

section \<open>Placement\<close>

text \<open>The loop over the program headers: the number of segments, the lowest page and the end of the highest one.\<close>

fun elf_scan :: "u32 \<Rightarrow> elf64_phdr list \<Rightarrow> nat \<times> u64 \<times> u64 \<Rightarrow> (nat \<times> u64 \<times> u64) option" where
  "elf_scan file_size [] acc = Some acc"
| "elf_scan file_size (p # ps) (n, image_start, image_end) =
     (if ph_type p \<noteq> 1 then elf_scan file_size ps (n, image_start, image_end)
      else if ph_memsz p = 0 \<or> ph_filesz p > ph_memsz p \<or> ph_offset p > ucast file_size \<or>
              ph_filesz p > ucast file_size - ph_offset p then None
      else if ph_vaddr p < PROCESS_USER_BASE \<or> ph_vaddr p \<ge> PROCESS_USER_LIMIT then None
      else if \<not> range_ok (ph_vaddr p) (ph_memsz p) PROCESS_USER_LIMIT then None
      else if ph_offset p + ph_filesz p < ph_offset p then None
      else
        let s = align_down (ph_vaddr p); e = elf_align_up (ph_vaddr p + ph_memsz p)
        in if e = 0 \<or> e \<le> s then None
           else elf_scan file_size ps (n + 1, if s < image_start then s else image_start, if e > image_end then e else image_end))"

text \<open>The displacement of a position-independent image, a signed number in the source.\<close>

definition elf_bias :: "elf64_ehdr \<Rightarrow> u64 \<Rightarrow> u64 \<Rightarrow> u64 option" where
  "elf_bias eh image_start image_end =
     (if eh_type eh = 3
      then
        let bias = IMAGE_BASE - image_start
        in if (sint bias > 0 \<and> image_end > UINT64_MAX - bias) \<or> (sint bias < 0 \<and> image_start < - bias) then None else Some bias
      else Some 0)"

definition elf_image :: "u8 list \<Rightarrow> (elf64_ehdr \<times> elf64_phdr list \<times> u64 \<times> u64 \<times> u64) option" where
  "elf_image bs =
     (let file_size = of_nat (length bs) :: u32; eh = ehdr_at bs
      in if file_size < 64 then None
         else if take 6 (eh_ident eh) \<noteq> [0x7F, 0x45, 0x4C, 0x46, 2, 1] \<or> eh_machine eh \<noteq> 62 \<or>
                 (eh_type eh \<noteq> 2 \<and> eh_type eh \<noteq> 3) \<or> \<not> phdr_bounds eh file_size then None
         else
           let ps = map (\<lambda>i. phdr_at bs (unat (eh_phoff eh) + 56 * i)) [0..<unat (eh_phnum eh)]
           in case elf_scan file_size ps (0, UINT64_MAX, 0) of
                None \<Rightarrow> None
              | Some (n, s0, e0) \<Rightarrow>
                  if n = 0 \<or> s0 = UINT64_MAX \<or> e0 \<le> s0 then None
                  else (case elf_bias eh s0 e0 of
                          None \<Rightarrow> None
                        | Some bias \<Rightarrow>
                            let s = s0 + bias; e = e0 + bias; image_pages = (e - s) div PAGE_SIZE
                            in if s < PROCESS_USER_BASE \<or> e > PROCESS_USER_LIMIT \<or> e \<le> s then None
                               else if image_pages = 0 \<or> image_pages > 12 \<or>
                                       image_pages + of_nat ELF_STACK_PAGES > of_nat PROCESS_USER_MAX_PAGES then None
                               else if e \<ge> elf_stack_base then None
                               else Some (eh, ps, bias, s, e)))"

section \<open>Loading\<close>

text \<open>The result is an \<open>int\<close>: the conversion drops the bits above 31, and converting back extends bit 31.\<close>

definition page_flags_for :: "elf64_phdr list \<Rightarrow> u64 \<Rightarrow> u64" where
  "page_flags_for ps va =
     (let page = align_down va;
          hit = filter (\<lambda>p. ph_type p = 1 \<and> ph_memsz p \<noteq> 0 \<and>
                  (let e = elf_align_up (ph_vaddr p + ph_memsz p)
                   in \<not> (e = 0 \<or> page < align_down (ph_vaddr p) \<or> page \<ge> e))) ps;
          writable = (\<exists>p \<in> set hit. ph_flags p AND 2 \<noteq> 0);
          executable = (\<exists>p \<in> set hit. ph_flags p AND 1 \<noteq> 0);
          flags = (if writable then VMM_PAGE_WRITABLE else 0) OR (if \<not> executable then VMM_PAGE_NX else 0)
      in scast (ucast flags :: u32))"

fun elf_map_pages :: "u64 \<Rightarrow> (u64 \<times> u64) list \<Rightarrow> kern \<Rightarrow> bool \<times> kern" where
  "elf_map_pages pid [] k = (True, k)"
| "elf_map_pages pid ((va, flags) # vs) k =
     (case process_map_user_page pid va flags k of
        (False, k1) \<Rightarrow> (False, k1)
      | (True, k1) \<Rightarrow>
          (case process_user_zero pid va PAGE_SIZE k1 of
             (False, k2) \<Rightarrow> (False, k2)
           | (True, k2) \<Rightarrow> elf_map_pages pid vs k2))"

fun elf_copy_segments :: "u64 \<Rightarrow> u8 list \<Rightarrow> u64 \<Rightarrow> elf64_phdr list \<Rightarrow> kern \<Rightarrow> bool \<times> kern" where
  "elf_copy_segments pid bs bias [] k = (True, k)"
| "elf_copy_segments pid bs bias (p # ps) k =
     (if ph_type p \<noteq> 1 \<or> ph_filesz p = 0 then elf_copy_segments pid bs bias ps k
      else case process_user_copy pid (ph_vaddr p + bias) (Some (\<lambda>i. bs ! (unat (ph_offset p) + i))) (ph_filesz p) k of
             (False, k1) \<Rightarrow> (False, k1)
           | (True, k1) \<Rightarrow> elf_copy_segments pid bs bias ps k1)"

definition elf_page_list :: "elf64_phdr list \<Rightarrow> u64 \<Rightarrow> u64 \<Rightarrow> u64 \<Rightarrow> (u64 \<times> u64) list" where
  "elf_page_list ps bias s e =
     map (\<lambda>i. let va = s + of_nat i * PAGE_SIZE in (va, page_flags_for ps (va - bias))) [0..<unat ((e - s) div PAGE_SIZE)] @
     map (\<lambda>i. (elf_stack_base + of_nat i * PAGE_SIZE, VMM_PAGE_WRITABLE OR VMM_PAGE_NX)) [0..<ELF_STACK_PAGES]"

definition nexus_elf_load_process :: "u64 \<Rightarrow> string \<Rightarrow> 'd fat \<Rightarrow> kern \<Rightarrow> (bool \<times> kern) option" where
  "nexus_elf_load_process pid path f k =
     (case process_get pid k of
        None \<Rightarrow> Some (False, k)
      | Some i \<Rightarrow>
          if p_state (proc_at k i) = PROCESS_ZOMBIE \<or> p_page_count (proc_at k i) \<noteq> 0 then Some (False, k)
          else (case fat32_read_file path 65536 f of
                  None \<Rightarrow> None
                | Some None \<Rightarrow> Some (False, k)
                | Some (Some bs) \<Rightarrow>
                    (case elf_image bs of
                       None \<Rightarrow> Some (False, k)
                     | Some (eh, ps, bias, s, e) \<Rightarrow>
                         let (ok1, k1) = elf_map_pages pid (elf_page_list ps bias s e) k;
                             (ok2, k2) = (if ok1 then elf_copy_segments pid bs bias ps k1 else (False, k1));
                             entry = eh_entry eh + bias
                         in if \<not> ok2 \<or> entry < s \<or> entry \<ge> e then Some (False, snd (process_unmap_user_memory pid k2))
                            else (case process_get pid k2 of
                                    None \<Rightarrow> Some (False, snd (process_unmap_user_memory pid k2))
                                  | Some j \<Rightarrow>
                                      Some (True, upd_proc j (\<lambda>p. p\<lparr>p_user_entry := entry, p_stack_base := PROCESS_USER_STACK_TOP,
                                        p_stack_size := of_nat ELF_STACK_PAGES * PAGE_SIZE, p_pages_reserved := of_nat (p_page_count p),
                                        p_flags := p_flags p OR PROCESS_FLAG_USER_CONTEXT\<rparr>) k2)))))"

section \<open>Where a program is placed\<close>

lemma unat_elf_align_up:
  "unat (elf_align_up x) = (if unat x > 18446744073709547520 then 0 else 4096 * ((unat x + 4095) div 4096))"
proof (cases "unat x > 18446744073709547520")
  case True
  then show ?thesis by (simp add: elf_align_up_def word_less_nat_alt)
next
  case False
  then have "elf_align_up x = align_up x" by (simp add: elf_align_up_def align_up_def word_less_nat_alt)
  then show ?thesis using False by (simp add: unat_align_up)
qed

text \<open>A segment whose data lie in the file and whose pages lie between two addresses.\<close>

definition segment_in :: "nat \<Rightarrow> nat \<Rightarrow> nat \<Rightarrow> elf64_phdr \<Rightarrow> bool" where
  "segment_in len s e p \<longleftrightarrow> ph_type p = 1 \<longrightarrow> ph_filesz p \<le> ph_memsz p \<and> 0 < unat (ph_memsz p) \<and>
     unat (ph_offset p) + unat (ph_filesz p) \<le> len \<and> s \<le> unat (ph_vaddr p) \<and> unat (ph_vaddr p) + unat (ph_memsz p) \<le> e"

lemma segment_in_mono: "segment_in len s e p \<Longrightarrow> s' \<le> s \<Longrightarrow> e \<le> e' \<Longrightarrow> segment_in len s' e' p"
  by (auto simp: segment_in_def)

lemma unat_user_limits: "unat PROCESS_USER_BASE = 4194304" "unat PROCESS_USER_LIMIT = 140737488351232"
  by (simp_all add: PROCESS_USER_BASE_def PROCESS_USER_LIMIT_def)

definition image_ok :: "u64 \<times> u64 \<Rightarrow> bool" where
  "image_ok se \<longleftrightarrow> 4096 dvd unat (snd se) \<and> (fst se = UINT64_MAX \<or> 4096 dvd unat (fst se)) \<and> unat (snd se) \<le> unat PROCESS_USER_LIMIT"

lemma elf_scan_step:
  assumes "ph_type p = 1" "elf_scan sz (p # ps) (n, s, e) = Some r" "unat (ucast sz :: u64) \<le> len" "image_ok (s, e)"
  obtains n' s' e' where "elf_scan sz ps (n', s', e') = Some r" "segment_in len (unat s') (unat e') p" "unat s' \<le> unat s" "unat e \<le> unat e'"
    "image_ok (s', e')" "unat s' \<ge> min (unat s) 4194304"
proof -
  let ?s = "align_down (ph_vaddr p)" and ?e = "elf_align_up (ph_vaddr p + ph_memsz p)"
  have c: "0 < unat (ph_memsz p)" "unat (ph_filesz p) \<le> unat (ph_memsz p)" "unat (ph_offset p) \<le> unat (ucast sz :: u64)"
      "unat (ph_filesz p) \<le> unat (ucast sz - ph_offset p)" "4194304 \<le> unat (ph_vaddr p)" "unat (ph_vaddr p) < 140737488351232"
      "ph_memsz p \<le> PROCESS_USER_LIMIT - ph_vaddr p" "?e \<noteq> 0" "unat ?s < unat ?e"
    and r: "elf_scan sz ps (n + 1, if ?s < s then ?s else s, if ?e > e then ?e else e) = Some r"
    using assms(1,2) by (auto simp: Let_def range_ok_def not_less not_le word_le_nat_alt word_less_nat_alt unat_user_limits unat_gt_0 split: if_splits)
  have off: "unat (ph_offset p) + unat (ph_filesz p) \<le> len"
    using c(3,4) assms(3) unat_sub [of "ph_offset p" "ucast sz"] by (simp add: word_le_nat_alt)
  have lim: "unat (ph_vaddr p) + unat (ph_memsz p) \<le> 140737488351232"
    using c(6,7) unat_sub [of "ph_vaddr p" PROCESS_USER_LIMIT] by (simp add: word_le_nat_alt unat_user_limits)
  then have sum: "unat (ph_vaddr p + ph_memsz p) = unat (ph_vaddr p) + unat (ph_memsz p)" by (intro unat_add_u64) simp
  have e: "unat ?e = 4096 * ((unat (ph_vaddr p) + unat (ph_memsz p) + 4095) div 4096)" using lim by (simp add: unat_elf_align_up sum)
  have s: "unat ?s = 4096 * (unat (ph_vaddr p) div 4096)" by (rule unat_align_down)
  have "(unat (ph_vaddr p) + unat (ph_memsz p) + 4095) div 4096 \<le> (140737488351232 + 4095) div 4096"
    using lim by (intro div_le_mono) simp
  then have "unat ?e \<le> 140737488351232" unfolding e by simp
  moreover have "4194304 div 4096 \<le> unat (ph_vaddr p) div 4096" using c(5) by (intro div_le_mono)
  then have "unat ?s \<ge> 4194304" unfolding s by simp
  moreover have "segment_in len (unat ?s) (unat ?e) p"
    unfolding segment_in_def s e using c(1,2) off by (auto simp: word_le_nat_alt)
  ultimately show ?thesis
    using assms(4) s e
    by (intro that [OF r]) (auto simp: image_ok_def unat_user_limits word_less_nat_alt not_less elim!: segment_in_mono)
qed

lemma elf_scan_spec:
  assumes "elf_scan sz ps (n, s, e) = Some (n', s', e')" "unat (ucast sz :: u64) \<le> len" "image_ok (s, e)"
  shows "(\<forall>p\<in>set ps. segment_in len (unat s') (unat e') p) \<and> unat s' \<le> unat s \<and> unat e \<le> unat e' \<and> image_ok (s', e') \<and>
    unat s' \<ge> min (unat s) 4194304"
  using assms
proof (induction ps arbitrary: n s e)
  case (Cons p ps)
  show ?case
  proof (cases "ph_type p = 1")
    case True
    show ?thesis
    proof (rule elf_scan_step [OF True Cons.prems])
      fix n1 s1 e1
      assume 1: "elf_scan sz ps (n1, s1, e1) = Some (n', s', e')" "segment_in len (unat s1) (unat e1) p" "unat s1 \<le> unat s"
        "unat e \<le> unat e1" "image_ok (s1, e1)" "unat s1 \<ge> min (unat s) 4194304"
      note IH = Cons.IH [OF 1(1) Cons.prems(2) 1(5)]
      then show ?thesis using 1 segment_in_mono [OF 1(2)] by auto
    qed
  next
    case False
    then show ?thesis using Cons by (simp add: segment_in_def)
  qed
qed simp

lemma unat_rebase:
  assumes "unat s \<le> unat x" "unat x \<le> 140737488351232" shows "unat (x + (IMAGE_BASE - s)) = unat x - unat s + 4194304"
proof -
  have "unat (x - s) = unat x - unat s" using assms(1) by (simp add: unat_sub word_le_nat_alt)
  then have "unat (x - s + IMAGE_BASE) = unat x - unat s + 4194304"
    using assms(2) by (subst unat_add_u64) simp_all
  then show ?thesis by (simp add: algebra_simps)
qed

text \<open>Displacing an image moves every address in it by the same amount.\<close>

lemma elf_bias_spec:
  assumes "elf_bias eh s0 e0 = Some bias" "4194304 \<le> unat s0" "unat e0 \<le> 140737488351232"
    "4096 dvd unat s0" "4096 dvd unat e0" "unat s0 \<le> unat e0"
  obtains d d' :: nat where "\<And>x. unat s0 \<le> unat x \<Longrightarrow> unat x \<le> unat e0 \<Longrightarrow> unat (x + bias) + d' = unat x + d" "4096 dvd d" "4096 dvd d'"
proof (cases "eh_type eh = 3")
  case True
  then have b: "bias = IMAGE_BASE - s0" using assms(1) by (auto simp: elf_bias_def Let_def split: if_splits)
  show ?thesis using assms(2-4) by (intro that [of "unat s0" 4194304]) (auto simp: b unat_rebase dvd_def)
next
  case False
  then show ?thesis using assms(1) by (intro that [of 0 0]) (auto simp: elf_bias_def)
qed

text \<open>
  C17. Every file the loader accepts is placed safely: the image is a non-empty range of at most 12 whole pages inside
  user space and below the stack, every loadable segment lies, after the displacement, entirely inside it, and every
  byte copied from the file lies inside the file.
\<close>

theorem elf_image_bounds:
  assumes "elf_image bs = Some (eh, ps, bias, s, e)" "length bs \<le> 65536"
  shows "4096 dvd unat s \<and> 4096 dvd unat e \<and> unat PROCESS_USER_BASE \<le> unat s \<and> unat s < unat e \<and>
    unat e < unat elf_stack_base \<and> (unat e - unat s) div 4096 \<le> 12 \<and>
    (\<forall>p\<in>set ps. ph_type p = 1 \<longrightarrow> unat (ph_offset p) + unat (ph_filesz p) \<le> length bs \<and> ph_filesz p \<le> ph_memsz p \<and>
       unat s \<le> unat (ph_vaddr p + bias) \<and> unat (ph_vaddr p + bias) + unat (ph_memsz p) \<le> unat e)"
proof -
  define sz where "sz = (of_nat (length bs) :: u32)"
  have l: "unat sz = length bs" using assms(2) by (simp add: sz_def unat_of_nat_u32)
  then have sz: "unat (ucast sz :: u64) \<le> length bs" by (simp add: unsigned_ucast_eq take_bit_nat_less_eq_self)
  obtain n s0 e0 where sc: "elf_scan sz ps (0, UINT64_MAX, 0) = Some (n, s0, e0)" "s0 \<noteq> UINT64_MAX" "\<not> e0 \<le> s0" "elf_bias eh s0 e0 = Some bias"
      and se: "s = s0 + bias" "e = e0 + bias" "\<not> s < PROCESS_USER_BASE" "\<not> e \<le> s" "\<not> (e - s) div PAGE_SIZE > 12" "\<not> e \<ge> elf_stack_base"
    using assms(1) unfolding elf_image_def sz_def [symmetric] Let_def by (auto split: if_splits option.splits)
  have "image_ok (UINT64_MAX, 0)" by (simp add: image_ok_def)
  note S = elf_scan_spec [OF sc(1) sz this]
  have ok: "4096 dvd unat s0" "4096 dvd unat e0" "unat e0 \<le> 140737488351232" "4194304 \<le> unat s0" "unat s0 \<le> unat e0"
    using S sc(2,3) by (auto simp: image_ok_def unat_user_limits word_le_nat_alt)
  obtain d d' where d: "\<And>x. unat s0 \<le> unat x \<Longrightarrow> unat x \<le> unat e0 \<Longrightarrow> unat (x + bias) + d' = unat x + d" "4096 dvd d" "4096 dvd d'"
    using elf_bias_spec [OF sc(4) ok(4,3,1,2,5)] by metis
  have us: "unat s + d' = unat s0 + d" "unat e + d' = unat e0 + d" using d(1) [of s0] d(1) [of e0] ok(5) se by auto
  then have al: "4096 dvd unat s" "4096 dvd unat e" using ok(1,2) d(2,3) by (metis dvd_add dvd_add_left_iff)+
  have lt: "unat s < unat e" "unat PROCESS_USER_BASE \<le> unat s" "unat e < unat elf_stack_base" using se(3,4,6) by (simp_all add: word_le_nat_alt word_less_nat_alt not_le not_less)
  have pg: "(unat e - unat s) div 4096 \<le> 12"
    using se(5) lt(1) by (simp add: word_less_nat_alt not_less unat_div_u64 unat_sub word_le_nat_alt)
  have "unat (ph_offset p) + unat (ph_filesz p) \<le> length bs \<and> ph_filesz p \<le> ph_memsz p \<and>
       unat s \<le> unat (ph_vaddr p + bias) \<and> unat (ph_vaddr p + bias) + unat (ph_memsz p) \<le> unat e" if p: "p \<in> set ps" "ph_type p = 1" for p
  proof -
    have i: "segment_in (length bs) (unat s0) (unat e0) p" using S p(1) by blast
    then have "unat (ph_vaddr p + bias) + d' = unat (ph_vaddr p) + d" using p(2) by (intro d(1)) (auto simp: segment_in_def)
    then show ?thesis using i p(2) us by (auto simp: segment_in_def)
  qed
  then show ?thesis using al lt pg by blast
qed

text \<open>A small program: one segment of 64 bytes, readable, writable and executable, at the start of user space.\<close>

definition ex_elf :: "u8 list" where
  "ex_elf = [0x7F, 0x45, 0x4C, 0x46, 2, 1, 1, 0, 0, 0, 0, 0, 0, 0, 0, 0] @ put16 2 @ put16 62 @ put32 1 @
     put32 0x400000 @ put32 0 @ put32 64 @ put32 0 @ put32 0 @ put32 0 @ put32 0 @ put16 64 @ put16 56 @ put16 1 @ put16 0 @ put16 0 @ put16 0 @
     put32 1 @ put32 6 @ put32 0 @ put32 0 @ put32 0x400000 @ put32 0 @ put32 0x400000 @ put32 0 @ put32 120 @ put32 0 @ put32 128 @ put32 0 @
     put32 0 @ put32 0"

lemma ex_elf_image: "map_option (\<lambda>(eh, ps, bias, s, e). (bias, s, e)) (elf_image ex_elf) = Some (0, 0x400000, 0x401000)"
  by code_simp

theorem elf_image_bounds_witness:
  "\<exists>eh ps. elf_image ex_elf = Some (eh, ps, 0, 0x400000, 0x401000) \<and> (\<forall>p\<in>set ps. ph_type p = 1 \<longrightarrow> unat (ph_vaddr p) + unat (ph_memsz p) \<le> 0x401000)"
proof -
  obtain eh ps where i: "elf_image ex_elf = Some (eh, ps, 0, 0x400000, 0x401000)" using ex_elf_image by auto
  have "length ex_elf \<le> 65536" by (simp add: ex_elf_def put16_def put32_def)
  from elf_image_bounds [OF i this] i show ?thesis by simp
qed

text \<open>
  The loader never marks a page as not executable: the flag is bit 63, and \<open>page_flags_for\<close> returns an \<open>int\<close>.  Every
  page of every program, its writable data included, is executable, whatever the segment flags say; the
  writable bit survives.
\<close>

lemma elf_pages_executable:
  "page_flags_for ps va AND VMM_PAGE_NX = 0 \<and>
   (page_flags_for ps va AND VMM_PAGE_WRITABLE \<noteq> 0 \<longleftrightarrow>
     (\<exists>p \<in> set ps. ph_type p = 1 \<and> ph_memsz p \<noteq> 0 \<and> elf_align_up (ph_vaddr p + ph_memsz p) \<noteq> 0 \<and>
        align_down (ph_vaddr p) \<le> align_down va \<and> align_down va < elf_align_up (ph_vaddr p + ph_memsz p) \<and> ph_flags p AND 2 \<noteq> 0))"
proof -
  define hit where "hit = filter (\<lambda>p. ph_type p = 1 \<and> ph_memsz p \<noteq> 0 \<and>
      (let e = elf_align_up (ph_vaddr p + ph_memsz p) in \<not> (e = 0 \<or> align_down va < align_down (ph_vaddr p) \<or> align_down va \<ge> e))) ps"
  have f: "page_flags_for ps va = (if \<exists>p\<in>set hit. ph_flags p AND 2 \<noteq> 0 then 2 else 0)"
  proof -
    have "page_flags_for ps va = scast (ucast ((if \<exists>p\<in>set hit. ph_flags p AND 2 \<noteq> 0 then VMM_PAGE_WRITABLE else 0) OR
        (if \<not> (\<exists>p\<in>set hit. ph_flags p AND 1 \<noteq> 0) then VMM_PAGE_NX else 0)) :: u32)"
      unfolding page_flags_for_def hit_def Let_def ..
    then show ?thesis
      by (cases "\<exists>p\<in>set hit. ph_flags p AND 2 \<noteq> 0"; cases "\<exists>p\<in>set hit. ph_flags p AND 1 \<noteq> 0")
        (simp_all only: if_True if_False VMM_PAGE_WRITABLE_def VMM_PAGE_NX_def, simp_all)
  qed
  then show ?thesis by (auto simp: VMM_PAGE_WRITABLE_def VMM_PAGE_NX_def hit_def Let_def not_less not_le)
qed

end
