(* ===== verification/Syscall.thy ===== *)
theory Syscall
  imports Scheduler Vfs Elf_Loader
begin

text \<open>
  System calls (\<open>kernel/core/syscall/syscall.c\<close>), with the file descriptors of \<open>process.c\<close> that reach the file system
  and the runtime description of \<open>kernel/core/runtime/runtime.c\<close>.  This is where the components meet: a call is made
  by the current process of the scheduler's state, checks its capabilities and its user memory, and works on the
  process table, the channels, the page tables, the file system and the loader.  The state \<open>sys\<close> joins
  the state of the scheduler, which holds the kernel below it, with that of the file system; \<open>y_console\<close> is
  what was printed and \<open>y_stack\<close> what an uninitialised buffer on the kernel stack holds.  The result \<open>None\<close> means that
  the call does not return.
\<close>

unbundle bit_operations_syntax

section \<open>File descriptors\<close>

definition process_fd_open :: "u64 \<Rightarrow> string \<Rightarrow> u32 \<Rightarrow> kern \<Rightarrow> 'd vfs \<Rightarrow> (nat option \<times> kern \<times> 'd vfs) option" where
  "process_fd_open pid path flags k v =
     (case process_get pid k of
        None \<Rightarrow> Some (None, k, v)
      | Some i \<Rightarrow>
          if p_state (proc_at k i) = PROCESS_ZOMBIE \<or> path = [] then Some (None, k, v)
          else (case find (\<lambda>j. fd_type (p_fds (proc_at k i) ! j) = PROCESS_FD_UNUSED) [0..<PROCESS_MAX_FDS] of
                  None \<Rightarrow> Some (None, k, v)
                | Some fd \<Rightarrow>
                    (case vfs_file_size_path path v of
                       None \<Rightarrow> None
                     | Some sz \<Rightarrow>
                         if sz = None \<and> flags AND 4 = 0 then Some (None, k, v)
                         else (case (if sz = None then vfs_write_path path [] 0 v else Some (Some 0, v)) of
                                 None \<Rightarrow> None
                               | Some (None, v1) \<Rightarrow> Some (None, k, v1)
                               | Some (Some _, v1) \<Rightarrow>
                                   (case (if flags AND 8 \<noteq> 0 then vfs_write_path path [] 0 v1 else Some (Some 0, v1)) of
                                      None \<Rightarrow> None
                                    | Some (None, v2) \<Rightarrow> Some (None, k, v2)
                                    | Some (Some _, v2) \<Rightarrow>
                                        let size1 = (if flags AND 8 \<noteq> 0 then 0 else case sz of None \<Rightarrow> 0 | Some n \<Rightarrow> n)
                                        in Some (Some fd, upd_fd i fd (\<lambda>f. f\<lparr>fd_type := PROCESS_FD_VFS_FILE, fd_flags := flags,
                                             fd_object := 0, fd_offset := (if flags AND 16 \<noteq> 0 then size1 else 0),
                                             fd_path := local_copy (Some path) PROCESS_CWD_LEN\<rparr>) k, v2))))))"

text \<open>The slot of the process, when the descriptor is an open file.\<close>

definition file_fd :: "u64 \<Rightarrow> u64 \<Rightarrow> kern \<Rightarrow> nat option" where
  "file_fd pid fd k =
     (case process_get pid k of
        None \<Rightarrow> None
      | Some i \<Rightarrow> if fd \<ge> of_nat PROCESS_MAX_FDS \<or> fd_type (p_fds (proc_at k i) ! unat fd) \<noteq> PROCESS_FD_VFS_FILE then None else Some i)"

abbreviation fd_at :: "kern \<Rightarrow> nat \<Rightarrow> u64 \<Rightarrow> process_fd" where
  "fd_at k i fd \<equiv> p_fds (proc_at k i) ! unat fd"

definition process_fd_read :: "u64 \<Rightarrow> u64 \<Rightarrow> u64 \<Rightarrow> kern \<Rightarrow> 'd vfs \<Rightarrow> (u8 list option \<times> kern) option" where
  "process_fd_read pid fd n k v =
     (case file_fd pid fd k of
        None \<Rightarrow> Some (None, k)
      | Some i \<Rightarrow>
          if n = 0 then Some (None, k)
          else (case vfs_read_path (fd_path (fd_at k i fd)) n (fd_offset (fd_at k i fd)) v of
                  None \<Rightarrow> None
                | Some None \<Rightarrow> Some (None, k)
                | Some (Some bs) \<Rightarrow>
                    Some (Some bs, upd_fd i (unat fd) (\<lambda>f. f\<lparr>fd_offset := fd_offset f + of_nat (length bs)\<rparr>) k)))"

definition process_fd_write :: "u64 \<Rightarrow> u64 \<Rightarrow> u8 list \<Rightarrow> kern \<Rightarrow> 'd vfs \<Rightarrow> (u64 option \<times> kern \<times> 'd vfs) option" where
  "process_fd_write pid fd bs k v =
     (case file_fd pid fd k of
        None \<Rightarrow> Some (None, k, v)
      | Some i \<Rightarrow>
          if fd_flags (fd_at k i fd) AND 2 = 0 then Some (None, k, v)
          else (case vfs_write_path (fd_path (fd_at k i fd)) bs (fd_offset (fd_at k i fd)) v of
                  None \<Rightarrow> None
                | Some (None, v1) \<Rightarrow> Some (None, k, v1)
                | Some (Some n, v1) \<Rightarrow> Some (Some n, upd_fd i (unat fd) (\<lambda>f. f\<lparr>fd_offset := fd_offset f + n\<rparr>) k, v1)))"

definition process_fd_seek :: "u64 \<Rightarrow> u64 \<Rightarrow> u64 \<Rightarrow> u32 \<Rightarrow> kern \<Rightarrow> 'd vfs \<Rightarrow> (u64 option \<times> kern) option" where
  "process_fd_seek pid fd off whence k v =
     (case file_fd pid fd k of
        None \<Rightarrow> Some (None, k)
      | Some i \<Rightarrow>
          (case vfs_file_size_path (fd_path (fd_at k i fd)) v of
             None \<Rightarrow> None
           | Some None \<Rightarrow> Some (None, k)
           | Some (Some n) \<Rightarrow>
               let base = (if whence = 0 then 0 else if whence = 1 then fd_offset (fd_at k i fd) else n);
                   pos = base + off
               in if sint pos < 0 then Some (None, k)
                  else Some (Some pos, upd_fd i (unat fd) (\<lambda>f. f\<lparr>fd_offset := pos\<rparr>) k)))"

section \<open>The state of the system\<close>

record 'd sys =
  y_sched :: sched
  y_vfs :: "'d vfs"
  y_ready :: bool
  y_runtime :: bool
  y_console :: "u8 list"
  y_stack :: "nat \<Rightarrow> u8"

abbreviation y_kern :: "'d sys \<Rightarrow> kern" where
  "y_kern y \<equiv> s_kern (y_sched y)"

abbreviation set_kern :: "kern \<Rightarrow> 'd sys \<Rightarrow> 'd sys" where
  "set_kern k y \<equiv> y\<lparr>y_sched := (y_sched y)\<lparr>s_kern := k\<rparr>\<rparr>"

type_synonym 'd reply = "(u64 \<times> 'd sys) option"

abbreviation refuse :: "'d sys \<Rightarrow> 'd reply" where
  "refuse y \<equiv> Some (- 1, y)"

abbreviation done_if :: "bool \<times> kern \<Rightarrow> 'd sys \<Rightarrow> 'd reply" where
  "done_if r y \<equiv> (case r of (ok, k) \<Rightarrow> Some (if ok then 0 else - 1, set_kern k y))"

abbreviation put64 :: "u64 \<Rightarrow> u8 list" where
  "put64 w \<equiv> put32 (ucast w) @ put32 (ucast (drop_bit 32 w))"

abbreviation c_text :: "u8 list \<Rightarrow> string" where
  "c_text bs \<equiv> map byte_char (takeWhile (\<lambda>b. b \<noteq> 0) bs)"

datatype nexus_syscall =
    NEXUS_SYS_NOP | NEXUS_SYS_EXIT | NEXUS_SYS_GETPID | NEXUS_SYS_WRITE | NEXUS_SYS_CLOSE | NEXUS_SYS_GETPPID |
    NEXUS_SYS_OPEN | NEXUS_SYS_READ | NEXUS_SYS_SEEK | NEXUS_SYS_TELL | NEXUS_SYS_STAT | NEXUS_SYS_MKDIR |
    NEXUS_SYS_RMDIR | NEXUS_SYS_UNLINK | NEXUS_SYS_RENAME | NEXUS_SYS_GETCWD | NEXUS_SYS_CHDIR |
    NEXUS_SYS_PROCESS_ENUM | NEXUS_SYS_WAITPID | NEXUS_SYS_GETPRIORITY | NEXUS_SYS_SETPRIORITY | NEXUS_SYS_GETNAME |
    NEXUS_SYS_SETNAME | NEXUS_SYS_EXEC | NEXUS_SYS_MMAP | NEXUS_SYS_MUNMAP | NEXUS_SYS_BRK | NEXUS_SYS_GETCPUTICKS |
    NEXUS_SYS_GETSTARTTICK | NEXUS_SYS_GETUPTIME_MS | NEXUS_SYS_PROCESS_COUNT | NEXUS_SYS_ZOMBIE_COUNT |
    NEXUS_SYS_GETENV | NEXUS_SYS_SETENV | NEXUS_SYS_UNSETENV | NEXUS_SYS_FD_COUNT | NEXUS_SYS_MEMINFO |
    NEXUS_SYS_GETTID | NEXUS_SYS_GETVERSION | NEXUS_SYS_GETARCH | NEXUS_SYS_GETPAGESIZE | NEXUS_SYS_GETUSERBASE |
    NEXUS_SYS_GETUSERLIMIT | NEXUS_SYS_GETSTACKTOP | NEXUS_SYS_GETHEAPBASE | NEXUS_SYS_GETHEAPEND |
    NEXUS_SYS_GETFDTYPE | NEXUS_SYS_GETFDOFFSET | NEXUS_SYS_GETFD_FLAGS | NEXUS_SYS_GETQUANTUM_EXPIRATIONS |
    NEXUS_SYS_GETCONTEXT_SWITCHES | NEXUS_SYS_GETTIMER_HZ | NEXUS_SYS_GETQUANTUM_TICKS | NEXUS_SYS_GETTHREAD_COUNT |
    NEXUS_SYS_GETMAX_THREADS | NEXUS_SYS_GETREADY_COUNT | NEXUS_SYS_GETSLEEPING_COUNT | NEXUS_SYS_GETTHREAD_SWITCHES |
    NEXUS_SYS_GETTHREAD_RUNTIME | NEXUS_SYS_RUNTIME_INFO | NEXUS_SYS_CHANNEL_CREATE | NEXUS_SYS_CHANNEL_CLOSE |
    NEXUS_SYS_CHANNEL_SEND | NEXUS_SYS_CHANNEL_RECV | NEXUS_SYS_CHANNEL_POLL | NEXUS_SYS_GETCAPS | NEXUS_SYS_HAS_CAP |
    NEXUS_SYS_DROP_CAP

definition syscall_of :: "u64 \<Rightarrow> nexus_syscall option" where
  "syscall_of number =
     (if number \<ge> 68 then None
      else Some ([NEXUS_SYS_NOP, NEXUS_SYS_EXIT, NEXUS_SYS_GETPID, NEXUS_SYS_WRITE, NEXUS_SYS_CLOSE, NEXUS_SYS_GETPPID,
         NEXUS_SYS_OPEN, NEXUS_SYS_READ, NEXUS_SYS_SEEK, NEXUS_SYS_TELL, NEXUS_SYS_STAT, NEXUS_SYS_MKDIR,
         NEXUS_SYS_RMDIR, NEXUS_SYS_UNLINK, NEXUS_SYS_RENAME, NEXUS_SYS_GETCWD, NEXUS_SYS_CHDIR,
         NEXUS_SYS_PROCESS_ENUM, NEXUS_SYS_WAITPID, NEXUS_SYS_GETPRIORITY, NEXUS_SYS_SETPRIORITY, NEXUS_SYS_GETNAME,
         NEXUS_SYS_SETNAME, NEXUS_SYS_EXEC, NEXUS_SYS_MMAP, NEXUS_SYS_MUNMAP, NEXUS_SYS_BRK, NEXUS_SYS_GETCPUTICKS,
         NEXUS_SYS_GETSTARTTICK, NEXUS_SYS_GETUPTIME_MS, NEXUS_SYS_PROCESS_COUNT, NEXUS_SYS_ZOMBIE_COUNT,
         NEXUS_SYS_GETENV, NEXUS_SYS_SETENV, NEXUS_SYS_UNSETENV, NEXUS_SYS_FD_COUNT, NEXUS_SYS_MEMINFO,
         NEXUS_SYS_GETTID, NEXUS_SYS_GETVERSION, NEXUS_SYS_GETARCH, NEXUS_SYS_GETPAGESIZE, NEXUS_SYS_GETUSERBASE,
         NEXUS_SYS_GETUSERLIMIT, NEXUS_SYS_GETSTACKTOP, NEXUS_SYS_GETHEAPBASE, NEXUS_SYS_GETHEAPEND,
         NEXUS_SYS_GETFDTYPE, NEXUS_SYS_GETFDOFFSET, NEXUS_SYS_GETFD_FLAGS, NEXUS_SYS_GETQUANTUM_EXPIRATIONS,
         NEXUS_SYS_GETCONTEXT_SWITCHES, NEXUS_SYS_GETTIMER_HZ, NEXUS_SYS_GETQUANTUM_TICKS, NEXUS_SYS_GETTHREAD_COUNT,
         NEXUS_SYS_GETMAX_THREADS, NEXUS_SYS_GETREADY_COUNT, NEXUS_SYS_GETSLEEPING_COUNT, NEXUS_SYS_GETTHREAD_SWITCHES,
         NEXUS_SYS_GETTHREAD_RUNTIME, NEXUS_SYS_RUNTIME_INFO, NEXUS_SYS_CHANNEL_CREATE, NEXUS_SYS_CHANNEL_CLOSE,
         NEXUS_SYS_CHANNEL_SEND, NEXUS_SYS_CHANNEL_RECV, NEXUS_SYS_CHANNEL_POLL, NEXUS_SYS_GETCAPS, NEXUS_SYS_HAS_CAP,
         NEXUS_SYS_DROP_CAP] ! unat number))"

section \<open>User memory\<close>

definition copy_user_string :: "u64 \<Rightarrow> u64 \<Rightarrow> nat \<Rightarrow> kern \<Rightarrow> string option" where
  "copy_user_string pid va cap k =
     (if cap < 2 \<or> \<not> process_user_range_valid pid va (of_nat cap) VMM_PAGE_WRITABLE k then None
      else case process_user_read pid va (of_nat (cap - 1)) k of
             (False, _) \<Rightarrow> None
           | (True, bs) \<Rightarrow> if 0 \<in> set bs then Some (c_text bs) else None)"

text \<open>Write the bytes to user memory and answer \<open>r\<close> if that succeeds.\<close>

definition put_user :: "u64 \<Rightarrow> u64 \<Rightarrow> u8 list \<Rightarrow> u64 \<Rightarrow> 'd sys \<Rightarrow> 'd reply" where
  "put_user pid va bs r y =
     (case process_user_write pid va (Some (\<lambda>i. bs ! i)) (of_nat (length bs)) (y_kern y) of
        (ok, k) \<Rightarrow> Some (if ok then r else - 1, set_kern k y))"

text \<open>Answer with a string: as many characters as fit, and the byte behind them, which is the terminating zero unless
  the string was cut.\<close>

definition put_text :: "u64 \<Rightarrow> u64 \<Rightarrow> u64 \<Rightarrow> string \<Rightarrow> 'd sys \<Rightarrow> 'd reply" where
  "put_text pid va cap s y =
     (let len = min (length s) (unat cap - 1)
      in put_user pid va (take (len + 1) (text_bytes s @ [0])) (of_nat len) y)"

section \<open>Calls\<close>

definition sys_write :: "u64 \<Rightarrow> u64 \<Rightarrow> u64 \<Rightarrow> u64 \<Rightarrow> 'd sys \<Rightarrow> 'd reply" where
  "sys_write pid fd va n y =
     (if n = 0 \<or> n > 4096 \<or> \<not> process_fd_is_valid pid fd (y_kern y) \<or> \<not> process_user_range_valid pid va n 0 (y_kern y) then refuse y
      else case process_user_read pid va n (y_kern y) of
             (False, _) \<Rightarrow> refuse y
           | (True, bs) \<Rightarrow>
               if process_fd_is_writable pid fd (y_kern y) then Some (n, y\<lparr>y_console := y_console y @ bs\<rparr>)
               else (case process_fd_write pid fd bs (y_kern y) (y_vfs y) of
                       None \<Rightarrow> None
                     | Some (r, k, v) \<Rightarrow> Some (case r of None \<Rightarrow> - 1 | Some m \<Rightarrow> m, (set_kern k y)\<lparr>y_vfs := v\<rparr>)))"

definition sys_read :: "u64 \<Rightarrow> u64 \<Rightarrow> u64 \<Rightarrow> u64 \<Rightarrow> 'd sys \<Rightarrow> 'd reply" where
  "sys_read pid fd va n y =
     (if n = 0 \<or> n > 4096 \<or> \<not> process_fd_is_valid pid fd (y_kern y) \<or> \<not> process_user_range_valid pid va n VMM_PAGE_WRITABLE (y_kern y)
      then refuse y
      else case process_fd_read pid fd n (y_kern y) (y_vfs y) of
             None \<Rightarrow> None
           | Some (None, k) \<Rightarrow> refuse (set_kern k y)
           | Some (Some bs, k) \<Rightarrow> put_user pid va bs (of_nat (length bs)) (set_kern k y))"

definition sys_stat :: "u64 \<Rightarrow> u64 \<Rightarrow> u64 \<Rightarrow> 'd sys \<Rightarrow> 'd reply" where
  "sys_stat pid a0 a1 y =
     (case copy_user_string pid a0 PROCESS_CWD_LEN (y_kern y) of
        None \<Rightarrow> refuse y
      | Some path \<Rightarrow>
          if \<not> process_user_range_valid pid a1 24 VMM_PAGE_WRITABLE (y_kern y) then refuse y
          else (case vfs_file_size_path path (y_vfs y) of
                  None \<Rightarrow> None
                | Some (Some n) \<Rightarrow> put_user pid a1 (put64 n @ put64 1 @ put64 0) 0 y
                | Some None \<Rightarrow>
                    (case vfs_is_dir_path path (y_vfs y) of
                       None \<Rightarrow> None
                     | Some d \<Rightarrow> if d then put_user pid a1 (put64 0 @ put64 2 @ put64 0) 0 y else refuse y)))"

text \<open>A call that takes a path: the file system answers with 0 or \<open>-1\<close>.\<close>

definition sys_path :: "u64 \<Rightarrow> u64 \<Rightarrow> (string \<Rightarrow> 'd vfs \<Rightarrow> (int \<times> 'd vfs) option) \<Rightarrow> u64 \<Rightarrow> 'd sys \<Rightarrow> 'd reply" where
  "sys_path pid cap operation a0 y =
     (if \<not> process_has_capability pid cap (y_kern y) then refuse y
      else case copy_user_string pid a0 PROCESS_CWD_LEN (y_kern y) of
             None \<Rightarrow> refuse y
           | Some path \<Rightarrow> map_option (\<lambda>(r, v). (if r = 0 then 0 else - 1, y\<lparr>y_vfs := v\<rparr>)) (operation path (y_vfs y)))"

primrec process_enum :: "u64 \<Rightarrow> u64 \<Rightarrow> u64 \<Rightarrow> u64 list \<Rightarrow> u64 \<Rightarrow> 'd sys \<Rightarrow> 'd reply" where
  "process_enum pid va cap [] n y = Some (n, y)"
| "process_enum pid va cap (q # qs) n y =
     (if n \<ge> cap then Some (n, y)
      else case process_get q (y_kern y) of
             None \<Rightarrow> process_enum pid va cap qs n y
           | Some j \<Rightarrow>
               let p = proc_at (y_kern y) j;
                   st = (case p_state p of PROCESS_UNUSED \<Rightarrow> 0 | PROCESS_READY \<Rightarrow> 1 | PROCESS_RUNNING \<Rightarrow> 2 | PROCESS_ZOMBIE \<Rightarrow> 3);
                   info = put64 (p_pid p) @ put64 (p_parent_pid p) @ put32 st @ put32 (p_priority p) @ put64 (p_cpu_ticks p) @ put64 (p_start_tick p)
               in case process_user_write pid (va + n * 40) (Some (\<lambda>i. info ! i)) 40 (y_kern y) of
                    (False, k) \<Rightarrow> refuse (set_kern k y)
                  | (True, k) \<Rightarrow> process_enum pid va cap qs (n + 1) (set_kern k y))"

definition sys_waitpid :: "u64 \<Rightarrow> u64 \<Rightarrow> u64 \<Rightarrow> 'd sys \<Rightarrow> 'd reply" where
  "sys_waitpid pid wanted va y =
     (case find (\<lambda>q. case process_get q (y_kern y) of
                       None \<Rightarrow> False
                     | Some j \<Rightarrow> p_parent_pid (proc_at (y_kern y) j) = pid \<and> (wanted = 0 \<or> wanted = q) \<and>
                         p_state (proc_at (y_kern y) j) = PROCESS_ZOMBIE) (map of_nat [1..<4096]) of
        None \<Rightarrow> Some (0, y)
      | Some q \<Rightarrow>
          if va \<noteq> 0 \<and> process_user_range_valid pid va 8 VMM_PAGE_WRITABLE (y_kern y)
          then put_user pid va (put64 (p_exit_code (proc_at (y_kern y) (the (process_get q (y_kern y)))))) q y
          else Some (q, y))"

definition sys_exec :: "u64 \<Rightarrow> u64 \<Rightarrow> 'd sys \<Rightarrow> 'd reply" where
  "sys_exec pid a0 y =
     (if \<not> process_has_capability pid NEXUS_CAP_PROCESS_SPAWN (y_kern y) then refuse y
      else case copy_user_string pid a0 PROCESS_CWD_LEN (y_kern y) of
             None \<Rightarrow> refuse y
           | Some path \<Rightarrow>
               let (child, k1) = process_create (s_ticks (y_sched y)) pid (y_kern y);
                   give_up = (\<lambda>k. refuse (set_kern (snd (process_reap child 0 (snd (process_exit child k)))) y))
               in if child = 0 then refuse (set_kern k1 y)
                  else (case nexus_elf_load_process child path (v_fat (y_vfs y)) k1 of
                          None \<Rightarrow> None
                        | Some (False, k2) \<Rightarrow> give_up k2
                        | Some (True, k2) \<Rightarrow>
                            (case thread_create_user_process child ((y_sched y)\<lparr>s_kern := k2\<rparr>) of
                               None \<Rightarrow> None
                             | Some (tid, s3) \<Rightarrow>
                                 let y3 = y\<lparr>y_sched := s3\<rparr>; k3 = s_kern s3
                                 in if tid = 0
                                    then refuse (set_kern (snd (process_reap child 0 (snd (process_exit child k3)))) y3)
                                    else (case process_get child k3 of
                                            None \<Rightarrow> refuse (set_kern (snd (process_exit child k3)) y3)
                                          | Some c \<Rightarrow>
                                              (case usermode_prepare (s_usermode s3) child (p_user_entry (proc_at k3 c))
                                                      (p_stack_base (proc_at k3 c)) (p_kernel_stack (proc_at k3 c)) k3 of
                                                 (False, k4) \<Rightarrow> refuse (set_kern (snd (process_exit child k4)) y3)
                                               | (True, k4) \<Rightarrow>
                                                   Some (child, y3\<lparr>y_sched := scheduler_request_reschedule (s3\<lparr>s_kern := k4\<rparr>)\<rparr>))))))"

definition sys_brk :: "u64 \<Rightarrow> nat \<Rightarrow> u64 \<Rightarrow> 'd sys \<Rightarrow> 'd reply" where
  "sys_brk pid i requested y =
     (let p = proc_at (y_kern y) i; old = p_heap_end p
      in if \<not> process_has_capability pid NEXUS_CAP_MEMORY (y_kern y) then refuse y
         else if requested = 0 then Some (old, y)
         else if requested < p_heap_base p \<or> requested \<ge> PROCESS_USER_LIMIT then refuse y
         else if requested > old then
           let pages = (requested - old + 4095) div 4096;
               (base, k) = process_alloc_user_range pid pages (VMM_PAGE_WRITABLE OR VMM_PAGE_NX) (y_kern y)
           in if base = 0 \<or> base \<noteq> old then refuse (set_kern k y)
              else Some (old + pages * 4096, set_kern (upd_proc i (\<lambda>p. p\<lparr>p_heap_end := old + pages * 4096\<rparr>) k) y)
         else if requested < old then
           let cut = (old - requested + 4095) div 4096;
               base = old - cut * 4096
           in case process_unmap_user_range pid base (cut * 4096) (y_kern y) of
                (False, k) \<Rightarrow> refuse (set_kern k y)
              | (True, k) \<Rightarrow> Some (base, set_kern (upd_proc i (\<lambda>p. p\<lparr>p_heap_end := base\<rparr>) k) y)
         else Some (old, y))"

definition sys_getenv :: "u64 \<Rightarrow> u64 \<Rightarrow> u64 \<Rightarrow> u64 \<Rightarrow> 'd sys \<Rightarrow> 'd reply" where
  "sys_getenv pid a0 a1 a2 y =
     (let k = y_kern y
      in if a1 = 0 \<or> a1 > of_nat PROCESS_ENV_VALUE_LEN \<or>
            \<not> process_user_range_valid pid a0 (of_nat PROCESS_ENV_KEY_LEN) VMM_PAGE_WRITABLE k \<or>
            \<not> process_user_range_valid pid a2 a1 VMM_PAGE_WRITABLE k then refuse y
         else case process_user_read pid a0 (of_nat PROCESS_ENV_KEY_LEN) k of
                (False, _) \<Rightarrow> refuse y
              | (True, bs) \<Rightarrow>
                  (case process_get_env pid (Some (c_text (bs[PROCESS_ENV_KEY_LEN - 1 := 0]))) (of_nat PROCESS_ENV_VALUE_LEN) k of
                     None \<Rightarrow> refuse y
                   | Some value \<Rightarrow> put_text pid a2 a1 value y))"

definition sys_channel_recv :: "u64 \<Rightarrow> u64 \<Rightarrow> u64 \<Rightarrow> u64 \<Rightarrow> u64 \<Rightarrow> 'd sys \<Rightarrow> 'd reply" where
  "sys_channel_recv pid a0 a1 a2 a3 y =
     (let k = y_kern y
      in if \<not> process_has_capability pid NEXUS_CAP_IPC k then refuse y
         else if a2 = 0 \<or> a2 > ucast NEXUS_CHANNEL_MESSAGE_MAX \<or> \<not> process_user_range_valid pid a1 a2 VMM_PAGE_WRITABLE k \<or>
                 \<not> process_user_range_valid pid a3 4 VMM_PAGE_WRITABLE k then refuse y
         else case nexus_ipc_recv pid (ucast a0) (ucast a2) k of
                (None, k1) \<Rightarrow> Some (0, set_kern k1 y)
              | (Some msg, k1) \<Rightarrow>
                  (case process_user_write pid a1 (Some (\<lambda>i. msg ! i)) (of_nat (length msg)) k1 of
                     (False, k2) \<Rightarrow> refuse (set_kern k2 y)
                   | (True, k2) \<Rightarrow> put_user pid a3 (put32 (of_nat (length msg))) (of_nat (length msg)) (set_kern k2 y)))"

text \<open>The answer to \<open>RUNTIME_INFO\<close>: the name fills 14 of its 32 bytes, the others are what the stack held.\<close>

definition nexus_runtime_fill_info :: "u64 \<Rightarrow> 'd sys \<Rightarrow> u8 list option" where
  "nexus_runtime_fill_info pid y =
     (if \<not> y_runtime y then None
      else case process_get pid (y_kern y) of
             None \<Rightarrow> None
           | Some i \<Rightarrow>
               if p_state (proc_at (y_kern y) i) = PROCESS_ZOMBIE then None
               else Some (put32 1 @ put32 1 @ put32 (of_nat NEXUS_PROCESS_CHANNELS) @ put32 NEXUS_CHANNEL_MESSAGE_MAX @ put64 0x1F @
                      put64 (p_pid (proc_at (y_kern y) i)) @ put64 (p_parent_pid (proc_at (y_kern y) i)) @ put64 (p_cr3 (proc_at (y_kern y) i)) @
                      text_bytes ''Nexus Runtime'' @ [0] @ map (y_stack y) [62..<80]))"

section \<open>Dispatch\<close>

text \<open>\<open>i\<close> is the slot of the calling process and \<open>a0\<close> to \<open>a3\<close> are the arguments.\<close>

definition syscall_body :: "nexus_syscall \<Rightarrow> nat \<Rightarrow> u64 \<Rightarrow> u64 \<Rightarrow> u64 \<Rightarrow> u64 \<Rightarrow> 'd sys \<Rightarrow> 'd reply" where
  "syscall_body call i a0 a1 a2 a3 y =
     (let k = y_kern y; s = y_sched y; p = proc_at k i; pid = p_pid p;
          may = (\<lambda>c. process_has_capability pid c k);
          user = (\<lambda>va n. process_user_range_valid pid va n VMM_PAGE_WRITABLE k);
          fd_used = (a0 < of_nat PROCESS_MAX_FDS \<and> fd_type (p_fds p ! unat a0) \<noteq> PROCESS_FD_UNUSED)
      in case call of
           NEXUS_SYS_NOP \<Rightarrow> Some (0, y)
         | NEXUS_SYS_GETPID \<Rightarrow> Some (pid, y)
         | NEXUS_SYS_GETPPID \<Rightarrow> Some (p_parent_pid p, y)
         | NEXUS_SYS_GETPRIORITY \<Rightarrow> Some (ucast (p_priority p), y)
         | NEXUS_SYS_SETPRIORITY \<Rightarrow>
             if \<not> may NEXUS_CAP_PROCESS_CONTROL then refuse y else done_if (process_set_priority pid (ucast a0) k) y
         | NEXUS_SYS_GETNAME \<Rightarrow>
             if \<not> user a0 a1 \<or> a1 = 0 \<or> a1 > 256 then refuse y
             else (case process_get_name pid (of_nat PROCESS_NAME_LEN) k of None \<Rightarrow> refuse y | Some nm \<Rightarrow> put_text pid a0 a1 nm y)
         | NEXUS_SYS_SETNAME \<Rightarrow>
             if a1 = 0 \<or> a1 \<ge> of_nat PROCESS_NAME_LEN \<or> \<not> user a0 a1 then refuse y
             else (case process_user_read pid a0 a1 k of
                     (False, _) \<Rightarrow> refuse y
                   | (True, bs) \<Rightarrow> done_if (process_set_name pid (Some (c_text (bs[unat a1 - 1 := 0]))) k) y)
         | NEXUS_SYS_GETCWD \<Rightarrow>
             if a1 = 0 \<or> a1 > of_nat PROCESS_CWD_LEN \<or> \<not> user a0 a1 then refuse y
             else (case process_get_cwd pid (of_nat PROCESS_CWD_LEN) k of None \<Rightarrow> refuse y | Some d \<Rightarrow> put_text pid a0 a1 d y)
         | NEXUS_SYS_CHDIR \<Rightarrow>
             (case copy_user_string pid a0 PROCESS_CWD_LEN k of
                None \<Rightarrow> refuse y
              | Some path \<Rightarrow>
                  (case vfs_is_dir_path path (y_vfs y) of
                     None \<Rightarrow> None
                   | Some d \<Rightarrow> if \<not> d then refuse y else done_if (process_set_cwd pid (Some path) k) y))
         | NEXUS_SYS_WRITE \<Rightarrow> sys_write pid a0 a1 a2 y
         | NEXUS_SYS_READ \<Rightarrow> sys_read pid a0 a1 a2 y
         | NEXUS_SYS_OPEN \<Rightarrow>
             if \<not> may NEXUS_CAP_FILESYSTEM_READ then refuse y
             else (case copy_user_string pid a0 PROCESS_CWD_LEN k of
                     None \<Rightarrow> refuse y
                   | Some path \<Rightarrow>
                       map_option (\<lambda>(r, k1, v). (case r of None \<Rightarrow> - 1 | Some fd \<Rightarrow> of_nat fd, (set_kern k1 y)\<lparr>y_vfs := v\<rparr>))
                         (process_fd_open pid path (ucast a1) k (y_vfs y)))
         | NEXUS_SYS_CLOSE \<Rightarrow> done_if (process_fd_close pid a0 k) y
         | NEXUS_SYS_SEEK \<Rightarrow>
             map_option (\<lambda>(r, k1). (case r of None \<Rightarrow> - 1 | Some pos \<Rightarrow> pos, set_kern k1 y)) (process_fd_seek pid a0 a1 (ucast a2) k (y_vfs y))
         | NEXUS_SYS_TELL \<Rightarrow> Some (case file_fd pid a0 k of None \<Rightarrow> - 1 | Some j \<Rightarrow> fd_offset (fd_at k j a0), y)
         | NEXUS_SYS_STAT \<Rightarrow> sys_stat pid a0 a1 y
         | NEXUS_SYS_MKDIR \<Rightarrow> sys_path pid NEXUS_CAP_FILESYSTEM_WRITE vfs_mkdir_path a0 y
         | NEXUS_SYS_RMDIR \<Rightarrow> sys_path pid NEXUS_CAP_FILESYSTEM_WRITE (\<lambda>path v. Some (vfs_unlink_path path v)) a0 y
         | NEXUS_SYS_UNLINK \<Rightarrow> sys_path pid NEXUS_CAP_FILESYSTEM_WRITE (\<lambda>path v. Some (vfs_unlink_path path v)) a0 y
         | NEXUS_SYS_RENAME \<Rightarrow>
             (case copy_user_string pid a1 PROCESS_CWD_LEN k of
                None \<Rightarrow> refuse y
              | Some dst \<Rightarrow> sys_path pid NEXUS_CAP_FILESYSTEM_WRITE (\<lambda>src v. Some (vfs_rename_path src dst v)) a0 y)
         | NEXUS_SYS_PROCESS_ENUM \<Rightarrow>
             if a1 = 0 \<or> a2 < 40 \<or> \<not> user a0 a1 then refuse y
             else process_enum pid a0 (a1 div 40) (map of_nat [1..<4096]) 0 y
         | NEXUS_SYS_WAITPID \<Rightarrow> sys_waitpid pid a0 a1 y
         | NEXUS_SYS_EXEC \<Rightarrow> sys_exec pid a0 y
         | NEXUS_SYS_EXIT \<Rightarrow> refuse y
         | NEXUS_SYS_MMAP \<Rightarrow>
             if \<not> may NEXUS_CAP_MEMORY \<or> a1 = 0 \<or> (a1 + 4095) div 4096 = 0 then refuse y
             else (case process_alloc_user_range pid ((a1 + 4095) div 4096) (VMM_PAGE_WRITABLE OR VMM_PAGE_NX) k of
                     (base, k1) \<Rightarrow> Some (base, set_kern k1 y))
         | NEXUS_SYS_MUNMAP \<Rightarrow> if \<not> may NEXUS_CAP_MEMORY then refuse y else done_if (process_unmap_user_range pid a0 a1 k) y
         | NEXUS_SYS_BRK \<Rightarrow> sys_brk pid i a0 y
         | NEXUS_SYS_GETCPUTICKS \<Rightarrow> Some (process_cpu_ticks pid k, y)
         | NEXUS_SYS_GETSTARTTICK \<Rightarrow> Some (process_start_tick pid k, y)
         | NEXUS_SYS_GETUPTIME_MS \<Rightarrow> Some (scheduler_elapsed_ms s, y)
         | NEXUS_SYS_PROCESS_COUNT \<Rightarrow> Some (g_process_count k, y)
         | NEXUS_SYS_ZOMBIE_COUNT \<Rightarrow> Some (g_zombie_count k, y)
         | NEXUS_SYS_GETENV \<Rightarrow> sys_getenv pid a0 a1 a2 y
         | NEXUS_SYS_SETENV \<Rightarrow>
             (case (copy_user_string pid a0 PROCESS_ENV_KEY_LEN k, copy_user_string pid a1 PROCESS_ENV_VALUE_LEN k) of
                (Some key, Some value) \<Rightarrow> done_if (process_set_env pid (Some key) (Some value) k) y
              | _ \<Rightarrow> refuse y)
         | NEXUS_SYS_UNSETENV \<Rightarrow>
             (case copy_user_string pid a0 PROCESS_ENV_KEY_LEN k of
                None \<Rightarrow> refuse y
              | Some key \<Rightarrow> done_if (process_unset_env pid (Some key) k) y)
         | NEXUS_SYS_FD_COUNT \<Rightarrow>
             Some (of_nat (length (filter (\<lambda>j. fd_type (p_fds p ! j) \<noteq> PROCESS_FD_UNUSED) [0..<PROCESS_MAX_FDS])), y)
         | NEXUS_SYS_MEMINFO \<Rightarrow>
             if \<not> user a0 32 then refuse y
             else put_user pid a0 (put64 (g_total_pages (pm (kmm k)) * 4096) @ put64 (g_free_pages (pm (kmm k)) * 4096) @
                    put64 (pmm_used_pages (pm (kmm k)) * 4096) @ put64 (p_memory_limit p)) 0 y
         | NEXUS_SYS_GETTID \<Rightarrow> Some (scheduler_current_thread_id s, y)
         | NEXUS_SYS_GETVERSION \<Rightarrow> if a1 = 0 \<or> a1 > 64 \<or> \<not> user a0 a1 then refuse y else put_text pid a0 a1 ''0.7'' y
         | NEXUS_SYS_GETARCH \<Rightarrow> if a1 = 0 \<or> a1 > 32 \<or> \<not> user a0 a1 then refuse y else put_text pid a0 a1 ''x86_64'' y
         | NEXUS_SYS_GETPAGESIZE \<Rightarrow> Some (4096, y)
         | NEXUS_SYS_GETUSERBASE \<Rightarrow> Some (PROCESS_USER_BASE, y)
         | NEXUS_SYS_GETUSERLIMIT \<Rightarrow> Some (PROCESS_USER_LIMIT, y)
         | NEXUS_SYS_GETSTACKTOP \<Rightarrow> Some (PROCESS_USER_STACK_TOP, y)
         | NEXUS_SYS_GETHEAPBASE \<Rightarrow> Some (p_heap_base p, y)
         | NEXUS_SYS_GETHEAPEND \<Rightarrow> Some (p_heap_end p, y)
         | NEXUS_SYS_GETFDTYPE \<Rightarrow>
             if \<not> fd_used then refuse y
             else Some (case fd_type (p_fds p ! unat a0) of PROCESS_FD_UNUSED \<Rightarrow> 0 | PROCESS_FD_STDIN_CONSOLE \<Rightarrow> 1
                          | PROCESS_FD_STDOUT_CONSOLE \<Rightarrow> 2 | PROCESS_FD_STDERR_CONSOLE \<Rightarrow> 3 | PROCESS_FD_VFS_FILE \<Rightarrow> 4 | PROCESS_FD_VFS_DIR \<Rightarrow> 5, y)
         | NEXUS_SYS_GETFDOFFSET \<Rightarrow> if \<not> fd_used then refuse y else Some (fd_offset (p_fds p ! unat a0), y)
         | NEXUS_SYS_GETFD_FLAGS \<Rightarrow> if \<not> fd_used then refuse y else Some (ucast (fd_flags (p_fds p ! unat a0)), y)
         | NEXUS_SYS_GETQUANTUM_EXPIRATIONS \<Rightarrow> Some (s_quantum_expirations s, y)
         | NEXUS_SYS_GETCONTEXT_SWITCHES \<Rightarrow> Some (s_context_switches s, y)
         | NEXUS_SYS_GETTIMER_HZ \<Rightarrow> Some (ucast (s_timer_hz s), y)
         | NEXUS_SYS_GETQUANTUM_TICKS \<Rightarrow> Some (ucast (s_quantum_ticks s), y)
         | NEXUS_SYS_GETTHREAD_COUNT \<Rightarrow> Some (ucast (s_thread_count s), y)
         | NEXUS_SYS_GETMAX_THREADS \<Rightarrow> Some (of_nat SCHED_MAX_THREADS, y)
         | NEXUS_SYS_GETREADY_COUNT \<Rightarrow> Some (ucast (s_ready_count s), y)
         | NEXUS_SYS_GETSLEEPING_COUNT \<Rightarrow> Some (ucast (s_sleeping_count s), y)
         | NEXUS_SYS_GETTHREAD_SWITCHES \<Rightarrow> Some (scheduler_thread_switches a0 s, y)
         | NEXUS_SYS_GETTHREAD_RUNTIME \<Rightarrow> Some (scheduler_thread_runtime_ticks a0 s, y)
         | NEXUS_SYS_RUNTIME_INFO \<Rightarrow>
             if \<not> may NEXUS_CAP_RUNTIME \<or> a1 \<noteq> 80 \<or> \<not> user a0 80 \<or> \<not> y_runtime y then refuse y
             else (case nexus_runtime_fill_info pid y of None \<Rightarrow> refuse y | Some info \<Rightarrow> put_user pid a0 info 0 y)
         | NEXUS_SYS_CHANNEL_CREATE \<Rightarrow>
             if \<not> may NEXUS_CAP_IPC then refuse y
             else (case nexus_ipc_create pid a0 k of (r, k1) \<Rightarrow> Some (case r of None \<Rightarrow> - 1 | Some handle \<Rightarrow> ucast handle, set_kern k1 y))
         | NEXUS_SYS_CHANNEL_CLOSE \<Rightarrow> if \<not> may NEXUS_CAP_IPC then refuse y else done_if (nexus_ipc_close pid (ucast a0) k) y
         | NEXUS_SYS_CHANNEL_SEND \<Rightarrow>
             if \<not> may NEXUS_CAP_IPC \<or> a2 = 0 \<or> a2 > ucast NEXUS_CHANNEL_MESSAGE_MAX \<or> \<not> process_user_range_valid pid a1 a2 0 k then refuse y
             else (case process_user_read pid a1 a2 k of
                     (False, _) \<Rightarrow> refuse y
                   | (True, bs) \<Rightarrow>
                       (case nexus_ipc_send pid (ucast a0) (Some (\<lambda>j. bs ! j)) (ucast a2) k of
                          (sent, k1) \<Rightarrow> Some (ucast sent, set_kern k1 y)))
         | NEXUS_SYS_CHANNEL_RECV \<Rightarrow> sys_channel_recv pid a0 a1 a2 a3 y
         | NEXUS_SYS_CHANNEL_POLL \<Rightarrow>
             if \<not> may NEXUS_CAP_IPC then refuse y else Some (of_nat (nexus_ipc_poll pid (ucast a0) k), y)
         | NEXUS_SYS_GETCAPS \<Rightarrow> if \<not> user a0 8 then refuse y else put_user pid a0 (put64 (process_get_capabilities pid k)) 0 y
         | NEXUS_SYS_HAS_CAP \<Rightarrow> Some (if may a0 then 1 else 0, y)
         | NEXUS_SYS_DROP_CAP \<Rightarrow> done_if (process_drop_capability pid a0 k) y)"

definition syscall_init :: "'d sys \<Rightarrow> 'd sys" where
  "syscall_init y = y\<lparr>y_ready := True\<rparr>"

definition nexus_runtime_init :: "'d sys \<Rightarrow> bool \<times> 'd sys" where
  "nexus_runtime_init y = (True, y\<lparr>y_runtime := True\<rparr>)"

definition calling_process :: "'d sys \<Rightarrow> nat option" where
  "calling_process y =
     (case process_current (y_kern y) of
        None \<Rightarrow> None
      | Some i \<Rightarrow>
          let p = proc_at (y_kern y) i
          in if \<not> y_ready y \<or> p_state p \<noteq> PROCESS_RUNNING \<or> p_thread_id p = 0 \<or> p_flags p AND PROCESS_FLAG_USER_CONTEXT = 0
             then None else Some i)"

definition syscall_dispatch :: "u64 \<Rightarrow> u64 \<Rightarrow> u64 \<Rightarrow> u64 \<Rightarrow> u64 \<Rightarrow> 'd sys \<Rightarrow> 'd reply" where
  "syscall_dispatch number a0 a1 a2 a3 y =
     (case calling_process y of
        None \<Rightarrow> refuse y
      | Some i \<Rightarrow> (case syscall_of number of None \<Rightarrow> refuse y | Some call \<Rightarrow> syscall_body call i a0 a1 a2 a3 y))"

section \<open>The interrupt\<close>

record syscall_frame =
  fr_rax :: u64
  fr_rdi :: u64
  fr_rsi :: u64
  fr_rdx :: u64
  fr_r10 :: u64
  fr_rip :: u64
  fr_cs :: u64
  fr_rflags :: u64
  fr_rsp :: u64
  fr_ss :: u64

definition syscall_frame_valid :: "syscall_frame \<Rightarrow> bool" where
  "syscall_frame_valid f =
     (if fr_cs f AND 3 \<noteq> 3 \<or> fr_ss f AND 3 \<noteq> 3 then False
      else if fr_cs f AND NOT 7 \<noteq> 0x23 AND NOT 7 \<or> fr_ss f AND NOT 7 \<noteq> 0x1B AND NOT 7 then False
      else if fr_rflags f AND 2 = 0 \<or> fr_rflags f AND push_bit 12 3 \<noteq> 0 \<or> fr_rflags f AND push_bit 17 1 \<noteq> 0 \<or> fr_rflags f AND push_bit 9 1 = 0
      then False
      else if fr_rip f < PROCESS_USER_BASE \<or> fr_rip f \<ge> PROCESS_USER_LIMIT \<or> fr_rsp f < PROCESS_USER_BASE \<or> fr_rsp f > PROCESS_USER_STACK_TOP
      then False
      else True)"

text \<open>What the entry code does next: return to the program with the frame, or leave the processor to the scheduler.\<close>

datatype syscall_action = NEXUS_SYSCALL_ACTION_RETURN | NEXUS_SYSCALL_ACTION_EXIT

definition syscall_interrupt_handler :: "u64 \<Rightarrow> syscall_frame \<Rightarrow> 'd sys \<Rightarrow> (syscall_action \<times> syscall_frame \<times> 'd sys) option" where
  "syscall_interrupt_handler rsp f y =
     (let bad = (\<lambda>y. Some (NEXUS_SYSCALL_ACTION_RETURN, f\<lparr>fr_rax := - 1\<rparr>, y))
      in if \<not> y_ready y \<or> \<not> syscall_frame_valid f then bad y
         else case calling_process y of
                None \<Rightarrow> bad y
              | Some i \<Rightarrow>
                  let pid = p_pid (proc_at (y_kern y) i)
                  in if \<not> process_user_range_valid pid (fr_rip f) 1 0 (y_kern y) \<or>
                        \<not> process_user_range_valid pid (fr_rsp f) 1 VMM_PAGE_WRITABLE (y_kern y) then bad y
                     else if syscall_of (fr_rax f) = Some NEXUS_SYS_EXIT then
                       (case process_exit_with_code pid (fr_rdi f) 1 (y_kern y) of
                          (False, k) \<Rightarrow> bad (set_kern k y)
                        | (True, k) \<Rightarrow>
                            Some (NEXUS_SYSCALL_ACTION_EXIT, f, y\<lparr>y_sched := snd (thread_exit rsp ((y_sched y)\<lparr>s_kern := k\<rparr>))\<rparr>))
                     else map_option (\<lambda>(r, y1). (NEXUS_SYSCALL_ACTION_RETURN, f\<lparr>fr_rax := r\<rparr>, y1))
                            (syscall_dispatch (fr_rax f) (fr_rdi f) (fr_rsi f) (fr_rdx f) (fr_r10 f) y))"

end
