(* ===== verification/Syscall_Facts.thy ===== *)
theory Syscall_Facts
  imports Syscall Sync Vfs_Paths
begin

text \<open>
  Properties of the system calls: which rights a call needs, what it can change, and when the entry refuses it.
\<close>

section \<open>Rights\<close>

definition required_cap :: "nexus_syscall \<Rightarrow> u64 option" where
  "required_cap call =
     (if call = NEXUS_SYS_SETPRIORITY then Some NEXUS_CAP_PROCESS_CONTROL
      else if call = NEXUS_SYS_OPEN then Some NEXUS_CAP_FILESYSTEM_READ
      else if call \<in> {NEXUS_SYS_MKDIR, NEXUS_SYS_RMDIR, NEXUS_SYS_UNLINK, NEXUS_SYS_RENAME} then Some NEXUS_CAP_FILESYSTEM_WRITE
      else if call = NEXUS_SYS_EXEC then Some NEXUS_CAP_PROCESS_SPAWN
      else if call \<in> {NEXUS_SYS_MMAP, NEXUS_SYS_MUNMAP, NEXUS_SYS_BRK} then Some NEXUS_CAP_MEMORY
      else if call = NEXUS_SYS_RUNTIME_INFO then Some NEXUS_CAP_RUNTIME
      else if call \<in> {NEXUS_SYS_CHANNEL_CREATE, NEXUS_SYS_CHANNEL_CLOSE, NEXUS_SYS_CHANNEL_SEND, NEXUS_SYS_CHANNEL_RECV, NEXUS_SYS_CHANNEL_POLL}
      then Some NEXUS_CAP_IPC
      else None)"

lemma required_cases:
  assumes "required_cap call = Some c"
  shows "call \<in> {NEXUS_SYS_SETPRIORITY, NEXUS_SYS_OPEN, NEXUS_SYS_MKDIR, NEXUS_SYS_RMDIR, NEXUS_SYS_UNLINK, NEXUS_SYS_RENAME,
    NEXUS_SYS_EXEC, NEXUS_SYS_MMAP, NEXUS_SYS_MUNMAP, NEXUS_SYS_BRK, NEXUS_SYS_RUNTIME_INFO, NEXUS_SYS_CHANNEL_CREATE,
    NEXUS_SYS_CHANNEL_CLOSE, NEXUS_SYS_CHANNEL_SEND, NEXUS_SYS_CHANNEL_RECV, NEXUS_SYS_CHANNEL_POLL}"
  using assms by (auto simp: required_cap_def split: if_splits)

lemma body_gate:
  assumes "required_cap call = Some c" "\<not> process_has_capability (p_pid (proc_at (y_kern y) i)) c (y_kern y)"
  shows "syscall_body call i a0 a1 a2 a3 y = Some (- 1, y)"
  using required_cases [OF assms(1)] assms
  by (elim insertE emptyE; simp only: required_cap_def; simp add: syscall_body_def sys_path_def sys_exec_def sys_brk_def sys_channel_recv_def Let_def split: option.split)

section \<open>Capability masks\<close>

text \<open>The masks of all slots.  Almost every operation of the kernel keeps them.\<close>

definition pcaps :: "kern \<Rightarrow> u64 list" where
  "pcaps k = map p_capabilities (g_processes k)"

named_theorems keeps_caps

lemma pcaps_fields [simp]:
  "pcaps (set_mm m k) = pcaps k" "pcaps (k\<lparr>kheap := h\<rparr>) = pcaps k" "pcaps (k\<lparr>g_zombie_count := n\<rparr>) = pcaps k"
  "pcaps (k\<lparr>g_process_count := n\<rparr>) = pcaps k" "pcaps (k\<lparr>g_next_pid := n\<rparr>) = pcaps k" "pcaps (k\<lparr>g_current_pid := n\<rparr>) = pcaps k"
  "pcaps (upd_chan c f k) = pcaps k" "length (pcaps k) = length (g_processes k)"
  by (simp_all add: pcaps_def set_mm_def)

lemma pcaps_upd: "pcaps (upd_proc i f k) = (pcaps k)[i := p_capabilities (f (proc_at k i))]"
  by (simp add: pcaps_def upd_proc_def map_update)

lemma pcaps_upd_same [simp]: "(\<And>p. p_capabilities (f p) = p_capabilities p) \<Longrightarrow> pcaps (upd_proc i f k) = pcaps k"
  by (cases "i < length (g_processes k)") (simp_all add: pcaps_upd, simp_all add: pcaps_def list_update_same_conv list_update_beyond)

lemma pcaps_handle [simp]: "pcaps (upd_handle i h v k) = pcaps k" "pcaps (upd_fd i fd f k) = pcaps k"
  by (simp_all add: upd_handle_def upd_fd_def)

lemma simple_caps [keeps_caps]:
  "process_set_priority pid prio k = (r, k') \<Longrightarrow> pcaps k' = pcaps k"
  "process_set_name pid nm k = (r, k') \<Longrightarrow> pcaps k' = pcaps k"
  "process_set_cwd pid d k = (r, k') \<Longrightarrow> pcaps k' = pcaps k"
  "process_set_env pid key val k = (r, k') \<Longrightarrow> pcaps k' = pcaps k"
  "process_unset_env pid key k = (r, k') \<Longrightarrow> pcaps k' = pcaps k"
  "process_fd_close pid fd k = (r, k') \<Longrightarrow> pcaps k' = pcaps k"
  "usermode_prepare u pid entry st ks k = (r, k') \<Longrightarrow> pcaps k' = pcaps k"
  by (auto simp: process_set_priority_def process_set_name_def process_set_cwd_def process_set_env_def process_unset_env_def
    process_fd_close_def usermode_prepare_def Let_def split: option.splits if_splits)

lemma memory_caps [keeps_caps]:
  "process_user_write pid va src n k = (r, k') \<Longrightarrow> pcaps k' = pcaps k"
  "process_user_copy pid va src n k = (r, k') \<Longrightarrow> pcaps k' = pcaps k"
  "process_user_zero pid va n k = (r, k') \<Longrightarrow> pcaps k' = pcaps k"
  "process_map_user_page pid va flags k = (r, k') \<Longrightarrow> pcaps k' = pcaps k"
  by (auto simp: process_user_write_def process_user_copy_def process_user_zero_def process_map_user_page_def Let_def
    split: option.splits if_splits prod.splits)

lemma map_user_pages_caps [keeps_caps]: "map_user_pages pid base flags js k = (r, k') \<Longrightarrow> pcaps k' = pcaps k"
  by (induction js arbitrary: k) (auto split: prod.splits bool.splits dest!: memory_caps)

lemma unmap_range_loop_caps [simp]: "pcaps (unmap_range_loop n i base e j k) = pcaps k"
  by (induction n arbitrary: j k) (simp_all add: Let_def)

lemma unmap_slot_caps [simp]: "pcaps (fold (unmap_slot i) js k) = pcaps k"
  by (induction js arbitrary: k) (simp_all add: unmap_slot_def Let_def)

lemma unmap_caps [keeps_caps]:
  "process_unmap_user_range pid base n k = (r, k') \<Longrightarrow> pcaps k' = pcaps k"
  "process_unmap_user_memory pid k = (r, k') \<Longrightarrow> pcaps k' = pcaps k"
  by (auto simp: process_unmap_user_range_def process_unmap_user_memory_def split: option.splits if_splits)

lemma unmap_caps_snd [simp]: "pcaps (snd (process_unmap_user_range pid base n k)) = pcaps k"
  "pcaps (snd (process_unmap_user_memory pid k)) = pcaps k"
  by (rule unmap_caps [OF prod.collapse [symmetric]])+

lemma alloc_user_range_caps [keeps_caps]: "process_alloc_user_range pid pages flags k = (r, k') \<Longrightarrow> pcaps k' = pcaps k"
  by (auto simp: process_alloc_user_range_def Let_def split: option.splits if_splits prod.splits dest!: map_user_pages_caps)

lemma ipc_caps [keeps_caps]:
  "nexus_ipc_create pid peer k = (h, k') \<Longrightarrow> pcaps k' = pcaps k"
  "nexus_ipc_close pid handle k = (r, k') \<Longrightarrow> pcaps k' = pcaps k"
  "nexus_ipc_send pid handle data n k = (m, k') \<Longrightarrow> pcaps k' = pcaps k"
  "nexus_ipc_recv pid handle n k = (msg, k') \<Longrightarrow> pcaps k' = pcaps k"
  by (auto simp: nexus_ipc_create_def nexus_ipc_close_def nexus_ipc_send_def nexus_ipc_recv_def Let_def split: option.splits if_splits)

lemma terminate_caps [simp]: "pcaps (nexus_ipc_process_terminate pid k) = pcaps k"
proof -
  have t: "pcaps (terminate_handle pid i h k) = pcaps k" for i h k
    by (simp add: terminate_handle_def Let_def split: option.split)
  have "pcaps (fold (terminate_handle pid i) hs k) = pcaps k" for i hs
    by (induction hs arbitrary: k) (simp_all add: t)
  then show ?thesis by (simp add: nexus_ipc_process_terminate_def split: option.split)
qed

lemma exit_caps [keeps_caps]: "process_exit pid k = (r, k') \<Longrightarrow> pcaps k' = pcaps k"
  by (auto simp: process_exit_def process_exit_with_code_def Let_def split: option.splits if_splits)

lemma reap_caps [keeps_caps]: "process_reap pid tid k = (r, k') \<Longrightarrow> pcaps k' = pcaps k"
proof -
  have r: "pcaps (process_ipc_reset_handles pid k) = pcaps k" for k
    by (simp add: process_ipc_reset_handles_def split: option.split)
  show "process_reap pid tid k = (r, k') \<Longrightarrow> pcaps k' = pcaps k"
    by (auto simp: process_reap_def Let_def r process_reset_def split: option.splits if_splits)
qed

lemma elf_map_pages_caps: "elf_map_pages pid vs k = (r, k') \<Longrightarrow> pcaps k' = pcaps k"
  by (induction pid vs k rule: elf_map_pages.induct) (auto split: prod.splits bool.splits dest!: memory_caps)

lemma elf_copy_segments_caps: "elf_copy_segments pid bs bias ps k = (r, k') \<Longrightarrow> pcaps k' = pcaps k"
  by (induction pid bs bias ps k rule: elf_copy_segments.induct) (auto split: if_splits prod.splits bool.splits dest!: memory_caps)

lemma elf_caps [keeps_caps]: "nexus_elf_load_process pid path f k = Some (r, k') \<Longrightarrow> pcaps k' = pcaps k"
  by (auto simp: nexus_elf_load_process_def Let_def split: option.splits if_splits prod.splits
    dest!: elf_map_pages_caps elf_copy_segments_caps)

lemma thread_kern [simp]: "s_kern (upd_tcb j f s) = s_kern s" "s_kern (ready_append j s) = s_kern s" "s_kern (scheduler_request_reschedule s) = s_kern s"
  by (simp_all add: upd_tcb_def ready_append_def scheduler_request_reschedule_def Let_def split: option.split)

lemma init_thread_stack_caps [simp]: "pcaps (s_kern (init_thread_stack j s)) = pcaps (s_kern s)"
  by (simp add: init_thread_stack_def Let_def)

lemma thread_create_caps: "thread_create entry arg s = Some (tid, s') \<Longrightarrow> pcaps (s_kern s') = pcaps (s_kern s)"
  by (auto simp: thread_create_def Let_def split: option.splits if_splits prod.splits)

lemma thread_caps [keeps_caps]: "thread_create_user_process pid s = Some (tid, s') \<Longrightarrow> pcaps (s_kern s') = pcaps (s_kern s)"
  by (auto simp: thread_create_user_process_def Let_def split: option.splits if_splits prod.splits dest!: thread_create_caps)

lemma fd_caps [keeps_caps]:
  "process_fd_open pid path fl k v = Some (r, k', v') \<Longrightarrow> pcaps k' = pcaps k"
  "process_fd_read pid fd n k v = Some (rb, k') \<Longrightarrow> pcaps k' = pcaps k"
  "process_fd_write pid fd bs k v = Some (wr, k', v') \<Longrightarrow> pcaps k' = pcaps k"
  "process_fd_seek pid fd off wh k v = Some (sk, k') \<Longrightarrow> pcaps k' = pcaps k"
  by (auto simp: process_fd_open_def process_fd_read_def process_fd_write_def process_fd_seek_def Let_def
    split: option.splits if_splits prod.splits)

section \<open>Calls that keep every mask\<close>

lemma put_user_caps [keeps_caps]: "put_user pid va bs r y = Some (m, y') \<Longrightarrow> pcaps (y_kern y') = pcaps (y_kern y)"
  by (auto simp: put_user_def split: prod.splits dest!: keeps_caps)

lemma put_text_caps [keeps_caps]: "put_text pid va cap s y = Some (m, y') \<Longrightarrow> pcaps (y_kern y') = pcaps (y_kern y)"
  by (auto simp: put_text_def Let_def dest!: keeps_caps)

lemma process_enum_caps [keeps_caps]: "process_enum pid va cap qs n y = Some (m, y') \<Longrightarrow> pcaps (y_kern y') = pcaps (y_kern y)"
  by (induction qs arbitrary: n y)
    (auto simp: Let_def split: if_splits option.splits prod.splits bool.splits dest!: memory_caps(1))

lemma sys_caps [keeps_caps]:
  "sys_write pid fd va n y = Some (m, y') \<Longrightarrow> pcaps (y_kern y') = pcaps (y_kern y)"
  "sys_read pid fd va n y = Some (m, y') \<Longrightarrow> pcaps (y_kern y') = pcaps (y_kern y)"
  "sys_stat pid a0 a1 y = Some (m, y') \<Longrightarrow> pcaps (y_kern y') = pcaps (y_kern y)"
  "sys_path pid c f a0 y = Some (m, y') \<Longrightarrow> pcaps (y_kern y') = pcaps (y_kern y)"
  "sys_waitpid pid wanted va y = Some (m, y') \<Longrightarrow> pcaps (y_kern y') = pcaps (y_kern y)"
  "sys_brk pid i a0 y = Some (m, y') \<Longrightarrow> pcaps (y_kern y') = pcaps (y_kern y)"
  "sys_getenv pid a0 a1 a2 y = Some (m, y') \<Longrightarrow> pcaps (y_kern y') = pcaps (y_kern y)"
  "sys_channel_recv pid a0 a1 a2 a3 y = Some (m, y') \<Longrightarrow> pcaps (y_kern y') = pcaps (y_kern y)"
  subgoal by (auto simp: sys_write_def split: if_splits prod.splits bool.splits option.splits dest!: keeps_caps)
  subgoal by (auto simp: sys_read_def split: if_splits prod.splits option.splits dest!: keeps_caps)
  subgoal by (auto simp: sys_stat_def split: if_splits option.splits dest!: keeps_caps)
  subgoal by (auto simp: sys_path_def split: if_splits option.splits)
  subgoal by (auto simp: sys_waitpid_def split: if_splits option.splits dest!: keeps_caps)
  subgoal by (auto simp: sys_brk_def Let_def split: if_splits prod.splits bool.splits dest!: keeps_caps)
  subgoal by (auto simp: sys_getenv_def Let_def split: if_splits prod.splits bool.splits option.splits dest!: keeps_caps)
  subgoal by (auto simp: sys_channel_recv_def Let_def split: if_splits prod.splits bool.splits option.splits dest!: keeps_caps)
  done

lemma body_caps:
  assumes "syscall_body call i a0 a1 a2 a3 y = Some (r, y')" "call \<noteq> NEXUS_SYS_EXEC" "call \<noteq> NEXUS_SYS_DROP_CAP"
  shows "pcaps (y_kern y') = pcaps (y_kern y)"
  using assms
  by (cases call; simp only: syscall_body_def Let_def nexus_syscall.case;
    auto split: if_splits prod.splits bool.splits option.splits dest!: keeps_caps)

section \<open>Calls that change masks\<close>

text \<open>Each mask is the old one or has only rights of \<open>m\<close>.\<close>

definition confined :: "u64 \<Rightarrow> u64 list \<Rightarrow> u64 list \<Rightarrow> bool" where
  "confined m cs cs' \<longleftrightarrow> list_all2 (\<lambda>c c'. c' = c \<or> c' AND NOT m = 0) cs cs'"

lemma confined_refl [simp]: "confined m cs cs"
  by (simp add: confined_def list_all2_same)

lemma confined_update: "c AND NOT m = 0 \<Longrightarrow> confined m cs (cs[j := c])"
  by (simp add: confined_def list_all2_conv_all_nth) (metis nth_list_update_eq nth_list_update_neq)

lemma confined_less [simp]: "confined m cs (cs[j := m])" "confined m cs (cs[j := m AND NOT c])"
proof -
  have "m AND NOT m = 0" "(m AND NOT c) AND NOT m = 0" by (rule bit_eqI, auto simp: bit_simps)+
  then show "confined m cs (cs[j := m])" "confined m cs (cs[j := m AND NOT c])" by (simp_all add: confined_update)
qed

lemma process_get_self: "process_get q k = Some i \<Longrightarrow> process_get (p_pid (proc_at k i)) k = Some i"
  using process_get_SomeD [of q k i] by simp

lemma pcaps_identity: "pcaps (upd_proc i (process_identity pid parent caps ticks) k) = (pcaps k)[i := caps]"
  by (simp add: pcaps_upd process_identity_def)

lemma process_create_confined:
  assumes "process_create ticks parent k = (pid, k')" "process_get parent k = Some i"
  shows "confined (p_capabilities (proc_at k i)) (pcaps k) (pcaps k')"
proof -
  have g: "process_get parent (k\<lparr>g_next_pid := n\<rparr>) = Some i" for n
    using assms(2) process_get_cong [of "k\<lparr>g_next_pid := n\<rparr>" k parent] by simp
  show ?thesis using assms(1)
    by (auto simp: process_create_def g Let_def pcaps_identity process_fresh_def split: option.splits if_splits prod.splits)
qed

lemma exit_caps_snd: "pcaps (snd (process_exit pid k)) = pcaps k" "pcaps (snd (process_reap pid tid k)) = pcaps k"
  by (rule exit_caps [OF prod.collapse [symmetric]], rule reap_caps [OF prod.collapse [symmetric]])

lemma sys_exec_caps:
  assumes "sys_exec pid a0 y = Some (r, y')" "process_create (s_ticks (y_sched y)) pid (y_kern y) = (q, k1)"
  shows "pcaps (y_kern y') = pcaps (y_kern y) \<or> pcaps (y_kern y') = pcaps k1"
  using assms by (auto simp: sys_exec_def Let_def exit_caps_snd split: option.splits if_splits prod.splits bool.splits dest!: keeps_caps)

lemma body_confined:
  assumes "syscall_body call i a0 a1 a2 a3 y = Some (r, y')" "process_get (p_pid (proc_at (y_kern y) i)) (y_kern y) = Some i"
  shows "confined (p_capabilities (proc_at (y_kern y) i)) (pcaps (y_kern y)) (pcaps (y_kern y'))"
proof -
  consider "call = NEXUS_SYS_EXEC" | "call = NEXUS_SYS_DROP_CAP" | "call \<noteq> NEXUS_SYS_EXEC" "call \<noteq> NEXUS_SYS_DROP_CAP" by blast
  then show ?thesis
  proof cases
    case 1
    obtain q k1 where c: "process_create (s_ticks (y_sched y)) (p_pid (proc_at (y_kern y) i)) (y_kern y) = (q, k1)" by fastforce
    show ?thesis using sys_exec_caps [OF _ c] process_create_confined [OF c assms(2)] assms(1) 1
      by (fastforce simp: syscall_body_def)
  next
    case 2
    then show ?thesis using assms
      by (auto simp: syscall_body_def Let_def process_drop_capability_def pcaps_upd split: if_splits)
  next
    case 3
    then show ?thesis using body_caps [OF assms(1)] by simp
  qed
qed

lemma calling_process_get:
  assumes "calling_process y = Some i"
  shows "process_get (p_pid (proc_at (y_kern y) i)) (y_kern y) = Some i"
  using assms process_get_self by (auto simp: calling_process_def process_current_def Let_def split: option.splits if_splits)

section \<open>Calls that change files\<close>

named_theorems keeps_files

lemma put_user_files [keeps_files]:
  "put_user pid va bs r y = Some (m, y') \<Longrightarrow> y_vfs y' = y_vfs y" "put_text pid va cap s y = Some (m, y') \<Longrightarrow> y_vfs y' = y_vfs y"
  by (auto simp: put_text_def put_user_def Let_def split: prod.splits)

lemma process_enum_files [keeps_files]: "process_enum pid va cap qs n y = Some (m, y') \<Longrightarrow> y_vfs y' = y_vfs y"
  by (induction qs arbitrary: n y) (auto simp: Let_def split: if_splits option.splits prod.splits bool.splits)

lemma sys_files [keeps_files]:
  "sys_read pid fd va n y = Some (m, y') \<Longrightarrow> y_vfs y' = y_vfs y"
  "sys_stat pid a0 a1 y = Some (m, y') \<Longrightarrow> y_vfs y' = y_vfs y"
  "sys_waitpid pid wanted va y = Some (m, y') \<Longrightarrow> y_vfs y' = y_vfs y"
  "sys_brk pid i a0 y = Some (m, y') \<Longrightarrow> y_vfs y' = y_vfs y"
  "sys_getenv pid a0 a1 a2 y = Some (m, y') \<Longrightarrow> y_vfs y' = y_vfs y"
  "sys_channel_recv pid a0 a1 a2 a3 y = Some (m, y') \<Longrightarrow> y_vfs y' = y_vfs y"
  "sys_exec pid a0 y = Some (m, y') \<Longrightarrow> y_vfs y' = y_vfs y"
  subgoal by (auto simp: sys_read_def split: if_splits prod.splits option.splits dest!: keeps_files)
  subgoal by (auto simp: sys_stat_def split: if_splits option.splits dest!: keeps_files)
  subgoal by (auto simp: sys_waitpid_def split: if_splits option.splits dest!: keeps_files)
  subgoal by (auto simp: sys_brk_def Let_def split: if_splits prod.splits bool.splits)
  subgoal by (auto simp: sys_getenv_def Let_def split: if_splits prod.splits bool.splits option.splits dest!: keeps_files)
  subgoal by (auto simp: sys_channel_recv_def Let_def split: if_splits prod.splits bool.splits option.splits dest!: keeps_files)
  subgoal by (auto simp: sys_exec_def Let_def split: if_splits prod.splits bool.splits option.splits)
  done

lemma body_files:
  assumes "syscall_body call i a0 a1 a2 a3 y = Some (r, y')"
    and "call \<notin> {NEXUS_SYS_WRITE, NEXUS_SYS_OPEN, NEXUS_SYS_MKDIR, NEXUS_SYS_RMDIR, NEXUS_SYS_UNLINK, NEXUS_SYS_RENAME}"
  shows "y_vfs y' = y_vfs y"
  using assms
  by (cases call; simp only: syscall_body_def Let_def nexus_syscall.case;
    auto split: if_splits prod.splits bool.splits option.splits dest!: keeps_files)

section \<open>Dispatch\<close>

lemma capabilities_valid:
  "nexus_capability_valid NEXUS_CAP_PROCESS_CONTROL" "nexus_capability_valid NEXUS_CAP_FILESYSTEM_READ"
  "nexus_capability_valid NEXUS_CAP_FILESYSTEM_WRITE" "nexus_capability_valid NEXUS_CAP_PROCESS_SPAWN"
  "nexus_capability_valid NEXUS_CAP_MEMORY" "nexus_capability_valid NEXUS_CAP_RUNTIME" "nexus_capability_valid NEXUS_CAP_IPC"
  by code_simp+

lemma may_iff:
  assumes "calling_process y = Some i" "required_cap call = Some c"
  shows "process_has_capability (p_pid (proc_at (y_kern y) i)) c (y_kern y) \<longleftrightarrow> p_capabilities (proc_at (y_kern y) i) AND c = c"
proof -
  have "nexus_capability_valid c" using assms(2)
    by (auto simp: required_cap_def capabilities_valid split: if_splits)
  then show ?thesis using calling_process_get [OF assms(1)] by (simp add: process_has_capability_def)
qed

text \<open>
  C6. Rights are enforced: a call whose capability the calling process lacks is refused with \<open>-1\<close> and changes
  nothing at all.  The files change only through a call that creates, removes or renames with the right to
  write files, through \<open>OPEN\<close> with the right to read files, or through \<open>WRITE\<close>, which needs no right.
\<close>

theorem syscall_capability_gate:
  assumes "calling_process y = Some i" "syscall_of number = Some call" "syscall_dispatch number a0 a1 a2 a3 y = Some (r, y')"
  shows "(\<forall>c. required_cap call = Some c \<and> p_capabilities (proc_at (y_kern y) i) AND c \<noteq> c \<longrightarrow> r = - 1 \<and> y' = y) \<and>
    (y_vfs y' \<noteq> y_vfs y \<longrightarrow> call = NEXUS_SYS_WRITE \<or>
       call = NEXUS_SYS_OPEN \<and> p_capabilities (proc_at (y_kern y) i) AND NEXUS_CAP_FILESYSTEM_READ = NEXUS_CAP_FILESYSTEM_READ \<or>
       call \<in> {NEXUS_SYS_MKDIR, NEXUS_SYS_RMDIR, NEXUS_SYS_UNLINK, NEXUS_SYS_RENAME} \<and>
         p_capabilities (proc_at (y_kern y) i) AND NEXUS_CAP_FILESYSTEM_WRITE = NEXUS_CAP_FILESYSTEM_WRITE)"
proof -
  have b: "syscall_body call i a0 a1 a2 a3 y = Some (r, y')" using assms by (simp add: syscall_dispatch_def)
  have gate: "r = - 1 \<and> y' = y" if "required_cap call = Some c" "p_capabilities (proc_at (y_kern y) i) AND c \<noteq> c" for c
    using body_gate [OF that(1), of y i a0 a1 a2 a3] may_iff [OF assms(1) that(1)] that(2) b by auto
  have open_gate: "y' = y" if "call = NEXUS_SYS_OPEN" "p_capabilities (proc_at (y_kern y) i) AND NEXUS_CAP_FILESYSTEM_READ \<noteq> NEXUS_CAP_FILESYSTEM_READ"
    using gate that by (simp add: required_cap_def)
  have edit_gate: "y' = y" if "call \<in> {NEXUS_SYS_MKDIR, NEXUS_SYS_RMDIR, NEXUS_SYS_UNLINK, NEXUS_SYS_RENAME}"
      "p_capabilities (proc_at (y_kern y) i) AND NEXUS_CAP_FILESYSTEM_WRITE \<noteq> NEXUS_CAP_FILESYSTEM_WRITE"
    using gate [of NEXUS_CAP_FILESYSTEM_WRITE] that by (auto simp: required_cap_def)
  have "call \<in> {NEXUS_SYS_WRITE, NEXUS_SYS_OPEN, NEXUS_SYS_MKDIR, NEXUS_SYS_RMDIR, NEXUS_SYS_UNLINK, NEXUS_SYS_RENAME}"
    if "y_vfs y' \<noteq> y_vfs y" using body_files [OF b] that by blast
  then show ?thesis using gate open_gate edit_gate by blast
qed

lemma dispatch_confined:
  assumes "calling_process y = Some i" "syscall_dispatch number a0 a1 a2 a3 y = Some (r, y')"
  shows "confined (p_capabilities (proc_at (y_kern y) i)) (pcaps (y_kern y)) (pcaps (y_kern y'))"
  using assms body_confined [OF _ calling_process_get [OF assms(1)]]
  by (auto simp: syscall_dispatch_def split: option.splits)

text \<open>
  C7. Rights cannot be gained: after any system call of a process, the capability mask of every process
  slot is the one it was, or has only rights that the calling process had.
\<close>

theorem syscall_caps_confined:
  assumes "calling_process y = Some i" "syscall_dispatch number a0 a1 a2 a3 y = Some (r, y')"
  shows "confined (p_capabilities (proc_at (y_kern y) i)) (pcaps (y_kern y)) (pcaps (y_kern y'))"
  using assms by (rule dispatch_confined)

text \<open>A history of calls of any processes, between which the current process changes.\<close>

inductive syscall_step :: "'d sys \<Rightarrow> 'd sys \<Rightarrow> bool" where
  call: "calling_process y = Some i \<Longrightarrow> syscall_dispatch number a0 a1 a2 a3 y = Some (r, y') \<Longrightarrow> syscall_step y y'"
| switch: "process_set_current pid (y_kern y) = (ok, k) \<Longrightarrow> syscall_step y (set_kern k y)"

definition within :: "u64 \<Rightarrow> 'd sys \<Rightarrow> bool" where
  "within m y \<longleftrightarrow> length (g_processes (y_kern y)) = PROCESS_MAX_COUNT \<and> (\<forall>c \<in> set (pcaps (y_kern y)). c AND NOT m = 0)"

lemma subset_trans_mask:
  fixes c m n :: u64
  assumes "c AND NOT m = 0" "m AND NOT n = 0"
  shows "c AND NOT n = 0"
proof (rule bit_eqI)
  fix i
  have "bit (c AND NOT m) i = bit (0 :: u64) i" "bit (m AND NOT n) i = bit (0 :: u64) i" using assms by simp_all
  then show "bit (c AND NOT n) i = bit 0 i" by (auto simp: bit_simps)
qed

lemma within_confined:
  assumes "\<forall>c \<in> set cs. c AND NOT m = 0" "n AND NOT m = 0" "confined n cs cs'"
  shows "\<forall>c \<in> set cs'. c AND NOT m = 0"
proof
  fix c' assume "c' \<in> set cs'"
  then obtain j where j: "j < length cs'" "c' = cs' ! j" by (auto simp: in_set_conv_nth)
  then have "cs ! j \<in> set cs" "c' = cs ! j \<or> c' AND NOT n = 0" using assms(3) by (auto simp: confined_def list_all2_conv_all_nth)
  then show "c' AND NOT m = 0" using assms(1) subset_trans_mask [OF _ assms(2)] by blast
qed

lemma set_current_caps: "process_set_current pid k = (ok, k') \<Longrightarrow> pcaps k' = pcaps k"
  by (auto simp: process_set_current_def Let_def split: option.splits if_splits)

lemma syscall_step_within: "syscall_step y y' \<Longrightarrow> within m y \<Longrightarrow> within m y'"
proof (induction rule: syscall_step.induct)
  case (call y i number a0 a1 a2 a3 r y')
  note C = dispatch_confined [OF call(1,2)]
  have "i < PROCESS_MAX_COUNT" using process_get_SomeD [OF calling_process_get [OF call(1)]] by simp
  then have "p_capabilities (proc_at (y_kern y) i) \<in> set (pcaps (y_kern y))" using call(3) by (simp add: within_def pcaps_def)
  then have "p_capabilities (proc_at (y_kern y) i) AND NOT m = 0" using call(3) by (simp add: within_def)
  then have "\<forall>c \<in> set (pcaps (y_kern y')). c AND NOT m = 0" using within_confined C call(3) unfolding within_def by blast
  moreover have "length (pcaps (y_kern y')) = length (pcaps (y_kern y))" using list_all2_lengthD [OF C [unfolded confined_def]] by simp
  ultimately show ?case using call(3) by (simp add: within_def)
next
  case (switch pid y ok k)
  then have "pcaps k = pcaps (y_kern y)" by (simp add: set_current_caps)
  moreover from arg_cong [OF this, of length] have "length (g_processes k) = length (g_processes (y_kern y))" by simp
  ultimately show ?case using switch(2) by (simp add: within_def)
qed

interpretation sys_calls: preserved syscall_step "within m"
  by unfold_locales (rule syscall_step_within)

text \<open>A set of processes whose rights lie within a mask never leaves it by system calls.\<close>

lemmas syscalls_within = sys_calls.history

section \<open>The entry\<close>

lemma range_valid_first:
  assumes "process_user_range_valid pid va n required k"
  shows "\<exists>i. process_get pid k = Some i \<and> page_allows (proc_at k i) required va"
proof -
  have "n \<noteq> 0" using assms by (auto simp: process_user_range_valid_def user_bounds_def split: option.splits if_splits)
  then have "\<exists>c cs. user_chunks va n 0 = (va, 0, c) # cs"
    by (subst user_chunks.simps) (simp add: Let_def word_gt_0)
  then show ?thesis using assms by (auto simp: process_user_range_valid_def split: option.splits if_splits)
qed

text \<open>
  C16. The entry refuses every system call that a program makes on the stack the loader gave it: the loader
  registers the stack as writable and not executable, and the check of the stack pointer asks for a writable
  page without naming the flag, which the check of user pages takes as a demand for an executable page.  The call is
  answered with \<open>-1\<close> and has no effect, the call to exit included.
\<close>

theorem syscall_stack_rejected:
  assumes "calling_process y = Some i" "slot_of_page (proc_at (y_kern y) i) (fr_rsp f AND NOT (PAGE_SIZE - 1)) = Some j"
    and "n < ELF_STACK_PAGES" "p_page_flags (proc_at (y_kern y) i) ! j = snd (elf_page_list ps bias s e ! (unat ((e - s) div PAGE_SIZE) + n))"
  shows "syscall_interrupt_handler rsp f y = Some (NEXUS_SYSCALL_ACTION_RETURN, f\<lparr>fr_rax := - 1\<rparr>, y)"
proof -
  have "p_page_flags (proc_at (y_kern y) i) ! j = VMM_PAGE_WRITABLE OR VMM_PAGE_NX" using assms(3,4) by (simp add: elf_page_list_def nth_append)
  then have "\<not> page_allows (proc_at (y_kern y) i) VMM_PAGE_WRITABLE (fr_rsp f)"
    using assms(2) by (simp add: page_allows_def VMM_PAGE_WRITABLE_def VMM_PAGE_NX_def)
  then have "\<not> process_user_range_valid (p_pid (proc_at (y_kern y) i)) (fr_rsp f) 1 VMM_PAGE_WRITABLE (y_kern y)"
    using range_valid_first calling_process_get [OF assms(1)] by fastforce
  then show ?thesis using assms(1) by (simp add: syscall_interrupt_handler_def)
qed

text \<open>A process that runs a user program on a stack of one page, with the given rights.\<close>

definition ex_sys :: "u64 \<Rightarrow> unit sys" where
  "ex_sys caps = \<lparr>y_sched = ex_sched\<lparr>s_kern := upd_proc 0 (\<lambda>p. p\<lparr>p_state := PROCESS_RUNNING, p_thread_id := 1,
     p_flags := PROCESS_FLAG_USER_CONTEXT, p_capabilities := caps, p_page_count := 1, p_page_va := (p_page_va p)[0 := 0x7FFFF000],
     p_page_flags := (p_page_flags p)[0 := VMM_PAGE_WRITABLE OR VMM_PAGE_NX]\<rparr>) ex_kern\<rparr>,
     y_vfs = ex_vfs, y_ready = True, y_runtime = True, y_console = [], y_stack = (\<lambda>_. 0)\<rparr>"

lemma ex_sys_caller: "calling_process (ex_sys 0) = Some 0" "calling_process (ex_sys NEXUS_CAP_ALL) = Some 0"
  by code_simp+

theorem syscall_capability_gate_witness:
  "syscall_dispatch 11 0x400000 0 0 0 (ex_sys 0) = Some (- 1, ex_sys 0)"
proof -
  have c: "syscall_of 11 = Some NEXUS_SYS_MKDIR" "required_cap NEXUS_SYS_MKDIR = Some NEXUS_CAP_FILESYSTEM_WRITE"
    "p_capabilities (proc_at (y_kern (ex_sys 0)) 0) AND NEXUS_CAP_FILESYSTEM_WRITE \<noteq> NEXUS_CAP_FILESYSTEM_WRITE" by code_simp+
  have "syscall_dispatch 11 0x400000 0 0 0 (ex_sys 0) \<noteq> None" by code_simp
  then obtain r y' where d: "syscall_dispatch 11 0x400000 0 0 0 (ex_sys 0) = Some (r, y')" by auto
  from syscall_capability_gate [OF ex_sys_caller(1) c(1) d] c(2,3) d show ?thesis by auto
qed

theorem syscall_caps_confined_witness:
  "\<exists>y'. syscall_dispatch 67 NEXUS_CAP_IPC 0 0 0 (ex_sys NEXUS_CAP_ALL) = Some (0, y') \<and>
     confined NEXUS_CAP_ALL (pcaps (y_kern (ex_sys NEXUS_CAP_ALL))) (pcaps (y_kern y')) \<and> pcaps (y_kern y') ! 0 \<noteq> NEXUS_CAP_ALL"
proof -
  have "map_option (\<lambda>(r, y'). (r, pcaps (y_kern y') ! 0 \<noteq> NEXUS_CAP_ALL)) (syscall_dispatch 67 NEXUS_CAP_IPC 0 0 0 (ex_sys NEXUS_CAP_ALL)) = Some (0, True)"
    by code_simp
  then obtain y' where d: "syscall_dispatch 67 NEXUS_CAP_IPC 0 0 0 (ex_sys NEXUS_CAP_ALL) = Some (0, y')" "pcaps (y_kern y') ! 0 \<noteq> NEXUS_CAP_ALL"
    by auto
  have "p_capabilities (proc_at (y_kern (ex_sys NEXUS_CAP_ALL)) 0) = NEXUS_CAP_ALL" by code_simp
  then show ?thesis using syscall_caps_confined [OF ex_sys_caller(2) d(1)] d by auto
qed

definition ex_frame :: syscall_frame where
  "ex_frame = \<lparr>fr_rax = 2, fr_rdi = 0, fr_rsi = 0, fr_rdx = 0, fr_r10 = 0, fr_rip = 0x400000, fr_cs = 0x23, fr_rflags = 0x202,
     fr_rsp = 0x7FFFFF00, fr_ss = 0x1B\<rparr>"

theorem syscall_stack_rejected_witness:
  "syscall_frame_valid ex_frame \<and>
   syscall_interrupt_handler 0 ex_frame (ex_sys NEXUS_CAP_ALL) = Some (NEXUS_SYSCALL_ACTION_RETURN, ex_frame\<lparr>fr_rax := - 1\<rparr>, ex_sys NEXUS_CAP_ALL)"
proof -
  have "syscall_frame_valid ex_frame" by code_simp
  moreover have s: "slot_of_page (proc_at (y_kern (ex_sys NEXUS_CAP_ALL)) 0) (fr_rsp ex_frame AND NOT (PAGE_SIZE - 1)) = Some 0"
    "p_page_flags (proc_at (y_kern (ex_sys NEXUS_CAP_ALL)) 0) ! 0 = snd (elf_page_list [] 0 0x400000 0x401000 ! (unat ((0x401000 - 0x400000 :: u64) div PAGE_SIZE) + 3))"
    by code_simp+
  ultimately show ?thesis
    using syscall_stack_rejected [OF ex_sys_caller(2) s(1) _ s(2)] by simp
qed

end
