(* ===== verification/Module.thy ===== *)
theory Module
  imports Nexus_Prelude
begin

text \<open>
  The module manager (\<open>kernel/core/module/module.c\<close>): the table of drivers and services that the linker collects, and
  their start in the order of priorities and dependencies.  The function that starts a module is a field of its
  descriptor, as in the code; it acts on a state of its own, of type \<open>'w\<close>, and reports success as a number other
  than 0.  No function of the module table calls the manager.
\<close>

section \<open>The table\<close>

abbreviation NEXUS_MODULE_MAGIC :: u32 where "NEXUS_MODULE_MAGIC \<equiv> 0x4D4F4458"
abbreviation NEXUS_MODULE_MAX :: nat where "NEXUS_MODULE_MAX \<equiv> 32"

datatype nexus_module_type = NEXUS_MODULE_BUILTIN | NEXUS_MODULE_DRIVER | NEXUS_MODULE_SERVICE

datatype nexus_module_state =
  NEXUS_MODULE_STATE_DECLARED | NEXUS_MODULE_STATE_LOADING | NEXUS_MODULE_STATE_LOADED | NEXUS_MODULE_STATE_FAILED

record 'w nexus_module_descriptor =
  md_magic :: u32
  md_name :: "string option"
  md_version :: "string option"
  md_type :: nexus_module_type
  md_priority :: u16
  md_init :: "('w \<Rightarrow> u32 \<times> 'w) option"
  md_dependencies :: "string option list"

text \<open>The function that stops a module is never called and is left out.\<close>

record 'w nexus_module_runtime =
  mr_descriptor :: "'w nexus_module_descriptor"
  mr_state :: nexus_module_state
  mr_result :: u32

text \<open>A line of the console about a module: its name, kind and version, and whether it started.\<close>

type_synonym status_line = "string option \<times> string \<times> string \<times> bool"

record 'w modules =
  mo_runtime :: "'w nexus_module_runtime list"
  mo_loaded :: nat
  mo_failed :: nat
  mo_stack :: "bool list"
  mo_console :: "status_line list"
  mo_world :: 'w

abbreviation module_at :: "'w modules \<Rightarrow> nat \<Rightarrow> 'w nexus_module_runtime" where
  "module_at m i \<equiv> mo_runtime m ! i"

abbreviation descriptor :: "'w modules \<Rightarrow> nat \<Rightarrow> 'w nexus_module_descriptor" where
  "descriptor m i \<equiv> mr_descriptor (module_at m i)"

abbreviation module_state :: "'w modules \<Rightarrow> nat \<Rightarrow> nexus_module_state" where
  "module_state m i \<equiv> mr_state (module_at m i)"

abbreviation set_module :: "nat \<Rightarrow> nexus_module_state \<Rightarrow> u32 \<Rightarrow> 'w modules \<Rightarrow> 'w modules" where
  "set_module i st res m \<equiv> m\<lparr>mo_runtime := (mo_runtime m)[i := (module_at m i)\<lparr>mr_state := st, mr_result := res\<rparr>]\<rparr>"

abbreviation status_line :: "'w nexus_module_descriptor \<Rightarrow> bool \<Rightarrow> status_line" where
  "status_line d ok \<equiv> (md_name d, if md_type d = NEXUS_MODULE_DRIVER then ''driver'' else ''service'',
     case md_version d of None \<Rightarrow> ''unknown'' | Some v \<Rightarrow> v, ok)"

section \<open>Operations\<close>

definition name_equal :: "string option \<Rightarrow> string option \<Rightarrow> bool" where
  "name_equal a b = (case (a, b) of (Some x, Some y) \<Rightarrow> x = y | _ \<Rightarrow> False)"

definition copy_registered_modules :: "'w nexus_module_descriptor list \<Rightarrow> 'w modules \<Rightarrow> 'w modules" where
  "copy_registered_modules table m =
     m\<lparr>mo_runtime := map (\<lambda>d. \<lparr>mr_descriptor = d, mr_state = NEXUS_MODULE_STATE_DECLARED, mr_result = 0\<rparr>)
         (take NEXUS_MODULE_MAX (filter (\<lambda>d. md_magic d = NEXUS_MODULE_MAGIC \<and> md_name d \<noteq> None \<and> md_init d \<noteq> None) table)),
       mo_loaded := 0, mo_failed := 0\<rparr>"

definition find_runtime :: "string option \<Rightarrow> 'w modules \<Rightarrow> nat option" where
  "find_runtime name m = find (\<lambda>i. name_equal (md_name (descriptor m i)) name) [0..<length (mo_runtime m)]"

definition find_next_declared :: "'w modules \<Rightarrow> nat option" where
  "find_next_declared m =
     fold (\<lambda>i best. if module_state m i \<noteq> NEXUS_MODULE_STATE_DECLARED then best
                    else case best of
                           None \<Rightarrow> Some i
                         | Some b \<Rightarrow> if md_priority (descriptor m i) < md_priority (descriptor m b) then Some i else best)
       [0..<length (mo_runtime m)] None"

text \<open>
  The loop over the dependencies of module \<open>i\<close>; \<open>load\<close> loads one module.  The answer says whether all of them are
  loaded.
\<close>

primrec load_dependencies ::
  "(nat \<Rightarrow> 'w modules \<Rightarrow> (bool \<times> 'w modules) option) \<Rightarrow> nat \<Rightarrow> string option list \<Rightarrow> 'w modules \<Rightarrow> (bool \<times> 'w modules) option" where
  "load_dependencies load i [] m = Some (True, m)"
| "load_dependencies load i (d # ds) m =
     (case find_runtime d m of
        None \<Rightarrow> Some (False, m)
      | Some j \<Rightarrow>
          if j = i \<or> mo_stack m ! j then Some (False, m)
          else (case load j m of
                  None \<Rightarrow> None
                | Some (False, m1) \<Rightarrow> Some (False, m1)
                | Some (True, m1) \<Rightarrow> load_dependencies load i ds m1))"

definition module_fail :: "nat \<Rightarrow> 'w modules \<Rightarrow> 'w modules" where
  "module_fail i m =
     (set_module i NEXUS_MODULE_STATE_FAILED 0 m)\<lparr>mo_failed := mo_failed m + 1, mo_stack := (mo_stack m)[i := False],
        mo_console := mo_console m @ [status_line (descriptor m i) False]\<rparr>"

text \<open>The recursion is bounded by a number of levels; \<open>None\<close> stands for a call that does not return.\<close>

primrec module_load_index :: "nat \<Rightarrow> nat \<Rightarrow> 'w modules \<Rightarrow> (bool \<times> 'w modules) option" where
  "module_load_index 0 i m = None"
| "module_load_index (Suc n) i m =
     (if i \<ge> length (mo_runtime m) then Some (False, m)
      else case module_state m i of
             NEXUS_MODULE_STATE_LOADED \<Rightarrow> Some (True, m)
           | NEXUS_MODULE_STATE_FAILED \<Rightarrow> Some (False, m)
           | NEXUS_MODULE_STATE_LOADING \<Rightarrow> Some (False, m)
           | NEXUS_MODULE_STATE_DECLARED \<Rightarrow>
               (case load_dependencies (module_load_index n) i (md_dependencies (descriptor m i)) (m\<lparr>mo_stack := (mo_stack m)[i := True]\<rparr>) of
                  None \<Rightarrow> None
                | Some (False, m1) \<Rightarrow> Some (False, module_fail i m1)
                | Some (True, m1) \<Rightarrow>
                    let m2 = set_module i NEXUS_MODULE_STATE_LOADING (mr_result (module_at m1 i)) m1
                    in (case md_init (descriptor m2 i) of
                          None \<Rightarrow> None
                        | Some start \<Rightarrow>
                            (case start (mo_world m2) of
                               (rc, w) \<Rightarrow>
                                 if rc \<noteq> 0
                                 then Some (True, (set_module i NEXUS_MODULE_STATE_LOADED rc m2)\<lparr>mo_loaded := mo_loaded m2 + 1,
                                        mo_stack := (mo_stack m2)[i := False], mo_world := w,
                                        mo_console := mo_console m2 @ [status_line (descriptor m2 i) True]\<rparr>)
                                 else Some (False, module_fail i (m2\<lparr>mo_world := w\<rparr>))))))"

definition module_load :: "string option \<Rightarrow> 'w modules \<Rightarrow> (bool \<times> 'w modules) option" where
  "module_load name m =
     (case find_runtime name m of
        None \<Rightarrow> Some (False, m)
      | Some i \<Rightarrow>
          if module_state m i = NEXUS_MODULE_STATE_LOADED then Some (True, m)
          else if module_state m i = NEXUS_MODULE_STATE_LOADING then Some (False, m)
          else module_load_index (NEXUS_MODULE_MAX + 1) i m)"

partial_function (option) load_all_loop :: "'w modules \<Rightarrow> 'w modules option" where
  "load_all_loop m =
     (case find_next_declared m of
        None \<Rightarrow> Some m
      | Some i \<Rightarrow>
          (case module_load (md_name (descriptor m i)) m of
             None \<Rightarrow> None
           | Some (ok, m1) \<Rightarrow> load_all_loop m1))"

definition module_load_all :: "'w modules \<Rightarrow> (nat \<times> 'w modules) option" where
  "module_load_all m =
     map_option (\<lambda>m1. (if find_next_declared m = None then 0 else mo_loaded m1, m1)) (load_all_loop m)"

definition module_is_loaded :: "string option \<Rightarrow> 'w modules \<Rightarrow> bool" where
  "module_is_loaded name m =
     (case find_runtime name m of None \<Rightarrow> False | Some i \<Rightarrow> module_state m i = NEXUS_MODULE_STATE_LOADED)"

definition module_dependency_count :: "string option \<Rightarrow> 'w modules \<Rightarrow> int" where
  "module_dependency_count name m =
     (case find_runtime name m of None \<Rightarrow> - 1 | Some i \<Rightarrow> int (length (md_dependencies (descriptor m i))))"

definition module_dependency_failed :: "string option \<Rightarrow> 'w modules \<Rightarrow> bool" where
  "module_dependency_failed name m =
     (case find_runtime name m of
        None \<Rightarrow> True
      | Some i \<Rightarrow> list_ex (\<lambda>d. \<not> module_is_loaded d m) (md_dependencies (descriptor m i)))"

section \<open>Loading one module\<close>

text \<open>The counters are exact, and a module that is loaded was loaded after everything it depends on.\<close>

definition started :: "string option \<Rightarrow> status_line list \<Rightarrow> bool" where
  "started n ls \<longleftrightarrow> (\<exists>kind version. (n, kind, version, True) \<in> set ls)"

definition in_order :: "'w modules \<Rightarrow> bool" where
  "in_order m \<longleftrightarrow> (\<forall>pre n kind version post i d. mo_console m = pre @ (n, kind, version, True) # post \<longrightarrow> i < length (mo_runtime m) \<longrightarrow>
     md_name (descriptor m i) = n \<longrightarrow> d \<in> set (md_dependencies (descriptor m i)) \<longrightarrow> started d pre)"

definition module_inv :: "'w modules \<Rightarrow> bool" where
  "module_inv m \<longleftrightarrow> length (mo_runtime m) \<le> NEXUS_MODULE_MAX \<and> length (mo_stack m) = NEXUS_MODULE_MAX \<and>
     distinct (map (\<lambda>r. md_name (mr_descriptor r)) (mo_runtime m)) \<and>
     (\<forall>r \<in> set (mo_runtime m). md_init (mr_descriptor r) \<noteq> None \<and> md_name (mr_descriptor r) \<noteq> None \<and> mr_state r \<noteq> NEXUS_MODULE_STATE_LOADING) \<and>
     (\<forall>n. started n (mo_console m) \<longleftrightarrow> (\<exists>r \<in> set (mo_runtime m). md_name (mr_descriptor r) = n \<and> mr_state r = NEXUS_MODULE_STATE_LOADED)) \<and>
     mo_loaded m = length (filter (\<lambda>r. mr_state r = NEXUS_MODULE_STATE_LOADED) (mo_runtime m)) \<and>
     mo_failed m = length (filter (\<lambda>r. mr_state r = NEXUS_MODULE_STATE_FAILED) (mo_runtime m)) \<and> in_order m"

text \<open>What loading keeps: the descriptors, the marks, what was started, and the states of all modules that are settled or
  marked.\<close>

definition loads :: "'w modules \<Rightarrow> 'w modules \<Rightarrow> bool" where
  "loads m m' \<longleftrightarrow> map mr_descriptor (mo_runtime m') = map mr_descriptor (mo_runtime m) \<and> mo_stack m' = mo_stack m \<and>
     (\<forall>n. started n (mo_console m) \<longrightarrow> started n (mo_console m')) \<and>
     (\<forall>j < length (mo_runtime m). module_state m j \<noteq> NEXUS_MODULE_STATE_DECLARED \<or> mo_stack m ! j \<longrightarrow> module_state m' j = module_state m j)"

lemma loads_refl [simp]: "loads m m"
  by (simp add: loads_def)

lemma loadsD:
  assumes "loads m m'"
  shows "length (mo_runtime m') = length (mo_runtime m)" "mo_stack m' = mo_stack m"
    "started n (mo_console m) \<Longrightarrow> started n (mo_console m')"
    "i < length (mo_runtime m) \<Longrightarrow> descriptor m' i = descriptor m i"
    "i < length (mo_runtime m) \<Longrightarrow> module_state m i \<noteq> NEXUS_MODULE_STATE_DECLARED \<or> mo_stack m ! i \<Longrightarrow> module_state m' i = module_state m i"
proof -
  have d: "map mr_descriptor (mo_runtime m') = map mr_descriptor (mo_runtime m)" using assms by (simp add: loads_def)
  from arg_cong [OF d, of length] show l: "length (mo_runtime m') = length (mo_runtime m)" by simp
  show "i < length (mo_runtime m) \<Longrightarrow> descriptor m' i = descriptor m i" using arg_cong [OF d, of "\<lambda>xs. xs ! i"] l by simp
  show "mo_stack m' = mo_stack m" "started n (mo_console m) \<Longrightarrow> started n (mo_console m')"
    "i < length (mo_runtime m) \<Longrightarrow> module_state m i \<noteq> NEXUS_MODULE_STATE_DECLARED \<or> mo_stack m ! i \<Longrightarrow> module_state m' i = module_state m i"
    using assms unfolding loads_def by blast+
qed

lemma loads_trans:
  assumes "loads m m1" "loads m1 m2"
  shows "loads m m2"
proof -
  have "map mr_descriptor (mo_runtime m2) = map mr_descriptor (mo_runtime m)" using assms unfolding loads_def by metis
  moreover have "module_state m2 j = module_state m j"
    if "j < length (mo_runtime m)" "module_state m j \<noteq> NEXUS_MODULE_STATE_DECLARED \<or> mo_stack m ! j" for j
    using loadsD(5) [OF assms(1) that] loadsD(5) [OF assms(2), of j] loadsD(1,2) [OF assms(1)] that by auto
  ultimately show ?thesis unfolding loads_def using loadsD(2,3) [OF assms(1)] loadsD(2,3) [OF assms(2)] by auto
qed

lemma find_runtime_loads: "loads m m' \<Longrightarrow> find_runtime n m' = find_runtime n m"
  using loadsD(1,4) [of m m'] unfolding find_runtime_def by (auto intro!: find_cong)

lemma find_runtime_SomeD:
  assumes "find_runtime n m = Some i"
  shows "i < length (mo_runtime m)" "md_name (descriptor m i) = n" "n \<noteq> None"
  using assms by (auto simp: find_runtime_def find_Some_iff name_equal_def split: option.splits)

lemma filter_update_count:
  assumes "i < length xs" "\<not> P (xs ! i)"
  shows "length (filter P (xs[i := x])) = length (filter P xs) + (if P x then 1 else 0)"
proof -
  have "filter P xs = filter P (take i xs @ xs ! i # drop (Suc i) xs)" using assms(1) by (simp flip: id_take_nth_drop)
  then have "length (filter P xs) = length (filter P (take i xs)) + length (filter P (drop (Suc i) xs))" using assms(2) by simp
  then show ?thesis using assms(1) by (simp add: upd_conv_take_nth_drop)
qed

lemma ex_set_update:
  assumes "i < length xs" "\<not> P (xs ! i)"
  shows "(\<exists>x \<in> set (xs[i := y]). P x) \<longleftrightarrow> (\<exists>x \<in> set xs. P x) \<or> P y"
proof -
  have "set xs = set (take i xs @ xs ! i # drop (Suc i) xs)" using assms(1) by (simp flip: id_take_nth_drop)
  then show ?thesis using assms by (auto simp: upd_conv_take_nth_drop)
qed

definition room :: "'w modules \<Rightarrow> nat" where
  "room m = card {j. j < length (mo_runtime m) \<and> \<not> mo_stack m ! j}"

lemma room_loads: "loads m m' \<Longrightarrow> room m' = room m"
  using loadsD(1,2) [of m m'] by (simp add: room_def)

lemma room_mark:
  assumes "i < length (mo_runtime m)" "\<not> mo_stack m ! i" "length (mo_runtime m) \<le> length (mo_stack m)"
  shows "Suc (room (m\<lparr>mo_stack := (mo_stack m)[i := True]\<rparr>)) = room m"
proof -
  let ?A = "{j. j < length (mo_runtime m) \<and> \<not> mo_stack m ! j}"
  have "{j. j < length (mo_runtime m) \<and> \<not> (mo_stack m)[i := True] ! j} = ?A - {i}"
    using assms by (auto simp: nth_list_update)
  moreover have "Suc (card (?A - {i})) = card ?A" using assms by (intro card_Suc_Diff1) auto
  ultimately show ?thesis by (simp add: room_def)
qed

text \<open>A declared module becomes loaded or failed.\<close>

definition settle :: "nat \<Rightarrow> bool \<Rightarrow> u32 \<Rightarrow> 'w \<Rightarrow> 'w modules \<Rightarrow> 'w modules" where
  "settle i ok rc w m =
     m\<lparr>mo_runtime := (mo_runtime m)[i := (module_at m i)\<lparr>mr_state := (if ok then NEXUS_MODULE_STATE_LOADED else NEXUS_MODULE_STATE_FAILED),
         mr_result := rc\<rparr>],
       mo_loaded := mo_loaded m + (if ok then 1 else 0), mo_failed := mo_failed m + (if ok then 0 else 1),
       mo_stack := (mo_stack m)[i := False], mo_console := mo_console m @ [status_line (descriptor m i) ok], mo_world := w\<rparr>"

lemma started_append [simp]: "started n (xs @ ys) \<longleftrightarrow> started n xs \<or> started n ys"
  by (auto simp: started_def)

lemma in_order_settle:
  assumes "in_order m" "i < length (mo_runtime m)" "distinct (map (\<lambda>r. md_name (mr_descriptor r)) (mo_runtime m))"
    and "ok \<Longrightarrow> \<forall>d \<in> set (md_dependencies (descriptor m i)). started d (mo_console m)"
  shows "in_order (settle i ok rc w m)"
proof -
  have d: "descriptor (settle i ok rc w m) j = descriptor m j" if "j < length (mo_runtime m)" for j
    using that assms(2) by (cases "j = i") (simp_all add: settle_def)
  have u: "j = i" if "j < length (mo_runtime m)" "md_name (descriptor m j) = md_name (descriptor m i)" for j
    using nth_eq_iff_index_eq [OF assms(3), of j i] that assms(2) by simp
  have "started x pre" if c: "mo_console (settle i ok rc w m) = pre @ (n, kind, version, True) # post" "j < length (mo_runtime m)"
      "md_name (descriptor m j) = n" "x \<in> set (md_dependencies (descriptor m j))" for pre n kind version post j x
  proof (cases post rule: rev_cases)
    case Nil
    then show ?thesis using c assms(4) u [of j] by (auto simp: settle_def)
  next
    case (snoc post' y)
    then have "mo_console m = pre @ (n, kind, version, True) # post'" using c(1) by (simp add: settle_def)
    then show ?thesis using assms(1) c(2-) unfolding in_order_def by blast
  qed
  then show ?thesis unfolding in_order_def using d by (simp add: settle_def)
qed

lemma settle_inv:
  assumes "module_inv m" "i < length (mo_runtime m)" "module_state m i = NEXUS_MODULE_STATE_DECLARED"
    and "ok \<Longrightarrow> \<forall>d \<in> set (md_dependencies (descriptor m i)). started d (mo_console m)"
  shows "module_inv (settle i ok rc w m)"
proof -
  let ?r = "(module_at m i)\<lparr>mr_state := (if ok then NEXUS_MODULE_STATE_LOADED else NEXUS_MODULE_STATE_FAILED), mr_result := rc\<rparr>"
  have r: "mo_runtime (settle i ok rc w m) = (mo_runtime m)[i := ?r]" by (simp add: settle_def)
  have o: "in_order (settle i ok rc w m)" using assms by (intro in_order_settle) (simp_all add: module_inv_def)
  have n: "map (\<lambda>r. md_name (mr_descriptor r)) ((mo_runtime m)[i := ?r]) = map (\<lambda>r. md_name (mr_descriptor r)) (mo_runtime m)"
    using assms(2) by (simp add: map_update list_update_same_conv)
  have f: "length (filter (\<lambda>r. mr_state r = st) ((mo_runtime m)[i := ?r])) =
      length (filter (\<lambda>r. mr_state r = st) (mo_runtime m)) + (if mr_state ?r = st then 1 else 0)" if "st \<noteq> NEXUS_MODULE_STATE_DECLARED" for st
    using filter_update_count [OF assms(2), of "\<lambda>r. mr_state r = st" ?r] assms(3) that by simp
  have "started n (mo_console (settle i ok rc w m)) \<longleftrightarrow> started n (mo_console m) \<or> ok \<and> n = md_name (descriptor m i)" for n
    by (auto simp: settle_def started_def)
  moreover have "(\<exists>q \<in> set ((mo_runtime m)[i := ?r]). md_name (mr_descriptor q) = n \<and> mr_state q = NEXUS_MODULE_STATE_LOADED) \<longleftrightarrow>
      (\<exists>q \<in> set (mo_runtime m). md_name (mr_descriptor q) = n \<and> mr_state q = NEXUS_MODULE_STATE_LOADED) \<or> ok \<and> n = md_name (descriptor m i)" for n
    using ex_set_update [OF assms(2), of "\<lambda>q. md_name (mr_descriptor q) = n \<and> mr_state q = NEXUS_MODULE_STATE_LOADED" ?r] assms(3) by auto
  ultimately have s: "started n (mo_console (settle i ok rc w m)) \<longleftrightarrow>
      (\<exists>q \<in> set ((mo_runtime m)[i := ?r]). md_name (mr_descriptor q) = n \<and> mr_state q = NEXUS_MODULE_STATE_LOADED)" for n
    using assms(1) by (simp add: module_inv_def)
  have q: "md_init (mr_descriptor q) \<noteq> None \<and> md_name (mr_descriptor q) \<noteq> None \<and> mr_state q \<noteq> NEXUS_MODULE_STATE_LOADING"
    if "q \<in> set ((mo_runtime m)[i := ?r])" for q
  proof (cases "q = ?r")
    case True
    then show ?thesis using assms(1,2) by (simp add: module_inv_def)
  next
    case False
    then have "q \<in> set (mo_runtime m)" using that set_update_subset_insert by fastforce
    then show ?thesis using assms(1) by (simp add: module_inv_def)
  qed
  show ?thesis
    using assms(1) o q s unfolding module_inv_def r n f [OF nexus_module_state.distinct(4)] f [OF nexus_module_state.distinct(6)]
    by (simp add: settle_def)
qed

lemma settle_loads:
  assumes "loads (m\<lparr>mo_stack := (mo_stack m)[i := True]\<rparr>) m1" "i < length (mo_runtime m)" "module_state m i = NEXUS_MODULE_STATE_DECLARED"
    and "\<not> mo_stack m ! i" "i < length (mo_stack m)"
  shows "loads m (settle i ok rc w m1)"
proof -
  note L = loadsD [OF assms(1), simplified]
  have "map mr_descriptor (mo_runtime (settle i ok rc w m1)) = map mr_descriptor (mo_runtime m1)"
    using assms(2) L(1) by (simp add: settle_def map_update list_update_same_conv)
  then have d: "map mr_descriptor (mo_runtime (settle i ok rc w m1)) = map mr_descriptor (mo_runtime m)"
    using assms(1) by (simp add: loads_def)
  have t: "mo_stack (settle i ok rc w m1) = mo_stack m" using L(2) assms(4) by (simp add: settle_def) (metis list_update_id)
  have "module_state (settle i ok rc w m1) j = module_state m j"
    if "j < length (mo_runtime m)" "module_state m j \<noteq> NEXUS_MODULE_STATE_DECLARED \<or> mo_stack m ! j" for j
  proof -
    have "j \<noteq> i" using that(2) assms(3,4) by auto
    then show ?thesis using L(5) [OF that(1)] that(2) by (simp add: settle_def)
  qed
  then show ?thesis using d t L(3) unfolding loads_def by (simp add: settle_def)
qed

definition load_ok :: "nat \<Rightarrow> bool \<Rightarrow> 'w modules \<Rightarrow> 'w modules \<Rightarrow> bool" where
  "load_ok i b m m' \<longleftrightarrow> module_inv m' \<and> loads m m' \<and> module_state m' i = (if b then NEXUS_MODULE_STATE_LOADED else NEXUS_MODULE_STATE_FAILED)"

lemma load_dependencies_spec:
  assumes IH: "\<And>j m. module_inv m \<Longrightarrow> room m < n \<Longrightarrow> \<not> mo_stack m ! j \<Longrightarrow> j < length (mo_runtime m) \<Longrightarrow>
      \<exists>b m'. load j m = Some (b, m') \<and> load_ok j b m m'"
    and "module_inv m" "room m < n"
  shows "\<exists>b m'. load_dependencies load i ds m = Some (b, m') \<and> module_inv m' \<and> loads m m' \<and>
    (b \<longrightarrow> (\<forall>d \<in> set ds. started d (mo_console m')))"
  using assms(2,3)
proof (induction ds arbitrary: m)
  case Nil
  then show ?case by auto
next
  case (Cons d ds)
  show ?case
  proof (cases "find_runtime d m")
    case None
    then show ?thesis using Cons.prems by auto
  next
    case (Some j)
    note f = find_runtime_SomeD [OF Some]
    show ?thesis
    proof (cases "j = i \<or> mo_stack m ! j")
      case True
      then show ?thesis using Some Cons.prems by auto
    next
      case False
      then obtain b m1 where j: "load j m = Some (b, m1)" "load_ok j b m m1" using IH Cons.prems f(1) by blast
      then have m1: "module_inv m1" "loads m m1" "room m1 < n" using Cons.prems(2) room_loads [of m m1] by (simp_all add: load_ok_def)
      show ?thesis
      proof (cases b)
        case False
        then show ?thesis using Some \<open>\<not> (j = i \<or> mo_stack m ! j)\<close> j(1) m1 by auto
      next
        case True
        obtain b' m' where r: "load_dependencies load i ds m1 = Some (b', m')" "module_inv m'" "loads m1 m'"
            "b' \<longrightarrow> (\<forall>d \<in> set ds. started d (mo_console m'))" using Cons.IH [OF m1(1,3)] by blast
        have "module_at m1 j \<in> set (mo_runtime m1)" using f(1) loadsD(1) [OF m1(2)] by simp
        moreover have "md_name (descriptor m1 j) = d" "module_state m1 j = NEXUS_MODULE_STATE_LOADED"
          using j(2) True f(2) loadsD(4) [OF m1(2) f(1)] by (simp_all add: load_ok_def)
        ultimately have "started d (mo_console m1)" using m1(1) unfolding module_inv_def by blast
        then have "started d (mo_console m')" using loadsD(3) [OF r(3)] by simp
        then show ?thesis using Some \<open>\<not> (j = i \<or> mo_stack m ! j)\<close> j(1) True r loads_trans [OF m1(2) r(3)] by auto
      qed
    qed
  qed
qed

lemma load_index_settles:
  assumes "i < length (mo_runtime m)" "module_state m i = NEXUS_MODULE_STATE_DECLARED"
    and "load_dependencies (module_load_index n) i (md_dependencies (descriptor m i)) (m\<lparr>mo_stack := (mo_stack m)[i := True]\<rparr>) = Some (b, m1)"
    and "length (mo_runtime m1) = length (mo_runtime m)" "md_init (descriptor m1 i) \<noteq> None"
  shows "\<exists>ok rc w. module_load_index (Suc n) i m = Some (ok, settle i ok rc w m1) \<and> (ok \<longrightarrow> b)"
proof (cases b)
  case False
  then have "module_load_index (Suc n) i m = Some (False, settle i False 0 (mo_world m1) m1)"
    using assms by (simp add: module_fail_def settle_def)
  then show ?thesis by blast
next
  case True
  obtain start where st: "md_init (descriptor m1 i) = Some start" using assms(5) by blast
  obtain rc w where rc: "start (mo_world m1) = (rc, w)" by fastforce
  have "module_load_index (Suc n) i m = Some (rc \<noteq> 0, settle i (rc \<noteq> 0) rc w m1)"
    using True assms st rc by (simp add: module_fail_def settle_def Let_def)
  then show ?thesis using True by blast
qed

lemma module_load_index_spec:
  assumes "module_inv m" "room m < n" "\<not> mo_stack m ! i" "i < length (mo_runtime m)"
  shows "\<exists>b m'. module_load_index n i m = Some (b, m') \<and> load_ok i b m m'"
  using assms
proof (induction n arbitrary: i m)
  case 0
  then show ?case by simp
next
  case (Suc n)
  have nl: "module_state m i \<noteq> NEXUS_MODULE_STATE_LOADING" using Suc.prems(1,4) by (simp add: module_inv_def)
  show ?case
  proof (cases "module_state m i = NEXUS_MODULE_STATE_DECLARED")
    case False
    then show ?thesis using Suc.prems(1,4) nl by (cases "module_state m i") (auto simp: load_ok_def)
  next
    case True
    let ?m = "m\<lparr>mo_stack := (mo_stack m)[i := True]\<rparr>"
    have il: "i < length (mo_stack m)" "length (mo_runtime m) \<le> length (mo_stack m)" using Suc.prems(1,4) by (simp_all add: module_inv_def)
    have "module_inv ?m" using Suc.prems(1) by (simp add: module_inv_def in_order_def)
    moreover have "room ?m < n" using room_mark [OF Suc.prems(4,3) il(2)] Suc.prems(2) by simp
    ultimately obtain b m1 where d: "load_dependencies (module_load_index n) i (md_dependencies (descriptor m i)) ?m = Some (b, m1)"
        "module_inv m1" "loads ?m m1" "b \<longrightarrow> (\<forall>d \<in> set (md_dependencies (descriptor m i)). started d (mo_console m1))"
      using load_dependencies_spec [OF Suc.IH] by blast
    note L = loadsD [OF d(3), simplified]
    have i1: "i < length (mo_runtime m1)" "module_state m1 i = NEXUS_MODULE_STATE_DECLARED" "descriptor m1 i = descriptor m i"
      using L(1,4,5) Suc.prems(4) True il by simp_all
    moreover have "md_init (descriptor m1 i) \<noteq> None" using d(2) i1(1) by (simp add: module_inv_def)
    ultimately obtain ok rc w where s: "module_load_index (Suc n) i m = Some (ok, settle i ok rc w m1)" "ok \<longrightarrow> b"
      using load_index_settles [OF Suc.prems(4) True d(1)] L(1) by blast
    have "module_inv (settle i ok rc w m1)" using settle_inv [OF d(2) i1(1,2)] d(4) s(2) i1(3) by simp
    moreover have "loads m (settle i ok rc w m1)" using settle_loads [OF d(3) Suc.prems(4) True Suc.prems(3) il(1)] .
    ultimately show ?thesis using s(1) i1(1) by (auto simp: load_ok_def settle_def)
  qed
qed

section \<open>Loading all modules\<close>

lemma find_next_fold:
  assumes "fold (\<lambda>i best. if \<not> P i then best else case best of None \<Rightarrow> Some i | Some b \<Rightarrow> if f i < (f b :: u16) then Some i else best) js best = r"
  shows "(r = None \<longleftrightarrow> best = None \<and> (\<forall>j \<in> set js. \<not> P j)) \<and>
    (\<forall>b. r = Some b \<longrightarrow> (b \<in> set js \<and> P b \<or> best = Some b) \<and> (\<forall>j \<in> set js. P j \<longrightarrow> f b \<le> f j) \<and> (\<forall>a. best = Some a \<longrightarrow> f b \<le> f a))"
  using assms
proof (induction js arbitrary: best)
  case Nil
  then show ?case by auto
next
  case (Cons j js)
  show ?case
  proof (cases "P j")
    case False
    then show ?thesis using Cons.IH [of best] Cons.prems by auto
  next
    case True
    note P = this
    show ?thesis
    proof (cases best)
      case None
      then show ?thesis using Cons.IH [of "Some j"] Cons.prems P by auto
    next
      case (Some a)
      show ?thesis
      proof (cases "f j < f a")
        case True
        then have le: "f b \<le> f j \<Longrightarrow> f b \<le> f a" for b by (meson order.trans less_imp_le)
        show ?thesis using Cons.IH [of "Some j"] Cons.prems P Some True by (auto intro: le)
      next
        case False
        then have le: "f b \<le> f a \<Longrightarrow> f b \<le> f j" for b by (meson order.trans not_less)
        show ?thesis using Cons.IH [of "Some a"] Cons.prems P Some False by (auto intro: le)
      qed
    qed
  qed
qed

lemma find_next_declared_spec:
  "find_next_declared m = None \<longleftrightarrow> (\<forall>j < length (mo_runtime m). module_state m j \<noteq> NEXUS_MODULE_STATE_DECLARED)"
  "find_next_declared m = Some i \<Longrightarrow> i < length (mo_runtime m) \<and> module_state m i = NEXUS_MODULE_STATE_DECLARED \<and>
     (\<forall>j < length (mo_runtime m). module_state m j = NEXUS_MODULE_STATE_DECLARED \<longrightarrow> md_priority (descriptor m i) \<le> md_priority (descriptor m j))"
  using find_next_fold [of "\<lambda>i. module_state m i = NEXUS_MODULE_STATE_DECLARED" "\<lambda>i. md_priority (descriptor m i)", OF refl, of "[0..<length (mo_runtime m)]" None]
  unfolding find_next_declared_def by auto

lemma find_runtime_self:
  assumes "module_inv m" "i < length (mo_runtime m)"
  shows "find_runtime (md_name (descriptor m i)) m = Some i"
proof -
  have d: "distinct (map (\<lambda>r. md_name (mr_descriptor r)) (mo_runtime m))" "md_name (descriptor m i) \<noteq> None"
    using assms by (simp_all add: module_inv_def)
  have "\<not> name_equal (md_name (descriptor m j)) (md_name (descriptor m i))" if "j < i" for j
    using nth_eq_iff_index_eq [OF d(1), of j i] that assms(2) by (auto simp: name_equal_def split: option.splits)
  then show ?thesis using assms(2) d(2) unfolding find_runtime_def find_Some_iff
    by (intro exI [of _ i]) (auto simp: name_equal_def)
qed

definition waiting :: "'w modules \<Rightarrow> nat set" where
  "waiting m = {j. j < length (mo_runtime m) \<and> module_state m j = NEXUS_MODULE_STATE_DECLARED}"

lemma load_next:
  assumes "module_inv m" "mo_stack m = replicate NEXUS_MODULE_MAX False" "find_next_declared m = Some i"
  shows "\<exists>b m1. module_load (md_name (descriptor m i)) m = Some (b, m1) \<and> module_inv m1 \<and> loads m m1 \<and> waiting m1 \<subset> waiting m"
proof -
  note f = find_next_declared_spec(2) [OF assms(3)]
  have l: "length (mo_runtime m) \<le> 32" using assms(1) by (simp add: module_inv_def)
  have "room m \<le> card {..<length (mo_runtime m)}" unfolding room_def by (intro card_mono) auto
  then have "room m < NEXUS_MODULE_MAX + 1" using l by simp
  moreover have "\<not> mo_stack m ! i" using assms(2) f l by simp
  ultimately obtain b m1 where b: "module_load_index (NEXUS_MODULE_MAX + 1) i m = Some (b, m1)" "load_ok i b m m1"
    using module_load_index_spec [OF assms(1)] f by blast
  have "module_load (md_name (descriptor m i)) m = Some (b, m1)"
    using b(1) f find_runtime_self [OF assms(1), of i] unfolding module_load_def by simp
  moreover have "waiting m1 \<subset> waiting m"
  proof -
    have st: "module_state m j = NEXUS_MODULE_STATE_DECLARED" if "j < length (mo_runtime m)" "module_state m1 j = NEXUS_MODULE_STATE_DECLARED" for j
    proof (rule ccontr)
      assume "module_state m j \<noteq> NEXUS_MODULE_STATE_DECLARED"
      then show False using loadsD(5) [of m m1 j] that b(2) by (simp add: load_ok_def)
    qed
    have i: "i \<in> waiting m" "i \<notin> waiting m1" using f b(2) by (auto simp: waiting_def load_ok_def)
    have "length (mo_runtime m1) = length (mo_runtime m)" using loadsD(1) [of m m1] b(2) by (simp add: load_ok_def)
    then have "waiting m1 \<subseteq> waiting m" using st by (simp add: waiting_def subset_eq)
    then show ?thesis using i by (simp add: psubset_eq) metis
  qed
  ultimately show ?thesis using b(2) unfolding load_ok_def by blast
qed

lemma load_all_loop_spec:
  assumes "module_inv m" "mo_stack m = replicate NEXUS_MODULE_MAX False"
  shows "\<exists>m'. load_all_loop m = Some m' \<and> module_inv m' \<and> loads m m' \<and> waiting m' = {}"
  using assms
proof (induction "card (waiting m)" arbitrary: m rule: less_induct)
  case less
  show ?case
  proof (cases "find_next_declared m")
    case None
    then show ?thesis using less.prems find_next_declared_spec(1) [of m] by (subst load_all_loop.simps) (auto simp: waiting_def)
  next
    case (Some i)
    obtain b m1 where b: "module_load (md_name (descriptor m i)) m = Some (b, m1)" "module_inv m1" "loads m m1" "waiting m1 \<subset> waiting m"
      using load_next [OF less.prems Some] by blast
    have "card (waiting m1) < card (waiting m)" using b(4) by (intro psubset_card_mono) (simp_all add: waiting_def)
    moreover have "mo_stack m1 = replicate NEXUS_MODULE_MAX False" using loadsD(2) [OF b(3)] less.prems(2) by simp
    ultimately obtain m' where m': "load_all_loop m1 = Some m'" "module_inv m'" "loads m1 m'" "waiting m' = {}"
      using less.hyps b(2) by blast
    have "load_all_loop m = Some m'" using Some b(1) m'(1) by (subst load_all_loop.simps) simp
    then show ?thesis using m' loads_trans [OF b(3) m'(3)] by blast
  qed
qed

lemma copy_registered_inv:
  assumes "distinct (map md_name table)" "mo_stack m0 = replicate NEXUS_MODULE_MAX False" "mo_console m0 = []"
  shows "module_inv (copy_registered_modules table m0)"
proof -
  define t where "t = take NEXUS_MODULE_MAX (filter (\<lambda>d. md_magic d = NEXUS_MODULE_MAGIC \<and> md_name d \<noteq> None \<and> md_init d \<noteq> None) table)"
  have d: "distinct (map md_name t)" using assms(1) by (simp add: t_def distinct_map_filter flip: take_map)
  have e: "\<forall>d \<in> set t. md_name d \<noteq> None \<and> md_init d \<noteq> None" by (auto simp: t_def dest: in_set_takeD)
  have l: "length t \<le> 32" by (simp add: t_def)
  have r: "mo_runtime (copy_registered_modules table m0) = map (\<lambda>d. \<lparr>mr_descriptor = d, mr_state = NEXUS_MODULE_STATE_DECLARED, mr_result = 0\<rparr>) t"
    by (simp add: copy_registered_modules_def t_def)
  have o: "mo_loaded (copy_registered_modules table m0) = 0" "mo_failed (copy_registered_modules table m0) = 0"
    "mo_stack (copy_registered_modules table m0) = mo_stack m0" "mo_console (copy_registered_modules table m0) = mo_console m0"
    by (simp_all add: copy_registered_modules_def)
  show ?thesis unfolding module_inv_def in_order_def r o using d e l assms(2,3) by (simp add: started_def comp_def filter_map)
qed

lemma started_iff:
  assumes "module_inv m"
  shows "started n (mo_console m) \<longleftrightarrow> (\<exists>r \<in> set (mo_runtime m). md_name (mr_descriptor r) = n \<and> mr_state r = NEXUS_MODULE_STATE_LOADED)"
  using assms unfolding module_inv_def by meson

lemma started_loaded:
  assumes "module_inv m" "started n (mo_console m)"
  shows "module_is_loaded n m"
proof -
  obtain i where i: "i < length (mo_runtime m)" "md_name (descriptor m i) = n" "module_state m i = NEXUS_MODULE_STATE_LOADED"
    using assms(2) unfolding started_iff [OF assms(1)] by (auto simp: in_set_conv_nth)
  then show ?thesis using find_runtime_self [OF assms(1) i(1)] by (simp add: module_is_loaded_def)
qed

lemma dependencies_loaded:
  assumes "module_inv m" "module_is_loaded n m"
  shows "\<not> module_dependency_failed n m"
proof -
  obtain i where f: "find_runtime n m = Some i" "module_state m i = NEXUS_MODULE_STATE_LOADED"
    using assms(2) by (auto simp: module_is_loaded_def split: option.splits)
  note i = find_runtime_SomeD [OF f(1)]
  have order: "in_order m" using assms(1) by (simp add: module_inv_def)
  have "started n (mo_console m)" using i f(2) nth_mem [OF i(1)] unfolding started_iff [OF assms(1)] by metis
  then obtain pre kind version post where "mo_console m = pre @ (n, kind, version, True) # post"
    by (auto simp: started_def dest: split_list)
  then have "started d (mo_console m)" if "d \<in> set (md_dependencies (descriptor m i))" for d
    using order [unfolded in_order_def, rule_format, OF _ i(1,2) that] by simp
  then show ?thesis using started_loaded [OF assms(1)] f(1) by (simp add: module_dependency_failed_def list_ex_iff)
qed

text \<open>
  C8. The start of the modules terminates and respects dependencies.  Whatever the modules declare, unknown and cyclic
  dependencies included, and whether or not they start, if no two have the same name then \<open>module_load_all\<close> returns.
  Every registered module is then loaded or failed and the two counters are exact.  All dependencies of a loaded
  module are loaded, and were loaded before it.
\<close>

theorem module_load_all_ordered:
  assumes "distinct (map md_name table)" "mo_stack m0 = replicate NEXUS_MODULE_MAX False" "mo_console m0 = []"
  shows "\<exists>m'. module_load_all (copy_registered_modules table m0) = Some (mo_loaded m', m') \<and>
    map mr_descriptor (mo_runtime m') = take NEXUS_MODULE_MAX
      (filter (\<lambda>d. md_magic d = NEXUS_MODULE_MAGIC \<and> md_name d \<noteq> None \<and> md_init d \<noteq> None) table) \<and>
    (\<forall>r \<in> set (mo_runtime m'). mr_state r \<in> {NEXUS_MODULE_STATE_LOADED, NEXUS_MODULE_STATE_FAILED}) \<and>
    mo_loaded m' = length (filter (\<lambda>r. mr_state r = NEXUS_MODULE_STATE_LOADED) (mo_runtime m')) \<and>
    mo_failed m' = length (filter (\<lambda>r. mr_state r = NEXUS_MODULE_STATE_FAILED) (mo_runtime m')) \<and>
    (\<forall>name. module_is_loaded name m' \<longrightarrow> \<not> module_dependency_failed name m') \<and> in_order m'"
proof -
  let ?m = "copy_registered_modules table m0"
  have inv: "module_inv ?m" using copy_registered_inv [OF assms] .
  have "mo_stack ?m = replicate NEXUS_MODULE_MAX False" using assms(2) by (simp add: copy_registered_modules_def)
  then obtain m' where m': "load_all_loop ?m = Some m'" "module_inv m'" "loads ?m m'" "waiting m' = {}"
    using load_all_loop_spec [OF inv] by blast
  have e: "mo_loaded m' = 0" if "find_next_declared ?m = None"
  proof -
    have "mo_runtime ?m = []" using that find_next_declared_spec(1) [of ?m] by (auto simp: copy_registered_modules_def nth_append)
    then show ?thesis using loadsD(1) [OF m'(3)] m'(2) by (simp add: module_inv_def)
  qed
  have c: "module_load_all ?m = Some (mo_loaded m', m')" using m'(1) e by (simp add: module_load_all_def)
  have d: "map mr_descriptor (mo_runtime m') = map mr_descriptor (mo_runtime ?m)" using m'(3) by (simp add: loads_def)
  have s: "mr_state r \<in> {NEXUS_MODULE_STATE_LOADED, NEXUS_MODULE_STATE_FAILED}" if "r \<in> set (mo_runtime m')" for r
  proof -
    have "mr_state r \<noteq> NEXUS_MODULE_STATE_DECLARED" using that m'(4) by (auto simp: waiting_def in_set_conv_nth)
    moreover have "mr_state r \<noteq> NEXUS_MODULE_STATE_LOADING" using that m'(2) by (simp add: module_inv_def)
    ultimately show ?thesis by (cases "mr_state r") simp_all
  qed
  have l: "mo_loaded m' = length (filter (\<lambda>r. mr_state r = NEXUS_MODULE_STATE_LOADED) (mo_runtime m'))"
    "mo_failed m' = length (filter (\<lambda>r. mr_state r = NEXUS_MODULE_STATE_FAILED) (mo_runtime m'))" "in_order m'"
    using m'(2) by (simp_all add: module_inv_def)
  have "\<not> module_dependency_failed name m'" if "module_is_loaded name m'" for name
    using dependencies_loaded [OF m'(2) that] .
  then show ?thesis using c d s l by (intro exI [of _ m']) (simp add: copy_registered_modules_def comp_def)
qed

text \<open>Two services of the kernel, the first of which needs the second, and two modules that need each other.\<close>

definition ex_module :: "string \<Rightarrow> u16 \<Rightarrow> string list \<Rightarrow> nat nexus_module_descriptor" where
  "ex_module name priority needs = \<lparr>md_magic = NEXUS_MODULE_MAGIC, md_name = Some name, md_version = Some ''1.0'', md_type = NEXUS_MODULE_SERVICE,
     md_priority = priority, md_init = Some (\<lambda>w. (1, w + 1)), md_dependencies = map Some needs\<rparr>"

definition ex_table :: "nat nexus_module_descriptor list" where
  "ex_table = [ex_module ''runtime'' 510 [''ipc''], ex_module ''ipc'' 520 [], ex_module ''a'' 1 [''b''], ex_module ''b'' 2 [''a'']]"

definition ex_modules :: "nat modules" where
  "ex_modules = \<lparr>mo_runtime = [], mo_loaded = 0, mo_failed = 0, mo_stack = replicate NEXUS_MODULE_MAX False, mo_console = [], mo_world = 0\<rparr>"

theorem module_load_all_ordered_witness:
  "\<exists>m'. module_load_all (copy_registered_modules ex_table ex_modules) = Some (mo_loaded m', m') \<and> length (mo_runtime m') = 4 \<and> in_order m'"
proof -
  have d: "distinct (map md_name ex_table)" by (simp add: ex_table_def ex_module_def)
  have s: "mo_stack ex_modules = replicate NEXUS_MODULE_MAX False" "mo_console ex_modules = []" by (simp_all add: ex_modules_def)
  obtain m' where m': "module_load_all (copy_registered_modules ex_table ex_modules) = Some (mo_loaded m', m')"
      "map mr_descriptor (mo_runtime m') = take NEXUS_MODULE_MAX
        (filter (\<lambda>d. md_magic d = NEXUS_MODULE_MAGIC \<and> md_name d \<noteq> None \<and> md_init d \<noteq> None) ex_table)" "in_order m'"
    using module_load_all_ordered [OF d s] by blast
  from arg_cong [OF m'(2), of length] have "length (mo_runtime m') = 4" by (simp add: ex_table_def ex_module_def)
  then show ?thesis using m'(1,3) by blast
qed

section \<open>Two modules of the same name\<close>

definition stuck_modules :: "'w modules \<Rightarrow> bool" where
  "stuck_modules m \<longleftrightarrow> (\<exists>i ok. find_next_declared m = Some i \<and> module_load (md_name (descriptor m i)) m = Some (ok, m))"

lemma load_all_loop_stuck: "load_all_loop m = Some m' \<Longrightarrow> \<not> stuck_modules m"
proof (erule load_all_loop.raw_induct [rotated])
  fix f :: "'w modules \<Rightarrow> 'w modules option" and m m'
  assume IH: "\<And>x y. f x = Some y \<Longrightarrow> \<not> stuck_modules x"
    and eq: "(case find_next_declared m of None \<Rightarrow> Some m
      | Some i \<Rightarrow> (case module_load (md_name (descriptor m i)) m of None \<Rightarrow> None | Some (ok, m1) \<Rightarrow> f m1)) = Some m'"
  show "\<not> stuck_modules m"
  proof
    assume "stuck_modules m"
    then obtain i ok where "find_next_declared m = Some i" "module_load (md_name (descriptor m i)) m = Some (ok, m)"
      by (auto simp: stuck_modules_def)
    then have "f m = Some m'" using eq by simp
    then show False using IH \<open>stuck_modules m\<close> by blast
  qed
qed

text \<open>
  With two modules of the same name the loop never ends: the second is declared, but loading its name finds the
  first, which is loaded already.
\<close>

lemma duplicate_names_hang:
  "module_load_all (copy_registered_modules [ex_module ''ipc'' 1 [], ex_module ''ipc'' 2 []] ex_modules) = None"
proof -
  let ?m = "copy_registered_modules [ex_module ''ipc'' 1 [], ex_module ''ipc'' 2 []] ex_modules"
  have f: "find_next_declared ?m = Some 0" by code_simp
  obtain ok m1 where l: "module_load (md_name (descriptor ?m 0)) ?m = Some (ok, m1)" "find_next_declared m1 = Some 1"
      "find_runtime (md_name (descriptor m1 1)) m1 = Some 0" "module_state m1 0 = NEXUS_MODULE_STATE_LOADED"
  proof -
    have "map_option (\<lambda>(ok, m1). (find_next_declared m1, find_runtime (md_name (descriptor m1 1)) m1, module_state m1 0))
        (module_load (md_name (descriptor ?m 0)) ?m) = Some (Some 1, Some 0, NEXUS_MODULE_STATE_LOADED)" by code_simp
    then show ?thesis using that by auto
  qed
  then have st: "stuck_modules m1" unfolding stuck_modules_def module_load_def by auto
  have "load_all_loop ?m = load_all_loop m1" using f l(1) by (subst load_all_loop.simps) simp
  moreover have "load_all_loop m1 = None" using load_all_loop_stuck st by (cases "load_all_loop m1") auto
  ultimately show ?thesis by (simp add: module_load_all_def)
qed

end
