(* ===== verification/Fat32_Facts.thy ===== *)
theory Fat32_Facts
  imports Fat32
begin

text \<open>
  Reading files of a FAT32 volume: what a mounted volume guarantees about its geometry, and that a file is the
  content of its chain of clusters.  The end has a drive that serves the commands of the driver, on which the
  theorems are applied.
\<close>

unbundle bit_operations_syntax

section \<open>Clusters\<close>

lemma read_sectors_length:
  "ahci_read_sectors lba count a = Some bs \<Longrightarrow> length bs = unat count * 512"
  by (auto simp: ahci_read_sectors_def Let_def split: if_splits)

definition geometry :: "'d fat \<Rightarrow> bool" where
  "geometry f \<longleftrightarrow> f_mounted f \<and> f_bytes_per_sector f = 512 \<and> 0 < f_sectors_per_cluster f \<and> f_sectors_per_cluster f \<le> 128"

lemma mount_geometry:
  assumes "fat32_mount lba f0 = (True, f)"
  shows "geometry f"
proof -
  have g: "0 < (ucast x :: u32) \<and> (ucast x :: u32) \<le> 128" if "x \<noteq> 0" "\<not> unat x > 128" for x :: u8
  proof -
    have u: "unat (ucast x :: u32) = unat x" by (simp add: unsigned_ucast_eq take_bit_nat_eq_self less_trans [OF unsigned_less])
    have "unat x \<noteq> 0" using that(1) by (simp add: unat_eq_0)
    then show ?thesis using that(2) u by (simp add: word_less_nat_alt word_le_nat_alt)
  qed
  show ?thesis using assms unfolding fat32_mount_def geometry_def Let_def
    by (auto split: option.splits if_splits simp: g)
qed

lemma unat_cluster_bytes:
  assumes "geometry f"
  shows "unat (cluster_bytes f) = unat (f_sectors_per_cluster f) * 512" "0 < cluster_bytes f" "unat (cluster_bytes f) \<le> 65536"
proof -
  have s: "unat (f_sectors_per_cluster f) \<le> 128" "0 < unat (f_sectors_per_cluster f)" "f_bytes_per_sector f = 512"
    using assms by (simp_all add: geometry_def word_le_nat_alt word_less_nat_alt)
  then show u: "unat (cluster_bytes f) = unat (f_sectors_per_cluster f) * 512"
    by (simp add: cluster_bytes_def unat_word_ariths)
  then show "0 < cluster_bytes f" "unat (cluster_bytes f) \<le> 65536" using s by (simp_all add: word_less_nat_alt)
qed

lemma read_cluster_length: "geometry f \<Longrightarrow> read_cluster c f = Some bs \<Longrightarrow> length bs = unat (cluster_bytes f)"
  using read_sectors_length by (simp add: read_cluster_def unat_cluster_bytes)

section \<open>Chains\<close>

text \<open>The clusters of a chain, up to the mark of its end.\<close>

primrec chain :: "'d fat \<Rightarrow> u32 \<Rightarrow> u32 list \<Rightarrow> bool" where
  "chain f c [] \<longleftrightarrow> is_end_of_chain c \<or> c < 2"
| "chain f c (d # ds) \<longleftrightarrow> d = c \<and> \<not> is_end_of_chain c \<and> 2 \<le> c \<and> chain f (get_next_cluster c f) ds"

definition chain_data :: "'d fat \<Rightarrow> u32 list \<Rightarrow> u8 list" where
  "chain_data f cs = concat (map (\<lambda>c. the (read_cluster c f)) cs)"

lemma read_chain_chunk:
  fixes remaining written buf_size :: u32
  assumes "0 < cb" "written < buf_size" "remaining \<noteq> 0" "unat written + unat remaining < 4294967296"
    and "chunk1 = (if cb > remaining then remaining else cb)"
    and "chunk = (if written + chunk1 > buf_size then buf_size - written else chunk1)"
  shows "unat chunk = min (min (unat remaining) (unat buf_size - unat written)) (unat cb)" "0 < unat chunk"
    "unat (remaining - chunk) = unat remaining - unat chunk" "unat (written + chunk) = unat written + unat chunk"
proof -
  have c1: "unat chunk1 = min (unat remaining) (unat cb)" using assms(5) by (simp add: word_less_nat_alt)
  then have "unat written + unat chunk1 < 4294967296" using assms(4) by simp
  then have w1: "unat (written + chunk1) = unat written + unat chunk1" by (simp add: unat_word_ariths)
  have bw: "unat (buf_size - written) = unat buf_size - unat written" using assms(2) by (simp add: unat_sub_if_size word_less_nat_alt)
  show c: "unat chunk = min (min (unat remaining) (unat buf_size - unat written)) (unat cb)"
    unfolding assms(6) using c1 w1 bw by (auto simp: word_less_nat_alt)
  have "0 < unat remaining" "0 < unat cb" using assms(1,3) by (simp_all add: unat_gt_0 word_gt_0)
  then show "0 < unat chunk" using c assms(2) by (simp add: word_less_nat_alt)
  show "unat (remaining - chunk) = unat remaining - unat chunk" using c by (simp add: unat_sub_if_size)
  show "unat (written + chunk) = unat written + unat chunk" using c assms(4) by (simp add: unat_word_ariths)
qed

lemma take_split_chunk: "take m (xs @ ys) = take (min m (length xs)) xs @ take (m - min m (length xs)) ys"
  by (simp add: min_def)

lemma read_chain_step:
  assumes "geometry f" "unat written + unat remaining < 4294967296" "\<not> (is_end_of_chain c \<or> c < 2)"
    and "\<not> (remaining = 0 \<or> written \<ge> buf_size)" "read_cluster c f = Some d"
  shows "\<exists>chunk. read_chain c remaining written buf_size dst f =
      read_chain (get_next_cluster c f) (remaining - chunk) (written + chunk) buf_size (dst @ take (unat chunk) d) f \<and>
    unat chunk = min (min (unat remaining) (unat buf_size - unat written)) (length d) \<and> 0 < unat chunk \<and>
    unat (remaining - chunk) = unat remaining - unat chunk \<and> unat (written + chunk) = unat written + unat chunk"
proof -
  define chunk1 where "chunk1 = (if cluster_bytes f > remaining then remaining else cluster_bytes f)"
  define chunk where "chunk = (if written + chunk1 > buf_size then buf_size - written else chunk1)"
  have "written < buf_size" "remaining \<noteq> 0" using assms(4) by auto
  note C = read_chain_chunk [OF unat_cluster_bytes(2) [OF assms(1)] this assms(2) chunk1_def chunk_def]
  have "read_chain c remaining written buf_size dst f =
      read_chain (get_next_cluster c f) (remaining - chunk) (written + chunk) buf_size (dst @ take (unat chunk) d) f"
    using assms(3-5) by (subst read_chain.simps) (simp add: Let_def flip: chunk1_def chunk_def)
  then show ?thesis using C read_cluster_length [OF assms(1,5)] by (intro exI [of _ chunk]) simp
qed

lemma read_chain_spec:
  assumes "geometry f" "unat written + unat remaining < 4294967296"
  shows "\<exists>bs. read_chain c remaining written buf_size dst f = Some (dst @ bs) \<and>
    length bs \<le> min (unat remaining) (unat buf_size - unat written) \<and>
    (\<forall>cs. chain f c cs \<and> (\<forall>d \<in> set cs. read_cluster d f \<noteq> None) \<longrightarrow>
       bs = take (min (unat remaining) (unat buf_size - unat written)) (chain_data f cs))"
  using assms(2)
proof (induction "unat remaining" arbitrary: remaining written c dst rule: less_induct)
  case less
  let ?n = "min (unat remaining) (unat buf_size - unat written)"
  consider (stop) "is_end_of_chain c \<or> c < 2" | (full) "\<not> (is_end_of_chain c \<or> c < 2)" "remaining = 0 \<or> written \<ge> buf_size"
    | (broken) "\<not> (is_end_of_chain c \<or> c < 2)" "\<not> (remaining = 0 \<or> written \<ge> buf_size)" "read_cluster c f = None"
    | (more) d where "\<not> (is_end_of_chain c \<or> c < 2)" "\<not> (remaining = 0 \<or> written \<ge> buf_size)" "read_cluster c f = Some d"
    by blast
  then show ?case
  proof cases
    case stop
    then have "chain_data f cs = []" if "chain f c cs" for cs using that by (cases cs) (auto simp: chain_data_def)
    moreover have "read_chain c remaining written buf_size dst f = Some (dst @ [])" using stop by (subst read_chain.simps) auto
    ultimately show ?thesis by fastforce
  next
    case full
    then have "?n = 0" by (auto simp: word_le_nat_alt)
    then show ?thesis using full by (subst read_chain.simps) auto
  next
    case broken
    have no: "\<not> (chain f c cs \<and> (\<forall>d \<in> set cs. read_cluster d f \<noteq> None))" for cs using broken by (cases cs) auto
    have r: "read_chain c remaining written buf_size dst f = Some (dst @ [])" using broken by (subst read_chain.simps) auto
    show ?thesis using no by (intro exI [of _ "[]"] conjI) (rule r, simp, blast)
  next
    case more
    obtain chunk where st: "read_chain c remaining written buf_size dst f =
          read_chain (get_next_cluster c f) (remaining - chunk) (written + chunk) buf_size (dst @ take (unat chunk) d) f"
        and k: "unat chunk = min ?n (length d)" and C: "0 < unat chunk" "unat (remaining - chunk) = unat remaining - unat chunk"
          "unat (written + chunk) = unat written + unat chunk"
      using read_chain_step [OF assms(1) less.prems more] by blast
    let ?r = "remaining - chunk" and ?w = "written + chunk"
    have "unat chunk \<le> unat remaining" using k by simp
    then have "unat ?r < unat remaining" "unat ?w + unat ?r < 4294967296" using C less.prems by linarith+
    then obtain bs where bs: "read_chain (get_next_cluster c f) ?r ?w buf_size (dst @ take (unat chunk) d) f = Some ((dst @ take (unat chunk) d) @ bs)"
        "length bs \<le> min (unat ?r) (unat buf_size - unat ?w)"
        "\<forall>cs. chain f (get_next_cluster c f) cs \<and> (\<forall>d \<in> set cs. read_cluster d f \<noteq> None) \<longrightarrow>
           bs = take (min (unat ?r) (unat buf_size - unat ?w)) (chain_data f cs)"
      using less.hyps [of ?r ?w "get_next_cluster c f" "dst @ take (unat chunk) d"] by blast
    have m: "min (unat ?r) (unat buf_size - unat ?w) = ?n - unat chunk" unfolding C(2,3) by (simp add: min_def)
    have "read_chain c remaining written buf_size dst f = Some (dst @ take (unat chunk) d @ bs)"
      using st bs(1) by simp
    moreover have "length (take (unat chunk) d @ bs) \<le> ?n"
    proof -
      have "length (take (unat chunk) d) = unat chunk" using k by simp
      moreover have "unat chunk \<le> ?n" unfolding k by (rule min.cobounded1)
      ultimately show ?thesis using bs(2) m unfolding length_append by linarith
    qed
    moreover have "take (unat chunk) d @ bs = take ?n (chain_data f cs)"
      if ch: "chain f c cs" "\<forall>d \<in> set cs. read_cluster d f \<noteq> None" for cs
    proof -
      obtain ds where ds: "cs = c # ds" "chain f (get_next_cluster c f) ds" using ch(1) more(1) by (cases cs) auto
      then have "bs = take (?n - unat chunk) (chain_data f ds)" using bs(3) ch(2) m by simp
      then show ?thesis using take_split_chunk [of ?n d "chain_data f ds"] ds(1) more(3) k by (simp add: chain_data_def)
    qed
    ultimately show ?thesis by blast
  qed
qed

text \<open>
  C9. Reading a file of a mounted volume is correct and always returns.  Once the path is resolved to a file,
  \<open>fat32_read_file\<close> returns, also if the chain of the file on the disk is cyclic or broken, and never stores more
  bytes than the size of the file or of the buffer.  If the chain ends and its clusters can be read, the result is
  the content of the clusters in the order of the chain, cut to these sizes.
\<close>

theorem fat32_read_file_exact:
  assumes "fat32_mount lba f0 = (True, f)" "resolve_path path f = Some (Some e)" "de_attr e AND ATTR_DIRECTORY = 0"
  shows "\<exists>bs. fat32_read_file path buf_size f = Some (Some bs) \<and> length bs \<le> min (unat (de_file_size e)) (unat buf_size) \<and>
    (\<forall>cs. chain f (dirent_cluster e) cs \<and> (\<forall>c \<in> set cs. read_cluster c f \<noteq> None) \<longrightarrow>
       bs = take (min (unat (de_file_size e)) (unat buf_size)) (chain_data f cs))"
proof -
  have g: "geometry f" using mount_geometry [OF assms(1)] .
  have "unat (0 :: u32) + unat (de_file_size e) < 4294967296" using unsigned_less [of "de_file_size e"] by simp
  from read_chain_spec [OF g this, of "dirent_cluster e" buf_size "[]"] show ?thesis
    using g assms(2,3) by (auto simp: fat32_read_file_def geometry_def)
qed

section \<open>A drive\<close>

text \<open>
  The sector address of a command, from the bytes of its frame, and a drive that answers each command at once with the
  sectors it asks for.
\<close>

definition fis_lba :: "u8 list \<Rightarrow> u64" where
  "fis_lba fis = ucast (fis ! 4) OR push_bit 8 (ucast (fis ! 5)) OR push_bit 16 (ucast (fis ! 6)) OR push_bit 24 (ucast (fis ! 8)) OR
     push_bit 32 (ucast (fis ! 9)) OR push_bit 40 (ucast (fis ! 10))"

lemma byte_u64: "(ucast (ucast (x AND 0xFF) :: u8) :: u64) = take_bit 8 (x :: u64)"
proof -
  have m: "(0xFF :: u64) = mask 8" by (simp add: mask_eq_exp_minus_1)
  show ?thesis unfolding m by (rule bit_word_eqI) (auto simp: bit_simps)
qed

lemma take_bit_join: "take_bit k x OR push_bit k (take_bit m (drop_bit k x)) = take_bit (k + m) (x :: u64)"
proof (rule bit_word_eqI)
  fix n assume "n < LENGTH(64)"
  then show "bit (take_bit k x OR push_bit k (take_bit m (drop_bit k x))) n = bit (take_bit (k + m) x) n"
    by (cases "n < k") (auto simp: bit_simps)
qed

text \<open>The frame holds the 48 bits of the sector address.\<close>

lemma fis_lba_build: "fis_lba (build_fis opcode lba count) = take_bit 48 lba"
proof -
  have "fis_lba (build_fis opcode lba count) = take_bit 8 lba OR push_bit 8 (take_bit 8 (drop_bit 8 lba)) OR push_bit 16 (take_bit 8 (drop_bit 16 lba)) OR
      push_bit 24 (take_bit 8 (drop_bit 24 lba)) OR push_bit 32 (take_bit 8 (drop_bit 32 lba)) OR push_bit 40 (take_bit 8 (drop_bit 40 lba))"
    unfolding fis_lba_def build_fis_def
    by (simp only: nth_Cons_numeral numeral_nat nth_Cons_Suc nth_Cons_0 byte_u64)
  then show ?thesis using take_bit_join [of 8 lba 8] take_bit_join [of 16 lba 8] take_bit_join [of 24 lba 8] take_bit_join [of 32 lba 8] take_bit_join [of 40 lba 8]
    by (simp only: arith_simps flip: or.assoc)
qed

definition ideal_hba :: "(u64 \<Rightarrow> nat \<Rightarrow> u8) hba" where
  "ideal_hba = \<lparr>hba_tfd = (\<lambda>_ _. 0), hba_is = (\<lambda>_ _ _. 0), hba_ci = (\<lambda>_ _ _. 0), hba_status = (\<lambda>_ _. 0),
     hba_data = (\<lambda>c d i. d (fis_lba (cmd_fis c) + of_nat (i div 512)) (i mod 512)),
     hba_store = (\<lambda>c bs d a i. if a = fis_lba (cmd_fis c) \<and> i < length bs then bs ! i else d a i)\<rparr>"

lemma ideal_read:
  assumes "0 < count" "count \<le> 128" "take_bit 48 lba = lba"
  shows "ahci_read_sectors lba count \<lparr>a_hba = ideal_hba, a_drive = d, a_ready = True\<rparr> =
    Some (map (\<lambda>i. d (lba + of_nat (i div 512)) (i mod 512)) [0..<unat count * 512])"
proof -
  have w: "wait_while (\<lambda>_. 0) m 0" for m by (subst wait_while.simps) (simp add: SPIN_LIMIT_def)
  have p: "poll_completion (\<lambda>_. 0) (\<lambda>_. 0) 0" by (subst poll_completion.simps) (simp add: SPIN_LIMIT_def)
  show ?thesis using assms w p by (auto simp: ahci_read_sectors_def run_command_def ideal_hba_def build_command_def fis_lba_build Let_def)
qed

text \<open>
  A volume of eight sectors: the boot record, one table, the root directory with the file \<open>A\<close> of 600 bytes, and its
  two clusters.
\<close>

definition ex_disk :: "u64 \<Rightarrow> nat \<Rightarrow> u8" where
  "ex_disk a i =
     (if a = 0 then (if i = 12 then 2 else if i \<in> {13, 14, 16, 36} then 1 else if i = 32 then 8 else if i = 44 then 2
                     else if i = 510 then 0x55 else if i = 511 then 0xAA else 0)
      else if a = 1 then (if i = 12 then 4 else if i \<in> {8, 9, 10, 11, 16, 17, 18, 19} then 0xFF else 0)
      else if a = 2 then (if i = 0 then 0x41 else if i < 11 then 0x20 else if i = 11 then 0x20 else if i = 26 then 3
                          else if i = 28 then 0x58 else if i = 29 then 2 else 0)
      else if a = 3 then 7 else if a = 4 then 9 else 0)"

definition ex_unmounted :: "(u64 \<Rightarrow> nat \<Rightarrow> u8) fat" where
  "ex_unmounted = \<lparr>f_ahci = \<lparr>a_hba = ideal_hba, a_drive = ex_disk, a_ready = True\<rparr>, f_partition_lba = 0, f_bytes_per_sector = 0,
     f_sectors_per_cluster = 0, f_root_cluster = 0, f_max_cluster = 0, f_fat_count = 0, f_fat_size_sectors = 0, f_fat_start_lba = 0,
     f_cluster_heap_start_lba = 0, f_mounted = False\<rparr>"

definition ex_volume :: "(u64 \<Rightarrow> nat \<Rightarrow> u8) fat" where
  "ex_volume = ex_unmounted\<lparr>f_bytes_per_sector := 512, f_sectors_per_cluster := 1, f_root_cluster := 2, f_max_cluster := 7,
     f_fat_count := 1, f_fat_size_sectors := 1, f_fat_start_lba := 1, f_cluster_heap_start_lba := 2, f_mounted := True\<rparr>"

lemma ex_read:
  "take_bit 48 lba = lba \<Longrightarrow> ahci_read_sectors lba 1 (f_ahci ex_unmounted) = Some (map (ex_disk lba) [0..<512])"
  using ideal_read [of 1 lba ex_disk] by (simp add: ex_unmounted_def)

lemma ex_mount: "fat32_mount 0 ex_unmounted = (True, ex_volume)"
  by (simp add: fat32_mount_def ex_read Let_def le16_def le32_def ex_disk_def ex_volume_def) (simp add: ex_unmounted_def)

lemma ex_fields [simp]:
  "f_ahci ex_volume = f_ahci ex_unmounted" "f_bytes_per_sector ex_volume = 512" "f_sectors_per_cluster ex_volume = 1"
  "f_root_cluster ex_volume = 2" "f_fat_start_lba ex_volume = 1" "f_cluster_heap_start_lba ex_volume = 2"
  by (simp_all add: ex_volume_def)

lemma ex_cluster:
  "read_cluster 2 ex_volume = Some (map (ex_disk 2) [0..<512])" "read_cluster 3 ex_volume = Some (replicate 512 7)"
  "read_cluster 4 ex_volume = Some (replicate 512 9)"
proof -
  have "ex_disk 3 = (\<lambda>_. 7)" "ex_disk 4 = (\<lambda>_. 9)" by (simp_all add: ex_disk_def fun_eq_iff)
  then show "read_cluster 2 ex_volume = Some (map (ex_disk 2) [0..<512])" "read_cluster 3 ex_volume = Some (replicate 512 7)"
    "read_cluster 4 ex_volume = Some (replicate 512 9)"
    by (simp_all add: read_cluster_def cluster_to_lba_def ex_read map_replicate_const)
qed

lemma ex_next: "get_next_cluster 3 ex_volume = 4" "get_next_cluster 4 ex_volume = 0x0FFFFFFF"
  by (simp_all add: get_next_cluster_def ex_read le32_def ex_disk_def)

definition ex_file :: fat32_dirent where
  "ex_file = zero_dirent\<lparr>de_name := [0x41, 0x20, 0x20, 0x20, 0x20, 0x20, 0x20, 0x20, 0x20, 0x20, 0x20], de_attr := 0x20,
     de_cluster_lo := 3, de_file_size := 600\<rparr>"

lemma ex_entry: "entry_at (map (ex_disk 2) [0..<512]) 0 = ex_file"
  by (simp add: entry_at_def Let_def take_map le16_def le32_def ex_disk_def ex_file_def zero_dirent_def upt_rec)

lemma ex_find: "find_entry 2 (to_short_name ''A'') ex_volume = Some (Some ex_file)"
proof -
  have n: "memcmp_local (de_name ex_file) (to_short_name ''A'') 11 = 0" "\<not> skipped ex_file" "de_name ex_file ! 0 \<noteq> 0" by code_simp+
  have "[0..<entries_per_cluster ex_volume] = 0 # [1..<16]" by (simp add: entries_per_cluster_def cluster_bytes_def upt_conv_Cons)
  then have "scan_entries (map (ex_disk 2) [0..<512]) (to_short_name ''A'') [0..<entries_per_cluster ex_volume] = Scan_hit 0 ex_file"
    using n by (simp add: ex_entry)
  then show ?thesis by (subst find_entry.simps) (simp add: is_end_of_chain_def ex_cluster)
qed

lemma ex_resolve: "resolve_path ''/A'' ex_volume = Some (Some ex_file)"
  using ex_find by (simp add: resolve_path_def resolve_from.simps next_component_def)

theorem fat32_read_file_exact_witness:
  "fat32_read_file ''/A'' 1000 ex_volume = Some (Some (replicate 512 7 @ replicate 88 9))"
proof -
  have c: "dirent_cluster ex_file = 3" "de_attr ex_file AND ATTR_DIRECTORY = 0" "de_file_size ex_file = 600"
    by (simp_all add: ex_file_def zero_dirent_def dirent_cluster_def)
  have "chain ex_volume (dirent_cluster ex_file) [3, 4]" by (simp add: c ex_next is_end_of_chain_def)
  moreover have "\<forall>c \<in> set [3, 4]. read_cluster c ex_volume \<noteq> None" by (simp add: ex_cluster)
  moreover have t: "take 600 (chain_data ex_volume [3, 4]) = replicate 512 7 @ replicate 88 9" by (simp add: chain_data_def ex_cluster)
  ultimately obtain bs where "fat32_read_file ''/A'' 1000 ex_volume = Some (Some bs)"
      "bs = take (min (unat (de_file_size ex_file)) (unat (1000 :: u32))) (chain_data ex_volume [3, 4])"
    using fat32_read_file_exact [OF ex_mount ex_resolve c(2), of 1000] by blast
  then show ?thesis using t c(3) by simp
qed

end
